(* ===== verification/Prelude.thy ===== *)
theory Prelude
  imports Complex_Main "HOL-Library.Word"
begin

section \<open>Shared types, JavaScript values and arithmetic\<close>

text \<open>
  What the component theories share: times as integers (milliseconds since the epoch, as
  \<open>Date.now()\<close> gives them), the rounding of a delay to whole seconds, JavaScript
  values as the validators of wire messages see them, the string functions of the standard
  library, and effects as actions on an explicit state that may throw.

  A string is a list of characters; \<open>string\<close> has the code units 0 to 255. A column
  that the code only ever writes with \<open>toISOString\<close> is represented by its
  milliseconds: for the years 0 to 9999 the text order of SQL is the order of the numbers.
\<close>

type_synonym ms = int
type_synonym secs = int

named_theorems handler_defs "the definitions a handler is unfolded with"
named_theorems wf_defs "the well-formedness predicates of rows and states"

subsection \<open>Rounding\<close>

text \<open>\<open>Math.ceil(a / b)\<close> for a positive divisor.\<close>

definition ceilDiv :: "int \<Rightarrow> int \<Rightarrow> int" where
  "ceilDiv a b = - ((- a) div b)"

lemma ceilDiv_upper: "0 < b \<Longrightarrow> a \<le> b * ceilDiv a b"
proof -
  assume b: "0 < b"
  have "b * ((- a) div b) = - a - (- a) mod b"
    by (simp add: minus_mod_eq_mult_div [symmetric])
  moreover have "0 \<le> (- a) mod b" using b by simp
  ultimately show ?thesis by (simp add: ceilDiv_def)
qed

lemma ceilDiv_lower: "0 < b \<Longrightarrow> b * ceilDiv a b < a + b"
proof -
  assume b: "0 < b"
  have "b * ((- a) div b) = - a - (- a) mod b"
    by (simp add: minus_mod_eq_mult_div [symmetric])
  moreover have "(- a) mod b < b" using b by simp
  ultimately show ?thesis by (simp add: ceilDiv_def)
qed

text \<open>
  \<open>Math.max(1, Math.ceil((until - now) / 1000))\<close>, the delay every component of the
  repository computes when it defers work to a later time.
\<close>

definition deferSecondsUntil :: "ms \<Rightarrow> ms \<Rightarrow> secs" where
  "deferSecondsUntil untilMs now = max 1 (ceilDiv (untilMs - now) 1000)"

lemma deferSecondsUntil_covers: "untilMs \<le> now + 1000 * deferSecondsUntil untilMs now"
  using ceilDiv_upper [of 1000 "untilMs - now"] by (simp add: deferSecondsUntil_def)

lemma deferSecondsUntil_tight:
  "now < untilMs \<Longrightarrow> now + 1000 * deferSecondsUntil untilMs now < untilMs + 1000"
  using ceilDiv_lower [of 1000 "untilMs - now"] by (simp add: deferSecondsUntil_def)

lemma deferSecondsUntil_pos: "1 \<le> deferSecondsUntil untilMs now"
  by (simp add: deferSecondsUntil_def)

subsection \<open>Windows of a list\<close>

text \<open>\<open>xs.slice(-n)\<close> for a positive \<open>n\<close>.\<close>

definition takeLast :: "nat \<Rightarrow> 'a list \<Rightarrow> 'a list" where
  "takeLast n xs = drop (length xs - n) xs"

lemma length_takeLast [simp]: "length (takeLast n xs) = min n (length xs)"
  by (simp add: takeLast_def)

lemma set_takeLast: "set (takeLast n xs) \<subseteq> set xs"
  by (simp add: takeLast_def set_drop_subset)

lemma takeLast_short [simp]: "length xs \<le> n \<Longrightarrow> takeLast n xs = xs"
  by (simp add: takeLast_def)

lemma takeLast_takeLast [simp]: "takeLast n (takeLast n xs) = takeLast n xs"
  by (simp add: takeLast_def)

lemma takeLast_map: "takeLast n (map f xs) = map f (takeLast n xs)"
  by (simp add: takeLast_def drop_map)

subsection \<open>Sets and chunks as lists\<close>

text \<open>\<open>[...new Set(xs)]\<close>: the first occurrence of every element.\<close>

definition dedupe :: "'a list \<Rightarrow> 'a list" where
  "dedupe xs = rev (remdups (rev xs))"

lemma set_dedupe [simp]: "set (dedupe xs) = set xs"
  by (simp add: dedupe_def)

lemma distinct_dedupe [simp]: "distinct (dedupe xs)"
  by (simp add: dedupe_def)

lemma dedupe_Nil_iff [simp]: "dedupe xs = [] \<longleftrightarrow> xs = []"
  by (simp add: dedupe_def)

text \<open>The chunks of a list, as the loops over offsets take them.\<close>

function chunksOf :: "nat \<Rightarrow> 'a list \<Rightarrow> 'a list list" where
  "chunksOf n xs = (if n = 0 \<or> xs = [] then [] else take n xs # chunksOf n (drop n xs))"
  by pat_completeness auto
termination by (relation "measure (\<lambda>(n, xs). length xs)") auto

declare chunksOf.simps [simp del]

lemma concat_chunksOf: "0 < n \<Longrightarrow> concat (chunksOf n xs) = xs"
  by (induction n xs rule: chunksOf.induct) (subst chunksOf.simps, simp)

lemma chunksOf_bound: "chunk \<in> set (chunksOf n xs) \<Longrightarrow> 0 < length chunk \<and> length chunk \<le> n"
proof (induction n xs rule: chunksOf.induct)
  case (1 n xs)
  show ?case
  proof (cases "n = 0 \<or> xs = []")
    case True
    then show ?thesis using 1(2) by (subst (asm) chunksOf.simps) auto
  next
    case False
    then have "chunk = take n xs \<or> chunk \<in> set (chunksOf n (drop n xs))"
      using 1(2) by (subst (asm) chunksOf.simps) auto
    then show ?thesis using 1(1) [OF False] False by auto
  qed
qed

subsection \<open>JavaScript values\<close>

text \<open>
  A value of type \<open>unknown\<close>: what \<open>JSON.parse\<close> returns, and
  \<open>undefined\<close> for a field that is absent. Numbers are rationals, with the three
  values of IEEE 754 that are not.
\<close>

datatype jsnum = NaN | PosInf | NegInf | Fin rat

datatype jsval =
    JUndefined
  | JNull
  | JBool bool
  | JNum jsnum
  | JStr string
  | JArr "jsval list"
  | JObj "(string \<times> jsval) list"

text \<open>Property access on a value already known to be an object.\<close>

fun field :: "jsval \<Rightarrow> string \<Rightarrow> jsval" where
  "field (JObj fs) k = (case map_of fs k of None \<Rightarrow> JUndefined | Some v \<Rightarrow> v)"
| "field _ k = JUndefined"

fun isStr :: "jsval \<Rightarrow> bool" where
  "isStr (JStr s) = True"
| "isStr _ = False"

fun isBoolVal :: "jsval \<Rightarrow> bool" where
  "isBoolVal (JBool b) = True"
| "isBoolVal _ = False"

fun isArr :: "jsval \<Rightarrow> bool" where
  "isArr (JArr xs) = True"
| "isArr _ = False"

fun strOf :: "jsval \<Rightarrow> string" where
  "strOf (JStr s) = s"
| "strOf _ = []"

fun isNumber :: "jsval \<Rightarrow> bool" where
  "isNumber (JNum n) = True"
| "isNumber _ = False"

fun isFiniteNum :: "jsval \<Rightarrow> bool" where
  "isFiniteNum (JNum (Fin q)) = True"
| "isFiniteNum _ = False"

text \<open>\<open>Number.isInteger\<close> and \<open>Number.isSafeInteger\<close>.\<close>

fun isInteger :: "jsval \<Rightarrow> bool" where
  "isInteger (JNum (Fin q)) = (snd (quotient_of q) = 1)"
| "isInteger _ = False"

fun intOf :: "jsval \<Rightarrow> int" where
  "intOf (JNum (Fin q)) = fst (quotient_of q)"
| "intOf _ = 0"

definition isSafeInteger :: "jsval \<Rightarrow> bool" where
  "isSafeInteger v = (isInteger v \<and> \<bar>intOf v\<bar> \<le> 2 ^ 53 - 1)"

text \<open>A number literal of the source.\<close>

abbreviation jint :: "int \<Rightarrow> jsval" where
  "jint n \<equiv> JNum (Fin (rat_of_int n))"

lemma isInteger_jint [simp]: "isInteger (jint n)" and intOf_jint [simp]: "intOf (jint n) = n"
  by simp_all

lemma isInteger_cases:
  assumes "isInteger v"
  obtains n where "v = jint n"
proof (cases v rule: isInteger.cases)
  case (1 q)
  then have "snd (quotient_of q) = 1" using assms by simp
  then have "q = rat_of_int (fst (quotient_of q))"
    by (metis div_by_1 of_int_1 prod.collapse quotient_of_div)
  with 1 that show ?thesis by blast
qed (use assms in simp_all)

text \<open>
  \<open>typeof v === "object" && v !== null\<close>, and the same without arrays (the
  \<open>isPlainObject\<close> and \<open>isRecord\<close> of the source).
\<close>

fun isObjectLike :: "jsval \<Rightarrow> bool" where
  "isObjectLike (JArr xs) = True"
| "isObjectLike (JObj fs) = True"
| "isObjectLike _ = False"

fun isPlainObject :: "jsval \<Rightarrow> bool" where
  "isPlainObject (JObj fs) = True"
| "isPlainObject _ = False"

text \<open>
  A text column holding JSON, represented by what \<open>JSON.parse\<close> reads from it:
  \<open>None\<close> when it throws.
\<close>

type_synonym json_text = "jsval option"

subsection \<open>Strings\<close>

definition startsWith :: "string \<Rightarrow> string \<Rightarrow> bool" where
  "startsWith s p = (take (length p) s = p)"

definition endsWith :: "string \<Rightarrow> string \<Rightarrow> bool" where
  "endsWith s p = (length p \<le> length s \<and> drop (length s - length p) s = p)"

definition isDigit :: "char \<Rightarrow> bool" where
  "isDigit c = (48 \<le> (of_char c :: nat) \<and> (of_char c :: nat) \<le> 57)"

definition digitVal :: "char \<Rightarrow> int" where
  "digitVal c = of_char c - 48"

text \<open>\<open>Number(s)\<close> on a string of decimal digits.\<close>

definition decimalVal :: "string \<Rightarrow> int" where
  "decimalVal s = foldl (\<lambda>n c. 10 * n + digitVal c) 0 s"

text \<open>\<open>toLowerCase\<close> over the code units 0 to 255.\<close>

definition lowerChar :: "char \<Rightarrow> char" where
  "lowerChar c =
     (let n = (of_char c :: nat)
      in if (65 \<le> n \<and> n \<le> 90) \<or> (192 \<le> n \<and> n \<le> 222 \<and> n \<noteq> 215) then char_of (n + 32) else c)"

definition toLowerCase :: "string \<Rightarrow> string" where
  "toLowerCase s = map lowerChar s"

text \<open>The white space \<open>trim\<close> removes, over the code units 0 to 255.\<close>

definition isSpace :: "char \<Rightarrow> bool" where
  "isSpace c = (let n = (of_char c :: nat) in (9 \<le> n \<and> n \<le> 13) \<or> n = 32 \<or> n = 160)"

definition trim :: "string \<Rightarrow> string" where
  "trim s = rev (dropWhile isSpace (rev (dropWhile isSpace s)))"

text \<open>\<open>s.split(c)\<close> for a one-character separator: never empty.\<close>

fun splitOn :: "char \<Rightarrow> string \<Rightarrow> string list" where
  "splitOn c [] = [[]]"
| "splitOn c (x # xs) =
     (if x = c then [] # splitOn c xs
      else (case splitOn c xs of [] \<Rightarrow> [[x]] | y # ys \<Rightarrow> (x # y) # ys))"

lemma splitOn_not_Nil [simp]: "splitOn c s \<noteq> []"
  by (induction s) (auto split: list.splits)

lemma splitOn_append: "c \<notin> set s \<Longrightarrow> splitOn c (s @ c # t) = s # splitOn c t"
  by (induction s) auto

lemma splitOn_none: "c \<notin> set s \<Longrightarrow> splitOn c s = [s]"
  by (induction s) auto

text \<open>A string that is present and not empty, as \<open>if (s)\<close> tests it.\<close>

definition truthy :: "string option \<Rightarrow> string option" where
  "truthy s = (case s of None \<Rightarrow> None | Some t \<Rightarrow> if t = [] then None else Some t)"

lemma truthy_SomeD: "truthy s = Some t \<Longrightarrow> s = Some t \<and> t \<noteq> []"
  by (auto simp: truthy_def split: option.splits if_splits)

subsection \<open>Effects\<close>

text \<open>
  A handler acts on an explicit state and may end by throwing: \<open>Inl\<close> carries the
  error and the state keeps what was done before it, as a database does.
\<close>

type_synonym ('w, 'a) act = "'w \<Rightarrow> (string + 'a) \<times> 'w"

definition ret :: "'a \<Rightarrow> ('w, 'a) act" where
  "ret a w = (Inr a, w)"

definition throw :: "string \<Rightarrow> ('w, 'a) act" where
  "throw e w = (Inl e, w)"

definition andThen :: "('w, 'a) act \<Rightarrow> ('a \<Rightarrow> ('w, 'b) act) \<Rightarrow> ('w, 'b) act" where
  "andThen m f w = (case m w of (Inl e, w') \<Rightarrow> (Inl e, w') | (Inr a, w') \<Rightarrow> f a w')"

definition effect :: "('w \<Rightarrow> 'w) \<Rightarrow> ('w, unit) act" where
  "effect f w = (Inr (), f w)"

text \<open>\<open>try { m } catch (e) { h e }\<close>\<close>

definition catching :: "('w, 'a) act \<Rightarrow> (string \<Rightarrow> ('w, 'a) act) \<Rightarrow> ('w, 'a) act" where
  "catching m h w = (case m w of (Inl e, w') \<Rightarrow> h e w' | (Inr a, w') \<Rightarrow> (Inr a, w'))"

definition stateOf :: "('w, 'a) act \<Rightarrow> 'w \<Rightarrow> 'w" where
  "stateOf m w = snd (m w)"

lemmas act_defs = ret_def throw_def andThen_def effect_def catching_def stateOf_def

end
