(* ===== verification/Tables.thy ===== *)
theory Tables
  imports Prelude
begin

section \<open>Relational tables\<close>

text \<open>
  A table is the list of its rows in insertion order. The statements the code issues
  through its query builder become list functions: \<open>selectBy\<close> (a lookup by primary
  key), \<open>updateWhere\<close> with its number of affected rows, \<open>insertOrIgnore\<close>
  (\<open>INSERT .. ON CONFLICT DO NOTHING\<close>) and \<open>deleteWhere\<close>. The lemmas say
  what a primary key gives: lookups see exactly the row that was written, and no statement
  of the code breaks the key.
\<close>

definition selectBy :: "('r \<Rightarrow> 'k) \<Rightarrow> 'k \<Rightarrow> 'r list \<Rightarrow> 'r option" where
  "selectBy key k rows = find (\<lambda>r. key r = k) rows"

definition updateWhere :: "('r \<Rightarrow> bool) \<Rightarrow> ('r \<Rightarrow> 'r) \<Rightarrow> 'r list \<Rightarrow> 'r list" where
  "updateWhere P f rows = map (\<lambda>r. if P r then f r else r) rows"

definition affectedRows :: "('r \<Rightarrow> bool) \<Rightarrow> 'r list \<Rightarrow> nat" where
  "affectedRows P rows = length (filter P rows)"

definition deleteWhere :: "('r \<Rightarrow> bool) \<Rightarrow> 'r list \<Rightarrow> 'r list" where
  "deleteWhere P rows = filter (\<lambda>r. \<not> P r) rows"

definition insertOrIgnore :: "('r \<Rightarrow> 'k) \<Rightarrow> 'r \<Rightarrow> 'r list \<Rightarrow> 'r list" where
  "insertOrIgnore key r rows = (if key r \<in> key ` set rows then rows else rows @ [r])"

definition insertManyIgnore :: "('r \<Rightarrow> 'k) \<Rightarrow> 'r list \<Rightarrow> 'r list \<Rightarrow> 'r list" where
  "insertManyIgnore key rs rows = fold (insertOrIgnore key) rs rows"

definition keysUnique :: "('r \<Rightarrow> 'k) \<Rightarrow> 'r list \<Rightarrow> bool" where
  "keysUnique key rows = distinct (map key rows)"

definition keySet :: "('r \<Rightarrow> 'k) \<Rightarrow> 'r list \<Rightarrow> 'k set" where
  "keySet key rows = key ` set rows"

lemma keySet_simps [simp]: "keySet key [] = {}" "keySet key (r # rows) = insert (key r) (keySet key rows)"
  by (simp_all add: keySet_def)

subsection \<open>Lookups\<close>

lemma selectBy_Nil [simp]: "selectBy key k [] = None"
  by (simp add: selectBy_def)

lemma selectBy_Cons [simp]:
  "selectBy key k (r # rows) = (if key r = k then Some r else selectBy key k rows)"
  by (simp add: selectBy_def)

lemma selectBy_SomeD: "selectBy key k rows = Some r \<Longrightarrow> r \<in> set rows \<and> key r = k"
  by (induction rows) (auto split: if_splits)

lemma selectBy_None_iff: "selectBy key k rows = None \<longleftrightarrow> k \<notin> keySet key rows"
  by (induction rows) (auto simp: keySet_def)

lemma selectBy_mem:
  "keysUnique key rows \<Longrightarrow> r \<in> set rows \<Longrightarrow> selectBy key (key r) rows = Some r"
  by (induction rows) (force simp: keysUnique_def)+

lemma selectBy_append:
  "selectBy key k (xs @ ys) = (case selectBy key k xs of None \<Rightarrow> selectBy key k ys | Some r \<Rightarrow> Some r)"
  by (induction xs) auto

subsection \<open>Updates\<close>

lemma updateWhere_Nil [simp]: "updateWhere P f [] = []"
  by (simp add: updateWhere_def)

lemma updateWhere_Cons [simp]:
  "updateWhere P f (r # rows) = (if P r then f r else r) # updateWhere P f rows"
  by (simp add: updateWhere_def)

lemma set_updateWhere: "set (updateWhere P f rows) = (\<lambda>r. if P r then f r else r) ` set rows"
  by (auto simp: updateWhere_def)

lemma length_updateWhere [simp]: "length (updateWhere P f rows) = length rows"
  by (simp add: updateWhere_def)

lemma updateWhere_id: "(\<And>r. r \<in> set rows \<Longrightarrow> \<not> P r) \<Longrightarrow> updateWhere P f rows = rows"
  by (induction rows) auto

lemma updateWhere_keys:
  "(\<And>r. P r \<Longrightarrow> key (f r) = key r) \<Longrightarrow> map key (updateWhere P f rows) = map key rows"
  by (induction rows) auto

lemma keySet_updateWhere:
  "(\<And>r. P r \<Longrightarrow> key (f r) = key r) \<Longrightarrow> keySet key (updateWhere P f rows) = keySet key rows"
  by (metis keySet_def set_map updateWhere_keys)

lemma keysUnique_updateWhere:
  "(\<And>r. P r \<Longrightarrow> key (f r) = key r) \<Longrightarrow>
   keysUnique key (updateWhere P f rows) \<longleftrightarrow> keysUnique key rows"
  by (simp add: keysUnique_def updateWhere_keys)

lemma selectBy_updateWhere:
  "(\<And>r. P r \<Longrightarrow> key (f r) = key r) \<Longrightarrow>
   selectBy key k (updateWhere P f rows)
     = map_option (\<lambda>r. if P r then f r else r) (selectBy key k rows)"
  by (induction rows) auto

lemma list_all_updateWhere:
  "list_all Q rows \<Longrightarrow> (\<And>r. r \<in> set rows \<Longrightarrow> Q r \<Longrightarrow> P r \<Longrightarrow> Q (f r)) \<Longrightarrow> list_all Q (updateWhere P f rows)"
  by (auto simp: list_all_iff set_updateWhere)

lemma affectedRows_eq_0: "affectedRows P rows = 0 \<longleftrightarrow> (\<forall>r \<in> set rows. \<not> P r)"
  by (auto simp: affectedRows_def filter_empty_conv)

text \<open>A condition that names one primary key affects at most one row.\<close>

lemma affectedRows_key:
  assumes "keysUnique key rows" and "\<And>r. P r \<Longrightarrow> key r = k"
  shows "affectedRows P rows = (case selectBy key k rows of None \<Rightarrow> 0 | Some r \<Rightarrow> if P r then 1 else 0)"
  using assms
proof (induction rows)
  case (Cons r rows)
  have later: "affectedRows P rows = 0" if "key r = k"
  proof -
    have "key r \<notin> key ` set rows" using Cons.prems(1) by (simp add: keysUnique_def)
    then show ?thesis unfolding affectedRows_eq_0 using Cons.prems(2) that by (metis imageI)
  qed
  show ?case
  proof (cases "key r = k")
    case True
    then show ?thesis using later by (simp add: affectedRows_def)
  next
    case False
    moreover have "keysUnique key rows" using Cons.prems(1) by (simp add: keysUnique_def)
    ultimately show ?thesis using Cons.IH Cons.prems(2) by (auto simp: affectedRows_def)
  qed
qed (simp add: affectedRows_def)

subsection \<open>Deletes\<close>

lemma set_deleteWhere [simp]: "set (deleteWhere P rows) = {r \<in> set rows. \<not> P r}"
  by (auto simp: deleteWhere_def)

lemma keysUnique_deleteWhere: "keysUnique key rows \<Longrightarrow> keysUnique key (deleteWhere P rows)"
  by (simp add: keysUnique_def deleteWhere_def distinct_map_filter)

lemma list_all_deleteWhere: "list_all Q rows \<Longrightarrow> list_all Q (deleteWhere P rows)"
  by (auto simp: list_all_iff)

subsection \<open>Inserts\<close>

lemma keysUnique_insertOrIgnore: "keysUnique key rows \<Longrightarrow> keysUnique key (insertOrIgnore key r rows)"
  by (auto simp: keysUnique_def insertOrIgnore_def)

lemma keySet_insertOrIgnore: "keySet key (insertOrIgnore key r rows) = insert (key r) (keySet key rows)"
  by (auto simp: keySet_def insertOrIgnore_def)

lemma selectBy_insertOrIgnore:
  "selectBy key k (insertOrIgnore key r rows) =
     (case selectBy key k rows of Some x \<Rightarrow> Some x | None \<Rightarrow> if k = key r then Some r else None)"
proof -
  have "key r \<in> key ` set rows \<Longrightarrow> selectBy key (key r) rows \<noteq> None"
    by (simp add: selectBy_None_iff keySet_def)
  then show ?thesis
    by (auto simp: insertOrIgnore_def selectBy_append split: option.splits)
qed

lemma list_all_insertOrIgnore: "list_all Q rows \<Longrightarrow> Q r \<Longrightarrow> list_all Q (insertOrIgnore key r rows)"
  by (auto simp: insertOrIgnore_def)

lemma insertManyIgnore_Nil [simp]: "insertManyIgnore key [] rows = rows"
  by (simp add: insertManyIgnore_def)

lemma insertManyIgnore_Cons [simp]:
  "insertManyIgnore key (r # rs) rows = insertManyIgnore key rs (insertOrIgnore key r rows)"
  by (simp add: insertManyIgnore_def)

lemma keysUnique_insertManyIgnore: "keysUnique key rows \<Longrightarrow> keysUnique key (insertManyIgnore key rs rows)"
  by (induction rs arbitrary: rows) (simp_all add: keysUnique_insertOrIgnore)

lemma keySet_insertManyIgnore: "keySet key (insertManyIgnore key rs rows) = keySet key rs \<union> keySet key rows"
  by (induction rs arbitrary: rows) (auto simp: keySet_insertOrIgnore)

lemma list_all_insertManyIgnore:
  "list_all Q rows \<Longrightarrow> list_all Q rs \<Longrightarrow> list_all Q (insertManyIgnore key rs rows)"
  by (induction rs arbitrary: rows) (simp_all add: list_all_insertOrIgnore)

text \<open>An insert that ignores conflicts never changes a row that is already there.\<close>

lemma selectBy_insertManyIgnore_old:
  "selectBy key k rows = Some r \<Longrightarrow> selectBy key k (insertManyIgnore key rs rows) = Some r"
  by (induction rs arbitrary: rows) (simp_all add: selectBy_insertOrIgnore)

lemmas keysUnique_intros =
  keysUnique_deleteWhere keysUnique_insertOrIgnore keysUnique_insertManyIgnore

end
