(* ===== verification/Circuit.thy ===== *)
theory Circuit
  imports Tables
begin

section \<open>The delivery circuit breaker\<close>

text \<open>
  Models \<open>src/backend/lib/delivery/circuit.ts\<close>: one row per endpoint, a window of
  the last 20 outcomes, five minutes open after five consecutive failures or a failure rate
  of 60 percent, three successful probes to close. The column \<open>recentOutcomesJson\<close>
  is represented by what \<open>JSON.parse\<close> reads from it, \<open>openUntil\<close> by its
  milliseconds, and \<open>Date.now()\<close> is the argument \<open>now\<close>.

  The lemmas give a well-formedness invariant of the rows, the state machine the breaker is
  meant to be (\<open>breaker\<close>) and the simulation by the table operations.
\<close>

subsection \<open>Rows and constants\<close>

datatype circuit_state = Closed | Open | HalfOpen

record circuit_row =
  c_endpoint :: string
  c_state :: circuit_state
  c_consecutiveFailures :: int
  c_recentOutcomesJson :: json_text
  c_openUntil :: "ms option"
  c_halfOpenProbeAttempts :: int
  c_halfOpenProbeSuccesses :: int

definition OPEN_DURATION_MS :: ms where "OPEN_DURATION_MS = 5 * 60 * 1000"
definition HALF_OPEN_PROBES :: int where "HALF_OPEN_PROBES = 3"
definition HALF_OPEN_DEFER_SECONDS :: secs where "HALF_OPEN_DEFER_SECONDS = 30"
definition RECENT_WINDOW_SIZE :: nat where "RECENT_WINDOW_SIZE = 20"
definition CONSECUTIVE_FAILURE_THRESHOLD :: int where "CONSECUTIVE_FAILURE_THRESHOLD = 5"
definition FAILURE_RATE_THRESHOLD :: rat where "FAILURE_RATE_THRESHOLD = 6 / 10"

lemmas circuit_consts =
  OPEN_DURATION_MS_def HALF_OPEN_PROBES_def HALF_OPEN_DEFER_SECONDS_def
  RECENT_WINDOW_SIZE_def CONSECUTIVE_FAILURE_THRESHOLD_def FAILURE_RATE_THRESHOLD_def

type_synonym circuit_table = "circuit_row list"

text \<open>A \<open>CircuitData\<close> value is a set of columns to write: a function on rows.\<close>

type_synonym circuit_data = "circuit_row \<Rightarrow> circuit_row"

definition INITIAL_CIRCUIT_DATA :: circuit_data where
  "INITIAL_CIRCUIT_DATA r = r\<lparr>c_state := Closed, c_consecutiveFailures := 0,
     c_recentOutcomesJson := Some (JArr []), c_openUntil := None,
     c_halfOpenProbeAttempts := 0, c_halfOpenProbeSuccesses := 0\<rparr>"

definition newCircuitRow :: "string \<Rightarrow> circuit_row" where
  "newCircuitRow ep = INITIAL_CIRCUIT_DATA
     \<lparr>c_endpoint = ep, c_state = Closed, c_consecutiveFailures = 0, c_recentOutcomesJson = None,
      c_openUntil = None, c_halfOpenProbeAttempts = 0, c_halfOpenProbeSuccesses = 0\<rparr>"

subsection \<open>Operations\<close>

definition parseRecentOutcomes :: "json_text \<Rightarrow> int list" where
  "parseRecentOutcomes json =
     (case json of
        None \<Rightarrow> []
      | Some parsed \<Rightarrow>
          (case parsed of
             JArr vs \<Rightarrow> takeLast RECENT_WINDOW_SIZE (map (\<lambda>v. if v = jint 1 then 1 else 0) vs)
           | _ \<Rightarrow> []))"

definition serializeRecentOutcomes :: "int list \<Rightarrow> json_text" where
  "serializeRecentOutcomes values = Some (JArr (map jint (takeLast RECENT_WINDOW_SIZE values)))"

definition updateCircuit :: "circuit_table \<Rightarrow> string \<Rightarrow> circuit_data \<Rightarrow> circuit_table" where
  "updateCircuit db endpoint data = updateWhere (\<lambda>r. c_endpoint r = endpoint) data db"

text \<open>
  The select, the conflict-ignoring insert and the second select each see the table as it is
  then: \<open>others\<close> is what concurrent deliveries did to it after the first select.
\<close>

definition getOrCreateCircuitVia ::
  "(circuit_table \<Rightarrow> circuit_table) \<Rightarrow> circuit_table \<Rightarrow> string \<Rightarrow> circuit_table \<times> circuit_row option" where
  "getOrCreateCircuitVia others db endpoint =
     (case selectBy c_endpoint endpoint db of
        Some existing \<Rightarrow> (db, Some existing)
      | None \<Rightarrow>
          (let db1 = others db
           in case selectBy c_endpoint endpoint db1 of
                None \<Rightarrow> (insertOrIgnore c_endpoint (newCircuitRow endpoint) db1, Some (newCircuitRow endpoint))
              | Some winner \<Rightarrow> (db1, selectBy c_endpoint endpoint db1)))"

definition getOrCreateCircuit :: "circuit_table \<Rightarrow> string \<Rightarrow> circuit_table \<times> circuit_row" where
  "getOrCreateCircuit db endpoint =
     (case getOrCreateCircuitVia (\<lambda>t. t) db endpoint of
        (db', Some r) \<Rightarrow> (db', r)
      | (db', None) \<Rightarrow> (db', newCircuitRow endpoint))"

definition loadCircuitWithOutcome ::
  "circuit_table \<Rightarrow> string \<Rightarrow> int \<Rightarrow> circuit_table \<times> circuit_row \<times> int list" where
  "loadCircuitWithOutcome db endpoint outcome =
     (let (db', circuit) = getOrCreateCircuit db endpoint
      in (db', circuit, parseRecentOutcomes (c_recentOutcomesJson circuit) @ [outcome]))"

definition buildOpenData :: "ms \<Rightarrow> int list \<Rightarrow> int \<Rightarrow> circuit_data" where
  "buildOpenData now recent consecutiveFailures r = r\<lparr>c_state := Open,
     c_consecutiveFailures := consecutiveFailures,
     c_recentOutcomesJson := serializeRecentOutcomes recent,
     c_openUntil := Some (now + OPEN_DURATION_MS),
     c_halfOpenProbeAttempts := 0, c_halfOpenProbeSuccesses := 0\<rparr>"

datatype circuit_verdict = Allow | Defer secs

definition checkCircuit :: "ms \<Rightarrow> circuit_table \<Rightarrow> string \<Rightarrow> circuit_verdict \<times> circuit_table" where
  "checkCircuit now db0 endpoint =
     (let (db, circuit) = getOrCreateCircuit db0 endpoint
      in if c_state circuit = Open then
           (case c_openUntil circuit of
              Some untilMs \<Rightarrow>
                if now < untilMs then (Defer (deferSecondsUntil untilMs now), db)
                else (Allow, updateCircuit db endpoint (\<lambda>r. r\<lparr>c_state := HalfOpen, c_openUntil := None,
                        c_halfOpenProbeAttempts := 0, c_halfOpenProbeSuccesses := 0\<rparr>))
            | None \<Rightarrow>
                (Allow, updateCircuit db endpoint (\<lambda>r. r\<lparr>c_state := HalfOpen, c_openUntil := None,
                        c_halfOpenProbeAttempts := 0, c_halfOpenProbeSuccesses := 0\<rparr>)))
         else if c_state circuit = HalfOpen \<and> HALF_OPEN_PROBES \<le> c_halfOpenProbeAttempts circuit
           then (Defer HALF_OPEN_DEFER_SECONDS, db)
         else (Allow, db))"

definition recordCircuitSuccess :: "circuit_table \<Rightarrow> string \<Rightarrow> circuit_table" where
  "recordCircuitSuccess db0 endpoint =
     (let (db, circuit, recent) = loadCircuitWithOutcome db0 endpoint 0;
          serialized = serializeRecentOutcomes recent
      in if c_state circuit = HalfOpen then
           (let nextAttempts = c_halfOpenProbeAttempts circuit + 1;
                nextSuccesses = c_halfOpenProbeSuccesses circuit + 1;
                allProbesSucceeded = (HALF_OPEN_PROBES \<le> nextAttempts \<and> HALF_OPEN_PROBES \<le> nextSuccesses)
            in updateCircuit db endpoint
                 (if allProbesSucceeded
                  then (\<lambda>r. (INITIAL_CIRCUIT_DATA r)\<lparr>c_recentOutcomesJson := serialized\<rparr>)
                  else (\<lambda>r. r\<lparr>c_consecutiveFailures := 0, c_recentOutcomesJson := serialized,
                              c_halfOpenProbeAttempts := nextAttempts,
                              c_halfOpenProbeSuccesses := nextSuccesses\<rparr>)))
         else updateCircuit db endpoint
                (\<lambda>r. r\<lparr>c_consecutiveFailures := 0, c_recentOutcomesJson := serialized\<rparr>))"

text \<open>The local \<open>shouldOpen\<close> of \<open>recordCircuitFailure\<close>.\<close>

definition circuitShouldOpen :: "int \<Rightarrow> int list \<Rightarrow> bool" where
  "circuitShouldOpen consecutiveFailures recent =
     (let window = takeLast RECENT_WINDOW_SIZE recent;
          failures = sum_list window;
          fullWindow = (length window = RECENT_WINDOW_SIZE)
      in CONSECUTIVE_FAILURE_THRESHOLD \<le> consecutiveFailures \<or>
         (fullWindow \<and> FAILURE_RATE_THRESHOLD \<le> of_int failures / of_nat RECENT_WINDOW_SIZE))"

definition recordCircuitFailure :: "ms \<Rightarrow> circuit_table \<Rightarrow> string \<Rightarrow> circuit_table" where
  "recordCircuitFailure now db0 endpoint =
     (let (db, circuit, recent) = loadCircuitWithOutcome db0 endpoint 1
      in if c_state circuit = HalfOpen
         then updateCircuit db endpoint (buildOpenData now recent CONSECUTIVE_FAILURE_THRESHOLD)
         else
           (let consecutiveFailures = c_consecutiveFailures circuit + 1
            in if circuitShouldOpen consecutiveFailures recent
               then updateCircuit db endpoint (buildOpenData now recent consecutiveFailures)
               else updateCircuit db endpoint
                      (\<lambda>r. r\<lparr>c_consecutiveFailures := consecutiveFailures,
                            c_recentOutcomesJson := serializeRecentOutcomes recent\<rparr>)))"

subsection \<open>One row at a time\<close>

text \<open>What the code reads as the circuit of an endpoint.\<close>

definition circuitOf :: "circuit_table \<Rightarrow> string \<Rightarrow> circuit_row" where
  "circuitOf db endpoint = snd (getOrCreateCircuit db endpoint)"

lemma c_endpoint_INITIAL [simp]: "c_endpoint (INITIAL_CIRCUIT_DATA r) = c_endpoint r"
  and c_endpoint_new [simp]: "c_endpoint (newCircuitRow ep) = ep"
  and c_endpoint_open [simp]: "c_endpoint (buildOpenData now recent n r) = c_endpoint r"
  by (simp_all add: INITIAL_CIRCUIT_DATA_def newCircuitRow_def buildOpenData_def)

lemma circuitOf_eq:
  "circuitOf db ep = (case selectBy c_endpoint ep db of Some r \<Rightarrow> r | None \<Rightarrow> newCircuitRow ep)"
  by (simp add: circuitOf_def getOrCreateCircuit_def getOrCreateCircuitVia_def split: option.splits)

lemma getOrCreateCircuit_eq:
  "getOrCreateCircuit db ep = (insertOrIgnore c_endpoint (newCircuitRow ep) db, circuitOf db ep)"
  by (auto simp: circuitOf_def getOrCreateCircuit_def getOrCreateCircuitVia_def selectBy_None_iff
      insertOrIgnore_def keySet_def dest: selectBy_SomeD split: option.splits)

lemma circuitOf_endpoint [simp]: "c_endpoint (circuitOf db ep) = ep"
  by (auto simp: circuitOf_eq dest: selectBy_SomeD split: option.splits)

lemma circuitOf_insert [simp]:
  "circuitOf (insertOrIgnore c_endpoint (newCircuitRow ep) db) ep' = circuitOf db ep'"
  by (auto simp: circuitOf_eq selectBy_insertOrIgnore split: option.splits)

lemma circuitOf_updateCircuit:
  assumes "\<And>r. c_endpoint (data r) = c_endpoint r"
  shows "circuitOf (updateCircuit db ep data) ep' =
     (if ep' = ep \<and> ep \<in> keySet c_endpoint db then data (circuitOf db ep) else circuitOf db ep')"
proof -
  have sel: "selectBy c_endpoint ep' (updateCircuit db ep data) =
      map_option (\<lambda>r. if c_endpoint r = ep then data r else r) (selectBy c_endpoint ep' db)"
    unfolding updateCircuit_def using assms by (rule selectBy_updateWhere)
  show ?thesis
  proof (cases "selectBy c_endpoint ep' db")
    case None
    then have "ep' \<notin> keySet c_endpoint db" by (simp add: selectBy_None_iff)
    then show ?thesis using sel None by (auto simp: circuitOf_eq)
  next
    case (Some r)
    then have "c_endpoint r = ep'" and "ep' \<in> keySet c_endpoint db"
      by (auto simp: keySet_def dest: selectBy_SomeD)
    then show ?thesis using sel Some by (auto simp: circuitOf_eq)
  qed
qed

lemma circuitOf_update:
  assumes "\<And>r. c_endpoint (data r) = c_endpoint r"
  shows "circuitOf (updateCircuit (insertOrIgnore c_endpoint (newCircuitRow ep) db) ep data) ep' =
     (if ep' = ep then data (circuitOf db ep) else circuitOf db ep')"
  using assms by (simp add: circuitOf_updateCircuit keySet_insertOrIgnore)

lemma keysUnique_updateCircuit [simp]:
  assumes "\<And>r. c_endpoint (data r) = c_endpoint r"
  shows "keysUnique c_endpoint (updateCircuit db ep data) = keysUnique c_endpoint db"
  using assms by (simp add: updateCircuit_def keysUnique_updateWhere)

subsection \<open>The breaker as a state machine\<close>

text \<open>
  The specification: \<open>Shut\<close> with the run of failures and the window of outcomes,
  \<open>Tripped\<close> until a time, \<open>Probing\<close> with the number of successful probes.
\<close>

datatype breaker = Shut int "int list" | Tripped ms int "int list" | Probing int "int list"

definition pushOutcome :: "int list \<Rightarrow> int \<Rightarrow> int list" where
  "pushOutcome w outcome = takeLast 20 (w @ [outcome])"

definition trips :: "int \<Rightarrow> int list \<Rightarrow> bool" where
  "trips k w = (5 \<le> k \<or> (length w = 20 \<and> 12 \<le> sum_list w))"

fun breakerFailure :: "ms \<Rightarrow> breaker \<Rightarrow> breaker" where
  "breakerFailure now (Shut k w) =
     (let w' = pushOutcome w 1
      in if trips (k + 1) w' then Tripped (now + 300000) (k + 1) w' else Shut (k + 1) w')"
| "breakerFailure now (Tripped u k w) =
     (let w' = pushOutcome w 1
      in if trips (k + 1) w' then Tripped (now + 300000) (k + 1) w' else Tripped u (k + 1) w')"
| "breakerFailure now (Probing n w) = Tripped (now + 300000) 5 (pushOutcome w 1)"

fun breakerSuccess :: "breaker \<Rightarrow> breaker" where
  "breakerSuccess (Shut k w) = Shut 0 (pushOutcome w 0)"
| "breakerSuccess (Tripped u k w) = Tripped u 0 (pushOutcome w 0)"
| "breakerSuccess (Probing n w) =
     (if n + 1 = 3 then Shut 0 (pushOutcome w 0) else Probing (n + 1) (pushOutcome w 0))"

fun breakerCheck :: "ms \<Rightarrow> breaker \<Rightarrow> circuit_verdict \<times> breaker" where
  "breakerCheck now (Tripped u k w) =
     (if now < u then (Defer (deferSecondsUntil u now), Tripped u k w) else (Allow, Probing 0 w))"
| "breakerCheck now b = (Allow, b)"

text \<open>The rows the code writes, and the breaker such a row stands for.\<close>

definition circuit_wf :: "circuit_row \<Rightarrow> bool" where
  "circuit_wf r \<longleftrightarrow>
     (let w = parseRecentOutcomes (c_recentOutcomesJson r)
      in c_recentOutcomesJson r = serializeRecentOutcomes w \<and> set w \<subseteq> {0, 1} \<and> length w \<le> 20) \<and>
     0 \<le> c_consecutiveFailures r \<and>
     c_halfOpenProbeSuccesses r = c_halfOpenProbeAttempts r \<and>
     (case c_state r of
        Closed \<Rightarrow> c_openUntil r = None \<and> c_consecutiveFailures r < 5 \<and> c_halfOpenProbeAttempts r = 0
      | Open \<Rightarrow> c_openUntil r \<noteq> None \<and> c_halfOpenProbeAttempts r = 0
      | HalfOpen \<Rightarrow> c_openUntil r = None \<and> 0 \<le> c_halfOpenProbeAttempts r \<and> c_halfOpenProbeAttempts r < 3)"

definition circuits_wf :: "circuit_table \<Rightarrow> bool" where
  "circuits_wf db \<longleftrightarrow> keysUnique c_endpoint db \<and> list_all circuit_wf db"

definition absCircuit :: "circuit_row \<Rightarrow> breaker" where
  "absCircuit r =
     (let w = parseRecentOutcomes (c_recentOutcomesJson r)
      in case c_state r of
           Closed \<Rightarrow> Shut (c_consecutiveFailures r) w
         | Open \<Rightarrow> Tripped (the (c_openUntil r)) (c_consecutiveFailures r) w
         | HalfOpen \<Rightarrow> Probing (c_halfOpenProbeAttempts r) w)"

subsection \<open>The window\<close>

lemma parse_serialize:
  "set ws \<subseteq> {0, 1} \<Longrightarrow> parseRecentOutcomes (serializeRecentOutcomes ws) = takeLast 20 ws"
  unfolding parseRecentOutcomes_def serializeRecentOutcomes_def RECENT_WINDOW_SIZE_def
  using set_takeLast [of 20 ws] by (auto simp: takeLast_map intro!: map_idI)

lemma serialize_takeLast: "serializeRecentOutcomes (takeLast 20 ws) = serializeRecentOutcomes ws"
  by (simp add: serializeRecentOutcomes_def RECENT_WINDOW_SIZE_def)

lemma set_parse: "set (parseRecentOutcomes j) \<subseteq> {0, 1}"
proof -
  have "set (takeLast RECENT_WINDOW_SIZE (map (\<lambda>v. if v = jint 1 then 1 else 0) vs)) \<subseteq> {0, 1 :: int}" for vs
    using set_takeLast by fastforce
  then show ?thesis by (auto simp: parseRecentOutcomes_def split: option.splits jsval.splits)
qed

lemma length_parse: "length (parseRecentOutcomes j) \<le> 20"
  by (auto simp: parseRecentOutcomes_def RECENT_WINDOW_SIZE_def split: option.splits jsval.splits)

lemma recent_parse_serialize:
  assumes "outcome \<in> {0, 1}"
  shows "parseRecentOutcomes (serializeRecentOutcomes (parseRecentOutcomes j @ [outcome]))
     = pushOutcome (parseRecentOutcomes j) outcome"
  using assms set_parse [of j] by (simp add: parse_serialize pushOutcome_def)

lemma set_pushOutcome: "set (pushOutcome (parseRecentOutcomes j) outcome) \<subseteq> insert outcome {0, 1}"
  using set_takeLast [of 20 "parseRecentOutcomes j @ [outcome]"] set_parse [of j]
  by (auto simp: pushOutcome_def)

lemma length_pushOutcome: "length (pushOutcome w outcome) \<le> 20"
  by (simp add: pushOutcome_def)

lemma serialize_push:
  "serializeRecentOutcomes (pushOutcome w outcome) = serializeRecentOutcomes (w @ [outcome])"
  by (simp add: pushOutcome_def serialize_takeLast)

lemmas window_facts = recent_parse_serialize set_pushOutcome length_pushOutcome serialize_push

text \<open>The code's opening condition is the specification's.\<close>

lemma circuitShouldOpen_trips: "circuitShouldOpen k (w @ [1]) = trips k (pushOutcome w 1)"
proof -
  have "(6 / 10 :: rat) \<le> of_int x / of_nat 20 \<longleftrightarrow> 12 \<le> x" for x :: int
  proof -
    have "(6 / 10 :: rat) \<le> of_int x / of_nat 20 \<longleftrightarrow> (of_int 12 :: rat) \<le> of_int x"
      by (simp add: field_simps)
    then show ?thesis by (simp only: of_int_le_iff)
  qed
  then show ?thesis
    by (simp only: circuitShouldOpen_def Let_def trips_def pushOutcome_def CONSECUTIVE_FAILURE_THRESHOLD_def
        RECENT_WINDOW_SIZE_def FAILURE_RATE_THRESHOLD_def)
qed

subsection \<open>The operations keep the rows well-formed and simulate the breaker\<close>

lemma circuit_wf_new [simp]: "circuit_wf (newCircuitRow ep)"
  by (simp add: circuit_wf_def newCircuitRow_def INITIAL_CIRCUIT_DATA_def parseRecentOutcomes_def
      serializeRecentOutcomes_def Let_def)

lemma circuitOf_wf: "circuits_wf db \<Longrightarrow> circuit_wf (circuitOf db ep)"
  by (auto simp: circuits_wf_def circuitOf_eq list_all_iff dest: selectBy_SomeD split: option.splits)

text \<open>The columns each operation writes, as a function on the row it read.\<close>

lemma circuits_wf_update:
  assumes "circuits_wf db" and "\<And>r. c_endpoint (data r) = c_endpoint r"
    and "circuit_wf (data (circuitOf db ep))"
  shows "circuits_wf (updateCircuit (insertOrIgnore c_endpoint (newCircuitRow ep) db) ep data)"
proof -
  let ?db = "insertOrIgnore c_endpoint (newCircuitRow ep) db"
  have uniq: "keysUnique c_endpoint ?db"
    using assms(1) by (simp add: circuits_wf_def keysUnique_insertOrIgnore)
  have wf: "list_all circuit_wf ?db"
    using assms(1) by (simp add: circuits_wf_def list_all_insertOrIgnore)
  have "circuit_wf (data r)" if "r \<in> set ?db" "c_endpoint r = ep" for r
  proof -
    have "selectBy c_endpoint ep ?db = Some r"
      using selectBy_mem [OF uniq that(1)] that(2) by simp
    then have "circuitOf ?db ep = r" by (simp add: circuitOf_eq)
    then show ?thesis using assms(3) by simp
  qed
  then show ?thesis
    using uniq wf assms(2)
    by (auto simp: circuits_wf_def updateCircuit_def keysUnique_updateWhere intro!: list_all_updateWhere)
qed

lemma circuits_wf_insert: "circuits_wf db \<Longrightarrow> circuits_wf (insertOrIgnore c_endpoint (newCircuitRow ep) db)"
  by (simp add: circuits_wf_def list_all_insertOrIgnore keysUnique_insertOrIgnore)

lemma circuit_wf_cases:
  assumes "circuit_wf r"
  shows "0 \<le> c_consecutiveFailures r" "c_halfOpenProbeSuccesses r = c_halfOpenProbeAttempts r"
    "c_state r = HalfOpen \<Longrightarrow> 0 \<le> c_halfOpenProbeAttempts r \<and> c_halfOpenProbeAttempts r < 3 \<and> c_openUntil r = None"
    "c_state r = Open \<Longrightarrow> c_openUntil r \<noteq> None \<and> c_halfOpenProbeAttempts r = 0"
    "c_state r = Closed \<Longrightarrow> c_openUntil r = None \<and> c_consecutiveFailures r < 5 \<and> c_halfOpenProbeAttempts r = 0"
  using assms by (simp_all add: circuit_wf_def)

text \<open>A row whose window is the result of pushing an outcome.\<close>

lemma circuit_wf_push:
  assumes "outcome \<in> {0, 1}" and "c_recentOutcomesJson r' = serializeRecentOutcomes (parseRecentOutcomes j @ [outcome])"
  shows "circuit_wf r' \<longleftrightarrow> 0 \<le> c_consecutiveFailures r' \<and>
     c_halfOpenProbeSuccesses r' = c_halfOpenProbeAttempts r' \<and>
     (case c_state r' of
        Closed \<Rightarrow> c_openUntil r' = None \<and> c_consecutiveFailures r' < 5 \<and> c_halfOpenProbeAttempts r' = 0
      | Open \<Rightarrow> c_openUntil r' \<noteq> None \<and> c_halfOpenProbeAttempts r' = 0
      | HalfOpen \<Rightarrow> c_openUntil r' = None \<and> 0 \<le> c_halfOpenProbeAttempts r' \<and> c_halfOpenProbeAttempts r' < 3)"
  using assms set_pushOutcome [of j outcome]
  by (auto simp: circuit_wf_def Let_def recent_parse_serialize length_pushOutcome serialize_push)

lemmas circuit_op_defs =
  loadCircuitWithOutcome_def getOrCreateCircuit_eq Let_def

lemma recordCircuitSuccess_spec:
  assumes "circuits_wf db"
  shows "circuits_wf (recordCircuitSuccess db ep) \<and>
     absCircuit (circuitOf (recordCircuitSuccess db ep) ep) = breakerSuccess (absCircuit (circuitOf db ep)) \<and>
     (\<forall>ep'. ep' \<noteq> ep \<longrightarrow> circuitOf (recordCircuitSuccess db ep) ep' = circuitOf db ep')"
proof -
  note wf = circuit_wf_cases [OF circuitOf_wf [OF assms, of ep]]
  let ?c = "circuitOf db ep"
  show ?thesis
  proof (cases "c_state ?c")
    case Closed
    with wf assms show ?thesis
      by (simp add: recordCircuitSuccess_def circuit_op_defs circuitOf_update circuits_wf_update
          circuit_wf_push [of 0] absCircuit_def window_facts)
  next
    case Open
    with wf assms show ?thesis
      by (simp add: recordCircuitSuccess_def circuit_op_defs circuitOf_update circuits_wf_update
          circuit_wf_push [of 0] absCircuit_def window_facts)
  next
    case HalfOpen
    with wf assms show ?thesis
      by (auto simp: recordCircuitSuccess_def circuit_op_defs circuitOf_update circuits_wf_update
          circuit_wf_push [of 0] absCircuit_def window_facts HALF_OPEN_PROBES_def INITIAL_CIRCUIT_DATA_def)
  qed
qed

lemma recordCircuitFailure_spec:
  assumes "circuits_wf db"
  shows "circuits_wf (recordCircuitFailure now db ep) \<and>
     absCircuit (circuitOf (recordCircuitFailure now db ep) ep) = breakerFailure now (absCircuit (circuitOf db ep)) \<and>
     (\<forall>ep'. ep' \<noteq> ep \<longrightarrow> circuitOf (recordCircuitFailure now db ep) ep' = circuitOf db ep')"
proof -
  note wf = circuit_wf_cases [OF circuitOf_wf [OF assms, of ep]]
  let ?c = "circuitOf db ep"
  show ?thesis
  proof (cases "c_state ?c")
    case HalfOpen
    with wf assms show ?thesis
      by (simp add: recordCircuitFailure_def circuit_op_defs circuitOf_update circuits_wf_update
          circuit_wf_push [of 1] absCircuit_def window_facts buildOpenData_def circuit_consts)
  next
    case Closed
    with wf assms show ?thesis
      by (auto simp: recordCircuitFailure_def circuit_op_defs circuitShouldOpen_trips circuitOf_update circuits_wf_update
          circuit_wf_push [of 1] absCircuit_def window_facts buildOpenData_def OPEN_DURATION_MS_def trips_def)
  next
    case Open
    with wf assms show ?thesis
      by (auto simp: recordCircuitFailure_def circuit_op_defs circuitShouldOpen_trips circuitOf_update circuits_wf_update
          circuit_wf_push [of 1] absCircuit_def window_facts buildOpenData_def OPEN_DURATION_MS_def trips_def)
  qed
qed

lemma checkCircuit_spec:
  assumes "circuits_wf db"
  shows "circuits_wf (snd (checkCircuit now db ep)) \<and>
     fst (checkCircuit now db ep) = fst (breakerCheck now (absCircuit (circuitOf db ep))) \<and>
     absCircuit (circuitOf (snd (checkCircuit now db ep)) ep) = snd (breakerCheck now (absCircuit (circuitOf db ep))) \<and>
     (\<forall>ep'. ep' \<noteq> ep \<longrightarrow> circuitOf (snd (checkCircuit now db ep)) ep' = circuitOf db ep')"
proof -
  note wf = circuit_wf_cases [OF circuitOf_wf [OF assms, of ep]]
  have json: "circuit_wf (circuitOf db ep)" using assms by (rule circuitOf_wf)
  let ?c = "circuitOf db ep"
  show ?thesis
  proof (cases "c_state ?c")
    case HalfOpen
    with wf assms show ?thesis
      by (simp add: checkCircuit_def getOrCreateCircuit_eq circuits_wf_insert absCircuit_def Let_def
          HALF_OPEN_PROBES_def)
  next
    case Closed
    with wf assms show ?thesis
      by (simp add: checkCircuit_def getOrCreateCircuit_eq circuits_wf_insert absCircuit_def Let_def)
  next
    case Open
    then obtain u where "c_openUntil ?c = Some u" using wf by auto
    with Open wf assms json show ?thesis
      by (auto simp: checkCircuit_def getOrCreateCircuit_eq circuits_wf_insert absCircuit_def Let_def
          circuitOf_update circuit_wf_def intro!: circuits_wf_update)
  qed
qed

subsection \<open>Runs\<close>

text \<open>Deliveries to many endpoints: each event is one call of the component.\<close>

datatype circuit_event = CheckAt ms | SuccessAt | FailureAt ms

fun circuitStep :: "circuit_table \<Rightarrow> string \<times> circuit_event \<Rightarrow> circuit_table" where
  "circuitStep db (ep, CheckAt now) = snd (checkCircuit now db ep)"
| "circuitStep db (ep, SuccessAt) = recordCircuitSuccess db ep"
| "circuitStep db (ep, FailureAt now) = recordCircuitFailure now db ep"

definition circuitRun :: "circuit_table \<Rightarrow> (string \<times> circuit_event) list \<Rightarrow> circuit_table" where
  "circuitRun db evs = foldl circuitStep db evs"

fun breakerStep :: "breaker \<Rightarrow> circuit_event \<Rightarrow> breaker" where
  "breakerStep b (CheckAt now) = snd (breakerCheck now b)"
| "breakerStep b SuccessAt = breakerSuccess b"
| "breakerStep b (FailureAt now) = breakerFailure now b"

lemma circuitStep_spec:
  "circuits_wf db \<Longrightarrow> circuits_wf (circuitStep db (ep, ev)) \<and>
     absCircuit (circuitOf (circuitStep db (ep, ev)) ep') =
       (if ep' = ep then breakerStep (absCircuit (circuitOf db ep)) ev else absCircuit (circuitOf db ep'))"
  using checkCircuit_spec [of db _ ep] recordCircuitSuccess_spec [of db ep] recordCircuitFailure_spec [of db _ ep]
  by (cases ev) auto

lemma circuitRun_spec:
  "circuits_wf db \<Longrightarrow> circuits_wf (circuitRun db evs) \<and>
     absCircuit (circuitOf (circuitRun db evs) ep) =
       foldl breakerStep (absCircuit (circuitOf db ep)) (map snd (filter (\<lambda>e. fst e = ep) evs))"
proof (induction evs arbitrary: db)
  case (Cons e evs)
  obtain ep' ev where e: "e = (ep', ev)" by force
  with Cons circuitStep_spec [of db ep' ev ep] show ?case by (simp add: circuitRun_def)
qed (simp add: circuitRun_def)

lemma circuits_wf_Nil [simp]: "circuits_wf []"
  by (simp add: circuits_wf_def keysUnique_def)

lemma absCircuit_new: "absCircuit (circuitOf [] ep) = Shut 0 []"
  by (simp add: circuitOf_eq absCircuit_def newCircuitRow_def INITIAL_CIRCUIT_DATA_def parseRecentOutcomes_def)

lemma circuitRun_wf: "circuits_wf (circuitRun [] evs)"
  by (simp add: circuitRun_spec)

lemma circuitRun_append: "circuitRun db (xs @ ys) = circuitRun (circuitRun db xs) ys"
  by (simp add: circuitRun_def)

subsection \<open>Properties\<close>

text \<open>
  C21: the breaker table refines one independent breaker per endpoint. After any sequence of
  checks, successes and failures over any endpoints, the row of an endpoint stands for the
  state the specified machine reaches on that endpoint's own events alone, starting shut.
\<close>

theorem circuit_refines_breaker:
  "absCircuit (circuitOf (circuitRun [] evs) ep) =
     foldl breakerStep (Shut 0 []) (map snd (filter (\<lambda>e. fst e = ep) evs))"
  by (simp add: circuitRun_spec absCircuit_new)

text \<open>The states in which a check answers.\<close>

lemma checkCircuit_verdict:
  "circuits_wf db \<Longrightarrow> fst (checkCircuit now db ep) = fst (breakerCheck now (absCircuit (circuitOf db ep)))"
  using checkCircuit_spec [of db now ep] by blast

lemma five_failures_trip:
  "(case b of Shut k' w' \<Rightarrow> 0 \<le> k' | Tripped u' k' w' \<Rightarrow> 0 \<le> k' | Probing n w' \<Rightarrow> True) \<Longrightarrow>
   \<exists>k w. foldl breakerStep b (map FailureAt [t1, t2, t3, t4, t5]) = Tripped (t5 + 300000) k w"
  by (cases b) (auto simp: Let_def trips_def)

definition afterFailures :: "(string \<times> circuit_event) list \<Rightarrow> string \<Rightarrow> ms list \<Rightarrow> circuit_table" where
  "afterFailures evs ep ts = circuitRun (circuitRun [] evs) (map (\<lambda>t. (ep, FailureAt t)) ts)"

text \<open>
  five failures in a row open the circuit of an endpoint, whatever happened before and in
  whatever state it was. Until five minutes after the fifth failure every check is refused,
  with a delay that reaches the reopening time and overshoots it by less than a second; from
  then on a check is admitted.
\<close>

theorem five_failures_open_circuit:
  "if now < t5 + 300000
   then \<exists>d. fst (checkCircuit now (afterFailures evs ep [t1, t2, t3, t4, t5]) ep) = Defer d \<and>
            t5 + 300000 \<le> now + 1000 * d \<and> now + 1000 * d < t5 + 301000
   else fst (checkCircuit now (afterFailures evs ep [t1, t2, t3, t4, t5]) ep) = Allow"
proof -
  let ?b = "absCircuit (circuitOf (circuitRun [] evs) ep)"
  have wf: "circuits_wf (circuitRun [] evs)" by (rule circuitRun_wf)
  have "case ?b of Shut k' w' \<Rightarrow> 0 \<le> k' | Tripped u' k' w' \<Rightarrow> 0 \<le> k' | Probing n w' \<Rightarrow> True"
    using circuit_wf_cases(1) [OF circuitOf_wf [OF wf, of ep]]
    by (auto simp: absCircuit_def Let_def split: circuit_state.splits)
  then obtain k w where
    "foldl breakerStep ?b (map FailureAt [t1, t2, t3, t4, t5]) = Tripped (t5 + 300000) k w"
    using five_failures_trip by blast
  then have "absCircuit (circuitOf (afterFailures evs ep [t1, t2, t3, t4, t5]) ep) = Tripped (t5 + 300000) k w"
    using wf by (simp add: afterFailures_def circuitRun_spec)
  moreover have "circuits_wf (afterFailures evs ep [t1, t2, t3, t4, t5])"
    using wf by (simp add: afterFailures_def circuitRun_spec)
  ultimately show ?thesis
    using deferSecondsUntil_covers [of "t5 + 300000" now] deferSecondsUntil_tight [of now "t5 + 300000"]
    by (auto simp: checkCircuit_verdict add.commute)
qed

text \<open>
  C25: the probe limit of the half-open state is never reached. In every table the component
  can produce, a half-open circuit has counted fewer than \<open>HALF_OPEN_PROBES\<close> attempts,
  so \<open>checkCircuit\<close> admits every caller and the branch that defers by thirty seconds
  is dead: attempts are counted when a probe is recorded as successful, not when it starts.
\<close>

theorem half_open_admits_every_probe:
  assumes "c_state (circuitOf (circuitRun [] evs) ep) = HalfOpen"
  shows "c_halfOpenProbeAttempts (circuitOf (circuitRun [] evs) ep) < HALF_OPEN_PROBES \<and>
     fst (checkCircuit now (circuitRun [] evs) ep) = Allow"
  using circuit_wf_cases(3) [OF circuitOf_wf [OF circuitRun_wf] assms] assms
  by (simp add: HALF_OPEN_PROBES_def checkCircuit_verdict [OF circuitRun_wf] absCircuit_def)

lemma half_open_admits_every_probe_witness:
  "let evs = [(''e'', FailureAt 0), (''e'', FailureAt 1), (''e'', FailureAt 2), (''e'', FailureAt 3),
              (''e'', FailureAt 4), (''e'', CheckAt 400000)]
   in c_state (circuitOf (circuitRun [] evs) ''e'') = HalfOpen \<and>
      fst (checkCircuit 400001 (circuitRun [] evs) ''e'') = Allow"
proof -
  have st: "c_state (circuitOf (circuitRun [] [(''e'', FailureAt 0), (''e'', FailureAt 1),
      (''e'', FailureAt 2), (''e'', FailureAt 3), (''e'', FailureAt 4), (''e'', CheckAt 400000)]) ''e'') = HalfOpen"
    by code_simp
  show ?thesis using half_open_admits_every_probe [OF st] st by (simp add: Let_def)
qed

text \<open>
  creating a circuit row is race-safe. Whatever other deliveries write between the first
  select and the insert, as long as the primary key holds, the call returns a row of the
  endpoint that is in the table afterwards, the key still holds, and rows of other endpoints
  are those the others left.
\<close>

theorem circuit_creation_race_safe:
  assumes "keysUnique c_endpoint db" and "keysUnique c_endpoint (others db)"
  shows "\<exists>db' r. getOrCreateCircuitVia others db ep = (db', Some r) \<and> keysUnique c_endpoint db' \<and>
     selectBy c_endpoint ep db' = Some r \<and>
     (\<forall>ep'. ep' \<noteq> ep \<longrightarrow> selectBy c_endpoint ep' db' =
        selectBy c_endpoint ep' (if selectBy c_endpoint ep db = None then others db else db))"
  using assms
  by (auto simp: getOrCreateCircuitVia_def Let_def selectBy_insertOrIgnore keysUnique_insertOrIgnore
      split: option.splits)

lemma circuit_creation_race_safe_witness:
  "\<exists>r. getOrCreateCircuitVia (\<lambda>t. t @ [newCircuitRow ''e'']) [] ''e'' = ([newCircuitRow ''e''], Some r)"
  using circuit_creation_race_safe [of "[]" "\<lambda>t. t @ [newCircuitRow ''e'']" "''e''"]
  by (simp add: keysUnique_def getOrCreateCircuitVia_def)

end
