(* ===== verification/NetAddr.thy ===== *)
theory NetAddr
  imports Prelude
begin

unbundle bit_operations_syntax

section \<open>Remote address safety\<close>

text \<open>
  Models \<open>src/backend/lib/ssrf.ts\<close>: the parsers of IPv4 and IPv6 literals, the
  private-range classifiers over every encoding of an embedded IPv4, the URL and host
  checks, the resolver walk over A, AAAA and CNAME answers, and the resolved-address check
  that callers pin connections to.

  \<open>new URL(..)\<close> is a parameter (\<open>parseUrl\<close>, \<open>None\<close> when it throws), and so
  are the DNS answers (\<open>doh\<close>) and the local resolver. Hextets and octets are integers
  with the bit operations of the source.
\<close>

subsection \<open>IPv4\<close>

text \<open>The pattern \<open>^\d{1,3}(\.\d{1,3}){3}$\<close> and the range check.\<close>

definition octetText :: "string \<Rightarrow> bool" where
  "octetText s = (1 \<le> length s \<and> length s \<le> 3 \<and> list_all isDigit s)"

definition parseIPv4 :: "string \<Rightarrow> int list option" where
  "parseIPv4 hostname =
     (let texts = splitOn CHR ''.'' hostname
      in if length texts = 4 \<and> list_all octetText texts then
           (let parts = map decimalVal texts
            in if list_ex (\<lambda>part. part < 0 \<or> 255 < part) parts then None else Some parts)
         else None)"

fun privateOctets :: "int list \<Rightarrow> bool" where
  "privateOctets [a, b, c, d] =
     (if a = 0 \<or> a = 10 \<or> a = 127 then True
      else if a = 169 \<and> b = 254 then True
      else if a = 172 \<and> 16 \<le> b \<and> b \<le> 31 then True
      else if a = 192 \<and> b = 168 then True
      else if a = 100 \<and> 64 \<le> b \<and> b \<le> 127 then True
      else if a = 192 \<and> b = 0 \<and> c = 0 then True
      else if a = 192 \<and> b = 0 \<and> c = 2 then True
      else if a = 198 \<and> (b = 18 \<or> b = 19) then True
      else if a = 198 \<and> b = 51 \<and> c = 100 then True
      else if a = 203 \<and> b = 0 \<and> c = 113 then True
      else if 224 \<le> a then True
      else False)"
| "privateOctets _ = False"

definition isPrivateIPv4 :: "string \<Rightarrow> bool" where
  "isPrivateIPv4 hostname =
     (case parseIPv4 hostname of None \<Rightarrow> False | Some parts \<Rightarrow> privateOctets parts)"

subsection \<open>IPv6\<close>

definition isHexDigit :: "char \<Rightarrow> bool" where
  "isHexDigit c = (isDigit c \<or> (97 \<le> (of_char c :: nat) \<and> (of_char c :: nat) \<le> 102))"

definition hexVal :: "char \<Rightarrow> int" where
  "hexVal c = (if isDigit c then digitVal c else of_char c - 87)"

text \<open>\<open>parseInt(g, 16)\<close> on lower-case hexadecimal digits, and \<open>toString(16)\<close>.\<close>

definition hexNumber :: "string \<Rightarrow> int" where
  "hexNumber s = foldl (\<lambda>n c. 16 * n + hexVal c) 0 s"

definition hexDigitChar :: "int \<Rightarrow> char" where
  "hexDigitChar n = char_of (nat (if n < 10 then n + 48 else n + 87))"

definition toHexText :: "int \<Rightarrow> string" where
  "toHexText n =
     (if n < 16 then [hexDigitChar n]
      else if n < 256 then [hexDigitChar (n div 16), hexDigitChar (n mod 16)]
      else if n < 4096 then [hexDigitChar (n div 256), hexDigitChar (n div 16 mod 16), hexDigitChar (n mod 16)]
      else [hexDigitChar (n div 4096), hexDigitChar (n div 256 mod 16),
            hexDigitChar (n div 16 mod 16), hexDigitChar (n mod 16)])"

definition stripBrackets :: "string \<Rightarrow> string" where
  "stripBrackets s =
     (let s1 = (if startsWith s ''['' then drop 1 s else s)
      in if s1 \<noteq> [] \<and> last s1 = CHR '']'' then butlast s1 else s1)"

text \<open>The first and the last place of a double colon, as \<open>indexOf\<close> and \<open>lastIndexOf\<close> give them.\<close>

fun indexOfDouble :: "string \<Rightarrow> nat option" where
  "indexOfDouble (x # y # s) =
     (if x = CHR '':'' \<and> y = CHR '':'' then Some 0 else map_option Suc (indexOfDouble (y # s)))"
| "indexOfDouble _ = None"

fun lastIndexOfDouble :: "string \<Rightarrow> nat option" where
  "lastIndexOfDouble (x # y # s) =
     (case lastIndexOfDouble (y # s) of
        Some n \<Rightarrow> Some (Suc n)
      | None \<Rightarrow> if x = CHR '':'' \<and> y = CHR '':'' then Some 0 else None)"
| "lastIndexOfDouble _ = None"

definition groupText :: "string \<Rightarrow> bool" where
  "groupText g = (1 \<le> length g \<and> length g \<le> 4 \<and> list_all isHexDigit g)"

definition parseGroups :: "string \<Rightarrow> int list option" where
  "parseGroups str =
     (if str = [] then Some []
      else if list_all groupText (splitOn CHR '':'' str)
        then Some (map hexNumber (splitOn CHR '':'' str)) else None)"

text \<open>
  The pattern \<open>^(.*:)(d.d.d.d)$\<close>: everything up to the last colon, and a dotted quad
  after it.
\<close>

definition splitLastColon :: "string \<Rightarrow> (string \<times> string) option" where
  "splitLastColon s =
     (if CHR '':'' \<in> set s
      then (let tail = rev (takeWhile (\<lambda>c. c \<noteq> CHR '':'') (rev s))
            in Some (take (length s - length tail) s, tail))
      else None)"

definition foldDottedTail :: "string \<Rightarrow> string option" where
  "foldDottedTail s =
     (if CHR ''.'' \<in> set s then
        (case splitLastColon s of
           None \<Rightarrow> None
         | Some (m1, m2) \<Rightarrow>
             (if length (splitOn CHR ''.'' m2) = 4 \<and> list_all octetText (splitOn CHR ''.'' m2) then
                (case parseIPv4 m2 of
                   None \<Rightarrow> None
                 | Some v4 \<Rightarrow>
                     (let h1 = toHexText (push_bit 8 (v4 ! 0) OR v4 ! 1);
                          h2 = toHexText (push_bit 8 (v4 ! 2) OR v4 ! 3)
                      in Some (m1 @ h1 @ '':'' @ h2)))
              else None))
      else Some s)"

definition expandIPv6 :: "string \<Rightarrow> int list option" where
  "expandIPv6 input =
     (let s0 = stripBrackets (toLowerCase input);
          s1 = takeWhile (\<lambda>c. c \<noteq> CHR ''%'') s0
      in if s1 = [] then None
         else
           (case foldDottedTail s1 of
              None \<Rightarrow> None
            | Some s \<Rightarrow>
                (let doubleIdx = indexOfDouble s
                 in if doubleIdx \<noteq> lastIndexOfDouble s then None
                    else
                      (case (case doubleIdx of
                               Some i \<Rightarrow>
                                 (case (parseGroups (take i s), parseGroups (drop (i + 2) s)) of
                                    (Some head, Some tail) \<Rightarrow>
                                      (let missing = 8 - int (length head) - int (length tail)
                                       in if missing < 1 then None
                                          else Some (head @ replicate (nat missing) 0 @ tail))
                                  | _ \<Rightarrow> None)
                             | None \<Rightarrow> parseGroups s)
                       of None \<Rightarrow> None
                        | Some groups \<Rightarrow> if length groups = 8 then Some groups else None))))"

text \<open>The template \<open>${a}.${b}.${c}.${d}\<close>.\<close>

definition decimalText :: "int \<Rightarrow> string" where
  "decimalText n =
     (let dig = (\<lambda>k. char_of (nat (k + 48)))
      in if n < 10 then [dig n]
         else if n < 100 then [dig (n div 10), dig (n mod 10)]
         else [dig (n div 100), dig (n div 10 mod 10), dig (n mod 10)])"

definition dottedText :: "int \<Rightarrow> int \<Rightarrow> int \<Rightarrow> int \<Rightarrow> string" where
  "dottedText a b c d =
     decimalText a @ ''.'' @ decimalText b @ ''.'' @ decimalText c @ ''.'' @ decimalText d"

definition embeddedV4IsPrivate :: "int \<Rightarrow> int \<Rightarrow> bool" where
  "embeddedV4IsPrivate hi lo =
     isPrivateIPv4 (dottedText (drop_bit 8 hi AND 0xff) (hi AND 0xff) (drop_bit 8 lo AND 0xff) (lo AND 0xff))"

definition PRIVATE_IPV6_EXACT :: "string list" where
  "PRIVATE_IPV6_EXACT = [''::1'', ''0:0:0:0:0:0:0:1'', ''::'', ''0:0:0:0:0:0:0:0'']"

definition PRIVATE_IPV6_PREFIXES :: "string list" where
  "PRIVATE_IPV6_PREFIXES = [''fc'', ''fd'', ''fe8'', ''fe9'', ''fea'', ''feb'', ''fec'', ''fed'', ''fee'', ''fef'', ''ff'']"

text \<open>The classification of eight hextets.\<close>

definition privateHextets :: "int list \<Rightarrow> bool" where
  "privateHextets g =
     (let allZeroHigh = (g ! 0 = 0 \<and> g ! 1 = 0 \<and> g ! 2 = 0 \<and> g ! 3 = 0 \<and> g ! 4 = 0);
          hi8 = drop_bit 8 (g ! 0)
      in if allZeroHigh \<and> g ! 5 = 0 \<and> g ! 6 = 0 \<and> (g ! 7 = 0 \<or> g ! 7 = 1) then True
         else if hi8 = 0xfc \<or> hi8 = 0xfd then True
         else if g ! 0 AND 0xffc0 = 0xfe80 then True
         else if g ! 0 AND 0xffc0 = 0xfec0 then True
         else if hi8 = 0xff then True
         else if allZeroHigh \<and> g ! 5 = 0xffff then embeddedV4IsPrivate (g ! 6) (g ! 7)
         else if allZeroHigh \<and> g ! 5 = 0 then embeddedV4IsPrivate (g ! 6) (g ! 7)
         else if g ! 0 = 0x64 \<and> g ! 1 = 0xff9b then embeddedV4IsPrivate (g ! 6) (g ! 7)
         else if g ! 0 = 0x2002 then embeddedV4IsPrivate (g ! 1) (g ! 2)
         else False)"

definition isPrivateIPv6 :: "string \<Rightarrow> bool" where
  "isPrivateIPv6 ipv6Raw =
     (case expandIPv6 ipv6Raw of
        None \<Rightarrow>
          (let s = stripBrackets (toLowerCase ipv6Raw)
           in s \<in> set PRIVATE_IPV6_EXACT \<or> list_ex (\<lambda>prefix. startsWith s prefix) PRIVATE_IPV6_PREFIXES)
      | Some g \<Rightarrow> privateHextets g)"

definition isWellFormedIp :: "string \<Rightarrow> bool" where
  "isWellFormedIp host =
     (if parseIPv4 host \<noteq> None then True
      else if CHR '':'' \<in> set host then expandIPv6 host \<noteq> None
      else False)"

definition isPrivateIpAddress :: "string \<Rightarrow> bool" where
  "isPrivateIpAddress host =
     (if isPrivateIPv4 host then True
      else if CHR '':'' \<in> set host then isPrivateIPv6 host
      else False)"

subsection \<open>Hosts and URLs\<close>

definition normalizeHostname :: "string \<Rightarrow> string" where
  "normalizeHostname hostname =
     (let normalized = toLowerCase (trim hostname)
      in if endsWith normalized ''.'' then butlast normalized else normalized)"

definition BLOCKED_HOSTNAME_SUFFIXES :: "string list" where
  "BLOCKED_HOSTNAME_SUFFIXES = [''.localhost'', ''.local'', ''.localdomain'', ''.internal'']"

definition isBlockedHostname :: "string \<Rightarrow> bool" where
  "isBlockedHostname hostname =
     (let lower = normalizeHostname hostname
      in if lower = ''localhost'' then True
         else if list_ex (\<lambda>suffix. endsWith lower suffix) BLOCKED_HOSTNAME_SUFFIXES then True
         else isPrivateIpAddress lower)"

text \<open>\<open>HOSTNAME_PATTERN\<close>: letters, digits, dots and hyphens.\<close>

definition hostChar :: "char \<Rightarrow> bool" where
  "hostChar c =
     (let n = (of_char c :: nat)
      in isDigit c \<or> (65 \<le> n \<and> n \<le> 90) \<or> (97 \<le> n \<and> n \<le> 122) \<or> c = CHR ''.'' \<or> c = CHR ''-'')"

definition hostnamePattern :: "string \<Rightarrow> bool" where
  "hostnamePattern s = (s \<noteq> [] \<and> list_all hostChar s)"

record url =
  u_protocol :: string
  u_username :: string
  u_password :: string
  u_hostname :: string
  u_host :: string
  u_port :: string
  u_pathname :: string
  u_search :: string
  u_hash :: string

type_synonym url_parser = "string \<Rightarrow> url option"

definition isSafeRemoteUrl :: "url_parser \<Rightarrow> string \<Rightarrow> bool" where
  "isSafeRemoteUrl parseUrl u =
     (case parseUrl u of
        None \<Rightarrow> False
      | Some parsed \<Rightarrow>
          (if u_username parsed \<noteq> [] \<or> u_password parsed \<noteq> [] then False
           else if u_protocol parsed \<noteq> ''http:'' \<and> u_protocol parsed \<noteq> ''https:'' then False
           else if \<not> hostnamePattern (u_hostname parsed) then False
           else if CHR ''.'' \<notin> set (u_hostname parsed) then False
           else if isBlockedHostname (u_hostname parsed) then False
           else True))"

definition normalizeRemoteDomain :: "url_parser \<Rightarrow> string \<Rightarrow> string option" where
  "normalizeRemoteDomain parseUrl domain =
     (let trimmed = trim domain
      in if trimmed = [] then None
         else
           (case parseUrl (''https://'' @ trimmed) of
              None \<Rightarrow> None
            | Some parsed \<Rightarrow>
                (if u_username parsed \<noteq> [] \<or> u_password parsed \<noteq> [] then None
                 else if u_pathname parsed \<noteq> ''/'' \<or> u_search parsed \<noteq> [] \<or> u_hash parsed \<noteq> [] then None
                 else if \<not> hostnamePattern (u_hostname parsed) then None
                 else if CHR ''.'' \<notin> set (u_hostname parsed) then None
                 else if isBlockedHostname (u_hostname parsed) then None
                 else Some (u_host parsed))))"

definition safeEndpointHost :: "url_parser \<Rightarrow> string \<Rightarrow> string option" where
  "safeEndpointHost parseUrl endpoint =
     (case parseUrl endpoint of
        None \<Rightarrow> None
      | Some u \<Rightarrow>
          (if u_protocol u \<noteq> ''https:'' \<and> u_protocol u \<noteq> ''http:'' then None
           else if \<not> isSafeRemoteUrl parseUrl endpoint then None
           else Some (u_host u)))"

subsection \<open>Resolution\<close>

text \<open>
  The answers of one DNS-over-HTTPS query, \<open>(type, data)\<close> pairs, or the error of a
  failed lookup. The walk follows CNAME answers (type 5) depth first and collects the data of
  A and AAAA answers (types 1 and 28), visiting each name once and giving up past depth 10.
  Its state is the pair of the visited names and the collected addresses.
\<close>

datatype dns_type = DnsA | DnsAAAA | DnsCNAME

type_synonym doh = "string \<Rightarrow> dns_type \<Rightarrow> string + (int \<times> string) list"

definition addToSet :: "'a \<Rightarrow> 'a list \<Rightarrow> 'a list" where
  "addToSet x xs = (if x \<in> set xs then xs else xs @ [x])"

definition collectAddresses :: "(int \<times> string) list \<Rightarrow> string list \<Rightarrow> string list" where
  "collectAddresses answers ips =
     fold (\<lambda>(t, data) acc. if t = 1 \<or> t = 28 then addToSet data acc else acc) answers ips"

function (sequential) walk :: "doh \<Rightarrow> string \<Rightarrow> nat \<Rightarrow> string list \<times> string list \<Rightarrow> string + string list \<times> string list"
and walkCnames :: "doh \<Rightarrow> (int \<times> string) list \<Rightarrow> nat \<Rightarrow> string list \<times> string list \<Rightarrow> string + string list \<times> string list"
where
  "walk doh name depth (visited, ips) =
     (if 10 < depth then Inl ''DNS resolution exceeded max depth''
      else
        (let normalized = normalizeHostname name
         in if normalized \<in> set visited then Inr (visited, ips)
            else
              (case doh normalized DnsA of
                 Inl e \<Rightarrow> Inl e
               | Inr aAnswers \<Rightarrow>
              (case doh normalized DnsAAAA of
                 Inl e \<Rightarrow> Inl e
               | Inr aaaaAnswers \<Rightarrow>
              (case doh normalized DnsCNAME of
                 Inl e \<Rightarrow> Inl e
               | Inr cnameAnswers \<Rightarrow>
                   walkCnames doh cnameAnswers depth
                     (visited @ [normalized], collectAddresses (aAnswers @ aaaaAnswers) ips))))))"
| "walkCnames doh [] depth st = Inr st"
| "walkCnames doh ((t, data) # answers) depth st =
     (if t = 5 then
        (case walk doh data (depth + 1) st of
           Inl e \<Rightarrow> Inl e
         | Inr st' \<Rightarrow> walkCnames doh answers depth st')
      else walkCnames doh answers depth st)"
  by pat_completeness auto
termination
  by (relation "measures [\<lambda>x. case x of Inl (_, _, depth, _) \<Rightarrow> 2 * (12 - depth)
                                      | Inr (_, _, depth, _) \<Rightarrow> 2 * (12 - depth) - 1,
                          \<lambda>x. case x of Inl _ \<Rightarrow> 0 | Inr (_, answers, _, _) \<Rightarrow> length answers]")
    auto

definition resolveRemoteHostnameIPs :: "doh \<Rightarrow> string \<Rightarrow> string + string list" where
  "resolveRemoteHostnameIPs doh hostname =
     (case walk doh hostname 0 ([], []) of Inl e \<Rightarrow> Inl e | Inr (visited, ips) \<Rightarrow> Inr ips)"

subsection \<open>The resolved-address check\<close>

definition isTakosTestHostname :: "string \<Rightarrow> bool" where
  "isTakosTestHostname hostname =
     (let normalized = normalizeHostname hostname
      in normalized = ''takos.test'' \<or> endsWith normalized ''.takos.test'')"

definition isLocalSubstrateUrlShape :: "url \<Rightarrow> bool" where
  "isLocalSubstrateUrlShape parsed =
     (u_protocol parsed = ''https:'' \<and> (u_port parsed = [] \<or> u_port parsed = ''443''))"

definition isAllowedLocalSubstrateIp :: "string \<Rightarrow> bool" where
  "isAllowedLocalSubstrateIp ip =
     (case parseIPv4 ip of
        Some [a, b, c, d] \<Rightarrow>
          (if a = 127 \<and> b = 0 \<and> c = 0 \<and> d = 1 then True else a = 172 \<and> 16 \<le> b \<and> b \<le> 31)
      | _ \<Rightarrow> False)"

datatype ssrf_error =
    UnsafeRemoteUrl string
  | UnsafeLocalSubstrateUrl string
  | FailedToResolve string
  | OutsideAllowlist string string
  | UnparseableIp string string
  | PrivateIp string string
  | ResolverError string

definition isTruthyEnv :: "string option \<Rightarrow> bool" where
  "isTruthyEnv value =
     (case value of
        None \<Rightarrow> False
      | Some v \<Rightarrow> if v = [] then False else toLowerCase (trim v) \<in> {''1'', ''true'', ''yes'', ''on''})"

text \<open>The two loops over the resolved addresses.\<close>

fun checkLocalSubstrateIps :: "string \<Rightarrow> string list \<Rightarrow> ssrf_error option" where
  "checkLocalSubstrateIps hostname [] = None"
| "checkLocalSubstrateIps hostname (ip # ips) =
     (if \<not> isAllowedLocalSubstrateIp ip then Some (OutsideAllowlist hostname ip)
      else checkLocalSubstrateIps hostname ips)"

fun checkPublicIps :: "string \<Rightarrow> string list \<Rightarrow> ssrf_error option" where
  "checkPublicIps hostname [] = None"
| "checkPublicIps hostname (ip # ips) =
     (if \<not> isWellFormedIp ip then Some (UnparseableIp hostname ip)
      else if isPrivateIpAddress ip then Some (PrivateIp hostname ip)
      else checkPublicIps hostname ips)"

definition assertSafeRemoteUrlResolved ::
  "url_parser \<Rightarrow> bool \<Rightarrow> (string \<Rightarrow> dns_type \<Rightarrow> string list) \<Rightarrow> (string \<Rightarrow> string + string list) \<Rightarrow>
   string \<Rightarrow> ssrf_error + string list" where
  "assertSafeRemoteUrlResolved parseUrl allowLocalSubstrate localResolver remoteResolver u =
     (if \<not> isSafeRemoteUrl parseUrl u then Inl (UnsafeRemoteUrl u)
      else
        (case parseUrl u of
           None \<Rightarrow> Inl (UnsafeRemoteUrl u)
         | Some parsed \<Rightarrow>
             (let hostname = normalizeHostname (u_hostname parsed)
              in if allowLocalSubstrate \<and> isTakosTestHostname hostname then
                   (if \<not> isLocalSubstrateUrlShape parsed then Inl (UnsafeLocalSubstrateUrl u)
                    else
                      (let resolvedIps = localResolver hostname DnsA @ localResolver hostname DnsAAAA
                       in if resolvedIps = [] then Inl (FailedToResolve hostname)
                          else (case checkLocalSubstrateIps hostname resolvedIps of
                                  Some e \<Rightarrow> Inl e | None \<Rightarrow> Inr resolvedIps)))
                 else
                   (case remoteResolver hostname of
                      Inl e \<Rightarrow> Inl (ResolverError e)
                    | Inr resolvedIps \<Rightarrow>
                        (if resolvedIps = [] then Inl (FailedToResolve hostname)
                         else (case checkPublicIps hostname resolvedIps of
                                 Some e \<Rightarrow> Inl e | None \<Rightarrow> Inr resolvedIps))))))"

subsection \<open>Printing and parsing of octets and hextets\<close>

text \<open>The characters the printers produce.\<close>

definition codeChar :: "int \<Rightarrow> char" where
  "codeChar n = char_of (nat n)"

lemma of_codeChar:
  assumes "0 \<le> n" "n < 256"
  shows "(of_char (codeChar n) :: nat) = nat n" "(of_char (codeChar n) :: int) = n"
proof -
  have "nat n < 256" using assms by simp
  then show nat: "(of_char (codeChar n) :: nat) = nat n" by (simp add: codeChar_def)
  have "(of_char (codeChar n) :: int) = int (of_char (codeChar n) :: nat)"
    by (simp only: of_nat_of_char)
  then show "(of_char (codeChar n) :: int) = n" using assms nat by simp
qed

lemma digit_codeChar:
  assumes "0 \<le> n" "n \<le> 9"
  shows "isDigit (codeChar (n + 48))" "digitVal (codeChar (n + 48)) = n"
proof -
  have "0 \<le> n + 48" "n + 48 < 256" using assms by auto
  note c = of_codeChar [OF this]
  show "digitVal (codeChar (n + 48)) = n" using c by (simp add: digitVal_def)
  have "48 \<le> nat (n + 48)" "nat (n + 48) \<le> 57" using assms by linarith+
  then show "isDigit (codeChar (n + 48))" using c by (simp add: isDigit_def)
qed

lemma decimalText_codeChar:
  "decimalText n =
     (if n < 10 then [codeChar (n + 48)]
      else if n < 100 then [codeChar (n div 10 + 48), codeChar (n mod 10 + 48)]
      else [codeChar (n div 100 + 48), codeChar (n div 10 mod 10 + 48), codeChar (n mod 10 + 48)])"
  by (simp add: decimalText_def codeChar_def)

lemma decimalVal_digits:
  assumes "0 \<le> x" "x \<le> 9"
  shows "decimalVal [codeChar (x + 48)] = x"
    "0 \<le> y \<Longrightarrow> y \<le> 9 \<Longrightarrow> decimalVal [codeChar (x + 48), codeChar (y + 48)] = 10 * x + y"
    "0 \<le> y \<Longrightarrow> y \<le> 9 \<Longrightarrow> 0 \<le> z \<Longrightarrow> z \<le> 9 \<Longrightarrow>
       decimalVal [codeChar (x + 48), codeChar (y + 48), codeChar (z + 48)] = 10 * (10 * x + y) + z"
  using assms by (simp_all add: decimalVal_def digit_codeChar)

lemma decimalText_facts:
  assumes "0 \<le> n" "n \<le> 255"
  shows "octetText (decimalText n)" "decimalVal (decimalText n) = n"
proof -
  have d: "0 \<le> n div 10" "0 \<le> n mod 10" "n mod 10 \<le> 9" "0 \<le> n div 100" "n div 100 \<le> 9"
    "0 \<le> n div 10 mod 10" "n div 10 mod 10 \<le> 9" "n < 100 \<Longrightarrow> n div 10 \<le> 9"
    using assms by auto
  have "n div 100 = n div 10 div 10" by (simp add: zdiv_zmult2_eq [symmetric])
  then have "10 * (n div 100) + n div 10 mod 10 = n div 10" by simp
  then have e: "10 * (10 * (n div 100) + n div 10 mod 10) + n mod 10 = n" "10 * (n div 10) + n mod 10 = n"
    by simp_all
  show "octetText (decimalText n)"
    using assms d by (auto simp: decimalText_codeChar octetText_def digit_codeChar)
  show "decimalVal (decimalText n) = n"
  proof -
    consider "n < 10" | "10 \<le> n" "n < 100" | "100 \<le> n" by linarith
    then show ?thesis
    proof cases
      case 1
      then show ?thesis using decimalVal_digits(1) [of n] assms(1) by (simp add: decimalText_codeChar)
    next
      case 2
      then have "decimalText n = [codeChar (n div 10 + 48), codeChar (n mod 10 + 48)]"
        by (simp add: decimalText_codeChar)
      then show ?thesis using decimalVal_digits(2) [OF d(1) d(8) [OF 2(2)] d(2,3)] e(2) by (simp only:)
    next
      case 3
      then have "decimalText n = [codeChar (n div 100 + 48), codeChar (n div 10 mod 10 + 48), codeChar (n mod 10 + 48)]"
        by (simp add: decimalText_codeChar)
      then show ?thesis using decimalVal_digits(3) [OF d(4,5,6,7,2,3)] e(1) by (simp only:)
    qed
  qed
qed

lemma digits_no_sep:
  assumes "list_all isDigit s"
  shows "CHR ''.'' \<notin> set s" "CHR '':'' \<notin> set s" "CHR ''%'' \<notin> set s"
  using assms by (auto simp: list_all_iff isDigit_def)

lemma octetText_no_sep:
  assumes "octetText s"
  shows "CHR ''.'' \<notin> set s" "CHR '':'' \<notin> set s" "CHR ''%'' \<notin> set s"
  using assms digits_no_sep by (auto simp: octetText_def)

lemma splitOn_quad:
  assumes "octetText p" "octetText q" "octetText r" "octetText t"
  shows "splitOn CHR ''.'' (p @ ''.'' @ q @ ''.'' @ r @ ''.'' @ t) = [p, q, r, t]"
  using octetText_no_sep [OF assms(1)] octetText_no_sep [OF assms(2)] octetText_no_sep [OF assms(3)]
    octetText_no_sep [OF assms(4)]
  by (simp add: splitOn_append splitOn_none)

definition octets :: "int list \<Rightarrow> bool" where
  "octets g = list_all (\<lambda>n. 0 \<le> n \<and> n \<le> 255) g"

lemma splitOn_dotted:
  assumes "octets [a, b, c, d]"
  shows "splitOn CHR ''.'' (dottedText a b c d) = map decimalText [a, b, c, d]"
  using assms by (simp add: dottedText_def octets_def splitOn_quad decimalText_facts del: append.simps)

lemma parseIPv4_dotted:
  assumes "octets [a, b, c, d]"
  shows "parseIPv4 (dottedText a b c d) = Some [a, b, c, d]"
  using assms splitOn_dotted [OF assms]
  by (simp add: parseIPv4_def octets_def decimalText_facts Let_def)

subsection \<open>IPv4 blocks\<close>

text \<open>
  The specification of the IPv4 classifier: the reserved blocks as base address and prefix
  length, and membership by comparing the leading bits of 32-bit addresses.
\<close>

definition addrOf :: "int \<Rightarrow> int \<Rightarrow> int \<Rightarrow> int \<Rightarrow> int" where
  "addrOf a b c d = a * 2 ^ 24 + b * 2 ^ 16 + c * 2 ^ 8 + d"

definition PRIVATE_V4_BLOCKS :: "(int \<times> nat) list" where
  "PRIVATE_V4_BLOCKS =
     [(addrOf 0 0 0 0, 8), (addrOf 10 0 0 0, 8), (addrOf 127 0 0 0, 8), (addrOf 169 254 0 0, 16),
      (addrOf 172 16 0 0, 12), (addrOf 192 168 0 0, 16), (addrOf 100 64 0 0, 10),
      (addrOf 192 0 0 0, 24), (addrOf 192 0 2 0, 24), (addrOf 198 18 0 0, 15),
      (addrOf 198 51 100 0, 24), (addrOf 203 0 113 0, 24), (addrOf 224 0 0 0, 3)]"

definition inBlock :: "int \<Rightarrow> int \<times> nat \<Rightarrow> bool" where
  "inBlock addr block = (addr div 2 ^ (32 - snd block) = fst block div 2 ^ (32 - snd block))"

definition privateV4 :: "int \<Rightarrow> bool" where
  "privateV4 addr = list_ex (inBlock addr) PRIVATE_V4_BLOCKS"

lemma addrOf_div:
  assumes "octets [a, b, c, d]"
  shows "addrOf a b c d div 16777216 = a" "addrOf a b c d div 65536 = 256 * a + b"
    "addrOf a b c d div 256 = 65536 * a + 256 * b + c" "addrOf a b c d div 1048576 = 16 * a + b div 16"
    "addrOf a b c d div 4194304 = 4 * a + b div 64" "addrOf a b c d div 131072 = 128 * a + b div 2"
    "addrOf a b c d div 536870912 = a div 32"
proof -
  have o: "0 \<le> a" "0 \<le> b" "0 \<le> c" "0 \<le> d" "a \<le> 255" "b \<le> 255" "c \<le> 255" "d \<le> 255"
    using assms by (simp_all add: octets_def)
  have d8: "addrOf a b c d div 256 = 65536 * a + 256 * b + c"
    using o by (simp add: addrOf_def) 
  have d16: "addrOf a b c d div 65536 = 256 * a + b"
  proof -
    have "addrOf a b c d div 65536 = addrOf a b c d div 256 div 256" by (simp add: zdiv_zmult2_eq [symmetric])
    also have "\<dots> = 256 * a + b" unfolding d8 using o by simp
    finally show ?thesis .
  qed
  have d24: "addrOf a b c d div 16777216 = a"
  proof -
    have "addrOf a b c d div 16777216 = addrOf a b c d div 65536 div 256" by (simp add: zdiv_zmult2_eq [symmetric])
    also have "\<dots> = a" unfolding d16 using o by simp
    finally show ?thesis .
  qed
  have split: "addrOf a b c d div (65536 * k) = (256 * a + b) div k" if "0 \<le> k" for k
    using zdiv_zmult2_eq [OF that, of "addrOf a b c d" 65536] by (simp only: d16)
  show "addrOf a b c d div 256 = 65536 * a + 256 * b + c" "addrOf a b c d div 65536 = 256 * a + b"
    "addrOf a b c d div 16777216 = a" by (fact d8, fact d16, fact d24)
  show "addrOf a b c d div 1048576 = 16 * a + b div 16" using split [of 16] by simp
  show "addrOf a b c d div 4194304 = 4 * a + b div 64" using split [of 64] by simp
  show "addrOf a b c d div 131072 = 128 * a + b div 2" using split [of 2] by simp
  show "addrOf a b c d div 536870912 = a div 32"
  proof -
    have "addrOf a b c d div 536870912 = addrOf a b c d div 16777216 div 32" by (simp add: zdiv_zmult2_eq [symmetric])
    then show ?thesis unfolding d24 .
  qed
qed

lemma privateOctets_blocks:
  assumes "octets [a, b, c, d]"
  shows "privateOctets [a, b, c, d] = privateV4 (addrOf a b c d)"
proof -
  have o: "0 \<le> a" "0 \<le> b" "0 \<le> c" "0 \<le> d" "a \<le> 255" "b \<le> 255" "c \<le> 255" "d \<le> 255"
    using assms by (simp_all add: octets_def)
  have pair: "(k * x + r = k * y + s) = (x = y \<and> r = s)"
    if "0 \<le> r" "r < k" "0 \<le> s" "s < k" for k x y r s :: int
  proof
    assume e: "k * x + r = k * y + s"
    have "(k * x + r) div k = x" "(k * x + r) mod k = r" "(k * y + s) div k = y" "(k * y + s) mod k = s"
      using that by auto
    then show "x = y \<and> r = s" using e by metis
  qed simp
  have r16: "0 \<le> b div 16" "b div 16 < 16" "(b div 16 = 1) = (16 \<le> b \<and> b \<le> 31)" using o by auto
  have r64: "0 \<le> b div 64" "b div 64 < 4" "(b div 64 = 1) = (64 \<le> b \<and> b \<le> 127)" using o by auto
  have r2: "0 \<le> b div 2" "b div 2 < 128" "(b div 2 = 9) = (b = 18 \<or> b = 19)" using o by auto
  have ends: "(16 * a + b div 16 = 2753) = (a = 172 \<and> 16 \<le> b \<and> b \<le> 31)"
    using pair [OF r16(1,2), of 1 a 172] r16(3) by simp
  have ends2: "(4 * a + b div 64 = 401) = (a = 100 \<and> 64 \<le> b \<and> b \<le> 127)"
    using pair [OF r64(1,2), of 1 a 100] r64(3) by simp
  have ends3: "(128 * a + b div 2 = 25353) = (a = 198 \<and> (b = 18 \<or> b = 19))"
    using pair [OF r2(1,2), of 9 a 198] r2(3) by simp
  have ends4: "(a div 32 = 7) = (224 \<le> a)" using o by auto
  have b256: "b < 256" "c < 256" using o by simp_all
  have ends5: "(256 * a + b = 43518) = (a = 169 \<and> b = 254)" "(256 * a + b = 49320) = (a = 192 \<and> b = 168)"
    using pair [OF o(2) b256(1), of 254 a 169] pair [OF o(2) b256(1), of 168 a 192] by simp_all
  note ends = ends ends2 ends3 ends4 ends5
  have threes: "(65536 * a + 256 * b + c = 65536 * x + 256 * y + z) = (a = x \<and> b = y \<and> c = z)"
    if "0 \<le> y" "y < 256" "0 \<le> z" "z < 256" for x y z
  proof -
    have "(256 * (256 * a + b) + c = 256 * (256 * x + y) + z) = (256 * a + b = 256 * x + y \<and> c = z)"
      by (rule pair [OF o(3) b256(2) that(3,4)])
    moreover have "(256 * a + b = 256 * x + y) = (a = x \<and> b = y)" by (rule pair [OF o(2) b256(1) that(1,2)])
    ultimately show ?thesis by (simp add: algebra_simps)
  qed
  note t = threes [of 0 0 192] threes [of 0 2 192] threes [of 51 100 198] threes [of 0 113 203]
  have t': "(65536 * a + 256 * b + c = 12582912) = (a = 192 \<and> b = 0 \<and> c = 0)"
    "(65536 * a + 256 * b + c = 12582914) = (a = 192 \<and> b = 0 \<and> c = 2)"
    "(65536 * a + 256 * b + c = 12989284) = (a = 198 \<and> b = 51 \<and> c = 100)"
    "(65536 * a + 256 * b + c = 13303921) = (a = 203 \<and> b = 0 \<and> c = 113)"
    using t by simp_all
  note dv = addrOf_div [OF assms]
  have bl: "inBlock (addrOf a b c d) (x, n) = (addrOf a b c d div 2 ^ (32 - n) = x div 2 ^ (32 - n))" for x n
    by (simp add: inBlock_def)
  have bases: "addrOf 0 0 0 0 = 0"
    "addrOf 10 0 0 0 = 167772160"
    "addrOf 127 0 0 0 = 2130706432"
    "addrOf 169 254 0 0 = 2851995648"
    "addrOf 172 16 0 0 = 2886729728"
    "addrOf 192 168 0 0 = 3232235520"
    "addrOf 100 64 0 0 = 1681915904"
    "addrOf 192 0 0 0 = 3221225472"
    "addrOf 192 0 2 0 = 3221225984"
    "addrOf 198 18 0 0 = 3323068416"
    "addrOf 198 51 100 0 = 3325256704"
    "addrOf 203 0 113 0 = 3405803776"
    "addrOf 224 0 0 0 = 3758096384"
    by (simp_all add: addrOf_def)
  have blocks: "inBlock (addrOf a b c d) (addrOf 0 0 0 0, 8) = (a = 0)"
    "inBlock (addrOf a b c d) (addrOf 10 0 0 0, 8) = (a = 10)"
    "inBlock (addrOf a b c d) (addrOf 127 0 0 0, 8) = (a = 127)"
    "inBlock (addrOf a b c d) (addrOf 169 254 0 0, 16) = (a = 169 \<and> b = 254)"
    "inBlock (addrOf a b c d) (addrOf 172 16 0 0, 12) = (a = 172 \<and> 16 \<le> b \<and> b \<le> 31)"
    "inBlock (addrOf a b c d) (addrOf 192 168 0 0, 16) = (a = 192 \<and> b = 168)"
    "inBlock (addrOf a b c d) (addrOf 100 64 0 0, 10) = (a = 100 \<and> 64 \<le> b \<and> b \<le> 127)"
    "inBlock (addrOf a b c d) (addrOf 192 0 0 0, 24) = (a = 192 \<and> b = 0 \<and> c = 0)"
    "inBlock (addrOf a b c d) (addrOf 192 0 2 0, 24) = (a = 192 \<and> b = 0 \<and> c = 2)"
    "inBlock (addrOf a b c d) (addrOf 198 18 0 0, 15) = (a = 198 \<and> (b = 18 \<or> b = 19))"
    "inBlock (addrOf a b c d) (addrOf 198 51 100 0, 24) = (a = 198 \<and> b = 51 \<and> c = 100)"
    "inBlock (addrOf a b c d) (addrOf 203 0 113 0, 24) = (a = 203 \<and> b = 0 \<and> c = 113)"
    "inBlock (addrOf a b c d) (addrOf 224 0 0 0, 3) = (224 \<le> a)"
    unfolding bl bases by (simp_all add: dv ends t')
  have lx: "list_ex P (x # xs) = (P x \<or> list_ex P xs)" "list_ex P [] = False"
    for P :: "int \<times> nat \<Rightarrow> bool" and x xs
    by simp_all
  have "privateV4 (addrOf a b c d) =
     (a = 0 \<or> a = 10 \<or> a = 127 \<or> (a = 169 \<and> b = 254) \<or> (a = 172 \<and> 16 \<le> b \<and> b \<le> 31)
      \<or> (a = 192 \<and> b = 168) \<or> (a = 100 \<and> 64 \<le> b \<and> b \<le> 127) \<or> (a = 192 \<and> b = 0 \<and> c = 0)
      \<or> (a = 192 \<and> b = 0 \<and> c = 2) \<or> (a = 198 \<and> (b = 18 \<or> b = 19))
      \<or> (a = 198 \<and> b = 51 \<and> c = 100) \<or> (a = 203 \<and> b = 0 \<and> c = 113) \<or> 224 \<le> a)"
    by (simp only: privateV4_def PRIVATE_V4_BLOCKS_def lx blocks simp_thms)
  moreover have "(if P then True else Q) = (P \<or> Q)" for P Q by simp
  ultimately show ?thesis by (simp only: privateOctets.simps simp_thms disj_assoc)
qed

subsection \<open>Embedded addresses\<close>

lemma hextet_bytes:
  assumes "octets [a, b, c, d]"
  shows "drop_bit 8 (256 * a + b) AND 255 = a" "(256 * a + b) AND 255 = b"
    "push_bit 8 a OR b = 256 * a + b"
proof -
  have o: "0 \<le> a" "a < 256" "0 \<le> b" "b < 256" using assms by (simp_all add: octets_def)
  have low: "n AND 255 = n mod 256" for n :: int
    using take_bit_eq_mask [of 8 n] by (simp add: mask_eq_exp_minus_1 take_bit_eq_mod)
  have high: "drop_bit 8 n = n div 256" for n :: int by (simp add: drop_bit_eq_div)
  show "drop_bit 8 (256 * a + b) AND 255 = a" "(256 * a + b) AND 255 = b"
    unfolding low high using o by simp_all
  have "take_bit 8 b = b" using o by (simp add: take_bit_int_eq_self_iff)
  then have "push_bit 8 a OR b = concat_bit 8 b a" unfolding concat_bit_def by (simp only: or.commute)
  also have "\<dots> = b + a * 2 ^ 8" unfolding concat_bit_eq \<open>take_bit 8 b = b\<close> push_bit_eq_mult ..
  also have "\<dots> = 256 * a + b" by simp
  finally show "push_bit 8 a OR b = 256 * a + b" .
qed

text \<open>The hextets that carry an IPv4 address.\<close>

lemma embeddedV4IsPrivate_octets:
  assumes "octets [a, b, c, d]"
  shows "embeddedV4IsPrivate (256 * a + b) (256 * c + d) = privateV4 (addrOf a b c d)"
proof -
  have "octets [c, d, a, b]" using assms by (simp add: octets_def)
  note h = hextet_bytes [OF assms] hextet_bytes [OF this]
  show ?thesis
    by (simp only: embeddedV4IsPrivate_def h isPrivateIPv4_def parseIPv4_dotted [OF assms]
        privateOctets_blocks [OF assms] option.case)
qed

text \<open>The encodings of an IPv4 address as eight hextets: mapped, compatible, NAT64 and 6to4.\<close>

definition v4Embeddings :: "int \<Rightarrow> int \<Rightarrow> int list \<Rightarrow> int list list" where
  "v4Embeddings hi lo free =
     [[0, 0, 0, 0, 0, 0xffff, hi, lo],
      [0, 0, 0, 0, 0, 0, hi, lo],
      [0x64, 0xff9b, 0, 0, 0, 0, hi, lo],
      [0x2002, hi, lo] @ take 5 (free @ [0, 0, 0, 0, 0])]"

lemma privateHextets_embeddings:
  assumes o: "octets [a, b, c, d]" and p: "privateV4 (addrOf a b c d)"
    and g: "g \<in> set (v4Embeddings (256 * a + b) (256 * c + d) free)"
  shows "privateHextets g"
proof -
  have e: "embeddedV4IsPrivate (256 * a + b) (256 * c + d)"
    using embeddedV4IsPrivate_octets [OF o] p by (simp only:)
  have "privateHextets [0, 0, 0, 0, 0, 0xffff, hi, lo]" "privateHextets [0, 0, 0, 0, 0, 0, hi, lo]"
    "privateHextets [0x64, 0xff9b, 0, 0, 0, 0, hi, lo]" "privateHextets (0x2002 # hi # lo # tail)"
    if "embeddedV4IsPrivate hi lo" for hi lo tail
    using that by (simp_all add: privateHextets_def Let_def)
  note this [OF e]
  then show ?thesis using g unfolding v4Embeddings_def by (auto simp only: set_simps append.simps)
qed

text \<open>A public IPv4 address is public in the mapped form too.\<close>

lemma privateHextets_mapped:
  assumes "octets [a, b, c, d]"
  shows "privateHextets [0, 0, 0, 0, 0, 0xffff, 256 * a + b, 256 * c + d] = privateV4 (addrOf a b c d)"
  by (simp add: privateHextets_def Let_def embeddedV4IsPrivate_octets [OF assms])


subsection \<open>Hexadecimal groups\<close>

lemma hexDigit_facts:
  assumes "0 \<le> n" "n < 16"
  shows "isHexDigit (hexDigitChar n)" "hexVal (hexDigitChar n) = n"
    "hexDigitChar n \<noteq> CHR '':''" "hexDigitChar n \<noteq> CHR ''.''" "hexDigitChar n \<noteq> CHR ''%''"
    "hexDigitChar n \<noteq> CHR '']''" "lowerChar (hexDigitChar n) = hexDigitChar n"
proof -
  define m where "m = (if n < 10 then n + 48 else n + 87)"
  have m: "0 \<le> m" "m < 256" "m = n + 48 \<and> n < 10 \<or> m = n + 87 \<and> 10 \<le> n"
    using assms by (auto simp: m_def)
  have h: "hexDigitChar n = codeChar m" by (simp add: hexDigitChar_def codeChar_def m_def)
  note c = of_codeChar [OF m(1,2)]
  have k: "48 \<le> nat m \<and> nat m \<le> 57 \<and> nat m = nat n + 48 \<or> 97 \<le> nat m \<and> nat m \<le> 102 \<and> nat m = nat n + 87"
    using m assms by linarith
  show "isHexDigit (hexDigitChar n)" using k unfolding isHexDigit_def isDigit_def h c by auto
  show "hexVal (hexDigitChar n) = n" using m k assms unfolding hexVal_def isDigit_def digitVal_def h c by auto
  have ne: "hexDigitChar n \<noteq> x" if "(of_char x :: nat) \<in> {58, 46, 37, 93}" for x
    using that k c unfolding h by auto
  show "hexDigitChar n \<noteq> CHR '':''" "hexDigitChar n \<noteq> CHR ''.''" "hexDigitChar n \<noteq> CHR ''%''"
    "hexDigitChar n \<noteq> CHR '']''" by (rule ne; simp)+
  show "lowerChar (hexDigitChar n) = hexDigitChar n" using k unfolding lowerChar_def Let_def h c by auto
qed

definition nibble :: "int \<Rightarrow> bool" where
  "nibble n = (0 \<le> n \<and> n < 16)"

lemma hexNumber_nibbles:
  "nibble w \<Longrightarrow> hexNumber [hexDigitChar w] = w"
  "nibble w \<Longrightarrow> nibble x \<Longrightarrow> hexNumber [hexDigitChar w, hexDigitChar x] = 16 * w + x"
  "nibble w \<Longrightarrow> nibble x \<Longrightarrow> nibble y \<Longrightarrow>
     hexNumber [hexDigitChar w, hexDigitChar x, hexDigitChar y] = 16 * (16 * w + x) + y"
  "nibble w \<Longrightarrow> nibble x \<Longrightarrow> nibble y \<Longrightarrow> nibble z \<Longrightarrow>
     hexNumber [hexDigitChar w, hexDigitChar x, hexDigitChar y, hexDigitChar z]
       = 16 * (16 * (16 * w + x) + y) + z"
  by (simp_all add: hexNumber_def nibble_def hexDigit_facts)

definition plainGroup :: "string \<Rightarrow> bool" where
  "plainGroup s = (groupText s \<and> CHR '':'' \<notin> set s \<and> CHR ''.'' \<notin> set s)"

lemma plainGroup_nibbles:
  "nibble w \<Longrightarrow> plainGroup [hexDigitChar w]"
  "nibble w \<Longrightarrow> nibble x \<Longrightarrow> plainGroup [hexDigitChar w, hexDigitChar x]"
  "nibble w \<Longrightarrow> nibble x \<Longrightarrow> nibble y \<Longrightarrow> plainGroup [hexDigitChar w, hexDigitChar x, hexDigitChar y]"
  "nibble w \<Longrightarrow> nibble x \<Longrightarrow> nibble y \<Longrightarrow> nibble z \<Longrightarrow>
     plainGroup [hexDigitChar w, hexDigitChar x, hexDigitChar y, hexDigitChar z]"
  by (simp_all add: plainGroup_def groupText_def nibble_def hexDigit_facts
      eq_commute [of "CHR '':''"] eq_commute [of "CHR ''.''"])

definition hextet :: "int \<Rightarrow> bool" where
  "hextet n = (0 \<le> n \<and> n < 65536)"

lemma toHexText_facts:
  assumes "hextet n"
  shows "groupText (toHexText n)" "hexNumber (toHexText n) = n"
    "CHR '':'' \<notin> set (toHexText n)" "CHR ''.'' \<notin> set (toHexText n)" 
proof -
  have n: "0 \<le> n" "n < 65536" using assms by (simp_all add: hextet_def)
  have d: "nibble (n mod 16)" "nibble (n div 16 mod 16)" "nibble (n div 256 mod 16)" "nibble (n div 4096)"
    "n < 16 \<Longrightarrow> nibble n" "n < 256 \<Longrightarrow> nibble (n div 16)" "n < 4096 \<Longrightarrow> nibble (n div 256)"
    unfolding nibble_def using n by auto
  have s: "n div 256 = n div 16 div 16" "n div 4096 = n div 16 div 16 div 16"
    by (simp_all add: zdiv_zmult2_eq [symmetric])
  have e: "16 * (n div 16) + n mod 16 = n"
    "16 * (n div 16 div 16) + n div 16 mod 16 = n div 16"
    "16 * (n div 16 div 16 div 16) + n div 16 div 16 mod 16 = n div 16 div 16"
    by simp_all
  consider "n < 16" | "\<not> n < 16" "n < 256" | "\<not> n < 16" "\<not> n < 256" "n < 4096"
    | "\<not> n < 16" "\<not> n < 256" "\<not> n < 4096" by linarith
  then have "hexNumber (toHexText n) = n \<and> plainGroup (toHexText n)"
  proof cases
    case 1
    then have t: "toHexText n = [hexDigitChar n]" by (simp only: toHexText_def if_True)
    note k = d(5) [OF 1]
    show ?thesis unfolding t by (intro conjI hexNumber_nibbles(1) plainGroup_nibbles(1) k)
  next
    case 2
    then have t: "toHexText n = [hexDigitChar (n div 16), hexDigitChar (n mod 16)]"
      by (simp only: toHexText_def if_True if_False)
    note k = d(6) [OF 2(2)] d(1)
    show ?thesis using hexNumber_nibbles(2) [OF k] plainGroup_nibbles(2) [OF k] unfolding t s e by (rule conjI)
  next
    case 3
    then have t: "toHexText n = [hexDigitChar (n div 256), hexDigitChar (n div 16 mod 16), hexDigitChar (n mod 16)]"
      by (simp only: toHexText_def if_True if_False)
    note k = d(7) [OF 3(3)] d(2,1)
    show ?thesis using hexNumber_nibbles(3) [OF k] plainGroup_nibbles(3) [OF k] unfolding t s e by (rule conjI)
  next
    case 4
    then have t: "toHexText n = [hexDigitChar (n div 4096), hexDigitChar (n div 256 mod 16),
        hexDigitChar (n div 16 mod 16), hexDigitChar (n mod 16)]"
      by (simp only: toHexText_def if_False)
    note k = d(4,3,2,1)
    show ?thesis using hexNumber_nibbles(4) [OF k] plainGroup_nibbles(4) [OF k] unfolding t s e by (rule conjI)
  qed
  then show "groupText (toHexText n)" "hexNumber (toHexText n) = n"
    "CHR '':'' \<notin> set (toHexText n)" "CHR ''.'' \<notin> set (toHexText n)" by (simp_all add: plainGroup_def)
qed

subsection \<open>The expansion of IPv6 texts\<close>

lemma hexVal_range: "isHexDigit c \<Longrightarrow> 0 \<le> hexVal c \<and> hexVal c < 16"
proof -
  assume h: "isHexDigit c"
  have n: "(of_char c :: int) = int (of_char c)" by (simp only: of_nat_of_char)
  show ?thesis using h unfolding hexVal_def digitVal_def isHexDigit_def isDigit_def n by (auto split: if_splits)
qed

lemma foldl_hex_range:
  "list_all isHexDigit s \<Longrightarrow> 0 \<le> m \<Longrightarrow>
   0 \<le> foldl (\<lambda>n c. 16 * n + hexVal c) m s \<and> foldl (\<lambda>n c. 16 * n + hexVal c) m s < (m + 1) * 16 ^ length s"
proof (induction s arbitrary: m)
  case (Cons c s)
  then have c: "0 \<le> hexVal c" "hexVal c < 16" using hexVal_range by auto
  then have m: "0 \<le> 16 * m + hexVal c" using Cons.prems by simp
  have "(16 * m + hexVal c + 1) * 16 ^ length s \<le> (16 * (m + 1)) * 16 ^ length s"
    using c by (intro mult_right_mono) auto
  also have "\<dots> = (m + 1) * 16 ^ length (c # s)" by simp
  finally have "(16 * m + hexVal c + 1) * 16 ^ length s \<le> (m + 1) * 16 ^ length (c # s)" .
  moreover have "list_all isHexDigit s" using Cons.prems by simp
  ultimately show ?case using Cons.IH [OF _ m] unfolding foldl_Cons by linarith
qed simp

lemma hexNumber_hextet: "groupText g \<Longrightarrow> hextet (hexNumber g)"
proof -
  assume g: "groupText g"
  then have "(16::int) ^ length g \<le> 16 ^ 4" by (intro power_increasing) (auto simp: groupText_def)
  moreover have "0 \<le> hexNumber g \<and> hexNumber g < (0 + 1) * 16 ^ length g"
    using foldl_hex_range [of g 0] g by (simp add: groupText_def hexNumber_def)
  ultimately show ?thesis by (auto simp: hextet_def)
qed

lemma parseGroups_hextets: "parseGroups s = Some gs \<Longrightarrow> list_all hextet gs"
  by (auto simp: parseGroups_def list_all_iff hexNumber_hextet split: if_splits)

lemma expandIPv6_groups:
  assumes "expandIPv6 input = Some groups"
  shows "length groups = 8" "list_all hextet groups"
proof -
  show "length groups = 8" using assms
    by (auto simp: expandIPv6_def Let_def split: if_splits option.splits)
  have "list_all hextet (replicate k 0)" for k by (simp add: list_all_iff hextet_def)
  then show "list_all hextet groups" using assms parseGroups_hextets
    by (fastforce simp: expandIPv6_def Let_def split: if_splits option.splits)
qed


subsection \<open>Mapped texts\<close>

text \<open>A lower-case text with one double colon in front and plain groups after it.\<close>

lemma groupText_no_sep:
  assumes "groupText s"
  shows "CHR ''.'' \<notin> set s" "CHR '':'' \<notin> set s" "s \<noteq> []"
  using assms by (auto simp: groupText_def list_all_iff isHexDigit_def isDigit_def)

lemma indexOfDouble_none: "CHR '':'' \<notin> set s \<Longrightarrow> indexOfDouble s = None \<and> lastIndexOfDouble s = None"
  by (induction s rule: indexOfDouble.induct) auto

lemma indexOfDouble_head: "indexOfDouble (CHR '':'' # CHR '':'' # s) = Some 0"
  by simp

lemma lastIndexOfDouble_plain:
  assumes "CHR '':'' \<notin> set s" "s \<noteq> []"
  shows "lastIndexOfDouble (s @ t) = map_option (\<lambda>n. n + length s) (lastIndexOfDouble t)"
  using assms
proof (induction s)
  case (Cons x s)
  show ?case
  proof (cases s)
    case Nil
    then show ?thesis using Cons.prems by (cases t) (auto split: option.splits)
  next
    case (Cons y s')
    then show ?thesis using Cons.IH Cons.prems by (auto split: option.splits)
  qed
qed simp

lemma lastIndexOfDouble_colon:
  assumes "CHR '':'' \<notin> set s" "s \<noteq> []"
  shows "lastIndexOfDouble (CHR '':'' # s @ t) = map_option (\<lambda>n. n + Suc (length s)) (lastIndexOfDouble t)"
proof -
  obtain x s' where "s = x # s'" using assms by (cases s) auto
  then show ?thesis using lastIndexOfDouble_plain [OF assms, of t] assms by (auto split: option.splits)
qed

lemma lowerChar_digit: "isDigit c \<Longrightarrow> lowerChar c = c"
  by (auto simp: isDigit_def lowerChar_def Let_def)

lemma toLowerCase_octet: "octetText s \<Longrightarrow> toLowerCase s = s"
  by (auto simp: octetText_def toLowerCase_def list_all_iff lowerChar_digit intro: map_idI)

lemma toLowerCase_append: "toLowerCase (s @ t) = toLowerCase s @ toLowerCase t"
  by (simp add: toLowerCase_def)

lemma dotted_facts:
  assumes "octets [a, b, c, d]"
  shows "toLowerCase (dottedText a b c d) = dottedText a b c d"
    "CHR '':'' \<notin> set (dottedText a b c d)" "CHR ''%'' \<notin> set (dottedText a b c d)"
    "CHR ''.'' \<in> set (dottedText a b c d)" "last (dottedText a b c d) \<noteq> CHR '']''" "dottedText a b c d \<noteq> []"
proof -
  have t: "octetText (decimalText a)" "octetText (decimalText b)" "octetText (decimalText c)" "octetText (decimalText d)"
    using assms by (simp_all add: octets_def decimalText_facts)
  have dot: "toLowerCase ''.'' = ''.''" by code_simp
  show "toLowerCase (dottedText a b c d) = dottedText a b c d"
    by (simp only: dottedText_def toLowerCase_append toLowerCase_octet t dot)
  show "CHR '':'' \<notin> set (dottedText a b c d)" "CHR ''%'' \<notin> set (dottedText a b c d)"
    using octetText_no_sep [OF t(1)] octetText_no_sep [OF t(2)] octetText_no_sep [OF t(3)] octetText_no_sep [OF t(4)]
    by (simp_all add: dottedText_def)
  show "CHR ''.'' \<in> set (dottedText a b c d)" "dottedText a b c d \<noteq> []" by (simp_all add: dottedText_def)
  have ne: "decimalText d \<noteq> []" using t(4) by (auto simp: octetText_def)
  moreover have "isDigit (last (decimalText d))" using t(4) last_in_set [OF ne] by (simp add: octetText_def list_all_iff)
  ultimately show "last (dottedText a b c d) \<noteq> CHR '']''"
    by (auto simp: dottedText_def isDigit_def)
qed

lemma splitLastColon_append:
  "CHR '':'' \<notin> set t \<Longrightarrow> splitLastColon (s @ CHR '':'' # t) = Some (s @ '':'', t)"
proof -
  assume t: "CHR '':'' \<notin> set t"
  have "takeWhile (\<lambda>c. c \<noteq> CHR '':'') (rev t @ CHR '':'' # rev s) = rev t"
    using t by (simp add: takeWhile_append)
  then show ?thesis by (simp add: splitLastColon_def)
qed

lemma foldDottedTail_mapped:
  assumes o: "octets [a, b, c, d]"
  shows "foldDottedTail (''::ffff:'' @ dottedText a b c d)
           = Some (''::ffff:'' @ toHexText (256 * a + b) @ '':'' @ toHexText (256 * c + d))"
proof -
  have o2: "octets [c, d, a, b]" using o by (simp add: octets_def)
  have "splitLastColon (''::ffff'' @ CHR '':'' # dottedText a b c d) = Some (''::ffff'' @ '':'', dottedText a b c d)"
    by (rule splitLastColon_append [OF dotted_facts(2) [OF o]])
  then have sl: "splitLastColon (''::ffff:'' @ dottedText a b c d) = Some (''::ffff:'', dottedText a b c d)" by simp
  have oct: "list_all octetText (map decimalText [a, b, c, d])" "length (map decimalText [a, b, c, d]) = 4"
    using o by (simp_all add: octets_def decimalText_facts)
  have dot: "(CHR ''.'' \<in> set (''::ffff:'' @ dottedText a b c d)) = True" using dotted_facts(4) [OF o] by simp
  show ?thesis unfolding foldDottedTail_def dot sl
    using oct by (simp add: splitOn_dotted [OF o] parseIPv4_dotted [OF o] hextet_bytes(3) [OF o]
        hextet_bytes(3) [OF o2] del: list.map)
qed

lemma mapped_one_double:
  assumes "hextet m" "hextet n"
  shows "lastIndexOfDouble (''::ffff:'' @ toHexText m @ '':'' @ toHexText n) = Some 0"
proof -
  note g1 = groupText_no_sep [OF toHexText_facts(1) [OF assms(1)]]
    and g2 = groupText_no_sep [OF toHexText_facts(1) [OF assms(2)]]
  have "lastIndexOfDouble (CHR '':'' # toHexText n @ []) = None"
    unfolding lastIndexOfDouble_colon [OF g2(2,3)] by simp
  then have "lastIndexOfDouble (CHR '':'' # toHexText m @ '':'' @ toHexText n) = None"
    unfolding lastIndexOfDouble_colon [OF g1(2,3)] by simp
  moreover have "lastIndexOfDouble (CHR '':'' # ''ffff'' @ t) = map_option (\<lambda>n. n + Suc (length ''ffff'')) (lastIndexOfDouble t)" for t
    by (rule lastIndexOfDouble_colon) simp_all
  ultimately have "lastIndexOfDouble (CHR '':'' # ''ffff'' @ CHR '':'' # toHexText m @ '':'' @ toHexText n) = None"
    by simp
  then show ?thesis by simp
qed

lemma mapped_groups:
  assumes "hextet m" "hextet n"
  shows "parseGroups (''ffff:'' @ toHexText m @ '':'' @ toHexText n) = Some [0xffff, m, n]"
proof -
  note g1 = groupText_no_sep [OF toHexText_facts(1) [OF assms(1)]]
    and g2 = groupText_no_sep [OF toHexText_facts(1) [OF assms(2)]]
  have ff: "CHR '':'' \<notin> set ''ffff''" by simp
  have "splitOn CHR '':'' (''ffff'' @ CHR '':'' # (toHexText m @ CHR '':'' # toHexText n)) = [''ffff'', toHexText m, toHexText n]"
    unfolding splitOn_append [OF ff] splitOn_append [OF g1(2)] splitOn_none [OF g2(2)] ..
  then have "splitOn CHR '':'' (''ffff:'' @ toHexText m @ '':'' @ toHexText n) = [''ffff'', toHexText m, toHexText n]" by simp
  moreover have "groupText ''ffff''" "hexNumber ''ffff'' = 0xffff"
    by (simp_all add: groupText_def isHexDigit_def hexNumber_def hexVal_def isDigit_def)
  ultimately show ?thesis by (simp add: parseGroups_def toHexText_facts assms)
qed

text \<open>The hextets a mapped text stands for.\<close>

lemma expandIPv6_mapped:
  assumes o: "octets [a, b, c, d]"
  shows "expandIPv6 (''::ffff:'' @ dottedText a b c d)
           = Some [0, 0, 0, 0, 0, 0xffff, 256 * a + b, 256 * c + d]"
proof -
  let ?q = "dottedText a b c d" and ?h1 = "toHexText (256 * a + b)" and ?h2 = "toHexText (256 * c + d)"
  have x: "hextet (256 * a + b)" "hextet (256 * c + d)" using o by (auto simp: octets_def hextet_def)
  have "toLowerCase ''::ffff:'' = ''::ffff:''" by code_simp
  then have low: "toLowerCase (''::ffff:'' @ ?q) = ''::ffff:'' @ ?q"
    by (simp only: toLowerCase_append dotted_facts [OF o])
  have strip: "stripBrackets (''::ffff:'' @ ?q) = ''::ffff:'' @ ?q"
    using dotted_facts(5,6) [OF o] by (simp add: stripBrackets_def startsWith_def Let_def)
  have zone: "takeWhile (\<lambda>c. c \<noteq> CHR ''%'') (''::ffff:'' @ ?q) = ''::ffff:'' @ ?q"
    using dotted_facts(3) [OF o] by (auto simp: takeWhile_eq_all_conv)
  have ix: "indexOfDouble (''::ffff:'' @ ?h1 @ '':'' @ ?h2) = Some 0" by simp
  have parts: "take 0 (''::ffff:'' @ ?h1 @ '':'' @ ?h2) = []"
    "drop (0 + 2) (''::ffff:'' @ ?h1 @ '':'' @ ?h2) = ''ffff:'' @ ?h1 @ '':'' @ ?h2" by simp_all
  have nil: "parseGroups [] = Some []" by (simp add: parseGroups_def)
  have ne: "''::ffff:'' @ ?q \<noteq> []" by simp
  show ?thesis
    unfolding expandIPv6_def Let_def low strip zone foldDottedTail_mapped [OF o] ix mapped_one_double [OF x]
      parts mapped_groups [OF x] option.case nil
    using ne by (simp add: numeral_eq_Suc)
qed

subsection \<open>Resolved addresses\<close>

lemma checkPublicIps_ok:
  "checkPublicIps h ips = None \<longleftrightarrow> list_all (\<lambda>ip. isWellFormedIp ip \<and> \<not> isPrivateIpAddress ip) ips"
  by (induction ips) auto

lemma checkLocalSubstrateIps_ok: "checkLocalSubstrateIps h ips = None \<longleftrightarrow> list_all isAllowedLocalSubstrateIp ips"
  by (induction ips) auto

lemma distinct_addToSet: "distinct xs \<Longrightarrow> distinct (addToSet x xs)"
  by (simp add: addToSet_def)

lemma distinct_collectAddresses: "distinct ips \<Longrightarrow> distinct (collectAddresses answers ips)"
  unfolding collectAddresses_def
  by (induction answers arbitrary: ips) (auto simp: distinct_addToSet)

lemma set_collectAddresses:
  "set (collectAddresses answers ips) = set ips \<union> {data. \<exists>t. (t, data) \<in> set answers \<and> (t = 1 \<or> t = 28)}"
proof (induction answers arbitrary: ips)
  case (Cons a answers)
  obtain t data where a: "a = (t, data)" by (cases a)
  have "collectAddresses (a # answers) ips = collectAddresses answers (if t = 1 \<or> t = 28 then addToSet data ips else ips)"
    by (simp add: collectAddresses_def a)
  moreover have "set (addToSet data ips) = insert data (set ips)" by (auto simp: addToSet_def)
  ultimately show ?case using Cons.IH by (auto simp: a)
qed (simp add: collectAddresses_def)

text \<open>
  What the walk keeps: no name is visited twice, and every collected address is the data of an
  A or AAAA answer for a visited name.
\<close>

definition answered :: "doh \<Rightarrow> string \<Rightarrow> string \<Rightarrow> bool" where
  "answered doh name ip =
     (\<exists>as bs t. doh name DnsA = Inr as \<and> doh name DnsAAAA = Inr bs \<and> (t, ip) \<in> set (as @ bs) \<and> (t = 1 \<or> t = 28))"

definition walk_wf :: "doh \<Rightarrow> string list \<times> string list \<Rightarrow> bool" where
  "walk_wf doh st = (distinct (fst st) \<and> distinct (snd st) \<and> (\<forall>ip \<in> set (snd st). \<exists>name \<in> set (fst st). answered doh name ip))"

lemma walk_keeps:
  "walk doh name depth st = Inr st' \<Longrightarrow> walk_wf doh st \<Longrightarrow> walk_wf doh st'"
  "walkCnames doh answers depth st = Inr st' \<Longrightarrow> walk_wf doh st \<Longrightarrow> walk_wf doh st'"
proof (induction doh name depth st and doh answers depth st arbitrary: st' and st' rule: walk_walkCnames.induct)
  case (1 doh name depth visited ips)
  let ?n = "normalizeHostname name"
  show ?case
  proof (cases "10 < depth \<or> ?n \<in> set visited")
    case True
    then show ?thesis using 1(2,3) by (auto simp: Let_def split: if_splits)
  next
    case False
    then obtain as bs cs where d: "doh ?n DnsA = Inr as" "doh ?n DnsAAAA = Inr bs" "doh ?n DnsCNAME = Inr cs"
      and r: "walkCnames doh cs depth (visited @ [?n], collectAddresses (as @ bs) ips) = Inr st'"
      using 1(2) by (auto simp: Let_def split: sum.splits)
    have "answered doh ?n ip" if "(t, ip) \<in> set (as @ bs)" "t = 1 \<or> t = 28" for t ip
      unfolding answered_def using d that by blast
    then have "walk_wf doh (visited @ [?n], collectAddresses (as @ bs) ips)"
      using 1(3) False by (fastforce simp: walk_wf_def distinct_collectAddresses set_collectAddresses)
    then show ?thesis using 1(1) [OF _ refl _ d r] False by simp
  qed
next
  case (3 doh t data answers depth st)
  show ?case
  proof (cases "t = 5")
    case True
    then obtain st1 where w: "walk doh data (depth + 1) st = Inr st1"
      and r: "walkCnames doh answers depth st1 = Inr st'"
      using 3(4) by (auto split: sum.splits)
    have "walk_wf doh st1" by (rule 3(1) [OF True w 3(5)])
    then show ?thesis by (rule 3(2) [OF True w r])
  next
    case False
    then show ?thesis using 3(3) [OF False] 3(4,5) by simp
  qed
qed simp

lemma walk_errors:
  "walk doh name depth st = Inl e \<Longrightarrow> e = ''DNS resolution exceeded max depth'' \<or> (\<exists>n t. doh n t = Inl e)"
  "walkCnames doh answers depth st = Inl e \<Longrightarrow> e = ''DNS resolution exceeded max depth'' \<or> (\<exists>n t. doh n t = Inl e)"
proof (induction doh name depth st and doh answers depth st rule: walk_walkCnames.induct)
  case (1 doh name depth visited ips)
  show ?case
  proof (cases "10 < depth \<or> normalizeHostname name \<in> set visited")
    case True
    then show ?thesis using 1(2) by (auto simp: Let_def split: if_splits)
  next
    case False
    then show ?thesis using 1(2) 1(1) [OF _ refl] by (fastforce simp: Let_def split: sum.splits)
  qed
next
  case (3 doh t data answers depth st)
  show ?case
  proof (cases "t = 5")
    case True
    then show ?thesis using 3(1,2) [OF True] 3(4) by (auto split: sum.splits)
  next
    case False
    then show ?thesis using 3(3) [OF False] 3(4) by simp
  qed
qed simp

subsection \<open>Properties\<close>

text \<open>
  On every dotted quad the IPv4 classifier of the code is membership in the reserved
  blocks, compared bit by bit with the prefix of each block; and the same address written as an
  IPv4-mapped IPv6 literal gets the same verdict from \<open>isPrivateIpAddress\<close>.
\<close>

theorem ipv4_classifier_is_block_membership:
  assumes "octets [a, b, c, d]"
  shows "isPrivateIPv4 (dottedText a b c d) = privateV4 (addrOf a b c d) \<and>
    isPrivateIpAddress (''::ffff:'' @ dottedText a b c d) = privateV4 (addrOf a b c d)"
proof -
  have v4: "isPrivateIPv4 (dottedText a b c d) = privateV4 (addrOf a b c d)"
    by (simp only: isPrivateIPv4_def parseIPv4_dotted [OF assms] option.case privateOctets_blocks [OF assms])
  have "isPrivateIPv6 (''::ffff:'' @ dottedText a b c d) = privateV4 (addrOf a b c d)"
    by (simp only: isPrivateIPv6_def expandIPv6_mapped [OF assms] option.case privateHextets_mapped [OF assms])
  moreover have "\<not> isPrivateIPv4 (''::ffff:'' @ s)" for s
  proof -
    have split: "\<exists>y ys. splitOn CHR ''.'' (CHR '':'' # t) = (CHR '':'' # y) # ys" for t
      by (cases "splitOn CHR ''.'' t") auto
    have "parseIPv4 (CHR '':'' # t) = None" for t
    proof -
      obtain y ys where "splitOn CHR ''.'' (CHR '':'' # t) = (CHR '':'' # y) # ys" using split by blast
      then show ?thesis by (simp only: parseIPv4_def Let_def) (simp add: octetText_def isDigit_def)
    qed
    then show ?thesis by (simp add: isPrivateIPv4_def)
  qed
  ultimately show ?thesis using v4 by (simp add: isPrivateIpAddress_def)
qed

theorem ipv4_classifier_is_block_membership_witness:
  "isPrivateIPv4 (dottedText 172 31 0 9) = privateV4 (addrOf 172 31 0 9) \<and> privateV4 (addrOf 172 31 0 9)"
  using ipv4_classifier_is_block_membership [of 172 31 0 9]
  by (simp add: octets_def privateV4_def PRIVATE_V4_BLOCKS_def inBlock_def addrOf_def)

text \<open>
  Every expansion has exactly eight hextets in range, and every encoding of a private IPv4
  address as hextets (mapped, compatible, NAT64, 6to4 with any remaining groups) is classified
  as private, however the literal was written.
\<close>

theorem embedded_private_ipv4_is_private:
  assumes "expandIPv6 host = Some groups"
  shows "length groups = 8 \<and> list_all hextet groups \<and>
    (\<forall>a b c d free. octets [a, b, c, d] \<longrightarrow> privateV4 (addrOf a b c d) \<longrightarrow>
       groups \<in> set (v4Embeddings (256 * a + b) (256 * c + d) free) \<longrightarrow> isPrivateIPv6 host)"
  using expandIPv6_groups [OF assms] privateHextets_embeddings by (simp add: isPrivateIPv6_def assms)

theorem embedded_private_ipv4_is_private_witness: "isPrivateIPv6 (''::ffff:'' @ dottedText 127 0 0 1)"
proof -
  have o: "octets [127, 0, 0, 1]" by (simp add: octets_def)
  have "privateV4 (addrOf 127 0 0 1)"
    by (simp add: privateV4_def PRIVATE_V4_BLOCKS_def inBlock_def addrOf_def)
  moreover have "[0, 0, 0, 0, 0, 0xffff, 256 * 127 + 0, 256 * 0 + 1] \<in> set (v4Embeddings (256 * 127 + 0) (256 * 0 + 1) [])"
    by (simp add: v4Embeddings_def)
  ultimately show ?thesis
    using embedded_private_ipv4_is_private [OF expandIPv6_mapped [OF o]] o by blast
qed


definition exampleUrl :: url where
  "exampleUrl = \<lparr>u_protocol = ''https:'', u_username = '''', u_password = '''', u_hostname = ''a.example'',
     u_host = ''a.example'', u_port = '''', u_pathname = ''/'', u_search = '''', u_hash = ''''\<rparr>"


text \<open>
  The resolver walk ends for every DNS, even one with CNAME cycles: it gives the addresses
  it collected, no name visited twice and every address the data of an A or AAAA answer for a
  visited name, or it fails with the error of a lookup or past depth 10.
\<close>

theorem resolver_walk_sound:
  "(\<exists>visited ips. walk doh hostname 0 ([], []) = Inr (visited, ips) \<and>
      resolveRemoteHostnameIPs doh hostname = Inr ips \<and> distinct visited \<and> distinct ips \<and>
      (\<forall>ip \<in> set ips. \<exists>name \<in> set visited. answered doh name ip)) \<or>
   (\<exists>e. resolveRemoteHostnameIPs doh hostname = Inl e \<and>
      (e = ''DNS resolution exceeded max depth'' \<or> (\<exists>name t. doh name t = Inl e)))"
proof (cases "walk doh hostname 0 ([], [])")
  case (Inl e)
  then show ?thesis using walk_errors(1) [OF Inl] by (auto simp: resolveRemoteHostnameIPs_def)
next
  case (Inr st)
  have "walk_wf doh ([], [])" by (simp add: walk_wf_def)
  from walk_keeps(1) [OF Inr this] show ?thesis using Inr
    by (cases st) (auto simp: walk_wf_def resolveRemoteHostnameIPs_def)
qed

text \<open>Two names that are aliases of each other.\<close>

definition cyclicDns :: doh where
  "cyclicDns name t =
     (case t of
        DnsA \<Rightarrow> Inr (if name = ''b.example'' then [(1, ''93.184.216.34'')] else [])
      | DnsAAAA \<Rightarrow> Inr []
      | DnsCNAME \<Rightarrow> Inr [(5, if name = ''b.example'' then ''A.example.'' else ''b.example'')])"

lemma cyclicDns_resolves: "resolveRemoteHostnameIPs cyclicDns ''a.example'' = Inr [''93.184.216.34'']"
  by code_simp

theorem resolver_walk_sound_witness:
  "\<exists>visited. walk cyclicDns ''a.example'' 0 ([], []) = Inr (visited, [''93.184.216.34'']) \<and> distinct visited \<and>
     (\<exists>name \<in> set visited. answered cyclicDns name ''93.184.216.34'')"
  using resolver_walk_sound [of cyclicDns "''a.example''"] cyclicDns_resolves by force

end
