(* ===== verification/Messages.thy ===== *)
theory Messages
  imports Tables
begin

section \<open>Delivery queue messages\<close>

text \<open>
  Models \<open>src/backend/lib/delivery/types.ts\<close> (the wire messages and their
  validators), the pure functions of \<open>transformers.ts\<close> and the message builders of
  \<open>queue.ts\<close>, \<open>resolution-outbox.ts\<close> and \<open>fanout-outbox.ts\<close>.

  A message is a value of \<open>qmsg\<close>; an optional field is an option. A queue delivers an
  arbitrary JSON value (\<open>jsval\<close>), which the validator admits or not; a decoder reads an
  admitted value back, so that handlers are stated on \<open>qmsg\<close>.
\<close>

subsection \<open>Messages\<close>

datatype fanout_stage = LocalMembers | RemoteMembers | RemoteFollowers

datatype qbody =
    FanoutFollowers (ff_activityId: string) (ff_followeeApId: string) (ff_cursor: "string option")
  | FanoutCommunity (fc_activityId: string) (fc_communityApId: string)
      (fc_announceActivityId: "string option") (fc_stage: "fanout_stage option") (fc_cursor: "string option")
  | ResolveActor (ra_activityId: string) (ra_recipientActorApId: string) (ra_attempts: "int option")
  | DeliverEndpoint (de_jobId: string) (de_reconcileAttempt: "int option")
  | ReconcileJob (rj_jobId: string) (rj_reconcileAttempt: int)
  | NotificationPush (np_jobId: string)

record qmsg =
  q_body :: qbody
  q_autoDlqAttempt :: "int option"
  q_scheduledAt :: string

record dlqmsg =
  d_jobId :: string
  d_activityId :: string
  d_endpoint :: string
  d_attempts :: int
  d_lastError :: "string option"
  d_reconcileAttempt :: "int option"
  d_deadLetteredAt :: string

definition DELIVERY_QUEUE_MESSAGE_VERSION :: int where "DELIVERY_QUEUE_MESSAGE_VERSION = 1"

subsection \<open>Validators\<close>

definition isOptionalNonNegativeInteger :: "jsval \<Rightarrow> bool" where
  "isOptionalNonNegativeInteger v = (v = JUndefined \<or> (isInteger v \<and> 0 \<le> intOf v))"

definition isDeliveryQueueMessageV1 :: "jsval \<Rightarrow> bool" where
  "isDeliveryQueueMessageV1 v =
     (isObjectLike v \<and>
      field v ''version'' = jint DELIVERY_QUEUE_MESSAGE_VERSION \<and>
      isStr (field v ''type'') \<and>
      isOptionalNonNegativeInteger (field v ''autoDlqAttempt'') \<and>
      (let t = strOf (field v ''type'')
       in if t = ''fanout_followers'' then
            isStr (field v ''activityId'') \<and> isStr (field v ''followeeApId'') \<and>
            (field v ''cursor'' = JUndefined \<or> isStr (field v ''cursor'')) \<and>
            isStr (field v ''scheduledAt'')
          else if t = ''fanout_community'' then
            isStr (field v ''activityId'') \<and> isStr (field v ''communityApId'') \<and>
            (field v ''stage'' = JUndefined \<or> field v ''stage'' = JStr ''local_members'' \<or>
             field v ''stage'' = JStr ''remote_members'' \<or> field v ''stage'' = JStr ''remote_followers'') \<and>
            (field v ''cursor'' = JUndefined \<or> isStr (field v ''cursor'')) \<and>
            isStr (field v ''scheduledAt'')
          else if t = ''resolve_actor'' then
            isStr (field v ''activityId'') \<and> isStr (field v ''recipientActorApId'') \<and>
            isOptionalNonNegativeInteger (field v ''attempts'') \<and>
            isStr (field v ''scheduledAt'')
          else if t = ''deliver_endpoint'' then
            isStr (field v ''jobId'') \<and>
            isOptionalNonNegativeInteger (field v ''reconcileAttempt'') \<and>
            isStr (field v ''scheduledAt'')
          else if t = ''reconcile_job'' then
            isStr (field v ''jobId'') \<and>
            isNumber (field v ''reconcileAttempt'') \<and>
            isSafeInteger (field v ''reconcileAttempt'') \<and>
            0 \<le> intOf (field v ''reconcileAttempt'') \<and>
            isStr (field v ''scheduledAt'')
          else if t = ''notification_push'' then
            isStr (field v ''jobId'') \<and> isStr (field v ''scheduledAt'')
          else False))"

definition isDeliveryDlqMessageV1 :: "jsval \<Rightarrow> bool" where
  "isDeliveryDlqMessageV1 v =
     (isObjectLike v \<and>
      field v ''version'' = jint DELIVERY_QUEUE_MESSAGE_VERSION \<and>
      field v ''type'' = JStr ''dlq'' \<and>
      isStr (field v ''jobId'') \<and>
      isStr (field v ''activityId'') \<and>
      isStr (field v ''endpoint'') \<and>
      isNumber (field v ''attempts'') \<and>
      (field v ''lastError'' = JNull \<or> isStr (field v ''lastError'')) \<and>
      isOptionalNonNegativeInteger (field v ''reconcileAttempt'') \<and>
      isStr (field v ''deadLetteredAt''))"

subsection \<open>The JSON value of a message\<close>

text \<open>A spread of an optional field: present exactly when it has a value.\<close>

definition optField :: "string \<Rightarrow> ('a \<Rightarrow> jsval) \<Rightarrow> 'a option \<Rightarrow> (string \<times> jsval) list" where
  "optField k f x = (case x of None \<Rightarrow> [] | Some a \<Rightarrow> [(k, f a)])"

fun stageName :: "fanout_stage \<Rightarrow> string" where
  "stageName LocalMembers = ''local_members''"
| "stageName RemoteMembers = ''remote_members''"
| "stageName RemoteFollowers = ''remote_followers''"

fun bodyType :: "qbody \<Rightarrow> string" where
  "bodyType (FanoutFollowers _ _ _) = ''fanout_followers''"
| "bodyType (FanoutCommunity _ _ _ _ _) = ''fanout_community''"
| "bodyType (ResolveActor _ _ _) = ''resolve_actor''"
| "bodyType (DeliverEndpoint _ _) = ''deliver_endpoint''"
| "bodyType (ReconcileJob _ _) = ''reconcile_job''"
| "bodyType (NotificationPush _) = ''notification_push''"

fun bodyFields :: "qbody \<Rightarrow> (string \<times> jsval) list" where
  "bodyFields (FanoutFollowers a f c) =
     [(''activityId'', JStr a), (''followeeApId'', JStr f)] @ optField ''cursor'' JStr c"
| "bodyFields (FanoutCommunity a g n st c) =
     [(''activityId'', JStr a), (''communityApId'', JStr g)] @ optField ''announceActivityId'' JStr n @
     optField ''stage'' (\<lambda>s. JStr (stageName s)) st @ optField ''cursor'' JStr c"
| "bodyFields (ResolveActor a r n) =
     [(''activityId'', JStr a), (''recipientActorApId'', JStr r)] @ optField ''attempts'' jint n"
| "bodyFields (DeliverEndpoint j n) = [(''jobId'', JStr j)] @ optField ''reconcileAttempt'' jint n"
| "bodyFields (ReconcileJob j n) = [(''jobId'', JStr j), (''reconcileAttempt'', jint n)]"
| "bodyFields (NotificationPush j) = [(''jobId'', JStr j)]"

definition qmsgJson :: "qmsg \<Rightarrow> jsval" where
  "qmsgJson m = JObj ([(''version'', jint DELIVERY_QUEUE_MESSAGE_VERSION), (''type'', JStr (bodyType (q_body m)))]
     @ optField ''autoDlqAttempt'' jint (q_autoDlqAttempt m)
     @ bodyFields (q_body m) @ [(''scheduledAt'', JStr (q_scheduledAt m))])"

definition dlqmsgJson :: "dlqmsg \<Rightarrow> jsval" where
  "dlqmsgJson m = JObj ([(''version'', jint 1), (''type'', JStr ''dlq''), (''jobId'', JStr (d_jobId m)),
     (''activityId'', JStr (d_activityId m)), (''endpoint'', JStr (d_endpoint m)),
     (''attempts'', jint (d_attempts m)),
     (''lastError'', case d_lastError m of None \<Rightarrow> JNull | Some e \<Rightarrow> JStr e)]
     @ optField ''reconcileAttempt'' jint (d_reconcileAttempt m)
     @ [(''deadLetteredAt'', JStr (d_deadLetteredAt m))])"

subsection \<open>Reading an admitted value\<close>

definition optStrOf :: "jsval \<Rightarrow> string option" where
  "optStrOf v = (case v of JStr s \<Rightarrow> Some s | _ \<Rightarrow> None)"

definition optIntOf :: "jsval \<Rightarrow> int option" where
  "optIntOf v = (if isInteger v then Some (intOf v) else None)"

definition optStageOf :: "jsval \<Rightarrow> fanout_stage option" where
  "optStageOf v =
     (if v = JStr ''local_members'' then Some LocalMembers
      else if v = JStr ''remote_members'' then Some RemoteMembers
      else if v = JStr ''remote_followers'' then Some RemoteFollowers else None)"

definition qbodyOf :: "jsval \<Rightarrow> qbody" where
  "qbodyOf v =
     (let t = strOf (field v ''type'')
      in if t = ''fanout_followers'' then
           FanoutFollowers (strOf (field v ''activityId'')) (strOf (field v ''followeeApId''))
             (optStrOf (field v ''cursor''))
         else if t = ''fanout_community'' then
           FanoutCommunity (strOf (field v ''activityId'')) (strOf (field v ''communityApId''))
             (optStrOf (field v ''announceActivityId'')) (optStageOf (field v ''stage''))
             (optStrOf (field v ''cursor''))
         else if t = ''resolve_actor'' then
           ResolveActor (strOf (field v ''activityId'')) (strOf (field v ''recipientActorApId''))
             (optIntOf (field v ''attempts''))
         else if t = ''deliver_endpoint'' then
           DeliverEndpoint (strOf (field v ''jobId'')) (optIntOf (field v ''reconcileAttempt''))
         else if t = ''reconcile_job'' then
           ReconcileJob (strOf (field v ''jobId'')) (intOf (field v ''reconcileAttempt''))
         else NotificationPush (strOf (field v ''jobId'')))"

definition qmsgOf :: "jsval \<Rightarrow> qmsg" where
  "qmsgOf v = \<lparr>q_body = qbodyOf v, q_autoDlqAttempt = optIntOf (field v ''autoDlqAttempt''),
     q_scheduledAt = strOf (field v ''scheduledAt'')\<rparr>"

definition dlqmsgOf :: "jsval \<Rightarrow> dlqmsg" where
  "dlqmsgOf v = \<lparr>d_jobId = strOf (field v ''jobId''), d_activityId = strOf (field v ''activityId''),
     d_endpoint = strOf (field v ''endpoint''), d_attempts = intOf (field v ''attempts''),
     d_lastError = optStrOf (field v ''lastError''),
     d_reconcileAttempt = optIntOf (field v ''reconcileAttempt''),
     d_deadLetteredAt = strOf (field v ''deadLetteredAt'')\<rparr>"

subsection \<open>Round trips\<close>

text \<open>The counters a message carries are never negative; the code only ever increments them.\<close>

fun body_wf :: "qbody \<Rightarrow> bool" where
  "body_wf (ResolveActor _ _ (Some n)) = (0 \<le> n)"
| "body_wf (DeliverEndpoint _ (Some n)) = (0 \<le> n)"
| "body_wf (ReconcileJob _ n) = (0 \<le> n \<and> n \<le> 2 ^ 53 - 1)"
| "body_wf _ = True"

definition qmsg_wf :: "qmsg \<Rightarrow> bool" where
  "qmsg_wf m = (body_wf (q_body m) \<and> (case q_autoDlqAttempt m of None \<Rightarrow> True | Some n \<Rightarrow> 0 \<le> n))"

lemma optOf_simps [simp]:
  "optStrOf (JStr s) = Some s" "optStrOf JUndefined = None" "optStrOf JNull = None"
  "optIntOf (jint n) = Some n" "optIntOf JUndefined = None"
  by (simp_all add: optStrOf_def optIntOf_def)

lemma map_of_optField [simp]:
  "(m ++ map_of (optField k f x)) k' = (if k' = k \<and> x \<noteq> None then Some (f (the x)) else m k')"
  "map_of (optField k f x) k' = (if k' = k \<and> x \<noteq> None then Some (f (the x)) else None)"
  by (cases x; auto simp: optField_def map_add_def)+

lemma isOptional_simps [simp]:
  "isOptionalNonNegativeInteger JUndefined" "isOptionalNonNegativeInteger (jint n) = (0 \<le> n)"
  by (simp_all add: isOptionalNonNegativeInteger_def)

lemma optStageOf_name [simp]: "optStageOf (JStr (stageName s)) = Some s" "optStageOf JUndefined = None"
  by (cases s) (simp_all add: optStageOf_def)

lemma isSafeInteger_jint [simp]: "isSafeInteger (jint n) = (\<bar>n\<bar> \<le> 2 ^ 53 - 1)"
  by (simp add: isSafeInteger_def)

lemma stageName_rest [simp]:
  "stageName s \<noteq> ''local_members'' \<Longrightarrow> stageName s \<noteq> ''remote_followers'' \<Longrightarrow> stageName s = ''remote_members''"
  by (cases s) simp_all

lemma stageName_any [simp]:
  "stageName s = ''local_members'' \<or> stageName s = ''remote_members'' \<or> stageName s = ''remote_followers''"
  by (cases s) simp_all

lemma qmsgJson_valid: "isDeliveryQueueMessageV1 (qmsgJson m) = qmsg_wf m"
proof -
  have opt: "(case x of None \<Rightarrow> True | Some n \<Rightarrow> 0 \<le> n) = ((\<exists>y. x = Some y) \<longrightarrow> 0 \<le> the x)" for x :: "int option"
    by (cases x) simp_all
  show ?thesis
  proof (cases "q_body m")
    case (FanoutFollowers a f c)
    then show ?thesis
      by (cases c) (simp_all add: qmsgJson_def isDeliveryQueueMessageV1_def qmsg_wf_def opt)
  next
    case (FanoutCommunity a g n st c)
    then show ?thesis
      by (cases c; cases st; simp add: qmsgJson_def isDeliveryQueueMessageV1_def qmsg_wf_def opt)
  next
    case (ResolveActor a r n)
    then show ?thesis
      by (cases n) (simp_all add: qmsgJson_def isDeliveryQueueMessageV1_def qmsg_wf_def opt conj_commute)
  next
    case (DeliverEndpoint j n)
    then show ?thesis
      by (cases n) (simp_all add: qmsgJson_def isDeliveryQueueMessageV1_def qmsg_wf_def opt conj_commute)
  next
    case (ReconcileJob j n)
    then show ?thesis
      by (auto simp add: qmsgJson_def isDeliveryQueueMessageV1_def qmsg_wf_def opt)
  next
    case (NotificationPush j)
    then show ?thesis
      by (simp add: qmsgJson_def isDeliveryQueueMessageV1_def qmsg_wf_def opt)
  qed
qed

lemma optField_case [simp]:
  "optIntOf (if x \<noteq> None then jint (the x) else JUndefined) = x"
  "optStrOf (if y \<noteq> None then JStr (the y) else JUndefined) = y"
  "optStageOf (if z \<noteq> None then JStr (stageName (the z)) else JUndefined) = z"
  by (cases x; cases y; cases z; simp)+

lemma qmsgOf_qmsgJson: "qmsgOf (qmsgJson m) = m"
proof -
  obtain b n t where m: "m = \<lparr>q_body = b, q_autoDlqAttempt = n, q_scheduledAt = t\<rparr>"
    by (cases m)
  show ?thesis
    by (cases b; cases n) (auto simp: m qmsgOf_def qmsgJson_def qbodyOf_def Let_def)
qed

lemma accepted_body_wf: "isDeliveryQueueMessageV1 v \<Longrightarrow> qmsg_wf (qmsgOf v)"
  by (auto simp: isDeliveryQueueMessageV1_def Let_def qmsg_wf_def qmsgOf_def qbodyOf_def optIntOf_def
      isSafeInteger_def isOptionalNonNegativeInteger_def split: if_splits)

text \<open>
  the queue messages survive the wire. The JSON of a message is admitted by
  \<open>isDeliveryQueueMessageV1\<close> exactly when its counters are not negative and safe
  integers, and reading an encoded message gives the message back with every optional field.
\<close>

theorem queue_message_roundtrip:
  "isDeliveryQueueMessageV1 (qmsgJson m) = qmsg_wf m \<and> qmsgOf (qmsgJson m) = m"
  by (simp add: qmsgJson_valid qmsgOf_qmsgJson)

lemma dlq_not_queue: "isDeliveryDlqMessageV1 v \<Longrightarrow> \<not> isDeliveryQueueMessageV1 v"
  by (auto simp: isDeliveryDlqMessageV1_def isDeliveryQueueMessageV1_def Let_def)

subsection \<open>Builders\<close>

text \<open>
  \<open>nowIso\<close> and \<open>new Date().toISOString()\<close> enter as the text of the current
  time, \<open>nowText\<close>. A message of generation zero is built without the counter.
\<close>

definition buildDeliverEndpointMessage :: "string \<Rightarrow> string \<Rightarrow> int \<Rightarrow> qmsg" where
  "buildDeliverEndpointMessage nowText jobId reconcileAttempt =
     \<lparr>q_body = DeliverEndpoint jobId (if 0 < reconcileAttempt then Some reconcileAttempt else None),
      q_autoDlqAttempt = None, q_scheduledAt = nowText\<rparr>"

definition buildReconcileJobMessage :: "string \<Rightarrow> string \<Rightarrow> int \<Rightarrow> qmsg" where
  "buildReconcileJobMessage nowText jobId reconcileAttempt =
     \<lparr>q_body = ReconcileJob jobId reconcileAttempt, q_autoDlqAttempt = None, q_scheduledAt = nowText\<rparr>"

definition buildResolveActorMessage :: "string \<Rightarrow> string \<Rightarrow> string \<Rightarrow> int \<Rightarrow> qmsg" where
  "buildResolveActorMessage nowText activityId recipientActorApId attempts =
     \<lparr>q_body = ResolveActor activityId recipientActorApId (if 0 < attempts then Some attempts else None),
      q_autoDlqAttempt = None, q_scheduledAt = nowText\<rparr>"

lemma builders_wf [simp]:
  "qmsg_wf (buildDeliverEndpointMessage t j n)"
  "qmsg_wf (buildReconcileJobMessage t j k) = (0 \<le> k \<and> k \<le> 2 ^ 53 - 1)"
  "qmsg_wf (buildResolveActorMessage t a r i)"
  by (simp_all add: qmsg_wf_def buildDeliverEndpointMessage_def buildReconcileJobMessage_def
      buildResolveActorMessage_def)

subsection \<open>Backoff\<close>

definition BACKOFF_SERIES_SECONDS :: "int list" where
  "BACKOFF_SERIES_SECONDS = [60, 120, 240, 480, 960, 1920, 3840, 7680]"

definition DELIVERY_MAX_ATTEMPTS :: int where
  "DELIVERY_MAX_ATTEMPTS = int (length BACKOFF_SERIES_SECONDS)"

text \<open>\<open>Math.round\<close>; the random number is the argument \<open>random\<close>.\<close>

definition mathRound :: "rat \<Rightarrow> int" where
  "mathRound x = \<lfloor>x + 1 / 2\<rfloor>"

definition computeRetryDelaySeconds :: "rat \<Rightarrow> int \<Rightarrow> secs" where
  "computeRetryDelaySeconds random nextAttempt =
     (let idx = max 0 (min (nextAttempt - 1) (int (length BACKOFF_SERIES_SECONDS) - 1));
          base = BACKOFF_SERIES_SECONDS ! nat idx;
          jitterFactor = 8 / 10 + random * (4 / 10)
      in max 1 (mathRound (of_int base * jitterFactor)))"

definition backoffBase :: "int \<Rightarrow> int" where
  "backoffBase n = 60 * 2 ^ nat (max 0 (min (n - 1) 7))"

lemma backoff_nth:
  "BACKOFF_SERIES_SECONDS ! nat (max 0 (min (n - 1) (int (length BACKOFF_SERIES_SECONDS) - 1))) = backoffBase n"
proof -
  define k where "k = nat (max 0 (min (n - 1) 7))"
  have "k < 8" by (simp add: k_def)
  then have "k = 0 \<or> k = 1 \<or> k = 2 \<or> k = 3 \<or> k = 4 \<or> k = 5 \<or> k = 6 \<or> k = 7" by auto
  then have "BACKOFF_SERIES_SECONDS ! k = 60 * 2 ^ k" by (auto simp: BACKOFF_SERIES_SECONDS_def)
  then show ?thesis by (simp add: k_def backoffBase_def BACKOFF_SERIES_SECONDS_def)
qed

lemma mathRound_mono: "x \<le> y \<Longrightarrow> mathRound x \<le> mathRound y"
  by (simp add: mathRound_def floor_mono)

lemma mathRound_of_int [simp]: "mathRound (of_int n) = n"
proof -
  have "\<lfloor>rat_of_int n + 1 / 2\<rfloor> = n" by (rule floor_unique) auto
  then show ?thesis by (simp add: mathRound_def)
qed

lemma retryDelay_bounds:
  assumes "0 \<le> random" "random < 1"
  shows "4 * backoffBase n \<le> 5 * computeRetryDelaySeconds random n \<and>
     5 * computeRetryDelaySeconds random n \<le> 6 * backoffBase n"
proof -
  let ?b = "backoffBase n"
  define q where "q = ?b div 5"
  have pos: "60 \<le> ?b" by (simp add: backoffBase_def)
  have q: "?b = 5 * q" by (simp add: q_def backoffBase_def)
  have eq: "computeRetryDelaySeconds random n = max 1 (mathRound (of_int ?b * (8 / 10 + random * (4 / 10))))"
    unfolding computeRetryDelaySeconds_def Let_def backoff_nth by (rule refl)
  have "(0 :: rat) \<le> of_int q" using pos q by simp
  then have "of_int (4 * q) \<le> of_int ?b * (8 / 10 + random * (4 / 10))"
    and "of_int ?b * (8 / 10 + random * (4 / 10)) \<le> of_int (6 * q)"
    using assms mult_left_mono [of 0 random "of_int q"] mult_left_mono [of random 1 "of_int q"]
    unfolding q by (simp_all add: algebra_simps)
  from mathRound_mono [OF this(1)] mathRound_mono [OF this(2)]
  have "4 * q \<le> computeRetryDelaySeconds random n \<and> computeRetryDelaySeconds random n \<le> 6 * q"
    unfolding eq mathRound_of_int using pos q by auto
  then show ?thesis using q by auto
qed

text \<open>
  retries back off. The delay before a retry is within 20 percent of its step of the
  doubling series, and whatever the random jitter of two retries, the delay of the later of
  two consecutive attempts is strictly larger as long as the series grows.
\<close>

theorem retry_delay_backs_off:
  assumes "0 \<le> r" "r < 1" "0 \<le> r'" "r' < 1" "1 \<le> n" "n < DELIVERY_MAX_ATTEMPTS"
  shows "4 * backoffBase n \<le> 5 * computeRetryDelaySeconds r n \<and>
     5 * computeRetryDelaySeconds r n \<le> 6 * backoffBase n \<and>
     computeRetryDelaySeconds r n < computeRetryDelaySeconds r' (n + 1)"
proof -
  have n: "n \<le> 7" using assms(6) by (simp add: DELIVERY_MAX_ATTEMPTS_def BACKOFF_SERIES_SECONDS_def)
  have "nat (max 0 (min n 7)) = Suc (nat (max 0 (min (n - 1) 7)))" using n assms(5) by simp
  then have double: "backoffBase (n + 1) = 2 * backoffBase n"
    unfolding backoffBase_def by (simp only: add_diff_cancel_right' power_Suc)
  have "0 < backoffBase n" by (simp add: backoffBase_def)
  then show ?thesis
    using retryDelay_bounds [OF assms(1,2), of n] retryDelay_bounds [OF assms(3,4), of "n + 1"] double
    by auto
qed

lemma retry_delay_backs_off_witness:
  "computeRetryDelaySeconds (9 / 10) 1 < computeRetryDelaySeconds (1 / 10) (1 + 1)"
  using retry_delay_backs_off [of "9 / 10" "1 / 10" 1]
  by (simp add: DELIVERY_MAX_ATTEMPTS_def BACKOFF_SERIES_SECONDS_def)

end
