(* ===== verification/Ledger.thy ===== *)
theory Ledger
  imports Messages
begin

section \<open>Durable ledgers with queue wakeups\<close>

text \<open>
  What the outboxes of the delivery pipeline share: a table next to a queue producer, the purge
  of terminal rows after the retention period, and the fencing of a claimed row by its
  processing token. The purge and the fence are stated as interfaces (locales) with the lemmas
  their clients use; the theories of the outboxes interpret them on their own operations.
\<close>

subsection \<open>Table and queue\<close>

record 'r outbox =
  ob_rows :: "'r list"
  ob_sent :: "qmsg list"

text \<open>
  A producer answers a batch with \<open>None\<close> when it took all of it, or fails after taking
  the first \<open>n\<close> messages.
\<close>

type_synonym queue_port = "qmsg list \<Rightarrow> nat option"

definition sendBatch :: "queue_port \<Rightarrow> qmsg list \<Rightarrow> ('r outbox, unit) act" where
  "sendBatch port msgs w =
     (case port msgs of
        None \<Rightarrow> (Inr (), w\<lparr>ob_sent := ob_sent w @ msgs\<rparr>)
      | Some n \<Rightarrow> (Inl ''queue unavailable'', w\<lparr>ob_sent := ob_sent w @ take n msgs\<rparr>))"

lemma sendBatch_rows [simp]: "ob_rows (snd (sendBatch port msgs w)) = ob_rows w"
  by (simp add: sendBatch_def split: option.splits)

subsection \<open>Purging terminal rows\<close>

text \<open>
  The select (terminal, old, oldest first, limited) and the delete that repeats its condition,
  as the three purge functions of the delivery code have them.
\<close>

definition expired :: "('r \<Rightarrow> bool) \<Rightarrow> ('r \<Rightarrow> ms) \<Rightarrow> ms \<Rightarrow> 'r \<Rightarrow> bool" where
  "expired isTerm upd cutoff r = (isTerm r \<and> upd r \<le> cutoff)"

definition selectPurge ::
  "('r \<Rightarrow> 'k) \<Rightarrow> ('r \<Rightarrow> bool) \<Rightarrow> ('r \<Rightarrow> ms) \<Rightarrow> nat \<Rightarrow> ms \<Rightarrow> 'r list \<Rightarrow> 'k list" where
  "selectPurge key isTerm upd limit cutoff rows =
     map key (take limit (sort_key upd (filter (expired isTerm upd cutoff) rows)))"

definition purgeRows ::
  "('r \<Rightarrow> 'k) \<Rightarrow> ('r \<Rightarrow> bool) \<Rightarrow> ('r \<Rightarrow> ms) \<Rightarrow> nat \<Rightarrow> ms \<Rightarrow> 'r list \<Rightarrow> nat \<times> 'r list" where
  "purgeRows key isTerm upd limit cutoff rows =
     (let ids = selectPurge key isTerm upd limit cutoff rows;
          P = (\<lambda>r. key r \<in> set ids \<and> expired isTerm upd cutoff r)
      in if ids = [] then (0, rows) else (affectedRows P rows, deleteWhere P rows))"

lemma affectedRows_conj:
  "affectedRows (\<lambda>r. Q r \<and> \<not> P r) rows + affectedRows (\<lambda>r. P r \<and> Q r) rows = affectedRows Q rows"
  by (induction rows) (auto simp: affectedRows_def)

lemma affectedRows_deleteWhere:
  "affectedRows Q (deleteWhere P rows) = affectedRows (\<lambda>r. Q r \<and> \<not> P r) rows"
  by (induction rows) (auto simp: affectedRows_def deleteWhere_def)

text \<open>Selecting rows by the keys of a subset of a table with unique keys selects the subset.\<close>

lemma affectedRows_selected:
  assumes u: "keysUnique key rows" and sel: "distinct sel" "set sel \<subseteq> set rows" "list_all Q sel"
  shows "affectedRows (\<lambda>r. key r \<in> set (map key sel) \<and> Q r) rows = length sel"
proof -
  have "r \<in> set sel" if "r \<in> set rows" "r' \<in> set sel" "key r = key r'" for r r'
    using that u sel(2) by (metis selectBy_mem option.inject subsetD)
  then have "set (filter (\<lambda>r. key r \<in> set (map key sel) \<and> Q r) rows) = set sel"
    using sel(2,3) by (auto simp: list_all_iff)
  moreover have "distinct rows" using u by (simp add: keysUnique_def distinct_map)
  ultimately show ?thesis using sel(1) unfolding affectedRows_def by (metis distinct_card distinct_filter)
qed

lemma affectedRows_purge:
  assumes "keysUnique key rows"
  shows "affectedRows (\<lambda>r. key r \<in> set (selectPurge key isTerm upd limit cutoff rows) \<and> expired isTerm upd cutoff r) rows
           = min limit (affectedRows (expired isTerm upd cutoff) rows)"
proof -
  let ?sel = "take limit (sort_key upd (filter (expired isTerm upd cutoff) rows))"
  have "distinct rows" using assms by (simp add: keysUnique_def distinct_map)
  then have "distinct ?sel" by (simp add: distinct_take)
  moreover have sub: "set ?sel \<subseteq> set (filter (expired isTerm upd cutoff) rows)"
    using set_take_subset [of limit "sort_key upd (filter (expired isTerm upd cutoff) rows)"] by simp
  moreover have "list_all (expired isTerm upd cutoff) ?sel" using sub by (auto simp: list_all_iff)
  ultimately have "affectedRows (\<lambda>r. key r \<in> set (map key ?sel) \<and> expired isTerm upd cutoff r) rows = length ?sel"
    by (intro affectedRows_selected assms) auto
  then show ?thesis by (simp add: selectPurge_def affectedRows_def min.commute)
qed

lemma selectPurge_Nil:
  "selectPurge key isTerm upd limit cutoff rows = []
     \<longleftrightarrow> min limit (affectedRows (expired isTerm upd cutoff) rows) = 0"
proof -
  have "length (selectPurge key isTerm upd limit cutoff rows) = min limit (affectedRows (expired isTerm upd cutoff) rows)"
    by (simp add: selectPurge_def affectedRows_def min.commute)
  then show ?thesis by (metis length_0_conv)
qed

text \<open>What a purge does: the count it returns, the rows it keeps and the ones it leaves for later.\<close>

lemma purgeRows_count:
  "keysUnique key rows \<Longrightarrow> fst (purgeRows key isTerm upd limit cutoff rows)
     = min limit (affectedRows (expired isTerm upd cutoff) rows)"
  using affectedRows_purge [of key rows isTerm upd limit cutoff] selectPurge_Nil [of key isTerm upd limit cutoff rows]
  by (auto simp: purgeRows_def Let_def)

lemma purgeRows_rest:
  assumes "keysUnique key rows"
  shows "affectedRows (expired isTerm upd cutoff) (snd (purgeRows key isTerm upd limit cutoff rows))
     = affectedRows (expired isTerm upd cutoff) rows - limit"
proof -
  let ?E = "expired isTerm upd cutoff"
  let ?P = "\<lambda>r. key r \<in> set (selectPurge key isTerm upd limit cutoff rows) \<and> ?E r"
  have "affectedRows ?E (deleteWhere ?P rows) + min limit (affectedRows ?E rows) = affectedRows ?E rows"
    using affectedRows_conj [of ?E ?P rows] affectedRows_purge [OF assms, of isTerm upd limit cutoff]
    by (simp add: affectedRows_deleteWhere conj_ac cong: conj_cong)
  then show ?thesis using selectPurge_Nil [of key isTerm upd limit cutoff rows]
    by (auto simp: purgeRows_def Let_def min_def split: if_splits)
qed

lemma purgeRows_keeps:
  "set (snd (purgeRows key isTerm upd limit cutoff rows)) \<subseteq> set rows"
  "r \<in> set rows \<Longrightarrow> \<not> expired isTerm upd cutoff r \<Longrightarrow> r \<in> set (snd (purgeRows key isTerm upd limit cutoff rows))"
  "keysUnique key rows \<Longrightarrow> keysUnique key (snd (purgeRows key isTerm upd limit cutoff rows))"
  "list_all Q rows \<Longrightarrow> list_all Q (snd (purgeRows key isTerm upd limit cutoff rows))"
  by (auto simp: purgeRows_def Let_def keysUnique_deleteWhere list_all_deleteWhere)

text \<open>
  The contract of a purge, for any ledger: it removes expired rows only, keeps the keys unique
  and works off the expired rows a batch at a time.
\<close>

locale retained_ledger =
  fixes key :: "'r \<Rightarrow> 'k" and stale :: "ms \<Rightarrow> 'r \<Rightarrow> bool"
    and purge :: "ms \<Rightarrow> 'r list \<Rightarrow> nat \<times> 'r list" and batch :: nat
  assumes purge_subset: "set (snd (purge now rows)) \<subseteq> set rows"
    and purge_keeps: "r \<in> set rows \<Longrightarrow> \<not> stale now r \<Longrightarrow> r \<in> set (snd (purge now rows))"
    and purge_unique: "keysUnique key rows \<Longrightarrow> keysUnique key (snd (purge now rows))"
    and purge_count: "keysUnique key rows \<Longrightarrow> fst (purge now rows) = min batch (affectedRows (stale now) rows)"
    and purge_rest: "keysUnique key rows \<Longrightarrow>
      affectedRows (stale now) (snd (purge now rows)) = affectedRows (stale now) rows - batch"
    and batch_pos: "0 < batch"
begin

lemma sweeps_unique: "keysUnique key rows \<Longrightarrow> keysUnique key (((snd \<circ> purge now) ^^ n) rows)"
  by (induction n) (simp_all add: purge_unique)

lemma sweeps_rest:
  "keysUnique key rows \<Longrightarrow>
   affectedRows (stale now) (((snd \<circ> purge now) ^^ n) rows) = affectedRows (stale now) rows - n * batch"
  by (induction n) (simp_all add: purge_rest sweeps_unique)

lemma sweeps_subset: "set (((snd \<circ> purge now) ^^ n) rows) \<subseteq> set rows"
  by (induction n) (use purge_subset in force)+

lemma sweeps_keep: "r \<in> set rows \<Longrightarrow> \<not> stale now r \<Longrightarrow> r \<in> set (((snd \<circ> purge now) ^^ n) rows)"
  by (induction n) (simp_all add: purge_keeps)

text \<open>Enough sweeps leave exactly the rows that are not expired.\<close>

lemma sweeps_converge:
  assumes "keysUnique key rows" and "affectedRows (stale now) rows \<le> n * batch"
  shows "set (((snd \<circ> purge now) ^^ n) rows) = {r \<in> set rows. \<not> stale now r}"
proof -
  have "affectedRows (stale now) (((snd \<circ> purge now) ^^ n) rows) = 0"
    using sweeps_rest [OF assms(1)] assms(2) by simp
  then show ?thesis using sweeps_subset sweeps_keep unfolding affectedRows_eq_0 by blast
qed

end

subsection \<open>Fencing by processing tokens\<close>

text \<open>
  The contract of a claimed row: a claim that succeeds records its token, a settlement takes
  effect exactly when the row still holds the token of the claim, and gives the token up; a
  settlement that lost the row changes nothing. Sweeps may take a token away.
\<close>

locale fenced_rows =
  fixes tokenOf :: "'t \<Rightarrow> 'k \<Rightarrow> string option"
    and claim :: "'k \<Rightarrow> string \<Rightarrow> 'a \<Rightarrow> 't \<Rightarrow> 't option"
    and settle :: "'k \<Rightarrow> string \<Rightarrow> 'c \<Rightarrow> 't \<Rightarrow> bool \<times> 't"
    and sweep :: "'s \<Rightarrow> 't \<Rightarrow> 't"
    and tableInv :: "'t \<Rightarrow> bool"
  assumes claim_token: "tableInv t \<Longrightarrow> claim k tok a t = Some t' \<Longrightarrow>
      tableInv t' \<and> tokenOf t' k = Some tok \<and> (\<forall>k'. k' \<noteq> k \<longrightarrow> tokenOf t' k' = tokenOf t k')"
    and settle_owner: "tableInv t \<Longrightarrow> fst (settle k tok c t) \<longleftrightarrow> tokenOf t k = Some tok"
    and settle_stale: "tableInv t \<Longrightarrow> tokenOf t k \<noteq> Some tok \<Longrightarrow> snd (settle k tok c t) = t"
    and settle_release: "tableInv t \<Longrightarrow> tokenOf t k = Some tok \<Longrightarrow>
      tableInv (snd (settle k tok c t)) \<and> tokenOf (snd (settle k tok c t)) k = None \<and>
      (\<forall>k'. k' \<noteq> k \<longrightarrow> tokenOf (snd (settle k tok c t)) k' = tokenOf t k')"
    and sweep_tokens: "tableInv t \<Longrightarrow>
      tableInv (sweep s t) \<and> (tokenOf (sweep s t) k = tokenOf t k \<or> tokenOf (sweep s t) k = None)"

text \<open>The events of the workers and sweepers of one table, in the order the database ran them.\<close>

datatype ('k, 'a, 'c, 's) fence_event =
    EvClaim 'k string 'a
  | EvSettle 'k string 'c
  | EvSweep 's

fun claimedToken :: "('k, 'a, 'c, 's) fence_event \<Rightarrow> string option" where
  "claimedToken (EvClaim k tok a) = Some tok"
| "claimedToken _ = None"

text \<open>Every claim draws a fresh token (\<open>crypto.randomUUID()\<close>).\<close>

definition freshTokens :: "('k, 'a, 'c, 's) fence_event list \<Rightarrow> bool" where
  "freshTokens evs = distinct (List.map_filter claimedToken evs)"

text \<open>The table after one event, and the settlement it recorded, if it was one that took effect.\<close>

fun fenceStep ::
  "('k \<Rightarrow> string \<Rightarrow> 'a \<Rightarrow> 't \<Rightarrow> 't option) \<Rightarrow> ('k \<Rightarrow> string \<Rightarrow> 'c \<Rightarrow> 't \<Rightarrow> bool \<times> 't) \<Rightarrow> ('s \<Rightarrow> 't \<Rightarrow> 't) \<Rightarrow>
   ('k, 'a, 'c, 's) fence_event \<Rightarrow> 't \<Rightarrow> ('k \<times> string) list \<times> 't" where
  "fenceStep clm stl swp (EvClaim k tok a) t = (case clm k tok a t of None \<Rightarrow> ([], t) | Some t' \<Rightarrow> ([], t'))"
| "fenceStep clm stl swp (EvSettle k tok c) t =
     (if fst (stl k tok c t) then ([(k, tok)], snd (stl k tok c t)) else ([], snd (stl k tok c t)))"
| "fenceStep clm stl swp (EvSweep s) t = ([], swp s t)"

fun fenceRun ::
  "('k \<Rightarrow> string \<Rightarrow> 'a \<Rightarrow> 't \<Rightarrow> 't option) \<Rightarrow> ('k \<Rightarrow> string \<Rightarrow> 'c \<Rightarrow> 't \<Rightarrow> bool \<times> 't) \<Rightarrow> ('s \<Rightarrow> 't \<Rightarrow> 't) \<Rightarrow>
   ('k, 'a, 'c, 's) fence_event list \<Rightarrow> 't \<Rightarrow> ('k \<times> string) list \<times> 't" where
  "fenceRun clm stl swp [] t = ([], t)"
| "fenceRun clm stl swp (ev # evs) t =
     (case fenceStep clm stl swp ev t of
        (won, t1) \<Rightarrow> case fenceRun clm stl swp evs t1 of (wins, t2) \<Rightarrow> (won @ wins, t2))"

text \<open>Tokens in the table are on one row each, and are not claimed again later.\<close>

definition tokensApart ::
  "('t \<Rightarrow> 'k \<Rightarrow> string option) \<Rightarrow> 't \<Rightarrow> ('k, 'a, 'c, 's) fence_event list \<Rightarrow> bool" where
  "tokensApart tokOf t evs =
     ((\<forall>k k' tok. tokOf t k = Some tok \<longrightarrow> tokOf t k' = Some tok \<longrightarrow> k = k') \<and>
      (\<forall>k tok. tokOf t k = Some tok \<longrightarrow> tok \<notin> set (List.map_filter claimedToken evs)))"

context fenced_rows
begin

lemma fenceStep_inv: "tableInv t \<Longrightarrow> tableInv (snd (fenceStep claim settle sweep ev t))"
proof (cases ev)
  case (EvSettle k tok c)
  assume t: "tableInv t"
  show ?thesis
  proof (cases "tokenOf t k = Some tok")
    case True
    then show ?thesis using settle_release [OF t True] EvSettle by simp
  next
    case False
    then show ?thesis using settle_stale [OF t False] t EvSettle by simp
  qed
qed (use claim_token sweep_tokens in \<open>auto split: option.splits\<close>)

text \<open>A token reaches a row only by its own claim.\<close>

lemma fenceStep_token:
  assumes "tableInv t" "tokenOf (snd (fenceStep claim settle sweep ev t)) k = Some tok"
  shows "tokenOf t k = Some tok \<or> claimedToken ev = Some tok"
proof (cases ev)
  case (EvClaim k' tok' a)
  show ?thesis
  proof (cases "claim k' tok' a t")
    case (Some t')
    then show ?thesis using claim_token [OF assms(1) Some] assms(2) EvClaim by (cases "k = k'") auto
  qed (use assms EvClaim in simp)
next
  case (EvSettle k' tok' c)
  show ?thesis
  proof (cases "tokenOf t k' = Some tok'")
    case True
    then show ?thesis using settle_release [OF assms(1) True, of c] assms(2) EvSettle
      by (cases "k = k'") (auto split: if_splits)
  next
    case False
    then show ?thesis using settle_stale [OF assms(1) False] settle_owner [OF assms(1)] assms(2) EvSettle by simp
  qed
next
  case (EvSweep s)
  then show ?thesis using sweep_tokens [OF assms(1), of s k] assms(2) by auto
qed

text \<open>A token that is neither in the table nor claimed later settles nothing.\<close>

lemma no_wins:
  assumes "tableInv t" "\<And>k. tokenOf t k \<noteq> Some tok" "tok \<notin> set (List.map_filter claimedToken evs)"
  shows "tok \<notin> snd ` set (fst (fenceRun claim settle sweep evs t))"
  using assms
proof (induction evs arbitrary: t)
  case (Cons ev evs)
  let ?t = "snd (fenceStep claim settle sweep ev t)"
  have ne: "claimedToken ev \<noteq> Some tok" using Cons.prems(3)
    by (auto simp: List.map_filter_simps split: option.splits)
  have "tok \<notin> snd ` set (fst (fenceRun claim settle sweep evs ?t))"
  proof (rule Cons.IH)
    show "tableInv ?t" by (rule fenceStep_inv [OF Cons.prems(1)])
    show "tokenOf ?t k \<noteq> Some tok" for k
      using fenceStep_token [OF Cons.prems(1), of ev k tok] Cons.prems(2) ne by blast
    show "tok \<notin> set (List.map_filter claimedToken evs)" using Cons.prems(3)
      by (auto simp: List.map_filter_simps split: option.splits)
  qed
  moreover have "tok \<notin> snd ` set (fst (fenceStep claim settle sweep ev t))"
    using Cons.prems(2) settle_owner [OF Cons.prems(1)] by (cases ev) (auto split: option.splits)
  ultimately show ?case by (auto split: prod.splits)
qed simp

lemma tokensApart_step:
  assumes inv: "tableInv t" and apart: "tokensApart tokenOf t (ev # evs)" and fresh: "freshTokens (ev # evs)"
  shows "tokensApart tokenOf (snd (fenceStep claim settle sweep ev t)) evs"
proof -
  have later: "tok \<notin> set (List.map_filter claimedToken evs)" if "claimedToken ev = Some tok" for tok
    using fresh that by (simp add: freshTokens_def List.map_filter_simps)
  have old: "tok \<notin> set (List.map_filter claimedToken (ev # evs))" if "tokenOf t k = Some tok" for k tok
    using apart that by (simp add: tokensApart_def)
  have unclaimed: "claimedToken ev \<noteq> Some tok \<and> tok \<notin> set (List.map_filter claimedToken evs)"
    if "tokenOf t k = Some tok" for k tok
    using old [OF that] by (auto simp: List.map_filter_simps split: option.splits)
  have only: "k = k'" if ct: "claimedToken ev = Some tok" and kt: "tokenOf (snd (fenceStep claim settle sweep ev t)) k = Some tok"
    and kt': "tokenOf (snd (fenceStep claim settle sweep ev t)) k' = Some tok" for k k' tok
  proof -
    have none: "tokenOf t j \<noteq> Some tok" for j using unclaimed ct by blast
    obtain j a where ev: "ev = EvClaim j tok a" using ct by (cases ev) auto
    then obtain t' where c: "claim j tok a t = Some t'"
      using kt none by (cases "claim j tok a t") auto
    then show ?thesis using claim_token [OF inv c] kt kt' none ev by (cases "k = j"; cases "k' = j") auto
  qed
  show ?thesis unfolding tokensApart_def
  proof (intro conjI allI impI)
    fix k k' tok
    assume k: "tokenOf (snd (fenceStep claim settle sweep ev t)) k = Some tok" "tokenOf (snd (fenceStep claim settle sweep ev t)) k' = Some tok"
    show "k = k'"
      using fenceStep_token [OF inv k(1)] fenceStep_token [OF inv k(2)] only k apart unclaimed
      unfolding tokensApart_def by metis
  next
    fix k tok
    assume "tokenOf (snd (fenceStep claim settle sweep ev t)) k = Some tok"
    from fenceStep_token [OF inv this] show "tok \<notin> set (List.map_filter claimedToken evs)"
      using later unclaimed by blast
  qed
qed

text \<open>Each claim settles at most once, whatever the interleaving of workers and sweeps.\<close>

lemma settles_once:
  assumes "tableInv t" "tokensApart tokenOf t evs" "freshTokens evs"
  shows "distinct (map snd (fst (fenceRun claim settle sweep evs t)))"
  using assms
proof (induction evs arbitrary: t)
  case (Cons ev evs)
  let ?t = "snd (fenceStep claim settle sweep ev t)"
  have inv: "tableInv ?t" by (rule fenceStep_inv [OF Cons.prems(1)])
  have fresh: "freshTokens evs" using Cons.prems(3)
    by (auto simp: freshTokens_def List.map_filter_simps split: option.splits)
  have IH: "distinct (map snd (fst (fenceRun claim settle sweep evs ?t)))"
    by (rule Cons.IH [OF inv tokensApart_step [OF Cons.prems] fresh])
  have "tok \<notin> snd ` set (fst (fenceRun claim settle sweep evs ?t))" if won: "(k, tok) \<in> set (fst (fenceStep claim settle sweep ev t))" for k tok
  proof -
    obtain c where ev: "ev = EvSettle k tok c" and own: "tokenOf t k = Some tok"
      using won settle_owner [OF Cons.prems(1)] by (cases ev) (auto split: option.splits if_splits)
    have "tokenOf ?t j \<noteq> Some tok" for j
      using settle_release [OF Cons.prems(1) own, of c] Cons.prems(2) own ev settle_owner [OF Cons.prems(1)]
      unfolding tokensApart_def by (cases "j = k") fastforce+
    moreover have "tok \<notin> set (List.map_filter claimedToken evs)"
      using Cons.prems(2) own ev by (simp add: tokensApart_def List.map_filter_simps)
    ultimately show ?thesis by (intro no_wins inv) 
  qed
  then have later: "\<And>x. x \<in> set (fst (fenceStep claim settle sweep ev t)) \<Longrightarrow> snd x \<notin> snd ` set (fst (fenceRun claim settle sweep evs ?t))"
    by (metis prod.collapse)
  have one: "distinct (map snd (fst (fenceStep claim settle sweep ev t)))" by (cases ev) (auto split: option.splits)
  have "distinct (map snd (fst (fenceStep claim settle sweep ev t) @ fst (fenceRun claim settle sweep evs ?t)))"
    using one IH later by (auto simp: disjoint_iff)
  then show ?case by (simp add: case_prod_beta)
qed simp

end

end
