(* ===== verification/ResolutionOutbox.thy ===== *)
theory ResolutionOutbox
  imports Ledger "HOL-Library.AList"
begin

section \<open>The outbox of actor resolutions\<close>

text \<open>
  Models \<open>src/backend/lib/delivery/resolution-outbox.ts\<close>, the durable ledger of
  recipients whose inbox endpoint is not known yet: intents become rows before any queue call,
  rows are claimed under a processing token, retried under a budget, completed, recovered after
  two minutes without progress and purged after thirty days. The columns that hold a time are
  milliseconds; \<open>sha256Hex\<close> is a parameter, a claim draws its token from an argument, and
  \<open>between\<close> is what other workers do to the table between the read and the conditional
  update of a claim. The trigger of migration 0028 (a row for a tombstoned actor is removed as
  it is inserted) is part of the insert.
\<close>

definition OUTBOX_SCAN_LIMIT :: nat where "OUTBOX_SCAN_LIMIT = 50"
definition STALE_RESOLUTION_MS :: ms where "STALE_RESOLUTION_MS = 2 * 60 * 1000"
definition TERMINAL_RETENTION_MS :: ms where "TERMINAL_RETENTION_MS = 30 * 24 * 60 * 60 * 1000"
definition TERMINAL_PURGE_LIMIT :: nat where "TERMINAL_PURGE_LIMIT = 50"
definition MAX_RESOLVE_ATTEMPTS :: int where "MAX_RESOLVE_ATTEMPTS = 8"

lemmas resolution_constants [simp] =
  OUTBOX_SCAN_LIMIT_def STALE_RESOLUTION_MS_def TERMINAL_RETENTION_MS_def TERMINAL_PURGE_LIMIT_def
  MAX_RESOLVE_ATTEMPTS_def

subsection \<open>Rows and claims\<close>

datatype resolution_status =
  RsPending | RsQueued | RsRetryWait | RsProcessing | RsResolved | RsFailed | RsDiscarded

record resolution =
  rs_id :: string
  rs_activityApId :: string
  rs_recipientActorApId :: string
  rs_status :: resolution_status
  rs_processingToken :: "string option"
  rs_attempts :: int
  rs_nextAttemptAt :: ms
  rs_lastError :: "string option"
  rs_createdAt :: ms
  rs_updatedAt :: ms
  rs_resolvedAt :: "ms option"

definition rsTerminal :: "resolution_status \<Rightarrow> bool" where
  "rsTerminal s = (s = RsResolved \<or> s = RsFailed \<or> s = RsDiscarded)"

record resolution_intent =
  ri_activityId :: string
  ri_recipientActorApId :: string

record resolution_ticket =
  rt_id :: string
  rt_processingToken :: string
  rt_attempts :: int

datatype resolution_claim =
    ClaimMissing
  | ClaimTerminal
  | ClaimDeferred secs
  | ClaimBusy secs
  | Claimed resolution_ticket

subsection \<open>Intents\<close>

definition computeDeliveryResolutionId :: "(string \<Rightarrow> string) \<Rightarrow> string \<Rightarrow> string \<Rightarrow> string" where
  "computeDeliveryResolutionId sha256Hex activityId recipientActorApId =
     sha256Hex (''resolve_actor|'' @ activityId @ ''|'' @ recipientActorApId)"

text \<open>The rows of distinct intents, keyed by both fields with a zero byte between them.\<close>

definition intentKey :: "resolution_intent \<Rightarrow> string" where
  "intentKey i = ri_activityId i @ [char_of (0::nat)] @ ri_recipientActorApId i"

definition materializeIntents ::
  "(string \<Rightarrow> string) \<Rightarrow> resolution_intent list \<Rightarrow> (string \<times> resolution_intent) list" where
  "materializeIntents sha256Hex intents =
     (let unique = fold (\<lambda>i m. AList.update (intentKey i) i m) intents []
      in map (\<lambda>(_, i). (computeDeliveryResolutionId sha256Hex (ri_activityId i) (ri_recipientActorApId i), i)) unique)"

definition newResolution :: "ms \<Rightarrow> string \<times> resolution_intent \<Rightarrow> resolution" where
  "newResolution now row =
     \<lparr>rs_id = fst row, rs_activityApId = ri_activityId (snd row),
      rs_recipientActorApId = ri_recipientActorApId (snd row), rs_status = RsPending,
      rs_processingToken = None, rs_attempts = 0, rs_nextAttemptAt = now, rs_lastError = None,
      rs_createdAt = now, rs_updatedAt = now, rs_resolvedAt = None\<rparr>"

definition prepareDeliveryResolutionJobs ::
  "(string \<Rightarrow> string) \<Rightarrow> resolution_intent list \<Rightarrow> ms \<Rightarrow> (string \<times> resolution_intent) list \<times> resolution list" where
  "prepareDeliveryResolutionJobs sha256Hex intents now =
     (let rows = materializeIntents sha256Hex intents in (rows, map (newResolution now) rows))"

text \<open>
  One row of the insert: ignored on a conflict with the primary key or the unique index on
  activity and recipient, and removed at once by the trigger for a tombstoned recipient.
\<close>

definition insertResolution :: "string list \<Rightarrow> resolution \<Rightarrow> resolution list \<Rightarrow> resolution list" where
  "insertResolution tombstones r rows =
     (if list_ex (\<lambda>x. rs_id x = rs_id r \<or>
          rs_activityApId x = rs_activityApId r \<and> rs_recipientActorApId x = rs_recipientActorApId r) rows then rows
      else if rs_recipientActorApId r \<in> set tombstones then rows
      else rows @ [r])"

definition persistDeliveryResolutionJobs ::
  "(string \<Rightarrow> string) \<Rightarrow> string list \<Rightarrow> resolution_intent list \<Rightarrow> ms \<Rightarrow> resolution list \<Rightarrow>
   (string \<times> resolution_intent) list \<times> resolution list" where
  "persistDeliveryResolutionJobs sha256Hex tombstones intents now rows =
     (case prepareDeliveryResolutionJobs sha256Hex intents now of
        (materialized, inserts) \<Rightarrow> (materialized, fold (insertResolution tombstones) inserts rows))"

subsection \<open>Publishing\<close>

definition rsWaiting :: "resolution_status \<Rightarrow> bool" where
  "rsWaiting s = (s = RsPending \<or> s = RsRetryWait)"

definition markQueued :: "string list \<Rightarrow> ms \<Rightarrow> resolution list \<Rightarrow> resolution list" where
  "markQueued ids now =
     updateWhere (\<lambda>r. rs_id r \<in> set ids \<and> rsWaiting (rs_status r))
       (\<lambda>r. r\<lparr>rs_status := RsQueued, rs_processingToken := None, rs_updatedAt := now\<rparr>)"

definition sendRows ::
  "queue_port \<Rightarrow> string \<Rightarrow> resolution list \<Rightarrow> ms \<Rightarrow> (resolution outbox, nat) act" where
  "sendRows port nowText due now =
     (if due = [] then ret 0
      else
        andThen (sendBatch port
          (map (\<lambda>r. buildResolveActorMessage nowText (rs_activityApId r) (rs_recipientActorApId r) (rs_attempts r)) due))
        (\<lambda>_. andThen (effect (\<lambda>w. w\<lparr>ob_rows := markQueued (map rs_id due) now (ob_rows w)\<rparr>))
        (\<lambda>_. ret (length due))))"

definition reopenTerminalRows :: "string list \<Rightarrow> ms \<Rightarrow> resolution list \<Rightarrow> resolution list" where
  "reopenTerminalRows ids now =
     updateWhere (\<lambda>r. rs_id r \<in> set ids \<and> rsTerminal (rs_status r))
       (\<lambda>r. r\<lparr>rs_status := RsPending, rs_processingToken := None, rs_attempts := 0, rs_nextAttemptAt := now,
              rs_lastError := None, rs_updatedAt := now, rs_resolvedAt := None\<rparr>)"

definition rsDue :: "ms \<Rightarrow> resolution \<Rightarrow> bool" where
  "rsDue now r = (rsWaiting (rs_status r) \<and> rs_nextAttemptAt r \<le> now)"

fun publishChunks ::
  "queue_port \<Rightarrow> string \<Rightarrow> bool \<Rightarrow> ms \<Rightarrow> string list list \<Rightarrow> nat \<Rightarrow> (resolution outbox, nat) act" where
  "publishChunks port nowText reopen now [] sent w = (Inr sent, w)"
| "publishChunks port nowText reopen now (ids # chunks) sent w =
     (let w1 = (if reopen then w\<lparr>ob_rows := reopenTerminalRows ids now (ob_rows w)\<rparr> else w);
          due = filter (\<lambda>r. rs_id r \<in> set ids \<and> rsDue now r) (ob_rows w1)
      in case sendRows port nowText due now w1 of
           (Inl e, w2) \<Rightarrow> (Inl e, w2)
         | (Inr n, w2) \<Rightarrow> publishChunks port nowText reopen now chunks (sent + n) w2)"

definition enqueueDeliveryResolutionJobs ::
  "(string \<Rightarrow> string) \<Rightarrow> string list \<Rightarrow> queue_port option \<Rightarrow> string \<Rightarrow> resolution_intent list \<Rightarrow> bool \<Rightarrow>
   ms \<Rightarrow> ms \<Rightarrow> (resolution outbox, nat) act" where
  "enqueueDeliveryResolutionJobs sha256Hex tombstones queue nowText intents reopenTerminal nowPersist now w =
     (case persistDeliveryResolutionJobs sha256Hex tombstones intents nowPersist (ob_rows w) of
        (materialized, rows) \<Rightarrow>
          (let w1 = w\<lparr>ob_rows := rows\<rparr>
           in case queue of
                None \<Rightarrow> (Inr 0, w1)
              | Some port \<Rightarrow>
                  (if materialized = [] then (Inr 0, w1)
                   else publishChunks port nowText reopenTerminal now
                          (chunksOf OUTBOX_SCAN_LIMIT (map fst materialized)) 0 w1)))"

subsection \<open>Recovery and purge\<close>

definition purgeTerminalDeliveryResolutionJobs :: "ms \<Rightarrow> resolution list \<Rightarrow> nat \<times> resolution list" where
  "purgeTerminalDeliveryResolutionJobs now =
     purgeRows rs_id (\<lambda>r. rsTerminal (rs_status r)) rs_updatedAt TERMINAL_PURGE_LIMIT (now - TERMINAL_RETENTION_MS)"

definition resetStaleRows :: "ms \<Rightarrow> resolution list \<Rightarrow> resolution list" where
  "resetStaleRows now =
     updateWhere (\<lambda>r. (rs_status r = RsQueued \<or> rs_status r = RsProcessing) \<and>
                      rs_updatedAt r \<le> now - STALE_RESOLUTION_MS)
       (\<lambda>r. r\<lparr>rs_status := RsPending, rs_processingToken := None, rs_updatedAt := now\<rparr>)"

definition dueRows :: "ms \<Rightarrow> resolution list \<Rightarrow> resolution list" where
  "dueRows now rows = take OUTBOX_SCAN_LIMIT (sort_key rs_createdAt (filter (rsDue now) rows))"

text \<open>\<open>queue\<close> is the producer when both the queue and its dead-letter queue are bound.\<close>

definition enqueuePendingDeliveryResolutionJobs ::
  "queue_port option \<Rightarrow> string \<Rightarrow> ms \<Rightarrow> (resolution outbox, nat) act" where
  "enqueuePendingDeliveryResolutionJobs queue nowText now w =
     (let w1 = w\<lparr>ob_rows := snd (purgeTerminalDeliveryResolutionJobs now (ob_rows w))\<rparr>
      in case queue of
           None \<Rightarrow> (Inr 0, w1)
         | Some port \<Rightarrow>
             (let w2 = w1\<lparr>ob_rows := resetStaleRows now (ob_rows w1)\<rparr>
              in sendRows port nowText (dueRows now (ob_rows w2)) now w2))"

subsection \<open>Claims and settlements\<close>

definition claimable :: "ms \<Rightarrow> resolution \<Rightarrow> bool" where
  "claimable now r =
     (rs_status r = RsPending \<or> rs_status r = RsQueued \<or>
      (rs_status r = RsRetryWait \<and> rs_nextAttemptAt r \<le> now) \<or>
      (rs_status r = RsProcessing \<and> rs_updatedAt r \<le> now - STALE_RESOLUTION_MS))"

definition claimResolutionById ::
  "(resolution list \<Rightarrow> resolution list) \<Rightarrow> string \<Rightarrow> string \<Rightarrow> ms \<Rightarrow> resolution list \<Rightarrow>
   resolution_claim \<times> resolution list" where
  "claimResolutionById between i token now rows =
     (case selectBy rs_id i rows of
        None \<Rightarrow> (ClaimMissing, rows)
      | Some row \<Rightarrow>
          (if rsTerminal (rs_status row) then (ClaimTerminal, rows)
           else if rs_status row = RsRetryWait \<and> now < rs_nextAttemptAt row then
             (ClaimDeferred (deferSecondsUntil (rs_nextAttemptAt row) now), rows)
           else
             (let rows1 = between rows; P = (\<lambda>r. rs_id r = i \<and> claimable now r)
              in if affectedRows P rows1 = 0 then (ClaimBusy 60, rows1)
                 else (Claimed \<lparr>rt_id = i, rt_processingToken = token, rt_attempts = rs_attempts row\<rparr>,
                       updateWhere P (\<lambda>r. r\<lparr>rs_status := RsProcessing, rs_processingToken := Some token,
                                             rs_updatedAt := now\<rparr>) rows1))))"

definition claimDeliveryResolutionJob ::
  "(string \<Rightarrow> string) \<Rightarrow> (resolution list \<Rightarrow> resolution list) \<Rightarrow> string \<Rightarrow> string \<Rightarrow> string \<Rightarrow> ms \<Rightarrow>
   resolution list \<Rightarrow> resolution_claim \<times> resolution list" where
  "claimDeliveryResolutionJob sha256Hex between activityId recipientActorApId token now =
     claimResolutionById between (computeDeliveryResolutionId sha256Hex activityId recipientActorApId) token now"

definition ownedBy :: "resolution_ticket \<Rightarrow> resolution \<Rightarrow> bool" where
  "ownedBy c r = (rs_id r = rt_id c \<and> rs_processingToken r = Some (rt_processingToken c))"

definition retryDeliveryResolutionJob ::
  "resolution_ticket \<Rightarrow> string \<Rightarrow> secs \<Rightarrow> ms \<Rightarrow> resolution list \<Rightarrow> (bool \<times> bool) \<times> resolution list" where
  "retryDeliveryResolutionJob c err delaySeconds now rows =
     (let attempts = rt_attempts c + 1;
          isLast = (MAX_RESOLVE_ATTEMPTS \<le> attempts)
      in ((0 < affectedRows (ownedBy c) rows, isLast),
          updateWhere (ownedBy c)
            (\<lambda>r. r\<lparr>rs_status := (if isLast then RsFailed else RsRetryWait), rs_processingToken := None,
                   rs_attempts := attempts, rs_nextAttemptAt := now + delaySeconds * 1000,
                   rs_lastError := Some err, rs_updatedAt := now,
                   rs_resolvedAt := (if isLast then Some now else None)\<rparr>) rows))"

definition deferDeliveryResolutionJob ::
  "resolution_ticket \<Rightarrow> string \<Rightarrow> secs \<Rightarrow> ms \<Rightarrow> resolution list \<Rightarrow> bool \<times> resolution list" where
  "deferDeliveryResolutionJob c err delaySeconds now rows =
     (0 < affectedRows (ownedBy c) rows,
      updateWhere (ownedBy c)
        (\<lambda>r. r\<lparr>rs_status := RsRetryWait, rs_processingToken := None,
               rs_nextAttemptAt := now + delaySeconds * 1000, rs_lastError := Some err,
               rs_updatedAt := now, rs_resolvedAt := None\<rparr>) rows)"

definition completeDeliveryResolutionJob ::
  "resolution_ticket \<Rightarrow> resolution_status \<Rightarrow> string option \<Rightarrow> ms \<Rightarrow> resolution list \<Rightarrow> bool \<times> resolution list" where
  "completeDeliveryResolutionJob c status reason now rows =
     (0 < affectedRows (ownedBy c) rows,
      updateWhere (ownedBy c)
        (\<lambda>r. r\<lparr>rs_status := status, rs_processingToken := None, rs_lastError := reason,
               rs_updatedAt := now, rs_resolvedAt := Some now\<rparr>) rows)"


subsection \<open>What every row satisfies\<close>

definition resolution_wf :: "resolution \<Rightarrow> bool" where
  "resolution_wf r =
     ((rs_processingToken r \<noteq> None \<longleftrightarrow> rs_status r = RsProcessing) \<and>
      0 \<le> rs_attempts r \<and> rs_attempts r \<le> MAX_RESOLVE_ATTEMPTS \<and>
      (rs_status r = RsFailed \<longrightarrow> rs_attempts r = MAX_RESOLVE_ATTEMPTS) \<and>
      (\<not> rsTerminal (rs_status r) \<longrightarrow> rs_attempts r < MAX_RESOLVE_ATTEMPTS) \<and>
      (rs_resolvedAt r \<noteq> None \<longleftrightarrow> rsTerminal (rs_status r)))"

definition resolutions_wf :: "resolution list \<Rightarrow> bool" where
  "resolutions_wf rows = (keysUnique rs_id rows \<and> list_all resolution_wf rows)"

lemmas resolution_wf_defs = resolutions_wf_def resolution_wf_def rsTerminal_def rsWaiting_def

lemma resolutions_wf_updateWhere:
  assumes "resolutions_wf rows" and "\<And>r. rs_id (f r) = rs_id r"
    and "\<And>r. r \<in> set rows \<Longrightarrow> resolution_wf r \<Longrightarrow> P r \<Longrightarrow> resolution_wf (f r)"
  shows "resolutions_wf (updateWhere P f rows)"
  using assms by (auto simp: resolutions_wf_def keysUnique_updateWhere intro: list_all_updateWhere)

text \<open>The statements that do not settle a claim keep every row well formed.\<close>

lemma markQueued_wf: "resolutions_wf rows \<Longrightarrow> resolutions_wf (markQueued ids now rows)"
  unfolding markQueued_def by (rule resolutions_wf_updateWhere) (auto simp: resolution_wf_def rsTerminal_def rsWaiting_def)

lemma reopenTerminalRows_wf: "resolutions_wf rows \<Longrightarrow> resolutions_wf (reopenTerminalRows ids now rows)"
  unfolding reopenTerminalRows_def by (rule resolutions_wf_updateWhere) (auto simp: resolution_wf_def rsTerminal_def)

lemma resetStaleRows_wf: "resolutions_wf rows \<Longrightarrow> resolutions_wf (resetStaleRows now rows)"
  unfolding resetStaleRows_def by (rule resolutions_wf_updateWhere) (auto simp: resolution_wf_def rsTerminal_def)

lemma purge_resolutions_wf:
  "resolutions_wf rows \<Longrightarrow> resolutions_wf (snd (purgeTerminalDeliveryResolutionJobs now rows))"
  by (simp add: resolutions_wf_def purgeTerminalDeliveryResolutionJobs_def purgeRows_keeps)

lemma newResolution_wf: "resolution_wf (newResolution now row)"
  by (simp add: newResolution_def resolution_wf_def rsTerminal_def)

lemma insertResolution_unique: "keysUnique rs_id rows \<Longrightarrow> keysUnique rs_id (insertResolution tombs r rows)"
  by (auto simp: insertResolution_def keysUnique_def list_ex_iff)

lemma insertResolution_wf: "resolutions_wf rows \<Longrightarrow> resolution_wf r \<Longrightarrow> resolutions_wf (insertResolution tombs r rows)"
  by (auto simp: insertResolution_def resolutions_wf_def keysUnique_def list_ex_iff)

lemma sendRows_rows:
  "ob_rows (snd (sendRows port t due now w)) = ob_rows w \<or>
   ob_rows (snd (sendRows port t due now w)) = markQueued (map rs_id due) now (ob_rows w)"
  by (auto simp: sendRows_def act_defs sendBatch_def split: option.splits)

subsection \<open>Claims\<close>

definition resolutionToken :: "resolution list \<Rightarrow> string \<Rightarrow> string option" where
  "resolutionToken rows i = Option.bind (selectBy rs_id i rows) rs_processingToken"

lemma ownedBy_owner:
  "keysUnique rs_id rows \<Longrightarrow>
   0 < affectedRows (ownedBy c) rows \<longleftrightarrow> resolutionToken rows (rt_id c) = Some (rt_processingToken c)"
  by (subst affectedRows_key [of rs_id _ _ "rt_id c"])
    (auto simp: ownedBy_def resolutionToken_def split: option.splits dest: selectBy_SomeD)

lemma not_owned_unchanged:
  assumes "keysUnique rs_id rows" "resolutionToken rows (rt_id c) \<noteq> Some (rt_processingToken c)"
  shows "updateWhere (ownedBy c) f rows = rows"
proof (rule updateWhere_id)
  have "affectedRows (ownedBy c) rows = 0" using ownedBy_owner [OF assms(1), of c] assms(2) by simp
  then show "r \<in> set rows \<Longrightarrow> \<not> ownedBy c r" for r unfolding affectedRows_eq_0 by blast
qed

lemma resolutionToken_owned_update:
  assumes "\<And>r. rs_id (f r) = rs_id r" "\<And>r. rs_processingToken (f r) = None"
  shows "resolutionToken (updateWhere (ownedBy c) f rows) i =
    (if i = rt_id c \<and> resolutionToken rows i = Some (rt_processingToken c) then None else resolutionToken rows i)"
proof (cases "selectBy rs_id i rows")
  case (Some r)
  have "rs_id r = i" using selectBy_SomeD [OF Some] by simp
  then show ?thesis using assms Some by (auto simp: resolutionToken_def selectBy_updateWhere ownedBy_def)
qed (simp add: resolutionToken_def selectBy_updateWhere assms)

lemma claim_by_id:
  assumes "claimResolutionById id i tok now rows = (Claimed c, rows')" and "keysUnique rs_id rows"
  shows "\<exists>row. selectBy rs_id i rows = Some row \<and> claimable now row \<and>
      c = \<lparr>rt_id = i, rt_processingToken = tok, rt_attempts = rs_attempts row\<rparr> \<and>
      rows' = updateWhere (\<lambda>r. rs_id r = i \<and> claimable now r)
        (\<lambda>r. r\<lparr>rs_status := RsProcessing, rs_processingToken := Some tok, rs_updatedAt := now\<rparr>) rows"
proof -
  have key: "affectedRows (\<lambda>r. rs_id r = i \<and> claimable now r) rows =
      (case selectBy rs_id i rows of None \<Rightarrow> 0 | Some r \<Rightarrow> if rs_id r = i \<and> claimable now r then 1 else 0)"
    by (rule affectedRows_key [OF assms(2)]) simp
  show ?thesis using assms(1) key
    by (auto simp: claimResolutionById_def Let_def split: option.splits if_splits)
qed

lemma claim_token:
  assumes "claimResolutionById id i tok now rows = (Claimed c, rows')" and "keysUnique rs_id rows"
  shows "keysUnique rs_id rows' \<and> resolutionToken rows' i = Some tok \<and>
    (\<forall>j. j \<noteq> i \<longrightarrow> resolutionToken rows' j = resolutionToken rows j)"
proof -
  obtain row where row: "selectBy rs_id i rows = Some row" "claimable now row"
    and rows': "rows' = updateWhere (\<lambda>r. rs_id r = i \<and> claimable now r)
        (\<lambda>r. r\<lparr>rs_status := RsProcessing, rs_processingToken := Some tok, rs_updatedAt := now\<rparr>) rows"
    using claim_by_id [OF assms] by blast
  have "selectBy rs_id j rows' = selectBy rs_id j rows" if "j \<noteq> i" for j
    using that selectBy_SomeD [of rs_id j rows] by (cases "selectBy rs_id j rows") (auto simp: rows' selectBy_updateWhere)
  moreover have "rs_id row = i" using selectBy_SomeD [OF row(1)] by simp
  ultimately show ?thesis using row assms(2)
    by (simp add: resolutionToken_def rows' selectBy_updateWhere keysUnique_updateWhere)
qed

lemma claim_keeps_wf:
  assumes "resolutions_wf rows"
  shows "resolutions_wf (snd (claimResolutionById id i tok now rows))"
proof -
  have "resolutions_wf (updateWhere (\<lambda>r. rs_id r = i \<and> claimable now r)
      (\<lambda>r. r\<lparr>rs_status := RsProcessing, rs_processingToken := Some tok, rs_updatedAt := now\<rparr>) rows)"
    by (rule resolutions_wf_updateWhere [OF assms]) (auto simp: resolution_wf_def rsTerminal_def claimable_def)
  then show ?thesis using assms by (auto simp: claimResolutionById_def Let_def split: option.split)
qed

text \<open>A settlement of a claim: a charged retry, a free deferral, or a completion.\<close>

datatype resolution_settlement =
    SettleRetry string secs ms
  | SettleDefer string secs ms
  | SettleComplete bool "string option" ms

fun settleResolution :: "resolution_ticket \<Rightarrow> resolution_settlement \<Rightarrow> resolution list \<Rightarrow> bool \<times> resolution list" where
  "settleResolution c (SettleRetry err delay now) rows =
     (case retryDeliveryResolutionJob c err delay now rows of ((owned, isLast), rows') \<Rightarrow> (owned, rows'))"
| "settleResolution c (SettleDefer err delay now) rows = deferDeliveryResolutionJob c err delay now rows"
| "settleResolution c (SettleComplete discard reason now) rows =
     completeDeliveryResolutionJob c (if discard then RsDiscarded else RsResolved) reason now rows"

fun settledRow :: "resolution_ticket \<Rightarrow> resolution_settlement \<Rightarrow> resolution \<Rightarrow> resolution" where
  "settledRow c (SettleRetry err delay now) r =
     r\<lparr>rs_status := (if MAX_RESOLVE_ATTEMPTS \<le> rt_attempts c + 1 then RsFailed else RsRetryWait),
       rs_processingToken := None, rs_attempts := rt_attempts c + 1, rs_nextAttemptAt := now + delay * 1000,
       rs_lastError := Some err, rs_updatedAt := now,
       rs_resolvedAt := (if MAX_RESOLVE_ATTEMPTS \<le> rt_attempts c + 1 then Some now else None)\<rparr>"
| "settledRow c (SettleDefer err delay now) r =
     r\<lparr>rs_status := RsRetryWait, rs_processingToken := None, rs_nextAttemptAt := now + delay * 1000,
       rs_lastError := Some err, rs_updatedAt := now, rs_resolvedAt := None\<rparr>"
| "settledRow c (SettleComplete discard reason now) r =
     r\<lparr>rs_status := (if discard then RsDiscarded else RsResolved), rs_processingToken := None,
       rs_lastError := reason, rs_updatedAt := now, rs_resolvedAt := Some now\<rparr>"

lemma settleResolution_eq:
  "settleResolution c s rows = (0 < affectedRows (ownedBy c) rows, updateWhere (ownedBy c) (settledRow c s) rows)"
  by (cases s) (simp_all add: retryDeliveryResolutionJob_def deferDeliveryResolutionJob_def
      completeDeliveryResolutionJob_def Let_def updateWhere_def)

lemma settledRow_simps [simp]: "rs_id (settledRow c s r) = rs_id r" "rs_processingToken (settledRow c s r) = None"
  by (cases s; simp)+

lemma settledRow_wf:
  "resolution_wf r \<Longrightarrow> ownedBy c r \<Longrightarrow> rs_attempts r = rt_attempts c \<Longrightarrow> resolution_wf (settledRow c s r)"
  by (cases s) (auto simp: resolution_wf_def rsTerminal_def ownedBy_def)

subsection \<open>Everything else that writes the table\<close>

datatype resolution_sweep =
    SweepEnqueue "string \<Rightarrow> string" "string list" "queue_port option" string "resolution_intent list" bool ms ms
  | SweepRecover "queue_port option" string ms

fun sweepResolutions :: "resolution_sweep \<Rightarrow> resolution list \<Rightarrow> resolution list" where
  "sweepResolutions (SweepEnqueue sha tombs queue t intents reopen n1 n2) rows =
     ob_rows (snd (enqueueDeliveryResolutionJobs sha tombs queue t intents reopen n1 n2 \<lparr>ob_rows = rows, ob_sent = []\<rparr>))"
| "sweepResolutions (SweepRecover queue t now) rows =
     ob_rows (snd (enqueuePendingDeliveryResolutionJobs queue t now \<lparr>ob_rows = rows, ob_sent = []\<rparr>))"

text \<open>What every statement keeps, every sweep keeps.\<close>

lemma publishChunks_invariant:
  assumes "I (ob_rows w)"
    and "\<And>ids now rows. I rows \<Longrightarrow> I (markQueued ids now rows)"
    and "\<And>ids now rows. I rows \<Longrightarrow> I (reopenTerminalRows ids now rows)"
  shows "I (ob_rows (snd (publishChunks port t reopen now chunks n w)))"
  using assms(1)
proof (induction chunks arbitrary: n w)
  case (Cons ids chunks)
  define w1 where "w1 = (if reopen then w\<lparr>ob_rows := reopenTerminalRows ids now (ob_rows w)\<rparr> else w)"
  define due where "due = filter (\<lambda>r. rs_id r \<in> set ids \<and> rsDue now r) (ob_rows w1)"
  have "I (ob_rows w1)" using Cons.prems by (simp add: w1_def assms(3))
  then have w2: "I (ob_rows (snd (sendRows port t due now w1)))"
    using sendRows_rows [of port t due now w1] assms(2) by metis
  have "publishChunks port t reopen now (ids # chunks) n w =
     (case sendRows port t due now w1 of
        (Inl e, w2) \<Rightarrow> (Inl e, w2) | (Inr k, w2) \<Rightarrow> publishChunks port t reopen now chunks (n + k) w2)"
    by (simp add: Let_def w1_def due_def)
  then show ?case using w2 Cons.IH by (auto split: prod.splits sum.splits)
qed simp

lemma persist_invariant:
  assumes "I rows"
    and "\<And>rows now row. I rows \<Longrightarrow> I (insertResolution tombs (newResolution now row) rows)"
  shows "I (snd (persistDeliveryResolutionJobs sha tombs intents now rows))"
proof -
  have "I (fold (insertResolution tombs) (map (newResolution now) is) rows)" for "is"
    using assms(1) by (induction "is" arbitrary: rows) (simp_all add: assms(2))
  then show ?thesis by (simp add: persistDeliveryResolutionJobs_def prepareDeliveryResolutionJobs_def Let_def)
qed

lemma sweep_invariant:
  assumes "I rows"
    and ins: "\<And>rows tombs now row. I rows \<Longrightarrow> I (insertResolution tombs (newResolution now row) rows)"
    and mark: "\<And>ids now rows. I rows \<Longrightarrow> I (markQueued ids now rows)"
    and reopen: "\<And>ids now rows. I rows \<Longrightarrow> I (reopenTerminalRows ids now rows)"
    and reset: "\<And>now rows. I rows \<Longrightarrow> I (resetStaleRows now rows)"
    and purge: "\<And>now rows. I rows \<Longrightarrow> I (snd (purgeTerminalDeliveryResolutionJobs now rows))"
  shows "I (sweepResolutions sw rows)"
proof (cases sw)
  case (SweepEnqueue sha tombs queue t intents ro n1 n2)
  obtain m rows1 where p: "persistDeliveryResolutionJobs sha tombs intents n1 rows = (m, rows1)" by fastforce
  have "I rows1" using persist_invariant [of I rows tombs sha intents n1] assms(1) ins p by simp
  moreover have "I (ob_rows (snd (publishChunks port t ro n2 chunks n \<lparr>ob_rows = rows1, ob_sent = []\<rparr>)))"
    for port chunks n
    by (rule publishChunks_invariant) (use \<open>I rows1\<close> mark reopen in simp_all)
  ultimately show ?thesis
    by (simp add: SweepEnqueue enqueueDeliveryResolutionJobs_def p Let_def split: option.split)
next
  case (SweepRecover queue t now)
  have "I (ob_rows (snd (sendRows port t due now w)))" if "I (ob_rows w)" for port due and w :: "resolution outbox"
    using sendRows_rows [of port t due now w] mark that by metis
  then show ?thesis using assms(1) reset purge
    by (auto simp: SweepRecover enqueuePendingDeliveryResolutionJobs_def Let_def split: option.splits)
qed

lemma sweep_wf: "resolutions_wf rows \<Longrightarrow> resolutions_wf (sweepResolutions sw rows)"
  by (rule sweep_invariant) (simp_all add: insertResolution_wf newResolution_wf markQueued_wf
      reopenTerminalRows_wf resetStaleRows_wf purge_resolutions_wf)

text \<open>A row that has a token after a statement is a row the statement did not touch.\<close>

definition tokenKept :: "resolution list \<Rightarrow> resolution list \<Rightarrow> bool" where
  "tokenKept rows rows' =
     (\<forall>i r. selectBy rs_id i rows' = Some r \<longrightarrow> rs_processingToken r \<noteq> None \<longrightarrow> selectBy rs_id i rows = Some r)"

lemma tokenKept_refl [simp]: "tokenKept rows rows"
  by (simp add: tokenKept_def)

lemma tokenKept_trans: "tokenKept a b \<Longrightarrow> tokenKept b c \<Longrightarrow> tokenKept a c"
  unfolding tokenKept_def by blast

lemma tokenKept_update:
  assumes "\<And>r. rs_id (f r) = rs_id r" "\<And>r. rs_processingToken (f r) = None"
  shows "tokenKept rows (updateWhere P f rows)"
  using assms by (auto simp: tokenKept_def selectBy_updateWhere split: if_splits)

lemma tokenKept_subset:
  "keysUnique rs_id rows \<Longrightarrow> set rows' \<subseteq> set rows \<Longrightarrow> tokenKept rows rows'"
  unfolding tokenKept_def using selectBy_SomeD selectBy_mem by (metis subsetD)

lemma tokenKept_insert:
  "rs_processingToken r = None \<Longrightarrow> tokenKept rows (insertResolution tombs r rows)"
  by (auto simp: tokenKept_def insertResolution_def selectBy_append split: option.splits if_splits)

lemma sweep_tokenKept:
  assumes "keysUnique rs_id rows"
  shows "keysUnique rs_id (sweepResolutions sw rows) \<and> tokenKept rows (sweepResolutions sw rows)"
proof (rule sweep_invariant [of "\<lambda>rows'. keysUnique rs_id rows' \<and> tokenKept rows rows'"])
  show "keysUnique rs_id rows \<and> tokenKept rows rows" using assms by simp
next
  fix rows' tombs now row
  assume "keysUnique rs_id rows' \<and> tokenKept rows rows'"
  moreover have "tokenKept rows' (insertResolution tombs (newResolution now row) rows')"
    by (rule tokenKept_insert) (simp add: newResolution_def)
  ultimately show "keysUnique rs_id (insertResolution tombs (newResolution now row) rows') \<and>
      tokenKept rows (insertResolution tombs (newResolution now row) rows')"
    by (auto simp: insertResolution_unique intro: tokenKept_trans)
next
  have upd: "keysUnique rs_id (updateWhere P f rows') \<and> tokenKept rows (updateWhere P f rows')"
    if "keysUnique rs_id rows' \<and> tokenKept rows rows'" "\<And>r. rs_id (f r) = rs_id r" "\<And>r. rs_processingToken (f r) = None"
    for P f rows'
    using that tokenKept_trans [OF _ tokenKept_update [of f]] by (simp add: keysUnique_updateWhere)
  fix ids now rows'
  assume i: "keysUnique rs_id rows' \<and> tokenKept rows rows'"
  show "keysUnique rs_id (markQueued ids now rows') \<and> tokenKept rows (markQueued ids now rows')"
    unfolding markQueued_def by (rule upd [OF i]) simp_all
  show "keysUnique rs_id (reopenTerminalRows ids now rows') \<and> tokenKept rows (reopenTerminalRows ids now rows')"
    unfolding reopenTerminalRows_def by (rule upd [OF i]) simp_all
  show "keysUnique rs_id (resetStaleRows now rows') \<and> tokenKept rows (resetStaleRows now rows')"
    unfolding resetStaleRows_def by (rule upd [OF i]) simp_all
  show "keysUnique rs_id (snd (purgeTerminalDeliveryResolutionJobs now rows')) \<and>
      tokenKept rows (snd (purgeTerminalDeliveryResolutionJobs now rows'))"
    using i tokenKept_trans [OF _ tokenKept_subset] unfolding purgeTerminalDeliveryResolutionJobs_def
    by (metis purgeRows_keeps(1,3))
qed

subsection \<open>Interfaces\<close>

definition resolutionStale :: "ms \<Rightarrow> resolution \<Rightarrow> bool" where
  "resolutionStale now = expired (\<lambda>r. rsTerminal (rs_status r)) rs_updatedAt (now - TERMINAL_RETENTION_MS)"

interpretation resolution_retention:
  retained_ledger rs_id resolutionStale purgeTerminalDeliveryResolutionJobs TERMINAL_PURGE_LIMIT
  by unfold_locales
    (auto simp: resolutionStale_def purgeTerminalDeliveryResolutionJobs_def purgeRows_count purgeRows_rest
      purgeRows_keeps dest: subsetD [OF purgeRows_keeps(1)])

definition claimResolutionRow :: "string \<Rightarrow> string \<Rightarrow> ms \<Rightarrow> resolution list \<Rightarrow> resolution list option" where
  "claimResolutionRow i tok now rows =
     (case claimResolutionById id i tok now rows of (Claimed c, rows') \<Rightarrow> Some rows' | _ \<Rightarrow> None)"

definition settleResolutionRow ::
  "string \<Rightarrow> string \<Rightarrow> int \<times> resolution_settlement \<Rightarrow> resolution list \<Rightarrow> bool \<times> resolution list" where
  "settleResolutionRow i tok c =
     settleResolution \<lparr>rt_id = i, rt_processingToken = tok, rt_attempts = fst c\<rparr> (snd c)"

lemma keyed_token: "rs_processingToken r = Some tok \<Longrightarrow> selectBy rs_id i rows = Some r \<Longrightarrow> resolutionToken rows i = Some tok"
  by (simp add: resolutionToken_def)

interpretation resolution_fence:
  fenced_rows resolutionToken claimResolutionRow settleResolutionRow sweepResolutions "keysUnique rs_id"
proof
  fix t t' :: "resolution list" and k tok a
  assume "keysUnique rs_id t" "claimResolutionRow k tok a t = Some t'"
  then show "keysUnique rs_id t' \<and> resolutionToken t' k = Some tok \<and>
      (\<forall>k'. k' \<noteq> k \<longrightarrow> resolutionToken t' k' = resolutionToken t k')"
    by (auto simp: claimResolutionRow_def dest: claim_token split: prod.splits resolution_claim.splits)
next
  fix t :: "resolution list" and k tok c
  assume u: "keysUnique rs_id t"
  show "fst (settleResolutionRow k tok c t) \<longleftrightarrow> resolutionToken t k = Some tok"
    using ownedBy_owner [OF u, of "\<lparr>rt_id = k, rt_processingToken = tok, rt_attempts = fst c\<rparr>"]
    by (simp add: settleResolutionRow_def settleResolution_eq)
  show "snd (settleResolutionRow k tok c t) = t" if "resolutionToken t k \<noteq> Some tok"
    using not_owned_unchanged [OF u, of "\<lparr>rt_id = k, rt_processingToken = tok, rt_attempts = fst c\<rparr>"] that
    by (simp add: settleResolutionRow_def settleResolution_eq)
  show "keysUnique rs_id (snd (settleResolutionRow k tok c t)) \<and>
      resolutionToken (snd (settleResolutionRow k tok c t)) k = None \<and>
      (\<forall>k'. k' \<noteq> k \<longrightarrow> resolutionToken (snd (settleResolutionRow k tok c t)) k' = resolutionToken t k')"
    if "resolutionToken t k = Some tok"
    using that u by (simp add: settleResolutionRow_def settleResolution_eq keysUnique_updateWhere resolutionToken_owned_update)
next
  fix t :: "resolution list" and s k
  assume u: "keysUnique rs_id t"
  have "resolutionToken (sweepResolutions s t) k = Some tok \<Longrightarrow> resolutionToken t k = Some tok" for tok
    using sweep_tokenKept [OF u, of s] unfolding tokenKept_def resolutionToken_def bind_eq_Some_conv by blast
  then show "keysUnique rs_id (sweepResolutions s t) \<and>
      (resolutionToken (sweepResolutions s t) k = resolutionToken t k \<or> resolutionToken (sweepResolutions s t) k = None)"
    using sweep_tokenKept [OF u, of s] by (cases "resolutionToken (sweepResolutions s t) k") auto
qed

subsection \<open>Workers\<close>

text \<open>
  The table with the tickets workers hold. A worker may use its ticket any number of times; a
  claim draws a token that was never used.
\<close>

record resolution_world =
  rx_rows :: "resolution list"
  rx_held :: "resolution_ticket list"
  rx_used :: "string list"

inductive resolution_step :: "resolution_world \<Rightarrow> resolution_world \<Rightarrow> bool" where
  step_sweep: "resolution_step s (s\<lparr>rx_rows := sweepResolutions sw (rx_rows s)\<rparr>)"
| step_claim: "claimResolutionById id i tok now (rx_rows s) = (Claimed c, rows') \<Longrightarrow> tok \<notin> set (rx_used s) \<Longrightarrow>
    resolution_step s (s\<lparr>rx_rows := rows', rx_held := c # rx_held s, rx_used := tok # rx_used s\<rparr>)"
| step_settle: "c \<in> set (rx_held s) \<Longrightarrow>
    resolution_step s (s\<lparr>rx_rows := snd (settleResolution c st (rx_rows s))\<rparr>)"

definition resolutionStart :: resolution_world where
  "resolutionStart = \<lparr>rx_rows = [], rx_held = [], rx_used = []\<rparr>"

definition ticketsCurrent :: "resolution_world \<Rightarrow> bool" where
  "ticketsCurrent s =
     (resolutions_wf (rx_rows s) \<and>
      (\<forall>i tok. resolutionToken (rx_rows s) i = Some tok \<longrightarrow> tok \<in> set (rx_used s)) \<and>
      (\<forall>c \<in> set (rx_held s). rt_processingToken c \<in> set (rx_used s) \<and>
         (\<forall>r. selectBy rs_id (rt_id c) (rx_rows s) = Some r \<longrightarrow>
            rs_processingToken r = Some (rt_processingToken c) \<longrightarrow> rs_attempts r = rt_attempts c)))"

lemma settle_wf:
  assumes "ticketsCurrent s" "c \<in> set (rx_held s)"
  shows "resolutions_wf (snd (settleResolution c st (rx_rows s)))"
proof -
  have wf: "resolutions_wf (rx_rows s)" using assms(1) by (simp add: ticketsCurrent_def)
  have "rs_attempts r = rt_attempts c" if "r \<in> set (rx_rows s)" "ownedBy c r" for r
  proof -
    have "selectBy rs_id (rt_id c) (rx_rows s) = Some r"
      using wf that selectBy_mem [of rs_id "rx_rows s" r] by (simp add: resolutions_wf_def ownedBy_def)
    then show ?thesis using assms that(2) by (simp add: ticketsCurrent_def ownedBy_def)
  qed
  then show ?thesis unfolding settleResolution_eq snd_conv
    by (intro resolutions_wf_updateWhere [OF wf] settledRow_simps settledRow_wf)
qed

lemma tickets_kept:
  assumes "ticketsCurrent s" "resolutions_wf rows'" "tokenKept (rx_rows s) rows'"
  shows "ticketsCurrent (s\<lparr>rx_rows := rows'\<rparr>)"
  using assms unfolding ticketsCurrent_def tokenKept_def resolutionToken_def bind_eq_Some_conv by simp blast

lemma step_keeps_tickets: "resolution_step s s' \<Longrightarrow> ticketsCurrent s \<Longrightarrow> ticketsCurrent s'"
proof (induction rule: resolution_step.induct)
  case (step_sweep s sw)
  then have "resolutions_wf (rx_rows s)" by (simp add: ticketsCurrent_def)
  then show ?case using step_sweep sweep_wf sweep_tokenKept by (intro tickets_kept) (auto simp: resolutions_wf_def)
next
  case (step_claim i tok now s c rows')
  have wf: "resolutions_wf (rx_rows s)" using step_claim.prems by (simp add: ticketsCurrent_def)
  then have u: "keysUnique rs_id (rx_rows s)" by (simp add: resolutions_wf_def)
  obtain row where row: "selectBy rs_id i (rx_rows s) = Some row" "claimable now row"
      "c = \<lparr>rt_id = i, rt_processingToken = tok, rt_attempts = rs_attempts row\<rparr>"
      "rows' = updateWhere (\<lambda>r. rs_id r = i \<and> claimable now r)
        (\<lambda>r. r\<lparr>rs_status := RsProcessing, rs_processingToken := Some tok, rs_updatedAt := now\<rparr>) (rx_rows s)"
    using claim_by_id [OF step_claim.hyps(1) u] by blast
  have c: "rt_id c = i" "rt_processingToken c = tok" "rt_attempts c = rs_attempts row" using row(3) by simp_all
  have wf': "resolutions_wf rows'" using claim_keeps_wf [OF wf, of i tok now] step_claim.hyps(1) by simp
  note tok = claim_token [OF step_claim.hyps(1) u]
  have sel: "selectBy rs_id j rows' = (if j = i then Some (row\<lparr>rs_status := RsProcessing, rs_processingToken := Some tok, rs_updatedAt := now\<rparr>)
      else selectBy rs_id j (rx_rows s))" for j
  proof (cases "selectBy rs_id j (rx_rows s)")
    case (Some r)
    then show ?thesis using selectBy_SomeD [OF Some] row(1,2)
      by (auto simp: row(4) selectBy_updateWhere)
  next
    case None
    then show ?thesis using row(1) by (auto simp: row(4) selectBy_updateWhere)
  qed
  show ?case unfolding ticketsCurrent_def
  proof (intro conjI allI impI ballI)
    fix j t
    assume "resolutionToken (rx_rows (s\<lparr>rx_rows := rows', rx_held := c # rx_held s, rx_used := tok # rx_used s\<rparr>)) j = Some t"
    then show "t \<in> set (rx_used (s\<lparr>rx_rows := rows', rx_held := c # rx_held s, rx_used := tok # rx_used s\<rparr>))"
      using tok step_claim.prems by (cases "j = i") (auto simp: ticketsCurrent_def)
  next
    fix d r
    assume d: "d \<in> set (rx_held (s\<lparr>rx_rows := rows', rx_held := c # rx_held s, rx_used := tok # rx_used s\<rparr>))"
    show "rt_processingToken d \<in> set (rx_used (s\<lparr>rx_rows := rows', rx_held := c # rx_held s, rx_used := tok # rx_used s\<rparr>))"
      using d step_claim.prems c(2) by (auto simp: ticketsCurrent_def)
    assume "selectBy rs_id (rt_id d) (rx_rows (s\<lparr>rx_rows := rows', rx_held := c # rx_held s, rx_used := tok # rx_used s\<rparr>)) = Some r"
      "rs_processingToken r = Some (rt_processingToken d)"
    then show "rs_attempts r = rt_attempts d"
      using d step_claim.prems step_claim.hyps(2) c sel
      by (auto simp: ticketsCurrent_def split: if_splits)
  qed (use wf' in simp)
next
  case (step_settle c s st)
  then show ?case
    by (intro tickets_kept settle_wf) (auto simp: settleResolution_eq tokenKept_update)
qed

lemma reachable_tickets: "resolution_step\<^sup>*\<^sup>* resolutionStart s \<Longrightarrow> ticketsCurrent s"
  by (induction rule: rtranclp_induct)
    (auto simp: resolutionStart_def ticketsCurrent_def resolutions_wf_def keysUnique_def resolutionToken_def
      dest: step_keeps_tickets)


subsection \<open>Properties\<close>

text \<open>
  C8: Whatever the interleaving of claims, settlements by any worker at any time, recovery
  sweeps, new intents and reopenings, every claim settles its row at most once: from the empty
  ledger, the settlements that take effect carry pairwise different tokens.
\<close>

theorem resolution_claim_settles_once:
  assumes "freshTokens evs"
  shows "distinct (map snd (fst (fenceRun claimResolutionRow settleResolutionRow sweepResolutions evs [])))"
  by (rule resolution_fence.settles_once [OF _ _ assms])
    (simp_all add: keysUnique_def tokensApart_def resolutionToken_def)

definition exampleIntent :: resolution_intent where
  "exampleIntent = \<lparr>ri_activityId = ''a'', ri_recipientActorApId = ''b''\<rparr>"

definition exampleFence :: "(string, ms, int \<times> resolution_settlement, resolution_sweep) fence_event list" where
  "exampleFence =
     [EvSweep (SweepEnqueue (\<lambda>s. s) [] None ''t'' [exampleIntent] False 0 0),
      EvClaim ''resolve_actor|a|b'' ''t1'' 10, EvClaim ''resolve_actor|a|b'' ''t2'' 200000,
      EvSettle ''resolve_actor|a|b'' ''t1'' (0, SettleDefer ''e'' 60 200001),
      EvSettle ''resolve_actor|a|b'' ''t2'' (0, SettleRetry ''e'' 60 200002),
      EvSettle ''resolve_actor|a|b'' ''t2'' (0, SettleComplete False None 200003)]"

theorem resolution_claim_settles_once_witness:
  "distinct (map snd (fst (fenceRun claimResolutionRow settleResolutionRow sweepResolutions exampleFence [])))
   \<and> fst (fenceRun claimResolutionRow settleResolutionRow sweepResolutions exampleFence [])
      = [(''resolve_actor|a|b'', ''t2'')]"
proof -
  have "freshTokens exampleFence" by code_simp
  moreover have "fst (fenceRun claimResolutionRow settleResolutionRow sweepResolutions exampleFence [])
      = [(''resolve_actor|a|b'', ''t2'')]" by code_simp
  ultimately show ?thesis using resolution_claim_settles_once by blast
qed

text \<open>
  What a claim answers, on every branch, when nobody interferes: no row, a terminal row, a
  retry that is not due (with a delay that reaches the due time and overshoots by less than a
  second), a row another worker has held for less than two minutes (which stays as it is), and
  otherwise the row in processing under the new token, all other rows unchanged.
\<close>

theorem resolution_claim_decides:
  assumes "keysUnique rs_id rows"
  shows "let i = computeDeliveryResolutionId sha act rcpt;
             res = claimDeliveryResolutionJob sha id act rcpt tok now rows
         in case selectBy rs_id i rows of
              None \<Rightarrow> res = (ClaimMissing, rows)
            | Some r \<Rightarrow>
                (if rsTerminal (rs_status r) then res = (ClaimTerminal, rows)
                 else if rs_status r = RsRetryWait \<and> now < rs_nextAttemptAt r then
                   (\<exists>d. res = (ClaimDeferred d, rows) \<and> 1 \<le> d \<and>
                      rs_nextAttemptAt r \<le> now + 1000 * d \<and> now + 1000 * d < rs_nextAttemptAt r + 1000)
                 else if rs_status r = RsProcessing \<and> now - 120000 < rs_updatedAt r then res = (ClaimBusy 60, rows)
                 else fst res = Claimed \<lparr>rt_id = i, rt_processingToken = tok, rt_attempts = rs_attempts r\<rparr> \<and>
                   selectBy rs_id i (snd res)
                     = Some (r\<lparr>rs_status := RsProcessing, rs_processingToken := Some tok, rs_updatedAt := now\<rparr>) \<and>
                   (\<forall>j. j \<noteq> i \<longrightarrow> selectBy rs_id j (snd res) = selectBy rs_id j rows))"
proof (cases "selectBy rs_id (computeDeliveryResolutionId sha act rcpt) rows")
  case None
  then show ?thesis by (simp add: claimDeliveryResolutionJob_def claimResolutionById_def)
next
  case (Some r)
  define i where "i = computeDeliveryResolutionId sha act rcpt"
  have r: "selectBy rs_id i rows = Some r" and id: "rs_id r = i"
    using Some selectBy_SomeD [OF Some] by (simp_all add: i_def)
  have aff: "affectedRows (\<lambda>x. rs_id x = i \<and> claimable now x) rows = (if claimable now r then 1 else 0)"
    using affectedRows_key [OF assms, of "\<lambda>x. rs_id x = i \<and> claimable now x" i] r id by simp
  have upd: "selectBy rs_id j (updateWhere (\<lambda>x. rs_id x = i \<and> claimable now x) f rows)
      = (if j = i then Some (if claimable now r then f r else r) else selectBy rs_id j rows)"
    if "\<And>x. rs_id (f x) = rs_id x" for f j
  proof (cases "j = i")
    case True
    then show ?thesis by (simp add: selectBy_updateWhere that r id)
  next
    case False
    then have "\<And>x. selectBy rs_id j rows = Some x \<Longrightarrow> rs_id x \<noteq> i" using selectBy_SomeD by metis
    then show ?thesis using False by (cases "selectBy rs_id j rows") (simp_all add: selectBy_updateWhere that)
  qed
  let ?later = "rs_status r = RsRetryWait \<and> now < rs_nextAttemptAt r"
  let ?busy = "rs_status r = RsProcessing \<and> now - 120000 < rs_updatedAt r"
  have cl: "claimable now r = (\<not> ?busy)" if "\<not> rsTerminal (rs_status r)" "\<not> ?later"
    using that by (cases "rs_status r") (auto simp: rsTerminal_def claimable_def)
  note spec = claimDeliveryResolutionJob_def claimResolutionById_def i_def [symmetric] r option.case
  show ?thesis
  proof (cases "rsTerminal (rs_status r) \<or> ?later")
    case True
    then show ?thesis
      using deferSecondsUntil_covers [of "rs_nextAttemptAt r" now] deferSecondsUntil_tight [of now "rs_nextAttemptAt r"]
        deferSecondsUntil_pos [of "rs_nextAttemptAt r" now]
      unfolding Let_def spec by (cases "rsTerminal (rs_status r)") (simp_all only: if_True if_False simp_thms, blast)
  next
    case False
    then have c: "claimable now r = (\<not> ?busy)" using cl by blast
    show ?thesis
    proof (cases ?busy)
      case True
      then have "(affectedRows (\<lambda>x. rs_id x = i \<and> claimable now x) rows = 0) = True" using aff c by simp
      then show ?thesis using True False unfolding Let_def spec by (simp add: rsTerminal_def)
    next
      case nb: False
      then have "(affectedRows (\<lambda>x. rs_id x = i \<and> claimable now x) rows = 0) = False" using aff c by simp
      then show ?thesis using nb False c unfolding Let_def spec
        by (simp add: upd del: resolution_constants)
    qed
  qed
qed

theorem resolution_claim_decides_witness:
  "claimDeliveryResolutionJob (\<lambda>s. s) id ''a'' ''b'' ''t'' 5
     [newResolution 0 (''resolve_actor|a|c'', exampleIntent)]
     = (ClaimMissing, [newResolution 0 (''resolve_actor|a|c'', exampleIntent)])"
  using resolution_claim_decides [of "[newResolution 0 (''resolve_actor|a|c'', exampleIntent)]" "\<lambda>s. s" "''a''" "''b''" "''t''" 5]
  by (simp add: keysUnique_def newResolution_def computeDeliveryResolutionId_def Let_def)


definition exampleWorld :: resolution_world where
  "exampleWorld = resolutionStart\<lparr>rx_rows :=
     sweepResolutions (SweepEnqueue (\<lambda>s. s) [] None ''t'' [exampleIntent] False 0 0) []\<rparr>"


text \<open>No statement of an enqueue removes a row, and a producer that refuses everything changes none.\<close>

lemma insertResolution_keeps:
  "selectBy rs_id i rows = Some r \<Longrightarrow> selectBy rs_id i (insertResolution tombs x rows) = Some r"
  by (simp add: insertResolution_def selectBy_append)

definition resolutionPair :: "resolution \<Rightarrow> string \<times> string" where
  "resolutionPair r = (rs_activityApId r, rs_recipientActorApId r)"

lemma insertResolution_has:
  "rs_recipientActorApId x \<notin> set tombs \<Longrightarrow>
   \<exists>r \<in> set (insertResolution tombs x rows). rs_id r = rs_id x \<or> resolutionPair r = resolutionPair x"
  by (auto simp: insertResolution_def resolutionPair_def list_ex_iff)

lemma insertResolution_mono: "set rows \<subseteq> set (insertResolution tombs x rows)"
  by (auto simp: insertResolution_def)

lemma insertResolutions_mono: "set rows \<subseteq> set (fold (insertResolution tombs) rs rows)"
proof (induction rs arbitrary: rows)
  case (Cons x rs)
  then show ?case using insertResolution_mono [of rows tombs x] by fastforce
qed simp

lemma insertResolutions_have:
  assumes "x \<in> set rs" "rs_recipientActorApId x \<notin> set tombs"
  shows "\<exists>r \<in> set (fold (insertResolution tombs) rs rows). rs_id r = rs_id x \<or> resolutionPair r = resolutionPair x"
  using assms(1)
proof (induction rs arbitrary: rows)
  case (Cons y rs)
  show ?case
  proof (cases "x = y")
    case True
    have "\<exists>r \<in> set (insertResolution tombs x rows). rs_id r = rs_id x \<or> resolutionPair r = resolutionPair x"
      using insertResolution_has [OF assms(2)] .
    then show ?thesis using insertResolutions_mono [of "insertResolution tombs x rows" tombs rs] True by auto
  next
    case False
    then show ?thesis using Cons by simp
  qed
qed simp

lemma fold_update_values:
  assumes "i \<in> set intents"
  shows "\<exists>k j. (k, j) \<in> set (fold (\<lambda>i m. AList.update (intentKey i) i m) intents m0) \<and> intentKey j = intentKey i"
proof -
  have inv: "map_of (fold (\<lambda>i m. AList.update (intentKey i) i m) is m) =
      (map_of m) ++ map_of (rev (map (\<lambda>i. (intentKey i, i)) is))" for "is" m
    by (induction "is" arbitrary: m) (simp_all add: update_conv')
  let ?l = "rev (map (\<lambda>i. (intentKey i, i)) intents)"
  have "intentKey i \<in> fst ` set ?l" using assms by force
  then obtain j where j: "map_of ?l (intentKey i) = Some j" by (metis map_of_eq_None_iff not_Some_eq)
  then have "(intentKey i, j) \<in> set ?l" by (rule map_of_SomeD)
  then have "intentKey j = intentKey i" by auto
  moreover have "map_of (fold (\<lambda>i m. AList.update (intentKey i) i m) intents m0) (intentKey i) = Some j"
    using j by (simp add: inv map_add_Some_iff)
  ultimately show ?thesis by (blast dest: map_of_SomeD)
qed

lemma intentKey_inject:
  assumes "intentKey i = intentKey j" "char_of (0::nat) \<notin> set (ri_activityId i)" "char_of (0::nat) \<notin> set (ri_activityId j)"
  shows "ri_activityId i = ri_activityId j \<and> ri_recipientActorApId i = ri_recipientActorApId j"
proof -
  have "takeWhile (\<lambda>c. c \<noteq> char_of (0::nat)) (intentKey k) = ri_activityId k"
    if "char_of (0::nat) \<notin> set (ri_activityId k)" for k
    using that by (auto simp: intentKey_def takeWhile_append2 takeWhile_append)
  then have "ri_activityId i = ri_activityId j" using assms by metis
  then show ?thesis using assms(1) by (simp add: intentKey_def)
qed

definition hasIntent :: "(string \<Rightarrow> string) \<Rightarrow> resolution_intent \<Rightarrow> resolution list \<Rightarrow> bool" where
  "hasIntent sha i rows =
     list_ex (\<lambda>r. rs_id r = computeDeliveryResolutionId sha (ri_activityId i) (ri_recipientActorApId i) \<or>
        (rs_activityApId r = ri_activityId i \<and> rs_recipientActorApId r = ri_recipientActorApId i)) rows"

lemma persist_hasIntent:
  assumes nul: "list_all (\<lambda>i. char_of (0::nat) \<notin> set (ri_activityId i)) intents"
    and i: "i \<in> set intents" "ri_recipientActorApId i \<notin> set tombs"
  shows "hasIntent sha i (snd (persistDeliveryResolutionJobs sha tombs intents n1 rows))"
proof -
  let ?m = "fold (\<lambda>i m. AList.update (intentKey i) i m) intents []"
  obtain k j where kj: "(k, j) \<in> set ?m" "intentKey j = intentKey i" using fold_update_values [OF i(1)] by blast
  have "snd ` set (fold (\<lambda>i m. AList.update (intentKey i) i m) is m) \<subseteq> set is \<union> snd ` set m" for "is" m
  proof (induction "is" arbitrary: m)
    case (Cons x "is")
    have "snd ` set (AList.update (intentKey x) x m) \<subseteq> insert x (snd ` set m)"
      by (induction m) auto
    then show ?case using Cons.IH [of "AList.update (intentKey x) x m"] unfolding fold_simps list.set by blast
  qed simp
  from this [of intents "[]"] kj(1) have "j \<in> set intents" by force
  then have same: "ri_activityId j = ri_activityId i \<and> ri_recipientActorApId j = ri_recipientActorApId i"
    using intentKey_inject [OF kj(2)] nul i(1) by (simp add: list_all_iff)
  let ?x = "newResolution n1 (computeDeliveryResolutionId sha (ri_activityId j) (ri_recipientActorApId j), j)"
  have "?x \<in> set (snd (prepareDeliveryResolutionJobs sha intents n1))"
    using kj(1) by (force simp: prepareDeliveryResolutionJobs_def materializeIntents_def Let_def)
  moreover have "rs_recipientActorApId ?x \<notin> set tombs" using same i(2) by (simp add: newResolution_def)
  ultimately have "\<exists>r \<in> set (fold (insertResolution tombs) (snd (prepareDeliveryResolutionJobs sha intents n1)) rows).
      rs_id r = rs_id ?x \<or> resolutionPair r = resolutionPair ?x" by (rule insertResolutions_have)
  then show ?thesis using same
    by (auto simp: hasIntent_def persistDeliveryResolutionJobs_def newResolution_def resolutionPair_def list_ex_iff
        split: prod.splits)
qed

lemma hasIntent_update:
  "hasIntent sha i rows \<Longrightarrow> (\<And>r. rs_id (f r) = rs_id r) \<Longrightarrow> (\<And>r. rs_activityApId (f r) = rs_activityApId r) \<Longrightarrow>
   (\<And>r. rs_recipientActorApId (f r) = rs_recipientActorApId r) \<Longrightarrow> hasIntent sha i (updateWhere P f rows)"
  by (induction rows) (auto simp: hasIntent_def)

lemma hasIntent_publish:
  "hasIntent sha i (ob_rows w) \<Longrightarrow> hasIntent sha i (ob_rows (snd (publishChunks port t reopen now chunks n w)))"
  by (rule publishChunks_invariant) (simp_all add: markQueued_def reopenTerminalRows_def hasIntent_update)

lemma publishChunks_refused:
  "ob_rows (snd (publishChunks (\<lambda>msgs. Some 0) t False now chunks n w)) = ob_rows w"
proof (induction chunks arbitrary: n w)
  case (Cons ids chunks)
  then show ?case
    by (auto simp: Let_def sendRows_def act_defs sendBatch_def)
qed simp



text \<open>
  Retention. A purge deletes at most fifty rows and only terminal ones that have not changed
  for thirty days; the rows it leaves are untouched, and enough purges leave exactly the rows
  that are not expired.
\<close>

theorem resolution_purge_converges:
  assumes "keysUnique rs_id rows"
    and "affectedRows (\<lambda>r. rsTerminal (rs_status r) \<and> rs_updatedAt r \<le> now - 2592000000) rows \<le> 50 * n"
  shows "fst (purgeTerminalDeliveryResolutionJobs now rows) \<le> 50 \<and>
    set (((snd \<circ> purgeTerminalDeliveryResolutionJobs now) ^^ n) rows)
      = {r \<in> set rows. \<not> (rsTerminal (rs_status r) \<and> rs_updatedAt r \<le> now - 2592000000)}"
proof -
  have st: "resolutionStale now r = (rsTerminal (rs_status r) \<and> rs_updatedAt r \<le> now - 2592000000)" for r
    by (simp add: resolutionStale_def expired_def)
  then have "resolutionStale now = (\<lambda>r. rsTerminal (rs_status r) \<and> rs_updatedAt r \<le> now - 2592000000)" by blast
  then show ?thesis
    using resolution_retention.sweeps_converge [OF assms(1), of now n] resolution_retention.purge_count [OF assms(1), of now]
      assms(2) st by (simp add: mult.commute)
qed

theorem resolution_purge_converges_witness:
  "set (((snd \<circ> purgeTerminalDeliveryResolutionJobs 2592000000) ^^ 1)
     [(newResolution 0 (''i'', exampleIntent))\<lparr>rs_status := RsResolved\<rparr>]) = {}"
  using resolution_purge_converges [of "[(newResolution 0 (''i'', exampleIntent))\<lparr>rs_status := RsResolved\<rparr>]" 2592000000 1]
  by (auto simp: keysUnique_def affectedRows_def newResolution_def rsTerminal_def)

end
