(* ===== verification/FanoutOutbox.thy ===== *)
theory FanoutOutbox
  imports Ledger
begin

section \<open>The outbox of fanouts\<close>

text \<open>
  Models \<open>src/backend/lib/delivery/fanout-outbox.ts\<close>, the durable ledger of follower
  and community fanouts: the deterministic id of an intent, the row written before the first
  queue call, its publication and recovery, the state the workers report and the purge.
  \<open>sha256Hex\<close> and the clock texts are parameters.
\<close>

definition FANOUT_SCAN_LIMIT :: nat where "FANOUT_SCAN_LIMIT = 50"
definition FANOUT_RETENTION_MS :: ms where "FANOUT_RETENTION_MS = 30 * 24 * 60 * 60 * 1000"
definition FANOUT_PURGE_LIMIT :: nat where "FANOUT_PURGE_LIMIT = 50"

lemmas fanout_constants [simp] = FANOUT_SCAN_LIMIT_def FANOUT_RETENTION_MS_def FANOUT_PURGE_LIMIT_def

subsection \<open>Intents and rows\<close>

datatype fanout_intent =
    FollowersIntent (fi_activityId: string) (fi_targetApId: string)
  | CommunityIntent (fi_activityId: string) (fi_targetApId: string) (fi_announceActivityId: "string option")

datatype fanout_state = FanoutMissing | FanoutActive | FanoutTerminal

datatype fanout_status = FoPending | FoPublished | FoCompleted | FoFailed | FoDiscarded

record fanout =
  fo_id :: string
  fo_activityApId :: string
  fo_kind :: string
  fo_targetApId :: string
  fo_announceActivityApId :: "string option"
  fo_status :: fanout_status
  fo_publications :: int
  fo_lastError :: "string option"
  fo_createdAt :: ms
  fo_updatedAt :: ms
  fo_completedAt :: "ms option"

definition foTerminal :: "fanout_status \<Rightarrow> bool" where
  "foTerminal s = (s = FoCompleted \<or> s = FoFailed \<or> s = FoDiscarded)"

definition foActive :: "fanout_status \<Rightarrow> bool" where
  "foActive s = (s = FoPending \<or> s = FoPublished)"

text \<open>A string that is empty is false in a condition of the source.\<close>

fun intentKind :: "fanout_intent \<Rightarrow> string" where
  "intentKind (FollowersIntent a t) = ''followers''"
| "intentKind (CommunityIntent a t n) = ''community''"

fun intentAnnounce :: "fanout_intent \<Rightarrow> string option" where
  "intentAnnounce (FollowersIntent a t) = None"
| "intentAnnounce (CommunityIntent a t n) = n"

fun deliveryFanoutIntentFromMessage :: "qbody \<Rightarrow> fanout_intent option" where
  "deliveryFanoutIntentFromMessage (FanoutFollowers a followee c) = Some (FollowersIntent a followee)"
| "deliveryFanoutIntentFromMessage (FanoutCommunity a comm n st c) = Some (CommunityIntent a comm (truthy n))"
| "deliveryFanoutIntentFromMessage _ = None"

definition joinBar :: "string list \<Rightarrow> string" where
  "joinBar xs = concat (take 1 xs @ map (\<lambda>x. ''|'' @ x) (drop 1 xs))"

definition computeDeliveryFanoutId :: "(string \<Rightarrow> string) \<Rightarrow> fanout_intent \<Rightarrow> string" where
  "computeDeliveryFanoutId sha256Hex intent =
     sha256Hex (joinBar [''fanout'', intentKind intent, fi_activityId intent, fi_targetApId intent,
       (case intentAnnounce intent of None \<Rightarrow> '''' | Some n \<Rightarrow> n)])"

definition buildFanoutMessage :: "string \<Rightarrow> fanout \<Rightarrow> string + qmsg" where
  "buildFanoutMessage nowText row =
     (if fo_kind row = ''followers'' then
        Inr \<lparr>q_body = FanoutFollowers (fo_activityApId row) (fo_targetApId row) None,
             q_autoDlqAttempt = None, q_scheduledAt = nowText\<rparr>
      else if fo_kind row = ''community'' then
        Inr \<lparr>q_body = FanoutCommunity (fo_activityApId row) (fo_targetApId row)
                          (truthy (fo_announceActivityApId row)) None None,
             q_autoDlqAttempt = None, q_scheduledAt = nowText\<rparr>
      else Inl ''Unsupported delivery fanout kind'')"

definition prepareDeliveryFanoutJob :: "(string \<Rightarrow> string) \<Rightarrow> fanout_intent \<Rightarrow> ms \<Rightarrow> fanout" where
  "prepareDeliveryFanoutJob sha256Hex intent now =
     \<lparr>fo_id = computeDeliveryFanoutId sha256Hex intent, fo_activityApId = fi_activityId intent,
      fo_kind = intentKind intent, fo_targetApId = fi_targetApId intent,
      fo_announceActivityApId = intentAnnounce intent, fo_status = FoPending, fo_publications = 0,
      fo_lastError = None, fo_createdAt = now, fo_updatedAt = now, fo_completedAt = None\<rparr>"

text \<open>
  \<open>ON CONFLICT DO NOTHING\<close>: the primary key, and the unique index on the intent, in which
  SQL takes two absent announce ids for different.
\<close>

definition fanoutConflict :: "fanout \<Rightarrow> fanout \<Rightarrow> bool" where
  "fanoutConflict x r =
     (fo_id x = fo_id r \<or>
      (fo_activityApId x = fo_activityApId r \<and> fo_kind x = fo_kind r \<and> fo_targetApId x = fo_targetApId r \<and>
       fo_announceActivityApId x \<noteq> None \<and> fo_announceActivityApId x = fo_announceActivityApId r))"

definition insertFanout :: "fanout \<Rightarrow> fanout list \<Rightarrow> fanout list" where
  "insertFanout r rows = (if list_ex (\<lambda>x. fanoutConflict x r) rows then rows else rows @ [r])"

definition persistDeliveryFanoutJob ::
  "(string \<Rightarrow> string) \<Rightarrow> fanout_intent \<Rightarrow> ms \<Rightarrow> fanout list \<Rightarrow> string \<times> fanout list" where
  "persistDeliveryFanoutJob sha256Hex intent now rows =
     (let r = prepareDeliveryFanoutJob sha256Hex intent now in (fo_id r, insertFanout r rows))"

subsection \<open>Publication\<close>

definition markRowsPublished :: "string list \<Rightarrow> ms \<Rightarrow> fanout list \<Rightarrow> fanout list" where
  "markRowsPublished ids now rows =
     (if ids = [] then rows
      else updateWhere (\<lambda>r. fo_id r \<in> set ids \<and> foActive (fo_status r))
             (\<lambda>r. r\<lparr>fo_status := FoPublished, fo_publications := fo_publications r + 1,
                    fo_lastError := None, fo_updatedAt := now\<rparr>) rows)"

text \<open>\<open>rows.map(buildFanoutMessage)\<close>, which throws on the first unsupported kind.\<close>

fun buildFanoutMessages :: "string \<Rightarrow> fanout list \<Rightarrow> string + qmsg list" where
  "buildFanoutMessages nowText [] = Inr []"
| "buildFanoutMessages nowText (r # rows) =
     (case buildFanoutMessage nowText r of
        Inl e \<Rightarrow> Inl e
      | Inr m \<Rightarrow> (case buildFanoutMessages nowText rows of Inl e \<Rightarrow> Inl e | Inr ms \<Rightarrow> Inr (m # ms)))"

definition publishRows :: "queue_port \<Rightarrow> string \<Rightarrow> ms \<Rightarrow> fanout list \<Rightarrow> (fanout outbox, nat) act" where
  "publishRows port nowText now rows =
     (if rows = [] then ret 0
      else
        (case buildFanoutMessages nowText rows of
           Inl e \<Rightarrow> throw e
         | Inr msgs \<Rightarrow>
             andThen (sendBatch port msgs)
             (\<lambda>_. andThen (effect (\<lambda>w. w\<lparr>ob_rows := markRowsPublished (map fo_id rows) now (ob_rows w)\<rparr>))
             (\<lambda>_. ret (length rows)))))"

definition enqueueDeliveryFanoutJob ::
  "(string \<Rightarrow> string) \<Rightarrow> queue_port option \<Rightarrow> string \<Rightarrow> fanout_intent \<Rightarrow> ms \<Rightarrow> ms \<Rightarrow> (fanout outbox, nat) act" where
  "enqueueDeliveryFanoutJob sha256Hex queue nowText intent nowPersist now w =
     (case persistDeliveryFanoutJob sha256Hex intent nowPersist (ob_rows w) of
        (i, rows) \<Rightarrow>
          (let w1 = w\<lparr>ob_rows := rows\<rparr>
           in case queue of
                None \<Rightarrow> (Inr 0, w1)
              | Some port \<Rightarrow>
                  (case find (\<lambda>r. fo_id r = i \<and> fo_status r = FoPending) rows of
                     None \<Rightarrow> (Inr 0, w1)
                   | Some row \<Rightarrow>
                       (case buildFanoutMessage nowText row of
                          Inl e \<Rightarrow> (Inl e, w1)
                        | Inr m \<Rightarrow>
                            andThen (sendBatch port [m])
                            (\<lambda>_. andThen (effect (\<lambda>w. w\<lparr>ob_rows := markRowsPublished [fo_id row] now (ob_rows w)\<rparr>))
                            (\<lambda>_. ret 1)) w1))))"

definition purgeTerminalDeliveryFanoutJobs :: "ms \<Rightarrow> fanout list \<Rightarrow> nat \<times> fanout list" where
  "purgeTerminalDeliveryFanoutJobs now =
     purgeRows fo_id (\<lambda>r. foTerminal (fo_status r)) fo_updatedAt FANOUT_PURGE_LIMIT (now - FANOUT_RETENTION_MS)"

definition enqueuePendingDeliveryFanoutJobs ::
  "queue_port option \<Rightarrow> string \<Rightarrow> bool \<Rightarrow> ms \<Rightarrow> (fanout outbox, nat) act" where
  "enqueuePendingDeliveryFanoutJobs queue nowText includePublished now w =
     (let w1 = w\<lparr>ob_rows := snd (purgeTerminalDeliveryFanoutJobs now (ob_rows w))\<rparr>
      in case queue of
           None \<Rightarrow> (Inr 0, w1)
         | Some port \<Rightarrow>
             (let wanted = (\<lambda>r. fo_status r = FoPending \<or> (includePublished \<and> fo_status r = FoPublished));
                  rows = take FANOUT_SCAN_LIMIT (sort_key fo_createdAt (filter wanted (ob_rows w1)))
              in publishRows port nowText now rows w1))"

subsection \<open>The state the workers report\<close>

definition getDeliveryFanoutState :: "(string \<Rightarrow> string) \<Rightarrow> fanout_intent \<Rightarrow> fanout list \<Rightarrow> fanout_state" where
  "getDeliveryFanoutState sha256Hex intent rows =
     (case selectBy fo_id (computeDeliveryFanoutId sha256Hex intent) rows of
        None \<Rightarrow> FanoutMissing
      | Some row \<Rightarrow> if foTerminal (fo_status row) then FanoutTerminal else FanoutActive)"

definition setDeliveryFanoutStatus ::
  "(string \<Rightarrow> string) \<Rightarrow> fanout_intent \<Rightarrow> fanout_status \<Rightarrow> string option \<Rightarrow> ms \<Rightarrow> fanout list \<Rightarrow> bool \<times> fanout list" where
  "setDeliveryFanoutStatus sha256Hex intent status reason now rows =
     (let i = computeDeliveryFanoutId sha256Hex intent;
          isTerm = (status \<noteq> FoPending);
          P = (\<lambda>r. fo_id r = i \<and> foActive (fo_status r))
      in (0 < affectedRows P rows,
          updateWhere P (\<lambda>r. r\<lparr>fo_status := status, fo_lastError := reason, fo_updatedAt := now,
                               fo_completedAt := (if isTerm then Some now else None)\<rparr>) rows))"

definition resetDeliveryFanoutJob ::
  "(string \<Rightarrow> string) \<Rightarrow> fanout_intent \<Rightarrow> string option \<Rightarrow> ms \<Rightarrow> fanout list \<Rightarrow> bool \<times> fanout list" where
  "resetDeliveryFanoutJob sha256Hex intent reason = setDeliveryFanoutStatus sha256Hex intent FoPending reason"

definition completeDeliveryFanoutJob ::
  "(string \<Rightarrow> string) \<Rightarrow> fanout_intent \<Rightarrow> bool \<Rightarrow> string option \<Rightarrow> ms \<Rightarrow> fanout list \<Rightarrow> bool \<times> fanout list" where
  "completeDeliveryFanoutJob sha256Hex intent discard reason =
     setDeliveryFanoutStatus sha256Hex intent (if discard then FoDiscarded else FoCompleted) reason"

definition failDeliveryFanoutJob ::
  "(string \<Rightarrow> string) \<Rightarrow> fanout_intent \<Rightarrow> string \<Rightarrow> ms \<Rightarrow> fanout list \<Rightarrow> bool \<times> fanout list" where
  "failDeliveryFanoutJob sha256Hex intent reason = setDeliveryFanoutStatus sha256Hex intent FoFailed (Some reason)"

subsection \<open>What every row satisfies\<close>

text \<open>The row of an intent, up to an announce id that is present but empty.\<close>

definition fanout_wf :: "(string \<Rightarrow> string) \<Rightarrow> fanout \<Rightarrow> bool" where
  "fanout_wf sha r =
     (0 \<le> fo_publications r \<and>
      (fo_completedAt r \<noteq> None \<longleftrightarrow> foTerminal (fo_status r)) \<and>
      (fo_status r = FoPublished \<longrightarrow> 1 \<le> fo_publications r) \<and>
      (\<exists>m. buildFanoutMessage [] r = Inr m \<and>
         map_option (computeDeliveryFanoutId sha) (deliveryFanoutIntentFromMessage (q_body m)) = Some (fo_id r)))"

definition fanouts_wf :: "(string \<Rightarrow> string) \<Rightarrow> fanout list \<Rightarrow> bool" where
  "fanouts_wf sha rows = (keysUnique fo_id rows \<and> list_all (fanout_wf sha) rows)"

lemma fanouts_wf_updateWhere:
  assumes "fanouts_wf sha rows" and "\<And>r. fo_id (f r) = fo_id r"
    and "\<And>r. fanout_wf sha r \<Longrightarrow> P r \<Longrightarrow> fanout_wf sha (f r)"
  shows "fanouts_wf sha (updateWhere P f rows)"
  using assms by (auto simp: fanouts_wf_def keysUnique_updateWhere intro: list_all_updateWhere)

lemma buildFanoutMessage_updates [simp]:
  "buildFanoutMessage t (r\<lparr>fo_status := a\<rparr>) = buildFanoutMessage t r"
  "buildFanoutMessage t (r\<lparr>fo_lastError := e\<rparr>) = buildFanoutMessage t r"
  "buildFanoutMessage t (r\<lparr>fo_updatedAt := n\<rparr>) = buildFanoutMessage t r"
  "buildFanoutMessage t (r\<lparr>fo_completedAt := c\<rparr>) = buildFanoutMessage t r"
  "buildFanoutMessage t (r\<lparr>fo_publications := k\<rparr>) = buildFanoutMessage t r"
  by (simp_all add: buildFanoutMessage_def)

lemma truthy_truthy [simp]: "truthy (truthy s) = truthy s"
  by (cases s) (simp_all add: truthy_def)

lemma prepare_wf: "fanout_wf sha (prepareDeliveryFanoutJob sha intent now)"
  by (cases intent)
    (auto simp: fanout_wf_def prepareDeliveryFanoutJob_def buildFanoutMessage_def computeDeliveryFanoutId_def
      truthy_def foTerminal_def split: option.splits)

lemma insertFanout_wf: "fanouts_wf sha rows \<Longrightarrow> fanout_wf sha r \<Longrightarrow> fanouts_wf sha (insertFanout r rows)"
  by (auto simp: insertFanout_def fanouts_wf_def keysUnique_def list_ex_iff fanoutConflict_def)

lemma markRowsPublished_wf: "fanouts_wf sha rows \<Longrightarrow> fanouts_wf sha (markRowsPublished ids now rows)"
  unfolding markRowsPublished_def
  by (auto intro!: fanouts_wf_updateWhere) (auto simp: fanout_wf_def foActive_def foTerminal_def)

lemma setDeliveryFanoutStatus_wf:
  "fanouts_wf sha rows \<Longrightarrow> status \<noteq> FoPublished \<Longrightarrow>
   fanouts_wf sha (snd (setDeliveryFanoutStatus sha' intent status reason now rows))"
proof -
  assume rows: "fanouts_wf sha rows" and s: "status \<noteq> FoPublished"
  have done_eq: "foTerminal status = (status \<noteq> FoPending)" using s by (cases status) (simp_all add: foTerminal_def)
  show "fanouts_wf sha (snd (setDeliveryFanoutStatus sha' intent status reason now rows))"
    unfolding setDeliveryFanoutStatus_def Let_def snd_conv
  proof (rule fanouts_wf_updateWhere [OF rows])
    fix r
    assume "fanout_wf sha r"
    then show "fanout_wf sha (r\<lparr>fo_status := status, fo_lastError := reason, fo_updatedAt := now,
        fo_completedAt := (if status \<noteq> FoPending then Some now else None)\<rparr>)"
      using s by (simp add: fanout_wf_def done_eq)
  qed simp
qed


subsection \<open>Interfaces\<close>

definition fanoutStale :: "ms \<Rightarrow> fanout \<Rightarrow> bool" where
  "fanoutStale now = expired (\<lambda>r. foTerminal (fo_status r)) fo_updatedAt (now - FANOUT_RETENTION_MS)"

interpretation fanout_retention:
  retained_ledger fo_id fanoutStale purgeTerminalDeliveryFanoutJobs FANOUT_PURGE_LIMIT
  by unfold_locales
    (auto simp: fanoutStale_def purgeTerminalDeliveryFanoutJobs_def purgeRows_count purgeRows_rest
      purgeRows_keeps dest: subsetD [OF purgeRows_keeps(1)])

subsection \<open>Events\<close>

datatype fanout_event =
    FevEnqueue "queue_port option" string fanout_intent ms ms
  | FevRecover "queue_port option" string bool ms
  | FevReset fanout_intent "string option" ms
  | FevComplete fanout_intent bool "string option" ms
  | FevFail fanout_intent string ms

fun fanoutEvent :: "(string \<Rightarrow> string) \<Rightarrow> fanout_event \<Rightarrow> fanout outbox \<Rightarrow> fanout outbox" where
  "fanoutEvent sha (FevEnqueue queue t intent n1 n2) w = snd (enqueueDeliveryFanoutJob sha queue t intent n1 n2 w)"
| "fanoutEvent sha (FevRecover queue t published now) w = snd (enqueuePendingDeliveryFanoutJobs queue t published now w)"
| "fanoutEvent sha (FevReset intent reason now) w =
     w\<lparr>ob_rows := snd (resetDeliveryFanoutJob sha intent reason now (ob_rows w))\<rparr>"
| "fanoutEvent sha (FevComplete intent discard reason now) w =
     w\<lparr>ob_rows := snd (completeDeliveryFanoutJob sha intent discard reason now (ob_rows w))\<rparr>"
| "fanoutEvent sha (FevFail intent reason now) w =
     w\<lparr>ob_rows := snd (failDeliveryFanoutJob sha intent reason now (ob_rows w))\<rparr>"

fun fanoutEventTime :: "fanout_event \<Rightarrow> ms" where
  "fanoutEventTime (FevEnqueue queue t intent n1 n2) = n2"
| "fanoutEventTime (FevRecover queue t published now) = now"
| "fanoutEventTime (FevReset intent reason now) = now"
| "fanoutEventTime (FevComplete intent discard reason now) = now"
| "fanoutEventTime (FevFail intent reason now) = now"

lemma publishRows_rows:
  "ob_rows (snd (publishRows port t now due w)) = ob_rows w \<or>
   ob_rows (snd (publishRows port t now due w)) = markRowsPublished (map fo_id due) now (ob_rows w)"
  by (auto simp: publishRows_def act_defs sendBatch_def split: option.splits sum.splits)

text \<open>What the statements keep, every event keeps.\<close>

lemma fanoutEvent_invariant:
  assumes "I (ob_rows w)"
    and ins: "\<And>intent now rows. I rows \<Longrightarrow> I (insertFanout (prepareDeliveryFanoutJob sha intent now) rows)"
    and mark: "\<And>ids now rows. I rows \<Longrightarrow> I (markRowsPublished ids now rows)"
    and set_status: "\<And>intent status reason now rows. status \<noteq> FoPublished \<Longrightarrow> I rows \<Longrightarrow>
      I (snd (setDeliveryFanoutStatus sha intent status reason now rows))"
    and purge: "\<And>rows. I rows \<Longrightarrow> I (snd (purgeTerminalDeliveryFanoutJobs (fanoutEventTime ev) rows))"
  shows "I (ob_rows (fanoutEvent sha ev w))"
proof (cases ev)
  case (FevEnqueue queue t intent n1 n2)
  have p: "I (insertFanout (prepareDeliveryFanoutJob sha intent n1) (ob_rows w))" using ins assms(1) .
  then show ?thesis using mark
    by (auto simp: FevEnqueue enqueueDeliveryFanoutJob_def persistDeliveryFanoutJob_def Let_def act_defs sendBatch_def
        split: option.splits sum.splits)
next
  case (FevRecover queue t published now)
  have "I (ob_rows (snd (publishRows port t now due v)))" if "I (ob_rows v)" for port due and v :: "fanout outbox"
    using publishRows_rows [of port t now due v] mark that by metis
  moreover have "I (snd (purgeTerminalDeliveryFanoutJobs now (ob_rows w)))"
    using purge [of "ob_rows w"] assms(1) FevRecover by simp
  ultimately show ?thesis
    by (simp add: FevRecover enqueuePendingDeliveryFanoutJobs_def Let_def split: option.split)
qed (use assms(1) set_status in \<open>simp_all add: resetDeliveryFanoutJob_def completeDeliveryFanoutJob_def failDeliveryFanoutJob_def\<close>)

lemma purgeFanouts_wf: "fanouts_wf sha rows \<Longrightarrow> fanouts_wf sha (snd (purgeTerminalDeliveryFanoutJobs now rows))"
  by (simp add: fanouts_wf_def purgeTerminalDeliveryFanoutJobs_def purgeRows_keeps)

lemma fanoutEvent_wf: "fanouts_wf sha (ob_rows w) \<Longrightarrow> fanouts_wf sha (ob_rows (fanoutEvent sha ev w))"
  by (rule fanoutEvent_invariant)
    (simp_all add: insertFanout_wf prepare_wf markRowsPublished_wf setDeliveryFanoutStatus_wf purgeFanouts_wf)

lemma fanoutEvents_wf:
  "fanouts_wf sha (ob_rows w) \<Longrightarrow> fanouts_wf sha (ob_rows (fold (fanoutEvent sha) evs w))"
  by (induction evs arbitrary: w) (simp_all add: fanoutEvent_wf)

lemma terminal_kept:
  assumes "foTerminal (fo_status r)" "\<not> fanoutStale (fanoutEventTime ev) r" "r \<in> set (ob_rows w)"
  shows "r \<in> set (ob_rows (fanoutEvent sha ev w))"
proof (rule fanoutEvent_invariant [of "\<lambda>rows. r \<in> set rows"])
  have upd: "r \<in> set (updateWhere (\<lambda>x. P x \<and> foActive (fo_status x)) f rows)" if "r \<in> set rows" for P f rows
    using that assms(1) by (force simp: set_updateWhere foActive_def foTerminal_def)
  fix ids now intent status reason and rows :: "fanout list"
  assume r: "r \<in> set rows"
  show "r \<in> set (markRowsPublished ids now rows)" using upd [OF r] r by (simp add: markRowsPublished_def)
  show "r \<in> set (snd (setDeliveryFanoutStatus sha intent status reason now rows))"
    using upd [OF r] by (simp add: setDeliveryFanoutStatus_def Let_def)
  show "r \<in> set (insertFanout (prepareDeliveryFanoutJob sha intent now) rows)" using r by (simp add: insertFanout_def)
  show "r \<in> set (snd (purgeTerminalDeliveryFanoutJobs (fanoutEventTime ev) rows))"
    using fanout_retention.purge_keeps [OF r assms(2)] .
qed (fact assms(3))

text \<open>The messages a publication sends belong to rows that are active in the table it leaves.\<close>

lemma buildFanoutMessages_all:
  "buildFanoutMessages t rows = Inr msgs \<Longrightarrow> m \<in> set msgs \<Longrightarrow> \<exists>r \<in> set rows. buildFanoutMessage t r = Inr m"
  by (induction rows arbitrary: msgs) (auto split: sum.splits)

lemma built_intent:
  "fanout_wf sha r \<Longrightarrow> buildFanoutMessage t r = Inr m \<Longrightarrow>
   \<exists>i. deliveryFanoutIntentFromMessage (q_body m) = Some i \<and> computeDeliveryFanoutId sha i = fo_id r"
  by (auto simp: fanout_wf_def buildFanoutMessage_def split: if_splits)

lemma sendBatch_new:
  "ob_sent (snd (sendBatch port msgs w)) = ob_sent w @ sent \<Longrightarrow> set sent \<subseteq> set msgs"
  by (auto simp: sendBatch_def split: option.splits dest: in_set_takeD)

definition refersToActive :: "(string \<Rightarrow> string) \<Rightarrow> fanout list \<Rightarrow> qmsg \<Rightarrow> bool" where
  "refersToActive sha rows m =
     (case deliveryFanoutIntentFromMessage (q_body m) of
        None \<Rightarrow> False | Some i \<Rightarrow> getDeliveryFanoutState sha i rows = FanoutActive)"

lemma built_refers:
  assumes "fanouts_wf sha rows" "r \<in> set rows" "foActive (fo_status r)" "buildFanoutMessage t r = Inr m"
  shows "refersToActive sha rows m" "refersToActive sha (markRowsPublished ids now rows) m"
proof -
  have "fanout_wf sha r" using assms(1,2) by (simp add: fanouts_wf_def list_all_iff)
  then obtain i where i: "deliveryFanoutIntentFromMessage (q_body m) = Some i" "computeDeliveryFanoutId sha i = fo_id r"
    using built_intent assms(4) by blast
  have sel: "selectBy fo_id (fo_id r) rows = Some r" using assms(1,2) by (simp add: fanouts_wf_def selectBy_mem)
  then show "refersToActive sha rows m" using i assms(3)
    by (auto simp: refersToActive_def getDeliveryFanoutState_def foActive_def foTerminal_def)
  show "refersToActive sha (markRowsPublished ids now rows) m" using sel i assms(3)
    by (auto simp: refersToActive_def getDeliveryFanoutState_def markRowsPublished_def selectBy_updateWhere
        foActive_def foTerminal_def)
qed

lemma publishRows_refers:
  assumes "fanouts_wf sha (ob_rows w)" "set due \<subseteq> set (ob_rows w)" "list_all (\<lambda>r. foActive (fo_status r)) due"
    and "ob_sent (snd (publishRows port t now due w)) = ob_sent w @ sent"
  shows "list_all (refersToActive sha (ob_rows (snd (publishRows port t now due w)))) sent"
proof (cases "buildFanoutMessages t due")
  case (Inl e)
  then show ?thesis using assms(4) by (auto simp: publishRows_def act_defs split: if_splits)
next
  case (Inr msgs)
  have sub: "set sent \<subseteq> set msgs"
    using assms(4) Inr by (auto simp: publishRows_def act_defs sendBatch_def split: if_splits option.splits dest: in_set_takeD)
  have "refersToActive sha (ob_rows w) m" "refersToActive sha (markRowsPublished ids now (ob_rows w)) m"
    if ms: "m \<in> set sent" for m ids
  proof -
    obtain r where "r \<in> set due" "buildFanoutMessage t r = Inr m"
      using buildFanoutMessages_all [OF Inr] sub ms by blast
    then show "refersToActive sha (ob_rows w) m" "refersToActive sha (markRowsPublished ids now (ob_rows w)) m"
      using built_refers [OF assms(1)] assms(2,3) by (auto simp: list_all_iff)
  qed
  then show ?thesis using publishRows_rows [of port t now due w] by (auto simp: list_all_iff)
qed

lemma enqueue_refers:
  assumes wf: "fanouts_wf sha (ob_rows w)"
    and sent: "ob_sent (snd (enqueueDeliveryFanoutJob sha queue t intent n1 n2 w)) = ob_sent w @ sent"
  shows "list_all (refersToActive sha (ob_rows (snd (enqueueDeliveryFanoutJob sha queue t intent n1 n2 w)))) sent"
proof -
  let ?rows = "insertFanout (prepareDeliveryFanoutJob sha intent n1) (ob_rows w)"
  have wf1: "fanouts_wf sha ?rows" by (rule insertFanout_wf [OF wf prepare_wf])
  show ?thesis
  proof (cases "queue = None \<or> find (\<lambda>r. fo_id r = fo_id (prepareDeliveryFanoutJob sha intent n1) \<and> fo_status r = FoPending) ?rows = None")
    case True
    then show ?thesis using sent
      by (auto simp: enqueueDeliveryFanoutJob_def persistDeliveryFanoutJob_def Let_def split: option.splits)
  next
    case False
    then obtain port row where q: "queue = Some port"
      and f: "find (\<lambda>r. fo_id r = fo_id (prepareDeliveryFanoutJob sha intent n1) \<and> fo_status r = FoPending) ?rows = Some row"
      by auto
    have row: "row \<in> set ?rows" "foActive (fo_status row)"
      using f by (auto simp: find_Some_iff foActive_def in_set_conv_nth)
    note refers = built_refers [OF wf1 row]
    show ?thesis using sent refers
      by (auto simp: enqueueDeliveryFanoutJob_def persistDeliveryFanoutJob_def Let_def q f act_defs sendBatch_def
          take_Cons' split: sum.splits option.splits)
  qed
qed

lemma recover_refers:
  assumes wf: "fanouts_wf sha (ob_rows w)"
    and sent: "ob_sent (snd (enqueuePendingDeliveryFanoutJobs queue t published now w)) = ob_sent w @ sent"
  shows "list_all (refersToActive sha (ob_rows (snd (enqueuePendingDeliveryFanoutJobs queue t published now w)))) sent"
proof (cases queue)
  case None
  then show ?thesis using sent by (simp add: enqueuePendingDeliveryFanoutJobs_def Let_def)
next
  case (Some port)
  define w1 where "w1 = w\<lparr>ob_rows := snd (purgeTerminalDeliveryFanoutJobs now (ob_rows w))\<rparr>"
  define due where "due = take FANOUT_SCAN_LIMIT (sort_key fo_createdAt
     (filter (\<lambda>r. fo_status r = FoPending \<or> (published \<and> fo_status r = FoPublished)) (ob_rows w1)))"
  have eq: "enqueuePendingDeliveryFanoutJobs queue t published now w = publishRows port t now due w1"
    by (simp add: enqueuePendingDeliveryFanoutJobs_def Let_def Some w1_def due_def)
  have sub: "set due \<subseteq> set (filter (\<lambda>r. fo_status r = FoPending \<or> (published \<and> fo_status r = FoPublished)) (ob_rows w1))"
    unfolding due_def by (rule subset_trans [OF set_take_subset]) simp
  show ?thesis unfolding eq
  proof (rule publishRows_refers)
    show "fanouts_wf sha (ob_rows w1)" using purgeFanouts_wf [OF wf] by (simp add: w1_def)
    show "set due \<subseteq> set (ob_rows w1)" using sub by auto
    show "list_all (\<lambda>r. foActive (fo_status r)) due" using sub by (auto simp: list_all_iff foActive_def)
    show "ob_sent (snd (publishRows port t now due w1)) = ob_sent w1 @ sent"
      using sent eq by (simp add: w1_def)
  qed
qed

subsection \<open>Properties\<close>

definition noFanouts :: "fanout outbox" where
  "noFanouts = \<lparr>ob_rows = [], ob_sent = []\<rparr>"

lemma reachable_fanouts_wf: "fanouts_wf sha (ob_rows (fold (fanoutEvent sha) evs noFanouts))"
  by (rule fanoutEvents_wf) (simp add: noFanouts_def fanouts_wf_def keysUnique_def)

text \<open>
  A wakeup always finds its ledger row. In every state the component can reach, every
  message that an event puts on the queue decodes to an intent whose deterministic id is the id
  of a row that is active in the table the event leaves, so the worker that receives it sees an
  active fanout.
\<close>

theorem fanout_wakeups_find_their_row:
  assumes "ob_sent (fanoutEvent sha ev (fold (fanoutEvent sha) evs noFanouts))
      = ob_sent (fold (fanoutEvent sha) evs noFanouts) @ sent"
  shows "list_all (refersToActive sha (ob_rows (fanoutEvent sha ev (fold (fanoutEvent sha) evs noFanouts)))) sent"
  using assms enqueue_refers [OF reachable_fanouts_wf] recover_refers [OF reachable_fanouts_wf]
  by (cases ev) auto

definition exampleFanout :: fanout_intent where
  "exampleFanout = CommunityIntent ''act'' ''grp'' (Some '''')"

theorem fanout_wakeups_find_their_row_witness:
  "list_all (refersToActive (\<lambda>s. s)
      (ob_rows (fanoutEvent (\<lambda>s. s) (FevEnqueue (Some (\<lambda>m. None)) ''t'' exampleFanout 0 1) (fold (fanoutEvent (\<lambda>s. s)) [] noFanouts))))
    [\<lparr>q_body = FanoutCommunity ''act'' ''grp'' None None None, q_autoDlqAttempt = None, q_scheduledAt = ''t''\<rparr>]"
proof (rule fanout_wakeups_find_their_row)
  show "ob_sent (fanoutEvent (\<lambda>s. s) (FevEnqueue (Some (\<lambda>m. None)) ''t'' exampleFanout 0 1) (fold (fanoutEvent (\<lambda>s. s)) [] noFanouts))
      = ob_sent (fold (fanoutEvent (\<lambda>s. s)) [] noFanouts) @
        [\<lparr>q_body = FanoutCommunity ''act'' ''grp'' None None None, q_autoDlqAttempt = None, q_scheduledAt = ''t''\<rparr>]"
    by code_simp
qed

text \<open>
  A terminal fanout is final. Whatever event follows (a duplicate intent, a recovery, a
  late report of any worker), the row stays as it is until it is thirty days old, a report for
  it answers that nothing changed, and a purge before that leaves it.
\<close>

theorem fanout_terminal_is_final:
  assumes "r \<in> set (ob_rows (fold (fanoutEvent sha) evs noFanouts))" and "foTerminal (fo_status r)"
    and "fanoutEventTime ev < fo_updatedAt r + 2592000000"
  shows "r \<in> set (ob_rows (fanoutEvent sha ev (fold (fanoutEvent sha) evs noFanouts))) \<and>
    (\<forall>intent status reason now. computeDeliveryFanoutId sha intent = fo_id r \<longrightarrow>
       setDeliveryFanoutStatus sha intent status reason now (ob_rows (fold (fanoutEvent sha) evs noFanouts))
         = (False, ob_rows (fold (fanoutEvent sha) evs noFanouts)))"
proof (intro conjI allI impI)
  let ?rows = "ob_rows (fold (fanoutEvent sha) evs noFanouts)"
  have "\<not> fanoutStale (fanoutEventTime ev) r" using assms(3) by (simp add: fanoutStale_def expired_def)
  then show "r \<in> set (ob_rows (fanoutEvent sha ev (fold (fanoutEvent sha) evs noFanouts)))"
    by (rule terminal_kept [OF assms(2) _ assms(1)])
  fix intent status reason now
  assume i: "computeDeliveryFanoutId sha intent = fo_id r"
  have u: "keysUnique fo_id ?rows" using reachable_fanouts_wf [of sha evs] by (simp add: fanouts_wf_def)
  have none: "\<not> (fo_id x = fo_id r \<and> foActive (fo_status x))" if "x \<in> set ?rows" for x
  proof
    assume x: "fo_id x = fo_id r \<and> foActive (fo_status x)"
    then have "x = r" using selectBy_mem [OF u that] selectBy_mem [OF u assms(1)] by (metis option.inject)
    then show False using x assms(2) by (auto simp: foActive_def foTerminal_def)
  qed
  have "affectedRows (\<lambda>x. fo_id x = fo_id r \<and> foActive (fo_status x)) ?rows = 0"
    unfolding affectedRows_eq_0 using none by blast
  moreover have "updateWhere (\<lambda>x. fo_id x = fo_id r \<and> foActive (fo_status x)) f ?rows = ?rows" for f
    using none by (rule updateWhere_id)
  ultimately show "setDeliveryFanoutStatus sha intent status reason now ?rows = (False, ?rows)"
    unfolding setDeliveryFanoutStatus_def Let_def i by (simp only: less_irrefl)
qed

definition exampleEvents :: "fanout_event list" where
  "exampleEvents = [FevEnqueue None ''t'' exampleFanout 0 1, FevComplete exampleFanout False None 2]"

definition exampleDone :: "fanout outbox" where
  "exampleDone = fold (fanoutEvent (\<lambda>s. s)) exampleEvents noFanouts"

theorem fanout_terminal_is_final_witness:
  "hd (ob_rows exampleDone) \<in> set (ob_rows (fanoutEvent (\<lambda>s. s) (FevFail exampleFanout ''late'' 3) exampleDone)) \<and>
   fo_status (hd (ob_rows exampleDone)) = FoCompleted"
proof -
  have "hd (ob_rows exampleDone) \<in> set (ob_rows exampleDone)" "fo_status (hd (ob_rows exampleDone)) = FoCompleted"
    "fo_updatedAt (hd (ob_rows exampleDone)) = 2" by code_simp+
  then show ?thesis
    using fanout_terminal_is_final [of "hd (ob_rows exampleDone)" "\<lambda>s. s" exampleEvents "FevFail exampleFanout ''late'' 3",
        folded exampleDone_def]
    by (simp add: foTerminal_def del: fanoutEvent.simps)
qed

lemma buildFanoutMessages_wf:
  "list_all (fanout_wf sha) rows \<Longrightarrow> \<exists>msgs. buildFanoutMessages t rows = Inr msgs \<and>
     (\<forall>r \<in> set rows. \<exists>m \<in> set msgs. buildFanoutMessage t r = Inr m)"
proof (induction rows)
  case (Cons r rows)
  then obtain msgs where ms: "buildFanoutMessages t rows = Inr msgs"
    "\<forall>r \<in> set rows. \<exists>m \<in> set msgs. buildFanoutMessage t r = Inr m" by auto
  have "\<exists>m. buildFanoutMessage t r = Inr m"
    using Cons.prems by (auto simp: fanout_wf_def buildFanoutMessage_def split: if_splits)
  then obtain m where "buildFanoutMessage t r = Inr m" by blast
  then show ?case using ms by auto
qed simp

lemma pending_after_purge:
  assumes "fanouts_wf sha rows"
  shows "filter (\<lambda>r. fo_status r = FoPending) (snd (purgeTerminalDeliveryFanoutJobs now rows))
    = filter (\<lambda>r. fo_status r = FoPending) rows"
  unfolding purgeTerminalDeliveryFanoutJobs_def purgeRows_def Let_def
  by (auto simp: deleteWhere_def expired_def foTerminal_def intro: filter_cong)

text \<open>
  A lost wakeup is recovered. A producer that refuses the first send leaves the table with
  the new row pending; and a recovery with a working producer, with at most fifty rows pending,
  leaves no row pending and puts a message on the queue for each of them that decodes to an
  intent with the id of the row.
\<close>

theorem fanout_lost_wakeup_recovered:
  assumes wf: "fanouts_wf sha (ob_rows w)" and few: "affectedRows (\<lambda>r. fo_status r = FoPending) (ob_rows w) \<le> 50"
  shows "ob_rows (snd (enqueueDeliveryFanoutJob sha (Some (\<lambda>m. Some 0)) t intent n1 n2 w))
      = insertFanout (prepareDeliveryFanoutJob sha intent n1) (ob_rows w) \<and>
    list_all (\<lambda>r. fo_status r \<noteq> FoPending) (ob_rows (snd (enqueuePendingDeliveryFanoutJobs (Some (\<lambda>m. None)) t False now w))) \<and>
    (\<forall>r \<in> set (ob_rows w). fo_status r = FoPending \<longrightarrow>
       (\<exists>m \<in> set (ob_sent (snd (enqueuePendingDeliveryFanoutJobs (Some (\<lambda>m. None)) t False now w))).
          map_option (computeDeliveryFanoutId sha) (deliveryFanoutIntentFromMessage (q_body m)) = Some (fo_id r)))"
proof -
  define rows1 where "rows1 = snd (purgeTerminalDeliveryFanoutJobs now (ob_rows w))"
  define due where "due = sort_key fo_createdAt (filter (\<lambda>r. fo_status r = FoPending) rows1)"
  have due: "set due = {r \<in> set (ob_rows w). fo_status r = FoPending}"
    unfolding due_def rows1_def pending_after_purge [OF wf] by auto
  have "length due \<le> 50" using few unfolding due_def rows1_def pending_after_purge [OF wf] by (simp add: affectedRows_def)
  then have eq: "enqueuePendingDeliveryFanoutJobs (Some (\<lambda>m. None)) t False now w
      = publishRows (\<lambda>m. None) t now due (w\<lparr>ob_rows := rows1\<rparr>)"
    by (simp add: enqueuePendingDeliveryFanoutJobs_def Let_def rows1_def [symmetric] due_def)
  have dwf: "list_all (fanout_wf sha) due" using wf due by (auto simp: fanouts_wf_def list_all_iff)
  obtain msgs where msgs: "buildFanoutMessages t due = Inr msgs"
    "\<forall>r \<in> set due. \<exists>m \<in> set msgs. buildFanoutMessage t r = Inr m"
    using buildFanoutMessages_wf [OF dwf] by blast
  have "due = [] \<Longrightarrow> msgs = []" using msgs(1) by simp
  then have sent: "ob_sent (snd (publishRows (\<lambda>m. None) t now due (w\<lparr>ob_rows := rows1\<rparr>))) = ob_sent w @ msgs"
    and rows: "ob_rows (snd (publishRows (\<lambda>m. None) t now due (w\<lparr>ob_rows := rows1\<rparr>)))
      = markRowsPublished (map fo_id due) now rows1"
    by (auto simp: publishRows_def act_defs sendBatch_def msgs(1) markRowsPublished_def)
  have in_due: "r \<in> set due" if "r \<in> set rows1" "fo_status r = FoPending" for r
    using that by (simp add: due_def)
  have "list_all (\<lambda>r. fo_status r \<noteq> FoPending) (markRowsPublished (map fo_id due) now rows1)"
  proof (cases "due = []")
    case True
    then show ?thesis using in_due by (auto simp: markRowsPublished_def list_all_iff)
  next
    case False
    then show ?thesis using in_due by (auto simp: markRowsPublished_def list_all_iff set_updateWhere foActive_def)
  qed
  moreover have "\<exists>m \<in> set msgs. map_option (computeDeliveryFanoutId sha) (deliveryFanoutIntentFromMessage (q_body m)) = Some (fo_id r)"
    if "r \<in> set (ob_rows w)" "fo_status r = FoPending" for r
    using msgs(2) due that built_intent [of sha r t] dwf by (fastforce simp: list_all_iff)
  moreover have "ob_rows (snd (enqueueDeliveryFanoutJob sha (Some (\<lambda>m. Some 0)) t intent n1 n2 w))
      = insertFanout (prepareDeliveryFanoutJob sha intent n1) (ob_rows w)"
    by (auto simp: enqueueDeliveryFanoutJob_def persistDeliveryFanoutJob_def Let_def act_defs sendBatch_def
        split: option.split sum.split)
  ultimately show ?thesis unfolding eq rows sent set_append by (metis UnI2)
qed

theorem fanout_lost_wakeup_recovered_witness:
  "\<exists>m \<in> set (ob_sent (snd (enqueuePendingDeliveryFanoutJobs (Some (\<lambda>m. None)) ''t'' False 9
      (fanoutEvent (\<lambda>s. s) (FevEnqueue None ''t'' exampleFanout 0 1) noFanouts)))).
     map_option (computeDeliveryFanoutId (\<lambda>s. s)) (deliveryFanoutIntentFromMessage (q_body m))
       = Some ''fanout|community|act|grp|''"
proof -
  let ?w = "fanoutEvent (\<lambda>s. s) (FevEnqueue None ''t'' exampleFanout 0 1) noFanouts"
  let ?r = "prepareDeliveryFanoutJob (\<lambda>s. s) exampleFanout 0"
  have "fanouts_wf (\<lambda>s. s) (ob_rows ?w)" using reachable_fanouts_wf [of "\<lambda>s. s" "[FevEnqueue None ''t'' exampleFanout 0 1]"] by simp
  moreover have "affectedRows (\<lambda>r. fo_status r = FoPending) (ob_rows ?w) \<le> 50" by code_simp
  moreover have "ob_rows ?w = [?r]" "fo_status ?r = FoPending" "fo_id ?r = ''fanout|community|act|grp|''" by code_simp+
  ultimately show ?thesis using fanout_lost_wakeup_recovered [of "\<lambda>s. s" "?w" "''t''" exampleFanout 0 0 9]
    by (metis list.set_intros(1))
qed

text \<open>
  Retention of the fanout ledger: enough purges leave exactly the rows that are not
  terminal or changed within the last thirty days, and no purge deletes more than fifty.
\<close>

theorem fanout_purge_converges:
  assumes "keysUnique fo_id rows"
    and "affectedRows (\<lambda>r. foTerminal (fo_status r) \<and> fo_updatedAt r \<le> now - 2592000000) rows \<le> 50 * n"
  shows "fst (purgeTerminalDeliveryFanoutJobs now rows) \<le> 50 \<and>
    set (((snd \<circ> purgeTerminalDeliveryFanoutJobs now) ^^ n) rows)
      = {r \<in> set rows. \<not> (foTerminal (fo_status r) \<and> fo_updatedAt r \<le> now - 2592000000)}"
proof -
  have st: "fanoutStale now = (\<lambda>r. foTerminal (fo_status r) \<and> fo_updatedAt r \<le> now - 2592000000)"
    by (simp add: fun_eq_iff fanoutStale_def expired_def)
  then show ?thesis
    using fanout_retention.sweeps_converge [OF assms(1), of now n] fanout_retention.purge_count [OF assms(1), of now]
      assms(2) by (simp add: mult.commute)
qed

theorem fanout_purge_converges_witness:
  "set (((snd \<circ> purgeTerminalDeliveryFanoutJobs 2592000002) ^^ 1) (ob_rows exampleDone)) = {}"
proof -
  have "keysUnique fo_id (ob_rows exampleDone)" and "length (ob_rows exampleDone) = 1"
    and "list_all (\<lambda>r. foTerminal (fo_status r) \<and> fo_updatedAt r \<le> 2) (ob_rows exampleDone)" by code_simp+
  then show ?thesis
    using fanout_purge_converges [of "ob_rows exampleDone" 2592000002 1]
      length_filter_le [of "\<lambda>r. foTerminal (fo_status r) \<and> fo_updatedAt r \<le> 2" "ob_rows exampleDone"]
    by (auto simp: affectedRows_def list_all_iff)
qed

end
