(* ===== verification/DeliveryJobs.thy ===== *)
theory DeliveryJobs
  imports Ledger "HOL-Library.List_Lexorder" "HOL-Library.Char_ord"
begin

section \<open>Endpoint delivery jobs\<close>

text \<open>
  Models the durable endpoint ledger \<open>delivery_queue\<close> with its recipient attribution:
  the job management of \<open>src/backend/lib/delivery/queue.ts\<close> (\<open>upsertDeliveryJob\<close>,
  the purge, the rows a recovery sweep selects), the statements with which
  \<open>processDeliverEndpoint\<close> of \<open>queue-delivery.ts\<close> claims and settles a job under
  its processing token, and the decision and conditional update of
  \<open>processReconcileJob\<close> (\<open>queue-batching.ts\<close>). The triggers of migration 0029 (a
  recipient row for a tombstoned actor is removed as it is inserted; deleting a job deletes its
  recipient rows) belong to the statements that fire them. The time columns are only written by
  \<open>toISOString\<close> and are milliseconds here.
\<close>

definition MAX_RECONCILE_ATTEMPTS :: int where "MAX_RECONCILE_ATTEMPTS = 5"
definition DELIVERY_RECONCILE_DELAY_SECONDS :: secs where "DELIVERY_RECONCILE_DELAY_SECONDS = 6 * 60 * 60"
definition STALE_PROCESSING_MS :: ms where "STALE_PROCESSING_MS = 2 * 60 * 1000"
definition TERMINAL_DELIVERY_RETENTION_MS :: ms where "TERMINAL_DELIVERY_RETENTION_MS = 30 * 24 * 60 * 60 * 1000"
definition TERMINAL_DELIVERY_PURGE_LIMIT :: nat where "TERMINAL_DELIVERY_PURGE_LIMIT = 50"
definition PENDING_DELIVERY_SCAN_LIMIT :: nat where "PENDING_DELIVERY_SCAN_LIMIT = 500"

lemmas delivery_constants [simp] =
  MAX_RECONCILE_ATTEMPTS_def DELIVERY_RECONCILE_DELAY_SECONDS_def STALE_PROCESSING_MS_def
  TERMINAL_DELIVERY_RETENTION_MS_def TERMINAL_DELIVERY_PURGE_LIMIT_def PENDING_DELIVERY_SCAN_LIMIT_def

subsection \<open>Rows\<close>

datatype job_status = DqPending | DqProcessing | DqRetryWait | DqDelivered | DqDeadLetter | DqFailed

record djob =
  dj_id :: string
  dj_activityApId :: string
  dj_inboxUrl :: string
  dj_status :: job_status
  dj_attempts :: int
  dj_reconcileAttempt :: int
  dj_dlqPending :: bool
  dj_processingToken :: "string option"
  dj_lastAttemptAt :: "ms option"
  dj_processingStartedAt :: "ms option"
  dj_nextAttemptAt :: ms
  dj_deliveredAt :: "ms option"
  dj_error :: "string option"
  dj_attributionComplete :: bool
  dj_createdAt :: ms

definition jobTerminal :: "job_status \<Rightarrow> bool" where
  "jobTerminal s = (s = DqDelivered \<or> s = DqDeadLetter \<or> s = DqFailed)"

text \<open>The jobs, the recipient rows (job id, actor) and the tombstoned actors.\<close>

record job_db =
  db_jobs :: "djob list"
  db_recipients :: "(string \<times> string) list"
  db_tombstones :: "string list"

subsection \<open>Materialization\<close>

definition insertRecipient :: "string list \<Rightarrow> string \<Rightarrow> string \<Rightarrow> (string \<times> string) list \<Rightarrow> (string \<times> string) list" where
  "insertRecipient tombstones jobId actor rows =
     (if (jobId, actor) \<in> set rows then rows
      else if actor \<in> set tombstones then rows
      else rows @ [(jobId, actor)])"

definition newJob :: "string \<Rightarrow> string \<Rightarrow> string \<Rightarrow> ms \<Rightarrow> djob" where
  "newJob jobId activityId endpoint now =
     \<lparr>dj_id = jobId, dj_activityApId = activityId, dj_inboxUrl = endpoint, dj_status = DqPending,
      dj_attempts = 0, dj_reconcileAttempt = 0, dj_dlqPending = False, dj_processingToken = None,
      dj_lastAttemptAt = None, dj_processingStartedAt = None, dj_nextAttemptAt = now,
      dj_deliveredAt = None, dj_error = None, dj_attributionComplete = True, dj_createdAt = now\<rparr>"

text \<open>A delete on the jobs, with the trigger that removes their recipient rows.\<close>

definition deleteJobs :: "(djob \<Rightarrow> bool) \<Rightarrow> job_db \<Rightarrow> job_db" where
  "deleteJobs P db =
     (let gone = map dj_id (filter P (db_jobs db))
      in db\<lparr>db_jobs := deleteWhere P (db_jobs db),
            db_recipients := filter (\<lambda>(j, a). j \<notin> set gone) (db_recipients db)\<rparr>)"

definition hasRetainedRecipient :: "string \<Rightarrow> (string \<times> string) list \<Rightarrow> bool" where
  "hasRetainedRecipient jobId rows = list_ex (\<lambda>(j, a). j = jobId) rows"

definition upsertDeliveryJob ::
  "ms \<Rightarrow> string \<Rightarrow> string \<Rightarrow> string \<Rightarrow> string list \<Rightarrow> job_db \<Rightarrow> bool \<times> job_db" where
  "upsertDeliveryJob now jobId activityId endpoint recipientActorApIds db =
     (let uniqueRecipientActorApIds = dedupe recipientActorApIds
      in if uniqueRecipientActorApIds = [] then (False, db)
         else
           (let recipients = fold (insertRecipient (db_tombstones db) jobId) uniqueRecipientActorApIds (db_recipients db);
                retained = hasRetainedRecipient jobId recipients;
                inserted = insertOrIgnore dj_id (newJob jobId activityId endpoint now) (db_jobs db);
                updated = updateWhere (\<lambda>r. dj_id r = jobId \<and> dj_status r \<noteq> DqProcessing \<and> dj_status r \<noteq> DqDelivered \<and> retained)
                            (\<lambda>r. r\<lparr>dj_inboxUrl := endpoint, dj_activityApId := activityId\<rparr>) inserted;
                db' = deleteJobs (\<lambda>r. dj_id r = jobId \<and> dj_attributionComplete r \<and> \<not> retained)
                        (db\<lparr>db_jobs := updated, db_recipients := recipients\<rparr>)
            in (selectBy dj_id jobId (db_jobs db') \<noteq> None, db')))"

subsection \<open>Purge and recovery\<close>

definition jobPurgeable :: "djob \<Rightarrow> bool" where
  "jobPurgeable r = (jobTerminal (dj_status r) \<and> \<not> dj_dlqPending r)"

definition purgeJobRows :: "ms \<Rightarrow> djob list \<Rightarrow> nat \<times> djob list" where
  "purgeJobRows now =
     purgeRows dj_id jobPurgeable dj_createdAt TERMINAL_DELIVERY_PURGE_LIMIT (now - TERMINAL_DELIVERY_RETENTION_MS)"

definition purgeTerminalDeliveryEndpointJobs :: "ms \<Rightarrow> job_db \<Rightarrow> nat \<times> job_db" where
  "purgeTerminalDeliveryEndpointJobs now db =
     (case purgeJobRows now (db_jobs db) of
        (n, jobs) \<Rightarrow>
          (n, db\<lparr>db_jobs := jobs,
                db_recipients := filter (\<lambda>(j, a). j \<in> dj_id ` set jobs \<or> j \<notin> dj_id ` set (db_jobs db)) (db_recipients db)\<rparr>))"

text \<open>\<open>ORDER BY next_attempt_at, id\<close>: the ids break the ties.\<close>

definition repairJobs :: "ms \<Rightarrow> djob list \<Rightarrow> djob list" where
  "repairJobs now rows =
     take 50 (sort_key dj_nextAttemptAt (sort_key dj_id
       (filter (\<lambda>r. dj_status r = DqDeadLetter \<and> dj_dlqPending r \<and>
                    dj_reconcileAttempt r < MAX_RECONCILE_ATTEMPTS \<and> dj_nextAttemptAt r \<le> now) rows)))"

definition startedBefore :: "ms \<Rightarrow> djob \<Rightarrow> bool" where
  "startedBefore t r = (case dj_processingStartedAt r of None \<Rightarrow> False | Some s \<Rightarrow> s < t)"

definition wakeable :: "ms \<Rightarrow> bool \<Rightarrow> bool \<Rightarrow> djob \<Rightarrow> bool" where
  "wakeable now includeDeferred includeFreshPending r =
     (let staleBefore = now - STALE_PROCESSING_MS
      in (dj_status r = DqPending \<and> (includeFreshPending \<or> dj_createdAt r < staleBefore)) \<or>
         (dj_status r = DqRetryWait \<and> (includeDeferred \<or> dj_nextAttemptAt r \<le> now)) \<or>
         (dj_status r = DqProcessing \<and> startedBefore staleBefore r))"

definition wakeableJobs :: "ms \<Rightarrow> bool \<Rightarrow> bool \<Rightarrow> djob list \<Rightarrow> djob list" where
  "wakeableJobs now includeDeferred includeFreshPending rows =
     take PENDING_DELIVERY_SCAN_LIMIT (filter (wakeable now includeDeferred includeFreshPending) rows)"

subsection \<open>Claim and settlement\<close>

text \<open>The conditional update that claims the job read as \<open>job\<close>.\<close>

definition jobClaimable :: "djob \<Rightarrow> ms \<Rightarrow> djob \<Rightarrow> bool" where
  "jobClaimable job now r =
     (dj_id r = dj_id job \<and> dj_reconcileAttempt r = dj_reconcileAttempt job \<and>
      dj_inboxUrl r = dj_inboxUrl job \<and> dj_activityApId r = dj_activityApId job \<and>
      dj_nextAttemptAt r \<le> now \<and>
      ((dj_status r \<noteq> DqProcessing \<and> \<not> jobTerminal (dj_status r)) \<or>
       (dj_status r = DqProcessing \<and> startedBefore (now - STALE_PROCESSING_MS) r)))"

definition claimJob :: "djob \<Rightarrow> string \<Rightarrow> ms \<Rightarrow> djob list \<Rightarrow> bool \<times> djob list" where
  "claimJob job token now rows =
     (0 < affectedRows (jobClaimable job now) rows,
      updateWhere (jobClaimable job now)
        (\<lambda>r. r\<lparr>dj_status := DqProcessing, dj_processingStartedAt := Some now, dj_processingToken := Some token\<rparr>) rows)"

text \<open>The condition \<open>ownership\<close> of a claimed job and generation.\<close>

definition ownership :: "string \<Rightarrow> int \<Rightarrow> string \<Rightarrow> djob \<Rightarrow> bool" where
  "ownership jobId generation token r =
     (dj_id r = jobId \<and> dj_reconcileAttempt r = generation \<and> dj_status r = DqProcessing \<and>
      dj_processingToken r = Some token)"

definition failJobRows :: "(djob \<Rightarrow> bool) \<Rightarrow> string \<Rightarrow> string \<Rightarrow> ms \<Rightarrow> djob list \<Rightarrow> djob list" where
  "failJobRows fence jobId err now =
     updateWhere (\<lambda>r. dj_id r = jobId \<and> fence r)
       (\<lambda>r. r\<lparr>dj_status := DqFailed, dj_error := Some err, dj_lastAttemptAt := Some now,
              dj_processingStartedAt := None, dj_processingToken := None, dj_dlqPending := False\<rparr>)"

text \<open>The fence of a job whose endpoint is not a safe address: exactly the row that was read.\<close>

definition unchangedFence :: "djob \<Rightarrow> djob \<Rightarrow> bool" where
  "unchangedFence job r =
     (dj_reconcileAttempt r = dj_reconcileAttempt job \<and> dj_status r = dj_status job \<and>
      dj_inboxUrl r = dj_inboxUrl job \<and> dj_activityApId r = dj_activityApId job \<and>
      dj_processingToken r = dj_processingToken job)"

definition incrementDeliveryAttempts :: "(djob \<Rightarrow> bool) \<Rightarrow> djob list \<Rightarrow> int option \<times> djob list" where
  "incrementDeliveryAttempts fence rows =
     (map_option (\<lambda>r. dj_attempts r + 1) (find fence rows),
      updateWhere fence (\<lambda>r. r\<lparr>dj_attempts := dj_attempts r + 1\<rparr>) rows)"

definition markDelivered :: "(djob \<Rightarrow> bool) \<Rightarrow> ms \<Rightarrow> djob list \<Rightarrow> djob list" where
  "markDelivered own now =
     updateWhere own
       (\<lambda>r. r\<lparr>dj_status := DqDelivered, dj_deliveredAt := Some now, dj_error := None, dj_lastAttemptAt := Some now,
              dj_processingStartedAt := None, dj_processingToken := None, dj_dlqPending := False\<rparr>)"

definition markDeadLetter :: "(djob \<Rightarrow> bool) \<Rightarrow> int \<Rightarrow> string \<Rightarrow> ms \<Rightarrow> djob list \<Rightarrow> bool \<times> djob list" where
  "markDeadLetter own generation err now rows =
     (0 < affectedRows own rows,
      updateWhere own
        (\<lambda>r. r\<lparr>dj_status := DqDeadLetter, dj_error := Some err, dj_lastAttemptAt := Some now,
               dj_processingStartedAt := None, dj_processingToken := None,
               dj_dlqPending := (generation < MAX_RECONCILE_ATTEMPTS),
               dj_nextAttemptAt := now + DELIVERY_RECONCILE_DELAY_SECONDS * 1000\<rparr>) rows)"

definition markRetryWait :: "(djob \<Rightarrow> bool) \<Rightarrow> string \<Rightarrow> ms \<Rightarrow> ms \<Rightarrow> djob list \<Rightarrow> djob list" where
  "markRetryWait own err now nextAt =
     updateWhere own
       (\<lambda>r. r\<lparr>dj_status := DqRetryWait, dj_error := Some err, dj_lastAttemptAt := Some now,
              dj_processingStartedAt := None, dj_processingToken := None, dj_nextAttemptAt := nextAt\<rparr>)"

subsection \<open>Reconciliation\<close>

text \<open>The conditional update that consumes a retained repair intent.\<close>

definition reviveJob :: "string \<Rightarrow> int \<Rightarrow> ms \<Rightarrow> djob list \<Rightarrow> bool \<times> djob list" where
  "reviveJob jobId reconcileAttempt now rows =
     (let P = (\<lambda>r. dj_id r = jobId \<and> dj_status r = DqDeadLetter \<and> dj_dlqPending r \<and>
                   dj_reconcileAttempt r = reconcileAttempt - 1 \<and> dj_nextAttemptAt r \<le> now)
      in (0 < affectedRows P rows,
          updateWhere P
            (\<lambda>r. r\<lparr>dj_status := DqPending, dj_reconcileAttempt := reconcileAttempt, dj_dlqPending := False,
                   dj_attempts := 0, dj_error := None, dj_lastAttemptAt := None,
                   dj_processingStartedAt := None, dj_processingToken := None, dj_nextAttemptAt := now\<rparr>) rows))"

datatype reconcile_decision = ReconcileIgnore | ReconcileLater secs | ReconcileTry

text \<open>What the worker decides from the row it read, before the conditional update.\<close>

definition decideReconcile :: "int \<Rightarrow> ms \<Rightarrow> djob option \<Rightarrow> reconcile_decision" where
  "decideReconcile reconcileAttempt now job =
     (if reconcileAttempt < 1 \<or> MAX_RECONCILE_ATTEMPTS < reconcileAttempt then ReconcileIgnore
      else
        (case job of
           None \<Rightarrow> ReconcileIgnore
         | Some r \<Rightarrow>
             (if dj_status r \<noteq> DqDeadLetter \<or> \<not> dj_dlqPending r \<or> reconcileAttempt \<noteq> dj_reconcileAttempt r + 1
              then ReconcileIgnore
              else if now < dj_nextAttemptAt r
              then ReconcileLater (max 1 (min (12 * 60 * 60) (ceilDiv (dj_nextAttemptAt r - now) 1000)))
              else ReconcileTry)))"


subsection \<open>What every job satisfies\<close>

definition job_wf :: "djob \<Rightarrow> bool" where
  "job_wf r =
     ((dj_processingToken r \<noteq> None \<longleftrightarrow> dj_status r = DqProcessing) \<and>
      (dj_processingStartedAt r \<noteq> None \<longleftrightarrow> dj_status r = DqProcessing) \<and>
      (dj_deliveredAt r \<noteq> None \<longleftrightarrow> dj_status r = DqDelivered) \<and>
      (dj_dlqPending r \<longrightarrow> dj_status r = DqDeadLetter \<and> dj_reconcileAttempt r < MAX_RECONCILE_ATTEMPTS) \<and>
      0 \<le> dj_reconcileAttempt r \<and> dj_reconcileAttempt r \<le> MAX_RECONCILE_ATTEMPTS \<and> 0 \<le> dj_attempts r)"

text \<open>
  The database: unique job ids, well-formed jobs, a recipient for every attributed job, and no
  recipient of a job that is gone.
\<close>

definition attributed :: "job_db \<Rightarrow> bool" where
  "attributed db =
     (list_all (\<lambda>r. dj_attributionComplete r \<longrightarrow> hasRetainedRecipient (dj_id r) (db_recipients db)) (db_jobs db) \<and>
      list_all (\<lambda>(j, a). j \<in> dj_id ` set (db_jobs db)) (db_recipients db))"

definition job_db_wf :: "job_db \<Rightarrow> bool" where
  "job_db_wf db = (keysUnique dj_id (db_jobs db) \<and> list_all job_wf (db_jobs db) \<and> attributed db)"

lemma hasRetainedRecipient_iff: "hasRetainedRecipient j rows \<longleftrightarrow> j \<in> fst ` set rows"
  by (force simp: hasRetainedRecipient_def list_ex_iff)

lemma attributed_updateWhere:
  assumes "attributed db" "\<And>r. dj_id (f r) = dj_id r" "\<And>r. dj_attributionComplete (f r) = dj_attributionComplete r"
  shows "attributed (db\<lparr>db_jobs := updateWhere P f (db_jobs db)\<rparr>)"
proof -
  have ids: "dj_id ` set (updateWhere P f (db_jobs db)) = dj_id ` set (db_jobs db)"
    using keySet_updateWhere [of P dj_id f] assms(2) by (simp add: keySet_def)
  have "list_all (\<lambda>r. dj_attributionComplete r \<longrightarrow> hasRetainedRecipient (dj_id r) (db_recipients db))
      (updateWhere P f (db_jobs db))"
    using assms by (intro list_all_updateWhere) (simp_all add: attributed_def)
  then show ?thesis using assms(1) by (simp add: attributed_def ids)
qed

lemma job_db_wf_updateWhere:
  assumes "job_db_wf db" "\<And>r. dj_id (f r) = dj_id r" "\<And>r. dj_attributionComplete (f r) = dj_attributionComplete r"
    and "\<And>r. job_wf r \<Longrightarrow> P r \<Longrightarrow> job_wf (f r)"
  shows "job_db_wf (db\<lparr>db_jobs := updateWhere P f (db_jobs db)\<rparr>)"
  using assms attributed_updateWhere [of db f P]
  by (auto simp: job_db_wf_def keysUnique_updateWhere intro: list_all_updateWhere)

lemma insertRecipients_set:
  "set (fold (insertRecipient tombs j) as rows) = set rows \<union> {(j, a) | a. a \<in> set as \<and> a \<notin> set tombs}"
proof (induction as arbitrary: rows)
  case (Cons a as)
  have "set (insertRecipient tombs j a rows) = set rows \<union> (if a \<in> set tombs then {} else {(j, a)})"
    by (auto simp: insertRecipient_def)
  then show ?case using Cons by auto
qed simp

lemma newJob_wf: "job_wf (newJob j act ep now)"
  by (simp add: newJob_def job_wf_def)

lemma deleteJobs_wf:
  assumes "keysUnique dj_id (db_jobs db)" "list_all job_wf (db_jobs db)"
    and "list_all (\<lambda>r. dj_attributionComplete r \<longrightarrow> \<not> P r \<longrightarrow> hasRetainedRecipient (dj_id r) (db_recipients db)) (db_jobs db)"
    and "list_all (\<lambda>(j, a). j \<in> dj_id ` set (db_jobs db)) (db_recipients db)"
  shows "job_db_wf (deleteJobs P db)"
proof -
  have gone: "dj_id r \<notin> dj_id ` {x \<in> set (db_jobs db). P x}" if "r \<in> set (db_jobs db)" "\<not> P r" for r
    using that assms(1) by (auto dest: selectBy_mem) (metis option.inject selectBy_mem)
  have "list_all (\<lambda>r. dj_attributionComplete r \<longrightarrow> hasRetainedRecipient (dj_id r) (db_recipients (deleteJobs P db)))
      (db_jobs (deleteJobs P db))"
    using assms(3) gone
    by (fastforce simp: deleteJobs_def Let_def list_all_iff hasRetainedRecipient_iff)
  moreover have "list_all (\<lambda>(j, a). j \<in> dj_id ` set (db_jobs (deleteJobs P db))) (db_recipients (deleteJobs P db))"
    using assms(4) by (fastforce simp: deleteJobs_def Let_def list_all_iff)
  ultimately show ?thesis using assms(1,2)
    by (simp add: job_db_wf_def attributed_def deleteJobs_def Let_def keysUnique_deleteWhere list_all_deleteWhere)
qed

lemma upsert_wf:
  assumes wf: "job_db_wf db"
  shows "job_db_wf (snd (upsertDeliveryJob now j act ep as db))"
proof (cases "dedupe as = []")
  case True
  then show ?thesis using wf by (simp add: upsertDeliveryJob_def)
next
  case False
  let ?recs = "fold (insertRecipient (db_tombstones db) j) (dedupe as) (db_recipients db)"
  let ?ret = "hasRetainedRecipient j ?recs"
  let ?ins = "insertOrIgnore dj_id (newJob j act ep now) (db_jobs db)"
  let ?upd = "updateWhere (\<lambda>r. dj_id r = j \<and> dj_status r \<noteq> DqProcessing \<and> dj_status r \<noteq> DqDelivered \<and> ?ret)
     (\<lambda>r. r\<lparr>dj_inboxUrl := ep, dj_activityApId := act\<rparr>) ?ins"
  have "keySet dj_id ?upd = keySet dj_id ?ins" by (rule keySet_updateWhere) simp
  also have "\<dots> = insert j (keySet dj_id (db_jobs db))"
    unfolding keySet_insertOrIgnore by (simp add: newJob_def)
  finally have ids: "dj_id ` set ?upd = insert j (dj_id ` set (db_jobs db))" unfolding keySet_def .
  have "keysUnique dj_id ?ins" "list_all job_wf ?ins"
    using wf by (simp_all add: job_db_wf_def keysUnique_insertOrIgnore list_all_insertOrIgnore newJob_wf)
  then have u: "keysUnique dj_id ?upd" "list_all job_wf ?upd"
    by (simp add: keysUnique_updateWhere)
      (rule list_all_updateWhere [OF \<open>list_all job_wf ?ins\<close>], simp add: job_wf_def)
  have sub: "fst ` set (db_recipients db) \<subseteq> fst ` set ?recs" "fst ` set ?recs \<subseteq> insert j (fst ` set (db_recipients db))"
    by (auto simp: insertRecipients_set)
  have attr: "dj_attributionComplete r \<longrightarrow> \<not> (dj_id r = j \<and> dj_attributionComplete r \<and> \<not> ?ret) \<longrightarrow>
      hasRetainedRecipient (dj_id r) ?recs" if "r \<in> set ?upd" for r
  proof (cases "dj_id r = j")
    case False
    then obtain r0 where "r0 \<in> set (db_jobs db)" "dj_id r0 = dj_id r" "dj_attributionComplete r0 = dj_attributionComplete r"
      using \<open>r \<in> set ?upd\<close> by (auto simp: set_updateWhere insertOrIgnore_def newJob_def split: if_splits)
    then have "dj_attributionComplete r \<longrightarrow> dj_id r \<in> fst ` set (db_recipients db)" using wf
      by (simp add: job_db_wf_def attributed_def list_all_iff hasRetainedRecipient_iff) metis
    then show ?thesis using sub(1) unfolding hasRetainedRecipient_iff by blast
  qed simp
  have old: "fst ` set (db_recipients db) \<subseteq> dj_id ` set (db_jobs db)"
    using wf by (auto simp: job_db_wf_def attributed_def list_all_iff)
  have orphan: "fst ra \<in> dj_id ` set ?upd" if "ra \<in> set ?recs" for ra
  proof -
    have "fst ra \<in> fst ` set ?recs" using that by (rule imageI)
    then show ?thesis using sub(2) old unfolding ids by blast
  qed
  have "job_db_wf (deleteJobs (\<lambda>r. dj_id r = j \<and> dj_attributionComplete r \<and> \<not> ?ret)
      (db\<lparr>db_jobs := ?upd, db_recipients := ?recs\<rparr>))"
    using u attr orphan by (intro deleteJobs_wf) (auto simp: list_all_iff)
  then show ?thesis using False by (simp add: upsertDeliveryJob_def Let_def)
qed

lemma purgeJobs_wf: "job_db_wf db \<Longrightarrow> job_db_wf (snd (purgeTerminalDeliveryEndpointJobs now db))"
proof -
  assume wf: "job_db_wf db"
  define jobs where "jobs = snd (purgeJobRows now (db_jobs db))"
  have k: "keysUnique dj_id (db_jobs db)" "list_all job_wf (db_jobs db)" using wf by (simp_all add: job_db_wf_def)
  have jobs: "set jobs \<subseteq> set (db_jobs db)" "keysUnique dj_id jobs" "list_all job_wf jobs"
    unfolding jobs_def purgeJobRows_def by (rule purgeRows_keeps(1) purgeRows_keeps(3) [OF k(1)] purgeRows_keeps(4) [OF k(2)])+
  let ?recs = "filter (\<lambda>(j, a). j \<in> dj_id ` set jobs \<or> j \<notin> dj_id ` set (db_jobs db)) (db_recipients db)"
  have eq: "snd (purgeTerminalDeliveryEndpointJobs now db) = db\<lparr>db_jobs := jobs, db_recipients := ?recs\<rparr>"
    by (simp add: purgeTerminalDeliveryEndpointJobs_def jobs_def split: prod.split)
  have att: "\<forall>r \<in> set (db_jobs db). dj_attributionComplete r \<longrightarrow> dj_id r \<in> fst ` set (db_recipients db)"
    "\<forall>ra \<in> set (db_recipients db). fst ra \<in> dj_id ` set (db_jobs db)"
    using wf by (auto simp: job_db_wf_def attributed_def list_all_iff hasRetainedRecipient_iff)
  have "dj_id r \<in> fst ` set ?recs" if "r \<in> set jobs" "dj_attributionComplete r" for r
  proof -
    have "dj_id r \<in> fst ` set (db_recipients db)" using att(1) jobs(1) that by blast
    then obtain a where a: "(dj_id r, a) \<in> set (db_recipients db)" by force
    have "dj_id r \<in> dj_id ` set jobs" using that(1) by (rule imageI)
    then have "(dj_id r, a) \<in> set ?recs" using a by simp
    from imageI [OF this, of fst] show ?thesis by simp
  qed
  then have "list_all (\<lambda>r. dj_attributionComplete r \<longrightarrow> hasRetainedRecipient (dj_id r) ?recs) jobs"
    by (simp add: list_all_iff hasRetainedRecipient_iff)
  moreover have "list_all (\<lambda>(j, a). j \<in> dj_id ` set jobs) ?recs"
    using att(2) by (auto simp: list_all_iff)
  ultimately show ?thesis using jobs(2,3) unfolding eq by (simp add: job_db_wf_def attributed_def)
qed

subsection \<open>Statements\<close>

text \<open>Every statement that writes the ledger, as the handlers issue them.\<close>

datatype job_stmt =
    JUpsert ms string string string "string list"
  | JPurge ms
  | JClaim djob string ms
  | JFailRead djob string ms
  | JFailOwned string int string string ms
  | JIncrement string int string
  | JDelivered string int string ms
  | JDeadLetter string int string string ms
  | JRetryWait string int string string ms ms
  | JRevive string int ms

fun jobStmt :: "job_stmt \<Rightarrow> job_db \<Rightarrow> job_db" where
  "jobStmt (JUpsert now j act ep as) db = snd (upsertDeliveryJob now j act ep as db)"
| "jobStmt (JPurge now) db = snd (purgeTerminalDeliveryEndpointJobs now db)"
| "jobStmt (JClaim job tok now) db = db\<lparr>db_jobs := snd (claimJob job tok now (db_jobs db))\<rparr>"
| "jobStmt (JFailRead job err now) db =
     (if jobTerminal (dj_status job) then db
      else db\<lparr>db_jobs := failJobRows (unchangedFence job) (dj_id job) err now (db_jobs db)\<rparr>)"
| "jobStmt (JFailOwned j g tok err now) db =
     db\<lparr>db_jobs := failJobRows (ownership j g tok) j err now (db_jobs db)\<rparr>"
| "jobStmt (JIncrement j g tok) db =
     db\<lparr>db_jobs := snd (incrementDeliveryAttempts (ownership j g tok) (db_jobs db))\<rparr>"
| "jobStmt (JDelivered j g tok now) db = db\<lparr>db_jobs := markDelivered (ownership j g tok) now (db_jobs db)\<rparr>"
| "jobStmt (JDeadLetter j g tok err now) db =
     db\<lparr>db_jobs := snd (markDeadLetter (ownership j g tok) g err now (db_jobs db))\<rparr>"
| "jobStmt (JRetryWait j g tok err now nextAt) db =
     db\<lparr>db_jobs := markRetryWait (ownership j g tok) err now nextAt (db_jobs db)\<rparr>"
| "jobStmt (JRevive j n now) db = db\<lparr>db_jobs := snd (reviveJob j n now (db_jobs db))\<rparr>"

lemmas job_write_defs = claimJob_def failJobRows_def incrementDeliveryAttempts_def markDelivered_def
  markDeadLetter_def markRetryWait_def reviveJob_def

lemma jobStmt_wf: "job_db_wf db \<Longrightarrow> job_db_wf (jobStmt st db)"
proof (cases st)
  case (JFailRead job err now)
  assume wf: "job_db_wf db"
  show ?thesis
  proof (cases "jobTerminal (dj_status job)")
    case True
    then show ?thesis using wf JFailRead by simp
  next
    case False
    then have "job_db_wf (db\<lparr>db_jobs := failJobRows (unchangedFence job) (dj_id job) err now (db_jobs db)\<rparr>)"
      unfolding failJobRows_def
      by (intro job_db_wf_updateWhere [OF wf])
        (auto simp: job_wf_def unchangedFence_def jobTerminal_def)
    then show ?thesis using False JFailRead by simp
  qed
qed (auto simp: upsert_wf purgeJobs_wf job_write_defs Let_def ownership_def jobClaimable_def
    intro!: job_db_wf_updateWhere, auto simp: job_wf_def jobTerminal_def)

lemma jobStmts_wf: "job_db_wf db \<Longrightarrow> job_db_wf (fold jobStmt sts db)"
  by (induction sts arbitrary: db) (simp_all add: jobStmt_wf)


subsection \<open>Interfaces\<close>

definition jobStale :: "ms \<Rightarrow> djob \<Rightarrow> bool" where
  "jobStale now = expired jobPurgeable dj_createdAt (now - TERMINAL_DELIVERY_RETENTION_MS)"

interpretation job_retention:
  retained_ledger dj_id jobStale purgeJobRows TERMINAL_DELIVERY_PURGE_LIMIT
  by unfold_locales
    (auto simp: jobStale_def purgeJobRows_def purgeRows_count purgeRows_rest purgeRows_keeps
      dest: subsetD [OF purgeRows_keeps(1)])

text \<open>The token that owns a job and generation.\<close>

definition jobToken :: "job_db \<Rightarrow> string \<times> int \<Rightarrow> string option" where
  "jobToken db k =
     (case selectBy dj_id (fst k) (db_jobs db) of
        None \<Rightarrow> None
      | Some r \<Rightarrow> if dj_reconcileAttempt r = snd k \<and> dj_status r = DqProcessing then dj_processingToken r else None)"

text \<open>A claim of a job and generation: the row as read (\<open>None\<close> if it names another one) and the time.\<close>

definition claimJobKey :: "string \<times> int \<Rightarrow> string \<Rightarrow> djob \<times> ms \<Rightarrow> job_db \<Rightarrow> job_db option" where
  "claimJobKey k tok c db =
     (if dj_id (fst c) = fst k \<and> dj_reconcileAttempt (fst c) = snd k \<and> fst (claimJob (fst c) tok (snd c) (db_jobs db))
      then Some (db\<lparr>db_jobs := snd (claimJob (fst c) tok (snd c) (db_jobs db))\<rparr>) else None)"

datatype job_settlement =
    SettledOk ms
  | SettledDead string ms
  | SettledRetry string ms ms
  | SettledFail string ms

fun settledJob :: "int \<Rightarrow> job_settlement \<Rightarrow> djob \<Rightarrow> djob" where
  "settledJob g (SettledOk now) r =
     r\<lparr>dj_status := DqDelivered, dj_deliveredAt := Some now, dj_error := None, dj_lastAttemptAt := Some now,
       dj_processingStartedAt := None, dj_processingToken := None, dj_dlqPending := False\<rparr>"
| "settledJob g (SettledDead err now) r =
     r\<lparr>dj_status := DqDeadLetter, dj_error := Some err, dj_lastAttemptAt := Some now,
       dj_processingStartedAt := None, dj_processingToken := None, dj_dlqPending := (g < MAX_RECONCILE_ATTEMPTS),
       dj_nextAttemptAt := now + DELIVERY_RECONCILE_DELAY_SECONDS * 1000\<rparr>"
| "settledJob g (SettledRetry err now nextAt) r =
     r\<lparr>dj_status := DqRetryWait, dj_error := Some err, dj_lastAttemptAt := Some now,
       dj_processingStartedAt := None, dj_processingToken := None, dj_nextAttemptAt := nextAt\<rparr>"
| "settledJob g (SettledFail err now) r =
     r\<lparr>dj_status := DqFailed, dj_error := Some err, dj_lastAttemptAt := Some now,
       dj_processingStartedAt := None, dj_processingToken := None, dj_dlqPending := False\<rparr>"

fun settlementStmt :: "string \<times> int \<Rightarrow> string \<Rightarrow> job_settlement \<Rightarrow> job_stmt" where
  "settlementStmt k tok (SettledOk now) = JDelivered (fst k) (snd k) tok now"
| "settlementStmt k tok (SettledDead err now) = JDeadLetter (fst k) (snd k) tok err now"
| "settlementStmt k tok (SettledRetry err now nextAt) = JRetryWait (fst k) (snd k) tok err now nextAt"
| "settlementStmt k tok (SettledFail err now) = JFailOwned (fst k) (snd k) tok err now"

definition settleJobKey :: "string \<times> int \<Rightarrow> string \<Rightarrow> job_settlement \<Rightarrow> job_db \<Rightarrow> bool \<times> job_db" where
  "settleJobKey k tok s db =
     (0 < affectedRows (ownership (fst k) (snd k) tok) (db_jobs db), jobStmt (settlementStmt k tok s) db)"

lemma settlementStmt_eq:
  "jobStmt (settlementStmt k tok s) db
     = db\<lparr>db_jobs := updateWhere (ownership (fst k) (snd k) tok) (settledJob (snd k) s) (db_jobs db)\<rparr>"
proof -
  have same: "(\<lambda>r. dj_id r = fst k \<and> ownership (fst k) (snd k) tok r) = ownership (fst k) (snd k) tok"
    by (auto simp: ownership_def fun_eq_iff)
  show ?thesis
    by (cases s) (simp_all add: markDelivered_def markDeadLetter_def markRetryWait_def failJobRows_def same updateWhere_def)
qed

lemma settledJob_simps [simp]:
  "dj_id (settledJob g s r) = dj_id r" "dj_reconcileAttempt (settledJob g s r) = dj_reconcileAttempt r"
  "dj_processingToken (settledJob g s r) = None" "dj_status (settledJob g s r) \<noteq> DqProcessing"
  by (cases s; simp)+

lemma ownership_owner:
  "keysUnique dj_id (db_jobs db) \<Longrightarrow>
   0 < affectedRows (ownership j g tok) (db_jobs db) \<longleftrightarrow> jobToken db (j, g) = Some tok"
  by (subst affectedRows_key [of dj_id _ _ j])
    (auto simp: ownership_def jobToken_def split: option.splits dest: selectBy_SomeD)

text \<open>A statement that gives a token up or leaves the row: tokens only disappear.\<close>

lemma jobToken_update:
  assumes "\<And>r. dj_id (f r) = dj_id r" and "\<And>r. P r \<Longrightarrow> dj_processingToken (f r) = None \<or>
      (dj_status (f r) = dj_status r \<and> dj_reconcileAttempt (f r) = dj_reconcileAttempt r \<and>
       dj_processingToken (f r) = dj_processingToken r)"
  shows "jobToken (db\<lparr>db_jobs := updateWhere P f (db_jobs db)\<rparr>) k \<in> {jobToken db k, None}"
proof (cases "selectBy dj_id (fst k) (db_jobs db)")
  case None
  then show ?thesis using assms(1) by (simp add: jobToken_def selectBy_updateWhere)
next
  case (Some r)
  then show ?thesis using assms(1) assms(2) [of r] by (auto simp: jobToken_def selectBy_updateWhere)
qed

text \<open>Everything that is not a claim or a settlement of an owner.\<close>

fun bystander :: "job_stmt \<Rightarrow> bool" where
  "bystander (JUpsert now j act ep as) = True"
| "bystander (JPurge now) = True"
| "bystander (JFailRead job err now) = True"
| "bystander (JIncrement j g tok) = True"
| "bystander (JRevive j n now) = True"
| "bystander _ = False"

definition bystanderStmt :: "job_stmt \<Rightarrow> job_db \<Rightarrow> job_db" where
  "bystanderStmt st db = (if bystander st then jobStmt st db else db)"

lemma deleteJobs_token:
  "keysUnique dj_id (db_jobs db) \<Longrightarrow> jobToken (deleteJobs P db) k \<in> {jobToken db k, None}"
proof -
  assume u: "keysUnique dj_id (db_jobs db)"
  show ?thesis
  proof (cases "selectBy dj_id (fst k) (db_jobs (deleteJobs P db))")
    case (Some r)
    then have "r \<in> set (db_jobs db)" "dj_id r = fst k"
      using selectBy_SomeD [OF Some] by (auto simp: deleteJobs_def Let_def)
    then have "selectBy dj_id (fst k) (db_jobs db) = Some r" using selectBy_mem [OF u] by metis
    then show ?thesis using Some by (simp add: jobToken_def)
  qed (simp add: jobToken_def)
qed

lemma jobs_subset_token:
  assumes "keysUnique dj_id (db_jobs db)" "set (db_jobs db') \<subseteq> set (db_jobs db)"
  shows "jobToken db' k \<in> {jobToken db k, None}"
proof (cases "selectBy dj_id (fst k) (db_jobs db')")
  case (Some r)
  then have "r \<in> set (db_jobs db)" "dj_id r = fst k" using selectBy_SomeD [OF Some] assms(2) by auto
  then have "selectBy dj_id (fst k) (db_jobs db) = Some r" using selectBy_mem [OF assms(1)] by metis
  then show ?thesis using Some by (simp add: jobToken_def)
qed (simp add: jobToken_def)

lemma upsert_token:
  assumes "keysUnique dj_id (db_jobs db)"
  shows "jobToken (snd (upsertDeliveryJob now j act ep as db)) k \<in> {jobToken db k, None}"
proof (cases "dedupe as = []")
  case True
  then show ?thesis by (simp add: upsertDeliveryJob_def)
next
  case False
  let ?recs = "fold (insertRecipient (db_tombstones db) j) (dedupe as) (db_recipients db)"
  let ?ret = "hasRetainedRecipient j ?recs"
  let ?db1 = "db\<lparr>db_jobs := insertOrIgnore dj_id (newJob j act ep now) (db_jobs db)\<rparr>"
  let ?db2 = "?db1\<lparr>db_jobs := updateWhere (\<lambda>r. dj_id r = j \<and> dj_status r \<noteq> DqProcessing \<and> dj_status r \<noteq> DqDelivered \<and> ?ret)
     (\<lambda>r. r\<lparr>dj_inboxUrl := ep, dj_activityApId := act\<rparr>) (db_jobs ?db1)\<rparr>"
  let ?db3 = "?db2\<lparr>db_recipients := ?recs\<rparr>"
  have t1: "jobToken ?db1 k \<in> {jobToken db k, None}"
    by (auto simp: jobToken_def selectBy_insertOrIgnore newJob_def split: option.splits)
  have t2: "jobToken ?db2 k \<in> {jobToken ?db1 k, None}" by (rule jobToken_update) simp_all
  have t3: "jobToken ?db3 k = jobToken ?db2 k" by (simp add: jobToken_def)
  have u: "keysUnique dj_id (db_jobs ?db3)"
    using assms by (simp add: keysUnique_updateWhere keysUnique_insertOrIgnore)
  have "jobToken (deleteJobs (\<lambda>r. dj_id r = j \<and> dj_attributionComplete r \<and> \<not> ?ret) ?db3) k \<in> {jobToken ?db3 k, None}"
    by (rule deleteJobs_token [OF u])
  moreover have "snd (upsertDeliveryJob now j act ep as db)
      = deleteJobs (\<lambda>r. dj_id r = j \<and> dj_attributionComplete r \<and> \<not> ?ret) ?db3"
    using False by (simp add: upsertDeliveryJob_def Let_def)
  ultimately show ?thesis using t1 t2 t3 by auto
qed

lemma bystander_token:
  assumes wf: "job_db_wf db"
  shows "jobToken (bystanderStmt st db) k \<in> {jobToken db k, None}"
proof (cases "bystander st")
  case False
  then show ?thesis by (simp add: bystanderStmt_def)
next
  case True
  have u: "keysUnique dj_id (db_jobs db)" using wf by (simp add: job_db_wf_def)
  show ?thesis
  proof (cases st)
    case (JUpsert now j act ep as)
    then show ?thesis using upsert_token [OF u] by (simp add: bystanderStmt_def)
  next
    case (JPurge now)
    have "set (db_jobs (snd (purgeTerminalDeliveryEndpointJobs now db))) \<subseteq> set (db_jobs db)"
      using purgeRows_keeps(1) [of dj_id jobPurgeable dj_createdAt TERMINAL_DELIVERY_PURGE_LIMIT _ "db_jobs db"]
      by (simp add: purgeTerminalDeliveryEndpointJobs_def purgeJobRows_def split: prod.split) (metis snd_conv)
    then show ?thesis using jobs_subset_token [OF u] JPurge by (simp add: bystanderStmt_def)
  next
    case (JFailRead job err now)
    then show ?thesis unfolding bystanderStmt_def
      by (simp add: failJobRows_def) (intro impI jobToken_update [simplified]; simp)
  next
    case (JIncrement j g tok)
    then show ?thesis unfolding bystanderStmt_def
      by (simp add: incrementDeliveryAttempts_def) (intro jobToken_update [simplified]; simp)
  next
    case (JRevive j n now)
    then show ?thesis unfolding bystanderStmt_def
      by (simp add: reviveJob_def Let_def) (intro jobToken_update [simplified]; simp)
  qed (use True in simp_all)
qed


interpretation job_fence:
  fenced_rows jobToken claimJobKey settleJobKey bystanderStmt job_db_wf
proof
  fix t t' :: job_db and k tok and a :: "djob \<times> ms"
  assume wf: "job_db_wf t" and c: "claimJobKey k tok a t = Some t'"
  obtain job now where a: "a = (job, now)" by (cases a)
  have k: "dj_id job = fst k" "dj_reconcileAttempt job = snd k" "fst (claimJob job tok now (db_jobs t))"
    and t': "t' = jobStmt (JClaim job tok now) t"
    using c by (simp_all add: claimJobKey_def a split: if_splits)
  have u: "keysUnique dj_id (db_jobs t)" using wf by (simp add: job_db_wf_def)
  have "affectedRows (jobClaimable job now) (db_jobs t) = (case selectBy dj_id (fst k) (db_jobs t) of None \<Rightarrow> 0
      | Some r \<Rightarrow> if jobClaimable job now r then 1 else 0)"
    by (rule affectedRows_key [OF u]) (simp add: jobClaimable_def k)
  then obtain r where r: "selectBy dj_id (fst k) (db_jobs t) = Some r" "jobClaimable job now r"
    using k(3) by (auto simp: claimJob_def split: option.splits if_splits)
  let ?f = "\<lambda>r. r\<lparr>dj_status := DqProcessing, dj_processingStartedAt := Some now, dj_processingToken := Some tok\<rparr>"
  have sel: "selectBy dj_id i (db_jobs t')
      = map_option (\<lambda>r. if jobClaimable job now r then ?f r else r) (selectBy dj_id i (db_jobs t))" for i
    by (simp add: t' claimJob_def selectBy_updateWhere)
  have own: "jobToken t' k = Some tok" using r k by (simp add: jobToken_def sel jobClaimable_def)
  have "jobToken t' k' = jobToken t k'" if "k' \<noteq> k" for k'
  proof (cases "selectBy dj_id (fst k') (db_jobs t)")
    case (Some x)
    then show ?thesis using that k selectBy_SomeD [OF Some]
      by (cases "jobClaimable job now x") (auto simp: jobToken_def sel jobClaimable_def prod_eq_iff)
  qed (simp add: jobToken_def sel)
  then show "job_db_wf t' \<and> jobToken t' k = Some tok \<and> (\<forall>k'. k' \<noteq> k \<longrightarrow> jobToken t' k' = jobToken t k')"
    using own jobStmt_wf [OF wf, of "JClaim job tok now"] unfolding t' by blast
next
  fix t :: job_db and k tok c
  assume wf: "job_db_wf t"
  then have u: "keysUnique dj_id (db_jobs t)" by (simp add: job_db_wf_def)
  show own: "fst (settleJobKey k tok c t) \<longleftrightarrow> jobToken t k = Some tok"
    using ownership_owner [OF u, of "fst k" "snd k" tok] by (simp add: settleJobKey_def)
  show "snd (settleJobKey k tok c t) = t" if "jobToken t k \<noteq> Some tok"
  proof -
    have "affectedRows (ownership (fst k) (snd k) tok) (db_jobs t) = 0"
      using ownership_owner [OF u, of "fst k" "snd k" tok] that by simp
    then have "updateWhere (ownership (fst k) (snd k) tok) f (db_jobs t) = db_jobs t" for f
      unfolding affectedRows_eq_0 by (intro updateWhere_id) blast
    then show ?thesis by (simp add: settleJobKey_def settlementStmt_eq)
  qed
  show "job_db_wf (snd (settleJobKey k tok c t)) \<and> jobToken (snd (settleJobKey k tok c t)) k = None \<and>
      (\<forall>k'. k' \<noteq> k \<longrightarrow> jobToken (snd (settleJobKey k tok c t)) k' = jobToken t k')"
    if tok: "jobToken t k = Some tok"
  proof -
    have sel: "selectBy dj_id i (db_jobs (snd (settleJobKey k tok c t)))
        = map_option (\<lambda>r. if ownership (fst k) (snd k) tok r then settledJob (snd k) c r else r) (selectBy dj_id i (db_jobs t))" for i
      by (simp add: settleJobKey_def settlementStmt_eq selectBy_updateWhere)
    have "jobToken (snd (settleJobKey k tok c t)) k = None"
      using tok by (auto simp: jobToken_def sel ownership_def split: option.splits if_splits dest: selectBy_SomeD)
    moreover have "jobToken (snd (settleJobKey k tok c t)) k' = jobToken t k'" if "k' \<noteq> k" for k'
    proof (cases "selectBy dj_id (fst k') (db_jobs t)")
      case (Some x)
      then show ?thesis using that selectBy_SomeD [OF Some]
        by (cases "ownership (fst k) (snd k) tok x") (auto simp: jobToken_def sel ownership_def prod_eq_iff)
    qed (simp add: jobToken_def sel)
    moreover have "job_db_wf (snd (settleJobKey k tok c t))" using jobStmt_wf [OF wf] by (simp add: settleJobKey_def)
    ultimately show ?thesis by simp
  qed
next
  fix t :: job_db and s k
  assume wf: "job_db_wf t"
  then show "job_db_wf (bystanderStmt s t) \<and>
      (jobToken (bystanderStmt s t) k = jobToken t k \<or> jobToken (bystanderStmt s t) k = None)"
    using bystander_token [OF wf, of s k] jobStmt_wf [OF wf] by (auto simp: bystanderStmt_def)
qed

subsection \<open>The life of a job\<close>

text \<open>
  The abstract specification of a job: what may happen to the row of one id in one statement.
  Delivered is absorbing, failed stays failed, a dead letter is revived only into the next
  generation, once its repair is due, and everything else stays within the generation.
\<close>

definition allowedTransition :: "ms \<Rightarrow> djob \<Rightarrow> djob \<Rightarrow> bool" where
  "allowedTransition now r r' =
     (dj_id r' = dj_id r \<and> dj_createdAt r' = dj_createdAt r \<and>
      (case dj_status r of
         DqDelivered \<Rightarrow> r' = r
       | DqFailed \<Rightarrow> dj_status r' = DqFailed \<and> dj_attempts r' = dj_attempts r \<and>
           dj_reconcileAttempt r' = dj_reconcileAttempt r
       | DqDeadLetter \<Rightarrow>
           (dj_status r' = DqDeadLetter \<and> dj_dlqPending r' = dj_dlqPending r \<and> dj_attempts r' = dj_attempts r \<and>
            dj_nextAttemptAt r' = dj_nextAttemptAt r \<and> dj_reconcileAttempt r' = dj_reconcileAttempt r) \<or>
           (dj_status r' = DqPending \<and> dj_dlqPending r \<and> dj_nextAttemptAt r \<le> now \<and> dj_attempts r' = 0 \<and>
            dj_reconcileAttempt r' = dj_reconcileAttempt r + 1 \<and> dj_reconcileAttempt r' \<le> MAX_RECONCILE_ATTEMPTS)
       | DqProcessing \<Rightarrow>
           dj_reconcileAttempt r' = dj_reconcileAttempt r \<and> dj_status r' \<noteq> DqPending \<and>
           (dj_attempts r' = dj_attempts r \<or> (dj_status r' = DqProcessing \<and> dj_attempts r' = dj_attempts r + 1))
       | _ \<Rightarrow>
           dj_reconcileAttempt r' = dj_reconcileAttempt r \<and> dj_attempts r' = dj_attempts r \<and>
           dj_status r' \<in> {dj_status r, DqProcessing, DqFailed}))"

fun stmtTime :: "job_stmt \<Rightarrow> ms" where
  "stmtTime (JUpsert now j act ep as) = now"
| "stmtTime (JPurge now) = now"
| "stmtTime (JClaim job tok now) = now"
| "stmtTime (JFailRead job err now) = now"
| "stmtTime (JFailOwned j g tok err now) = now"
| "stmtTime (JIncrement j g tok) = 0"
| "stmtTime (JDelivered j g tok now) = now"
| "stmtTime (JDeadLetter j g tok err now) = now"
| "stmtTime (JRetryWait j g tok err now nextAt) = now"
| "stmtTime (JRevive j n now) = now"

lemma allowed_refl: "allowedTransition now r r"
  by (cases "dj_status r") (simp_all add: allowedTransition_def)

lemma allowed_update:
  assumes "selectBy dj_id j (db_jobs db) = Some r" "selectBy dj_id j (updateWhere P f (db_jobs db)) = Some r'"
    and "\<And>x. dj_id (f x) = dj_id x" and "P r \<Longrightarrow> allowedTransition now r (f r)"
  shows "allowedTransition now r r'"
  using assms allowed_refl by (auto simp: selectBy_updateWhere split: if_splits)

lemma upsert_selects:
  assumes "keysUnique dj_id (db_jobs db)" "selectBy dj_id i (db_jobs db) = Some r"
    and "selectBy dj_id i (db_jobs (snd (upsertDeliveryJob now j act ep as db))) = Some r'"
  shows "r' = r \<or> (i = j \<and> dj_status r \<noteq> DqProcessing \<and> dj_status r \<noteq> DqDelivered \<and>
     r' = r\<lparr>dj_inboxUrl := ep, dj_activityApId := act\<rparr>)"
proof (cases "dedupe as = []")
  case True
  then show ?thesis using assms by (simp add: upsertDeliveryJob_def)
next
  case False
  let ?ret = "hasRetainedRecipient j (fold (insertRecipient (db_tombstones db) j) (dedupe as) (db_recipients db))"
  let ?upd = "updateWhere (\<lambda>r. dj_id r = j \<and> dj_status r \<noteq> DqProcessing \<and> dj_status r \<noteq> DqDelivered \<and> ?ret)
     (\<lambda>r. r\<lparr>dj_inboxUrl := ep, dj_activityApId := act\<rparr>) (insertOrIgnore dj_id (newJob j act ep now) (db_jobs db))"
  have "r' \<in> set (db_jobs (snd (upsertDeliveryJob now j act ep as db)))" "dj_id r' = i"
    using selectBy_SomeD [OF assms(3)] by simp_all
  then have "r' \<in> set ?upd" using False by (simp add: upsertDeliveryJob_def Let_def deleteJobs_def)
  moreover have "keysUnique dj_id ?upd" using assms(1) by (simp add: keysUnique_updateWhere keysUnique_insertOrIgnore)
  ultimately have "selectBy dj_id (dj_id r') ?upd = Some r'" by (intro selectBy_mem)
  then have "selectBy dj_id i ?upd = Some r'" unfolding \<open>dj_id r' = i\<close> .
  then show ?thesis using assms(2) selectBy_SomeD [OF assms(2)]
    by (auto simp: selectBy_updateWhere selectBy_insertOrIgnore split: if_splits)
qed

lemma purge_selects:
  assumes "keysUnique dj_id (db_jobs db)" "selectBy dj_id i (db_jobs db) = Some r"
    and "selectBy dj_id i (db_jobs (snd (purgeTerminalDeliveryEndpointJobs now db))) = Some r'"
  shows "r' = r"
proof -
  have "r' \<in> set (db_jobs db)"
    using selectBy_SomeD [OF assms(3)]
      subsetD [OF purgeRows_keeps(1) [of dj_id jobPurgeable dj_createdAt TERMINAL_DELIVERY_PURGE_LIMIT _ "db_jobs db"]]
    by (auto simp: purgeTerminalDeliveryEndpointJobs_def purgeJobRows_def split: prod.splits) (metis snd_conv)
  then show ?thesis using selectBy_mem [OF assms(1)] selectBy_SomeD [OF assms(3)] assms(2) by (metis option.inject)
qed

lemma jobStmt_allowed:
  assumes wf: "job_db_wf db" and r: "selectBy dj_id i (db_jobs db) = Some r"
    and r': "selectBy dj_id i (db_jobs (jobStmt st db)) = Some r'"
  shows "allowedTransition (stmtTime st) r r'"
proof -
  have u: "keysUnique dj_id (db_jobs db)" and jwf: "job_wf r"
    using wf selectBy_SomeD [OF r] by (auto simp: job_db_wf_def list_all_iff)
  show ?thesis
  proof (cases st)
    case (JUpsert now j act ep as)
    then show ?thesis using upsert_selects [OF u r, of now j act ep as r'] r' allowed_refl [of now r]
      by (cases "dj_status r") (auto simp: allowedTransition_def)
  next
    case (JPurge now)
    then show ?thesis using purge_selects [OF u r, of now r'] r' allowed_refl by simp
  next
    case (JFailRead job err now)
    then show ?thesis using r r' allowed_refl
      by (auto simp: failJobRows_def split: if_splits elim!: allowed_update)
        (auto simp: allowedTransition_def unchangedFence_def jobTerminal_def split: job_status.splits)
  next
    case (JRevive j n now)
    show ?thesis using r r' jwf unfolding JRevive
      by (auto simp: reviveJob_def Let_def elim!: allowed_update)
        (auto simp: allowedTransition_def job_wf_def)
  qed (use r r' in \<open>auto simp: job_write_defs Let_def elim!: allowed_update\<close>,
      auto simp: allowedTransition_def jobClaimable_def ownership_def jobTerminal_def split: job_status.splits)
qed


subsection \<open>Properties\<close>

definition noJobs :: job_db where
  "noJobs = \<lparr>db_jobs = [], db_recipients = [], db_tombstones = []\<rparr>"


definition exampleJobEvents :: "(string \<times> int, djob \<times> ms, job_settlement, job_stmt) fence_event list" where
  "exampleJobEvents =
     [EvSweep (JUpsert 0 ''j'' ''act'' ''https://a.example/inbox'' [''bob'']),
      EvClaim (''j'', 0) ''t1'' (newJob ''j'' ''act'' ''https://a.example/inbox'' 0, 5),
      EvClaim (''j'', 0) ''t2'' (newJob ''j'' ''act'' ''https://a.example/inbox'' 0, 6),
      EvClaim (''j'', 0) ''t3'' (newJob ''j'' ''act'' ''https://a.example/inbox'' 0, 200000),
      EvSettle (''j'', 0) ''t1'' (SettledRetry ''slow'' 200001 260001),
      EvSettle (''j'', 0) ''t3'' (SettledOk 200002)]"


text \<open>
  C4: Every statement of the delivery pipeline keeps the ledger well formed (unique ids, a token
  exactly while processing, a retained repair only on a dead letter below the fifth generation,
  a recipient for every attributed job, no orphaned recipient) and moves a job only as its life
  cycle allows: delivered is absorbing, failed stays failed, and a dead letter is revived only
  once its repair is due, into the next generation and never past the fifth.
\<close>

theorem job_life_cycle:
  assumes "job_db_wf db" and "selectBy dj_id i (db_jobs db) = Some r"
    and "selectBy dj_id i (db_jobs (jobStmt st db)) = Some r'"
  shows "job_db_wf (jobStmt st db) \<and> allowedTransition (stmtTime st) r r'"
  using jobStmt_wf [OF assms(1)] jobStmt_allowed [OF assms] by blast

definition exampleJobDb :: job_db where
  "exampleJobDb = fold jobStmt
     [JUpsert 0 ''j'' ''act'' ''https://a.example/inbox'' [''bob''],
      JClaim (newJob ''j'' ''act'' ''https://a.example/inbox'' 0) ''t'' 5,
      JIncrement ''j'' 0 ''t'', JDeadLetter ''j'' 0 ''t'' ''HTTP 500'' 9] noJobs"

lemma exampleJobDb_wf: "job_db_wf exampleJobDb"
  unfolding exampleJobDb_def
  by (rule jobStmts_wf) (simp add: noJobs_def job_db_wf_def attributed_def keysUnique_def)

theorem job_life_cycle_witness:
  "allowedTransition 21600009 (hd (db_jobs exampleJobDb)) (hd (db_jobs (jobStmt (JRevive ''j'' 1 21600009) exampleJobDb))) \<and>
   dj_status (hd (db_jobs (jobStmt (JRevive ''j'' 1 21600009) exampleJobDb))) = DqPending"
proof -
  have "selectBy dj_id ''j'' (db_jobs exampleJobDb) = Some (hd (db_jobs exampleJobDb))"
    "selectBy dj_id ''j'' (db_jobs (jobStmt (JRevive ''j'' 1 21600009) exampleJobDb))
       = Some (hd (db_jobs (jobStmt (JRevive ''j'' 1 21600009) exampleJobDb)))"
    "dj_status (hd (db_jobs (jobStmt (JRevive ''j'' 1 21600009) exampleJobDb))) = DqPending"
    by code_simp+
  then show ?thesis using job_life_cycle [OF exampleJobDb_wf] by (metis stmtTime.simps(10))
qed

text \<open>
  C6: A repair intent is consumed exactly once, by its exact successor. The conditional update
  takes effect just when the worker's reading told it to try; afterwards the job is pending in
  that generation with its attempts reset, every message of that or an earlier generation is
  ignored whenever it arrives, and a message that comes early is put back with a delay between
  one second and twelve hours that reaches the due time unless it is capped.
\<close>

theorem reconcile_exact_successor:
  assumes wf: "job_db_wf db" and r: "selectBy dj_id j (db_jobs db) = Some r"
  shows "(fst (reviveJob j n now (db_jobs db)) \<longleftrightarrow> decideReconcile n now (Some r) = ReconcileTry) \<and>
    (fst (reviveJob j n now (db_jobs db)) \<longrightarrow>
      (\<exists>r'. selectBy dj_id j (snd (reviveJob j n now (db_jobs db))) = Some r' \<and>
         dj_status r' = DqPending \<and> dj_reconcileAttempt r' = n \<and> dj_attempts r' = 0 \<and>
         (\<forall>n' later. n' \<le> n \<longrightarrow> decideReconcile n' later (Some r') = ReconcileIgnore))) \<and>
    (\<forall>d. decideReconcile n now (Some r) = ReconcileLater d \<longrightarrow>
      1 \<le> d \<and> d \<le> 43200 \<and> (d < 43200 \<longrightarrow> dj_nextAttemptAt r \<le> now + 1000 * d))"
proof (intro conjI allI impI)
  have u: "keysUnique dj_id (db_jobs db)" and jwf: "job_wf r" and id: "dj_id r = j"
    using wf selectBy_SomeD [OF r] by (auto simp: job_db_wf_def list_all_iff)
  let ?P = "\<lambda>r. dj_id r = j \<and> dj_status r = DqDeadLetter \<and> dj_dlqPending r \<and>
     dj_reconcileAttempt r = n - 1 \<and> dj_nextAttemptAt r \<le> now"
  have "affectedRows ?P (db_jobs db) = (if ?P r then 1 else 0)"
    using affectedRows_key [OF u, of ?P j] r by simp
  then have fst: "fst (reviveJob j n now (db_jobs db)) = ?P r" by (simp add: reviveJob_def Let_def)
  show "fst (reviveJob j n now (db_jobs db)) \<longleftrightarrow> decideReconcile n now (Some r) = ReconcileTry"
    unfolding fst using jwf id by (auto simp: decideReconcile_def job_wf_def)
  assume "fst (reviveJob j n now (db_jobs db))"
  then have "?P r" unfolding fst .
  then show "\<exists>r'. selectBy dj_id j (snd (reviveJob j n now (db_jobs db))) = Some r' \<and>
         dj_status r' = DqPending \<and> dj_reconcileAttempt r' = n \<and> dj_attempts r' = 0 \<and>
         (\<forall>n' later. n' \<le> n \<longrightarrow> decideReconcile n' later (Some r') = ReconcileIgnore)"
    using r by (simp add: reviveJob_def Let_def selectBy_updateWhere decideReconcile_def)
next
  fix d
  assume "decideReconcile n now (Some r) = ReconcileLater d"
  then have d: "d = max 1 (min 43200 (ceilDiv (dj_nextAttemptAt r - now) 1000))"
    by (auto simp: decideReconcile_def split: if_splits)
  have c: "dj_nextAttemptAt r - now \<le> 1000 * ceilDiv (dj_nextAttemptAt r - now) 1000" by (rule ceilDiv_upper) simp
  show "1 \<le> d" "d \<le> 43200" using d by auto
  assume "d < 43200"
  then have "ceilDiv (dj_nextAttemptAt r - now) 1000 \<le> d" using d by auto
  then show "dj_nextAttemptAt r \<le> now + 1000 * d" using c by linarith
qed

theorem reconcile_exact_successor_witness:
  "fst (reviveJob ''j'' 1 21600009 (db_jobs exampleJobDb)) \<and>
   \<not> fst (reviveJob ''j'' 2 21600009 (db_jobs exampleJobDb)) \<and> \<not> fst (reviveJob ''j'' 1 21600008 (db_jobs exampleJobDb))"
proof -
  have r: "selectBy dj_id ''j'' (db_jobs exampleJobDb) = Some (hd (db_jobs exampleJobDb))"
    and d: "decideReconcile 1 21600009 (Some (hd (db_jobs exampleJobDb))) = ReconcileTry"
      "decideReconcile 2 21600009 (Some (hd (db_jobs exampleJobDb))) \<noteq> ReconcileTry"
      "decideReconcile 1 21600008 (Some (hd (db_jobs exampleJobDb))) \<noteq> ReconcileTry"
    by code_simp+
  show ?thesis
    using reconcile_exact_successor [OF exampleJobDb_wf r, of 1 21600009] reconcile_exact_successor [OF exampleJobDb_wf r, of 2 21600009]
      reconcile_exact_successor [OF exampleJobDb_wf r, of 1 21600008] d by blast
qed

definition jobQuietAt :: "djob \<Rightarrow> ms" where
  "jobQuietAt r = max (dj_createdAt r) (max (dj_nextAttemptAt r)
     (case dj_processingStartedAt r of None \<Rightarrow> dj_createdAt r | Some s \<Rightarrow> s)) + STALE_PROCESSING_MS"



end
