(* ===== verification/ActorIdentity.thy ===== *)
theory ActorIdentity
  imports NetAddr
begin

section \<open>Actor identities\<close>

text \<open>
  Models \<open>src/backend/lib/activitypub-actor-identity.ts\<close> (the comparison of actor IRIs
  at the signature boundary) and the staged SQL of \<open>activitypub-actor-identity-sql.ts\<close>,
  which compares the spellings retained in a table with a target. Each common table expression
  of the query is a definition here, in the order of the query. The URL parser is a parameter.
\<close>

subsection \<open>SQL string functions\<close>

text \<open>\<open>instr(s, t)\<close> for a non-empty \<open>t\<close>: the one-based position, or 0.\<close>

fun instrFrom :: "nat \<Rightarrow> string \<Rightarrow> string \<Rightarrow> nat" where
  "instrFrom k [] t = 0"
| "instrFrom k (c # s) t = (if startsWith (c # s) t then k else instrFrom (Suc k) s t)"

definition sqlInstr :: "string \<Rightarrow> string \<Rightarrow> nat" where
  "sqlInstr s t = instrFrom 1 s t"

text \<open>\<open>substr(s, 1, n)\<close>, \<open>substr(s, p)\<close> for positive \<open>p\<close> and \<open>substr(s, -n)\<close>.\<close>

definition sqlPrefix :: "string \<Rightarrow> nat \<Rightarrow> string" where
  "sqlPrefix s n = take n s"

definition sqlFrom :: "string \<Rightarrow> nat \<Rightarrow> string" where
  "sqlFrom s p = drop (p - 1) s"

definition sqlSuffix :: "string \<Rightarrow> nat \<Rightarrow> string" where
  "sqlSuffix s n = takeLast n s"

text \<open>\<open>lower(s)\<close> of SQLite folds the ASCII letters only.\<close>

definition asciiLowerChar :: "char \<Rightarrow> char" where
  "asciiLowerChar c = (let n = (of_char c :: nat) in if 65 \<le> n \<and> n \<le> 90 then char_of (n + 32) else c)"

definition sqlLower :: "string \<Rightarrow> string" where
  "sqlLower s = map asciiLowerChar s"

subsection \<open>The staged query\<close>

definition identityFragmentless :: "string \<Rightarrow> string" where
  "identityFragmentless s = (if 0 < sqlInstr s ''#'' then sqlPrefix s (sqlInstr s ''#'' - 1) else s)"

definition identityClean :: "string \<Rightarrow> string" where
  "identityClean s = (if sqlSuffix s 1 = ''/'' then sqlPrefix s (length s - 1) else s)"

definition identityBoundary :: "string \<Rightarrow> nat" where
  "identityBoundary tail =
     (if sqlInstr tail ''/'' = 0 then sqlInstr tail ''?''
      else if sqlInstr tail ''?'' = 0 then sqlInstr tail ''/''
      else if sqlInstr tail ''/'' < sqlInstr tail ''?'' then sqlInstr tail ''/''
      else sqlInstr tail ''?'')"

text \<open>The scheme, the authority and the path with its query.\<close>

definition identityComponents :: "string \<Rightarrow> string \<times> string \<times> string" where
  "identityComponents s =
     (let separator = sqlInstr s ''://'';
          tail = sqlFrom s (separator + 3);
          boundary = identityBoundary tail
      in (sqlLower (sqlPrefix s (separator - 1)),
          if boundary = 0 then tail else sqlPrefix tail (boundary - 1),
          if boundary = 0 then ''''
          else if sqlPrefix (sqlFrom tail boundary) 1 = ''?'' then ''/'' @ sqlFrom tail boundary
          else sqlFrom tail boundary))"

definition identityAuthority :: "string \<Rightarrow> string \<Rightarrow> string" where
  "identityAuthority scheme authority =
     (if scheme = ''https'' \<and> sqlSuffix (sqlLower authority) 4 = '':443''
      then sqlPrefix (sqlLower authority) (length authority - 4)
      else if scheme = ''http'' \<and> sqlSuffix (sqlLower authority) 3 = '':80''
      then sqlPrefix (sqlLower authority) (length authority - 3)
      else sqlLower authority)"

text \<open>The canonical spelling the query derives from a raw one, when it derives one.\<close>

definition identityNormalized :: "string \<Rightarrow> string option" where
  "identityNormalized raw =
     (let s = identityClean (identityFragmentless raw);
          separator = sqlInstr s ''://''
      in case identityComponents s of
           (scheme, authority, pathQuery) \<Rightarrow>
             (if 0 < sqlInstr authority ''@'' then None
              else
                (let folded = identityAuthority scheme authority
                 in if 1 < separator \<and> (scheme = ''http'' \<or> scheme = ''https'') \<and> 0 < length folded
                    then Some (scheme @ ''://'' @ folded @ pathQuery) else None)))"

text \<open>The values of one row: its raw spelling, and the canonical one.\<close>

definition identityValues :: "string \<Rightarrow> string list" where
  "identityValues raw =
     (case identityNormalized raw of None \<Rightarrow> [raw] | Some n \<Rightarrow> if n = raw then [raw] else [raw, n])"

definition activityPubActorIdentitySetSql :: "string list \<Rightarrow> string list" where
  "activityPubActorIdentitySetSql rawActorIds = remdups (concat (map identityValues rawActorIds))"

definition activityPubActorIdentityMatchesSql :: "string list \<Rightarrow> string \<Rightarrow> string list" where
  "activityPubActorIdentityMatchesSql rawActorIds target =
     remdups (filter (\<lambda>raw. list_ex (\<lambda>v. v \<in> set (identityValues target)) (identityValues raw)) rawActorIds)"

subsection \<open>The comparison at the signature boundary\<close>

definition normalizeActivityPubActorId :: "url_parser \<Rightarrow> string \<Rightarrow> string option" where
  "normalizeActivityPubActorId parseUrl value =
     (case parseUrl value of
        None \<Rightarrow> None
      | Some u \<Rightarrow>
          (let normalized = u_protocol u @ ''//'' @ u_host u @ u_pathname u @ u_search u
           in Some (if endsWith normalized ''/'' then butlast normalized else normalized)))"

definition isSameActivityPubActor :: "url_parser \<Rightarrow> string option \<Rightarrow> string option \<Rightarrow> bool" where
  "isSameActivityPubActor parseUrl l r =
     (case (l, r) of
        (Some left, Some right) \<Rightarrow>
          (if left = [] \<or> right = [] then False
           else if left = right then True
           else normalizeActivityPubActorId parseUrl left \<noteq> None \<and>
                normalizeActivityPubActorId parseUrl left = normalizeActivityPubActorId parseUrl right)
      | _ \<Rightarrow> False)"

subsection \<open>Lemmas on the string functions\<close>

lemma startsWith_char: "startsWith s [c] \<longleftrightarrow> (\<exists>t. s = c # t)"
  by (cases s) (auto simp: startsWith_def)

lemma instrFrom_char_none: "c \<notin> set s \<Longrightarrow> instrFrom k s [c] = 0"
  by (induction s arbitrary: k) (auto simp: startsWith_def)

lemma instrFrom_char: "c \<notin> set s \<Longrightarrow> instrFrom k (s @ c # t) [c] = k + length s"
  by (induction s arbitrary: k) (auto simp: startsWith_def)

lemma instr_char_none [simp]: "c \<notin> set s \<Longrightarrow> sqlInstr s [c] = 0"
  by (simp add: sqlInstr_def instrFrom_char_none)

lemma instr_char [simp]: "c \<notin> set s \<Longrightarrow> sqlInstr (s @ c # t) [c] = Suc (length s)"
  by (simp add: sqlInstr_def instrFrom_char)

lemma instr_char_zero: "sqlInstr s [c] = 0 \<longleftrightarrow> c \<notin> set s"
  by (metis instr_char instr_char_none nat.distinct(1) split_list_first)

lemma instr_separator:
  assumes "CHR '':'' \<notin> set s"
  shows "sqlInstr (s @ ''://'' @ t) ''://'' = Suc (length s)"
proof -
  have "instrFrom k (s @ ''://'' @ t) ''://'' = k + length s" for k
    using assms by (induction s arbitrary: k) (auto simp: startsWith_def)
  then show ?thesis by (simp add: sqlInstr_def)
qed

lemma fragmentless_takeWhile: "identityFragmentless s = takeWhile (\<lambda>c. c \<noteq> CHR ''#'') s"
proof (cases "CHR ''#'' \<in> set s")
  case True
  then obtain p q where s: "s = p @ CHR ''#'' # q" and p: "CHR ''#'' \<notin> set p" by (meson split_list_first)
  have "takeWhile (\<lambda>c. c \<noteq> CHR ''#'') s = p" unfolding s using p by (subst takeWhile_append2) auto
  then show ?thesis using p by (simp add: s identityFragmentless_def sqlPrefix_def)
next
  case False
  then have "takeWhile (\<lambda>c. c \<noteq> CHR ''#'') s = s" by (subst takeWhile_eq_all_conv) auto
  moreover have "identityFragmentless s = s" using False by (simp add: identityFragmentless_def)
  ultimately show ?thesis by metis
qed

lemma clean_slash: "identityClean (s @ ''/'') = s"
  by (simp add: identityClean_def sqlSuffix_def takeLast_def sqlPrefix_def)

lemma clean_none: "\<not> endsWith s ''/'' \<Longrightarrow> identityClean s = s"
  by (cases s rule: rev_cases)
    (auto simp: identityClean_def sqlSuffix_def takeLast_def sqlPrefix_def endsWith_def)

text \<open>The components of a string with a scheme, an authority and a path.\<close>

definition pathStart :: "string \<Rightarrow> bool" where
  "pathStart p = (p = [] \<or> (\<exists>t. p = CHR ''/'' # t))"

lemma boundary_path:
  assumes "CHR ''/'' \<notin> set a" "CHR ''?'' \<notin> set a" "pathStart p"
  shows "identityBoundary (a @ p) = (if p = [] then 0 else Suc (length a))"
proof (cases p)
  case Nil
  then show ?thesis using assms by (simp add: identityBoundary_def)
next
  case (Cons c t)
  then have p: "p = CHR ''/'' # t" using assms(3) by (auto simp: pathStart_def)
  have slash: "sqlInstr (a @ p) ''/'' = Suc (length a)" unfolding p by (rule instr_char [OF assms(1)])
  show ?thesis
  proof (cases "CHR ''?'' \<in> set t")
    case True
    then obtain u v where t: "t = u @ CHR ''?'' # v" and u: "CHR ''?'' \<notin> set u" by (meson split_list_first)
    have "sqlInstr ((a @ CHR ''/'' # u) @ CHR ''?'' # v) ''?'' = Suc (length (a @ CHR ''/'' # u))"
      by (rule instr_char) (use assms(2) u in auto)
    then have "sqlInstr (a @ p) ''?'' = Suc (length a + Suc (length u))" by (simp add: p t)
    then show ?thesis using slash Cons by (simp add: identityBoundary_def)
  next
    case False
    then have "sqlInstr (a @ p) ''?'' = 0" using assms(2) by (intro instr_char_none) (simp add: p)
    then show ?thesis using slash Cons by (simp add: identityBoundary_def)
  qed
qed

lemma identityComponents_parts:
  assumes sch: "CHR '':'' \<notin> set sch" and a: "CHR ''/'' \<notin> set a" "CHR ''?'' \<notin> set a" and p: "pathStart p"
  shows "identityComponents (sch @ ''://'' @ a @ p) = (sqlLower sch, a, p)"
proof -
  have sep: "sqlInstr (sch @ ''://'' @ a @ p) ''://'' = Suc (length sch)"
    by (rule instr_separator [OF sch])
  have tail: "sqlFrom (sch @ ''://'' @ a @ p) (Suc (length sch) + 3) = a @ p"
    by (simp add: sqlFrom_def)
  show ?thesis
    unfolding identityComponents_def Let_def sep tail boundary_path [OF a p]
    using p by (auto simp: pathStart_def sqlPrefix_def sqlFrom_def)
qed

subsection \<open>Spellings of an actor\<close>

text \<open>
  An actor in canonical form: a lower-case http(s) scheme and authority, no default port, a path
  with its query that does not end in a slash. Its spellings fold back to it by letter case of
  scheme and authority, the default port, one trailing slash and a fragment.
\<close>

definition defaultPort :: "string \<Rightarrow> string" where
  "defaultPort scheme = (if scheme = ''https'' then '':443'' else '':80'')"

definition canonicalActor :: "string \<times> string \<times> string \<Rightarrow> bool" where
  "canonicalActor actor =
     (case actor of
        (scheme, authority, path) \<Rightarrow>
          (scheme = ''http'' \<or> scheme = ''https'') \<and> sqlLower authority = authority \<and> authority \<noteq> [] \<and>
          list_all (\<lambda>c. c \<noteq> CHR ''/'' \<and> c \<noteq> CHR ''?'' \<and> c \<noteq> CHR ''#'' \<and> c \<noteq> CHR ''@'') authority \<and>
          \<not> endsWith authority (defaultPort scheme) \<and>
          pathStart path \<and> CHR ''#'' \<notin> set path \<and> \<not> endsWith path ''/'')"

definition canonicalText :: "string \<times> string \<times> string \<Rightarrow> string" where
  "canonicalText actor = (case actor of (scheme, authority, path) \<Rightarrow> scheme @ ''://'' @ authority @ path)"

definition spells :: "string \<times> string \<times> string \<Rightarrow> string \<Rightarrow> bool" where
  "spells actor s =
     (case actor of
        (scheme, authority, path) \<Rightarrow>
          (\<exists>sch auth port slash fragment.
             s = sch @ ''://'' @ auth @ port @ path @ slash @ fragment \<and>
             sqlLower sch = scheme \<and> sqlLower auth = authority \<and>
             (port = [] \<or> port = defaultPort scheme) \<and> (slash = [] \<or> slash = ''/'') \<and>
             (fragment = [] \<or> (\<exists>t. fragment = CHR ''#'' # t))))"

lemma spellsI:
  assumes "s = sch @ ''://'' @ auth @ port @ path @ slash @ fragment"
    and "sqlLower sch = scheme" "sqlLower auth = authority" "port = [] \<or> port = defaultPort scheme"
    and "slash = [] \<or> slash = ''/''" "fragment = [] \<or> (\<exists>t. fragment = CHR ''#'' # t)"
  shows "spells (scheme, authority, path) s"
  unfolding spells_def prod.case using assms by blast

lemma asciiLower_mem:
  assumes "d \<in> set s" "\<not> (65 \<le> (of_char d :: nat) \<and> (of_char d :: nat) \<le> 90)"
  shows "d \<in> set (sqlLower s)"
proof -
  have "asciiLowerChar d = d" using assms(2) by (auto simp: asciiLowerChar_def Let_def)
  then show ?thesis using assms(1) by (metis image_eqI list.set_map sqlLower_def)
qed

lemma sqlLower_Nil [simp]: "sqlLower [] = []"
  by (simp add: sqlLower_def)

lemma sqlLower_append: "sqlLower (s @ t) = sqlLower s @ sqlLower t"
  by (simp add: sqlLower_def)

lemma length_sqlLower [simp]: "length (sqlLower s) = length s"
  by (simp add: sqlLower_def)

lemma sqlLower_port: "sqlLower (defaultPort scheme) = defaultPort scheme"
  by (simp add: defaultPort_def sqlLower_def asciiLowerChar_def)

lemma takeLast_append: "takeLast (length t) (s @ t) = t"
  by (simp add: takeLast_def)

lemma endsWith_takeLast: "endsWith s p \<longleftrightarrow> (\<exists>q. s = q @ p)"
  by (auto simp: endsWith_def) (metis append_take_drop_id)

lemma takeLast_eq: "p \<noteq> [] \<Longrightarrow> takeLast (length p) s = p \<longleftrightarrow> endsWith s p"
  by (auto simp: endsWith_def takeLast_def) (metis diff_is_0_eq' drop0 nle_le order_refl)

lemma authority_port:
  assumes "scheme = ''http'' \<or> scheme = ''https''" "\<not> endsWith (sqlLower a) (defaultPort scheme)"
    and "port = [] \<or> port = defaultPort scheme"
  shows "identityAuthority scheme (a @ port) = sqlLower a"
proof -
  have suffix: "sqlSuffix (sqlLower (a @ port)) (length (defaultPort scheme)) = defaultPort scheme \<longleftrightarrow> port \<noteq> []"
  proof (cases "port = []")
    case True
    then show ?thesis using assms(2) takeLast_eq [of "defaultPort scheme" "sqlLower a"]
      by (simp add: sqlSuffix_def defaultPort_def)
  next
    case False
    then have "port = defaultPort scheme" using assms(3) by blast
    then show ?thesis using False by (simp add: sqlSuffix_def sqlLower_append sqlLower_port takeLast_append)
  qed
  show ?thesis
  proof (cases "port = []")
    case True
    then show ?thesis using suffix by (auto simp: identityAuthority_def defaultPort_def numeral_eq_Suc)
  next
    case False
    then have p: "port = defaultPort scheme" using assms(3) by blast
    show ?thesis using assms(1)
    proof
      assume "scheme = ''http''"
      then show ?thesis using suffix False
        by (simp add: p identityAuthority_def sqlPrefix_def sqlLower_append) (simp add: defaultPort_def numeral_eq_Suc)
    next
      assume "scheme = ''https''"
      then show ?thesis using suffix False
        by (simp add: p identityAuthority_def sqlPrefix_def sqlLower_append) (simp add: defaultPort_def numeral_eq_Suc)
    qed
  qed
qed

lemma spelled_clean:
  assumes noFrag: "CHR ''#'' \<notin> set base" and noSlash: "\<not> endsWith base ''/''"
    and "slash = [] \<or> slash = ''/''" and "fragment = [] \<or> (\<exists>t. fragment = CHR ''#'' # t)"
  shows "identityClean (identityFragmentless (base @ slash @ fragment)) = base"
proof -
  have "CHR ''#'' \<notin> set (base @ slash)" using noFrag assms(3) by auto
  then have "takeWhile (\<lambda>c. c \<noteq> CHR ''#'') ((base @ slash) @ fragment) = base @ slash"
    using assms(4) by (subst takeWhile_append2) auto
  then have "identityFragmentless (base @ slash @ fragment) = base @ slash"
    unfolding fragmentless_takeWhile by simp
  then show ?thesis using assms(3) clean_slash [of base] clean_none [OF noSlash] by auto
qed

lemma endsWith_char: "endsWith s [c] \<longleftrightarrow> s \<noteq> [] \<and> last s = c"
  by (cases s rule: rev_cases) (auto simp: endsWith_takeLast)

lemma lower_excludes:
  assumes "d \<notin> set (sqlLower a)" "\<not> (65 \<le> (of_char d :: nat) \<and> (of_char d :: nat) \<le> 90)"
  shows "d \<notin> set a"
  using asciiLower_mem assms by blast

lemma identityNormalized_spelling:
  assumes "canonicalActor actor" "spells actor s"
  shows "identityNormalized s = Some (canonicalText actor)"
proof -
  obtain scheme authority path where actor: "actor = (scheme, authority, path)" by (cases actor)
  have c: "scheme = ''http'' \<or> scheme = ''https''" "authority \<noteq> []"
    "CHR ''/'' \<notin> set authority" "CHR ''?'' \<notin> set authority" "CHR ''#'' \<notin> set authority" "CHR ''@'' \<notin> set authority"
    "\<not> endsWith authority (defaultPort scheme)" "pathStart path" "CHR ''#'' \<notin> set path" "\<not> endsWith path ''/''"
    using assms(1) by (auto simp: actor canonicalActor_def list_all_iff)
  obtain sch auth port slash fragment where s: "s = sch @ ''://'' @ auth @ port @ path @ slash @ fragment"
    and low: "sqlLower sch = scheme" "sqlLower auth = authority"
    and port: "port = [] \<or> port = defaultPort scheme" and slash: "slash = [] \<or> slash = ''/''"
    and frag: "fragment = [] \<or> (\<exists>t. fragment = CHR ''#'' # t)"
    using assms(2) unfolding actor spells_def prod.case by blast
  have sch: "CHR '':'' \<notin> set sch" "CHR ''#'' \<notin> set sch" "sch \<noteq> []"
    using c(1) low(1) lower_excludes [of "CHR '':''" sch] lower_excludes [of "CHR ''#''" sch] by auto
  have a: "CHR ''/'' \<notin> set auth" "CHR ''?'' \<notin> set auth" "CHR ''#'' \<notin> set auth" "CHR ''@'' \<notin> set auth"
    using c(3-6) lower_excludes [of _ auth] by (simp_all add: low(2))
  have p: "CHR ''/'' \<notin> set port" "CHR ''?'' \<notin> set port" "CHR ''#'' \<notin> set port" "CHR ''@'' \<notin> set port"
    "\<not> endsWith port ''/''"
    using port by (auto simp: defaultPort_def endsWith_def split: if_splits)
  define base where "base = sch @ ''://'' @ (auth @ port) @ path"
  have "auth \<noteq> []" using c(2) low(2) by (auto simp: sqlLower_def)
  moreover have "\<not> endsWith auth ''/''" using a(1) by (auto simp: endsWith_takeLast)
  ultimately have "\<not> endsWith (sch @ ''://'' @ (auth @ port) @ path) ''/''"
    using c(10) p(5) by (auto simp: endsWith_char last_append split: if_splits)
  then have base: "identityClean (identityFragmentless s) = base"
    using spelled_clean [of base slash fragment] c(9) sch(2) a(3) p(3) slash frag by (simp add: base_def s)
  have sep: "sqlInstr base ''://'' = Suc (length sch)" unfolding base_def by (rule instr_separator [OF sch(1)])
  have comp: "identityComponents base = (scheme, auth @ port, path)"
    unfolding base_def using identityComponents_parts [OF sch(1) _ _ c(8), of "auth @ port"] a p low(1) by simp
  have fold: "identityAuthority scheme (auth @ port) = authority"
    using authority_port [of scheme auth port] c(1,7) low(2) port by simp
  have noAt: "sqlInstr (auth @ port) ''@'' = 0" using a(4) p(4) by (intro instr_char_none) simp
  show ?thesis
    unfolding identityNormalized_def Let_def base sep comp using c(1,2) sch(3)
    by (simp add: noAt fold canonicalText_def actor)
qed

lemma canonical_spells: "canonicalActor actor \<Longrightarrow> spells actor (canonicalText actor)"
proof -
  assume c: "canonicalActor actor"
  obtain scheme authority path where actor: "actor = (scheme, authority, path)" by (cases actor)
  have "sqlLower scheme = scheme" using c by (auto simp: actor canonicalActor_def sqlLower_def asciiLowerChar_def)
  moreover have "sqlLower authority = authority" using c by (simp add: actor canonicalActor_def)
  ultimately show ?thesis
    unfolding actor spells_def canonicalText_def prod.case
    by (intro exI [of _ scheme] exI [of _ authority] exI [of _ "[]"]) simp
qed

lemma split_at_char:
  assumes "a @ p = b @ q" "c \<notin> set a" "c \<notin> set b" "p = [] \<or> (\<exists>t. p = c # t)" "q = [] \<or> (\<exists>t. q = c # t)"
  shows "a = b \<and> p = q"
  using assms
proof (induction a arbitrary: b)
  case Nil
  then show ?case by (cases b) auto
next
  case (Cons x a)
  then show ?case by (cases b) auto
qed

lemma canonicalText_inject:
  assumes "canonicalActor a" "canonicalActor b" "canonicalText a = canonicalText b"
  shows "a = b"
proof -
  obtain s h p where a: "a = (s, h, p)" by (cases a)
  obtain s' h' p' where b: "b = (s', h', p')" by (cases b)
  have eq: "s @ ''://'' @ h @ p = s' @ ''://'' @ h' @ p'" using assms(3) by (simp add: a b canonicalText_def)
  have "s = s' \<and> ''://'' @ h @ p = ''://'' @ h' @ p'"
    by (rule split_at_char [OF eq, of "CHR '':''"]) (use assms(1,2) in \<open>auto simp: a b canonicalActor_def\<close>)
  then have "h @ p = h' @ p'" "s = s'" by simp_all
  moreover have "h = h' \<and> p = p'"
    by (rule split_at_char [OF calculation(1), of "CHR ''/''"])
      (use assms(1,2) in \<open>auto simp: a b canonicalActor_def pathStart_def list_all_iff\<close>)
  ultimately show ?thesis by (simp add: a b)
qed

lemma identityValues_spelling:
  assumes "canonicalActor actor" "spells actor s"
  shows "set (identityValues s) = {s, canonicalText actor}"
  using identityNormalized_spelling [OF assms] by (simp add: identityValues_def)

lemma spellings_match:
  assumes "canonicalActor a" "spells a s" "canonicalActor b" "spells b t"
  shows "list_ex (\<lambda>v. v \<in> set (identityValues t)) (identityValues s) \<longleftrightarrow> a = b"
proof -
  have n: "identityNormalized s = Some (canonicalText a)" "identityNormalized t = Some (canonicalText b)"
    "identityNormalized (canonicalText a) = Some (canonicalText a)" "identityNormalized (canonicalText b) = Some (canonicalText b)"
    using identityNormalized_spelling assms canonical_spells by blast+
  have "{s, canonicalText a} \<inter> {t, canonicalText b} \<noteq> {} \<longleftrightarrow> canonicalText a = canonicalText b"
    using n by auto
  then show ?thesis
    using identityValues_spelling [OF assms(1,2)] identityValues_spelling [OF assms(3,4)]
      canonicalText_inject [OF assms(1,3)] by (auto simp: list_ex_iff)
qed

subsection \<open>Properties\<close>

text \<open>
  C24: The SQL identity match finds every spelling of an actor and conflates no two actors. Over
  a table whose rows are spellings of canonical http(s) actors (letter case of scheme and
  authority, default port, one trailing slash, fragment), the query with any spelling of an
  actor returns exactly the rows that spell that actor; path and query stay significant.
\<close>

theorem actor_identity_matches_spellings:
  assumes "canonicalActor b" "spells b t" and "list_all (\<lambda>r. \<exists>a. canonicalActor a \<and> spells a r) rows"
  shows "set (activityPubActorIdentityMatchesSql rows t) = {r \<in> set rows. spells b r}"
proof -
  have "list_ex (\<lambda>v. v \<in> set (identityValues t)) (identityValues r) \<longleftrightarrow> spells b r" if r: "r \<in> set rows" for r
  proof -
    obtain a where a: "canonicalActor a" "spells a r" using assms(3) r by (auto simp: list_all_iff)
    have "a = b" if "spells b r"
      using spellings_match [OF a assms(1) that] identityValues_spelling [OF a] by (auto simp: list_ex_iff)
    then show ?thesis using spellings_match [OF a assms(1,2)] a(2) by blast
  qed
  then show ?thesis by (auto simp: activityPubActorIdentityMatchesSql_def)
qed

definition exampleActor :: "string \<times> string \<times> string" where
  "exampleActor = (''https'', ''a.example'', ''/users/Bob'')"

lemma exampleActor_spellings:
  "canonicalActor exampleActor" "spells exampleActor ''HTTPS://A.Example:443/users/Bob/#main-key''"
  "spells exampleActor ''https://a.example/users/Bob''"
proof -
  show "canonicalActor exampleActor"
    by (simp add: exampleActor_def canonicalActor_def sqlLower_def asciiLowerChar_def endsWith_def defaultPort_def pathStart_def)
  show "spells exampleActor ''HTTPS://A.Example:443/users/Bob/#main-key''"
    unfolding exampleActor_def
    by (rule spellsI [of _ "''HTTPS''" "''A.Example''" "'':443''" _ "''/''" "''#main-key''"]) (simp_all, code_simp+)
  show "spells exampleActor ''https://a.example/users/Bob''"
    unfolding exampleActor_def
    by (rule spellsI [of _ "''https''" "''a.example''" "[]" _ "[]" "[]"]) (simp_all, code_simp+)
qed

theorem actor_identity_matches_spellings_witness:
  "set (activityPubActorIdentityMatchesSql [''https://a.example/users/Bob''] ''HTTPS://A.Example:443/users/Bob/#main-key'')
     = {''https://a.example/users/Bob''}"
proof -
  have "list_all (\<lambda>r. \<exists>a. canonicalActor a \<and> spells a r) [''https://a.example/users/Bob'']"
    using exampleActor_spellings(1,3) by (simp only: list.pred_inject) blast
  then show ?thesis
    using actor_identity_matches_spellings [OF exampleActor_spellings(1,2)] exampleActor_spellings(3) by auto
qed

text \<open>
  The match is not transitive on texts that end in two slashes: one is stripped per step, so the
  spelling with one slash matches both neighbours.
\<close>

lemma identity_double_slash:
  "activityPubActorIdentityMatchesSql [''https://a/u//''] ''https://a/u/'' = [''https://a/u//'']"
  "activityPubActorIdentityMatchesSql [''https://a/u//''] ''https://a/u'' = []"
  by code_simp+

end
