(* ===== verification/Blocklist.thy ===== *)
theory Blocklist
  imports ActorIdentity Tables "HOL-Library.List_Lexorder" "HOL-Library.Char_ord"
begin

section \<open>The operator blocklist\<close>

text \<open>
  Models \<open>src/backend/lib/blocklist.ts\<close>: the two tables of blocked domains and actors,
  the strict and the best-effort lookups, the batched filter of the delivery planner, the four
  mutations, and the SQL predicate of the feeds. A lookup takes whether the database answers:
  the strict variants throw when it does not, the others answer "not blocked".
\<close>

record blocklist =
  bl_actors :: "(string \<times> string option) list"
  bl_domains :: "(string \<times> string option) list"

abbreviation blockedActorIds :: "blocklist \<Rightarrow> string list" where
  "blockedActorIds bl \<equiv> map fst (bl_actors bl)"

abbreviation blockedDomainNames :: "blocklist \<Rightarrow> string list" where
  "blockedDomainNames bl \<equiv> map fst (bl_domains bl)"

definition BLOCKLIST_IN_CHUNK :: nat where "BLOCKLIST_IN_CHUNK = 90"

subsection \<open>Domains\<close>

definition stripDot :: "string \<Rightarrow> string" where
  "stripDot s = (if endsWith s ''.'' then butlast s else s)"

definition normalizeDomain :: "url_parser \<Rightarrow> string \<Rightarrow> string option" where
  "normalizeDomain parseUrl input =
     (case (if 0 < sqlInstr input ''://'' then map_option u_hostname (parseUrl input) else Some input) of
        None \<Rightarrow> None
      | Some candidate \<Rightarrow>
          (let trimmed = toLowerCase (stripDot (trim candidate))
           in if trimmed \<noteq> [] then Some trimmed else None))"

fun joinDots :: "string list \<Rightarrow> string" where
  "joinDots [] = []"
| "joinDots [l] = l"
| "joinDots (l # ls) = l @ ''.'' @ joinDots ls"

definition domainSuffixCandidates :: "string \<Rightarrow> string list" where
  "domainSuffixCandidates domain =
     (let labels = splitOn (CHR ''.'') domain;
          out = map (\<lambda>i. joinDots (drop i labels)) [0..<length labels - 1]
      in if out = [] then [domain] else out)"

definition isDomainBlockedStrict :: "bool \<Rightarrow> url_parser \<Rightarrow> blocklist \<Rightarrow> string \<Rightarrow> string + bool" where
  "isDomainBlockedStrict readable parseUrl bl hostnameOrUrl =
     (case normalizeDomain parseUrl hostnameOrUrl of
        None \<Rightarrow> Inr False
      | Some domain \<Rightarrow>
          (if \<not> readable then Inl ''blocklist unreadable''
           else Inr (list_ex (\<lambda>d. d \<in> set (domainSuffixCandidates domain)) (blockedDomainNames bl))))"

definition isDomainBlocked :: "bool \<Rightarrow> url_parser \<Rightarrow> blocklist \<Rightarrow> string \<Rightarrow> bool" where
  "isDomainBlocked readable parseUrl bl hostnameOrUrl =
     (case isDomainBlockedStrict readable parseUrl bl hostnameOrUrl of Inl e \<Rightarrow> False | Inr b \<Rightarrow> b)"

subsection \<open>Actors\<close>

definition isActorBlockedStrict :: "bool \<Rightarrow> url_parser \<Rightarrow> blocklist \<Rightarrow> string \<Rightarrow> string + bool" where
  "isActorBlockedStrict readable parseUrl bl actorApId =
     (if actorApId = [] then Inr False
      else if \<not> readable then Inl ''blocklist unreadable''
      else if actorApId \<in> set (blockedActorIds bl) then Inr True
      else if activityPubActorIdentityMatchesSql (blockedActorIds bl) actorApId \<noteq> [] then Inr True
      else
        (case normalizeDomain parseUrl actorApId of
           None \<Rightarrow> Inr False
         | Some domain \<Rightarrow> isDomainBlockedStrict readable parseUrl bl domain))"

definition isActorBlocked :: "bool \<Rightarrow> url_parser \<Rightarrow> blocklist \<Rightarrow> string \<Rightarrow> bool" where
  "isActorBlocked readable parseUrl bl actorApId =
     (case isActorBlockedStrict readable parseUrl bl actorApId of Inl e \<Rightarrow> False | Inr b \<Rightarrow> b)"

subsection \<open>The batched filter\<close>

text \<open>One \<open>IN (...)\<close> lookup per chunk of at most ninety ids.\<close>

definition selectIn :: "string list \<Rightarrow> string list \<Rightarrow> string list" where
  "selectIn ids rows = concat (map (\<lambda>chunk. filter (\<lambda>r. r \<in> set chunk) rows) (chunksOf BLOCKLIST_IN_CHUNK ids))"

definition filterBlockedActorApIds :: "bool \<Rightarrow> url_parser \<Rightarrow> blocklist \<Rightarrow> string list \<Rightarrow> bool \<Rightarrow> string + string list" where
  "filterBlockedActorApIds readable parseUrl bl actorApIds strict =
     (let uniqueIds = dedupe (filter (\<lambda>i. i \<noteq> []) actorApIds)
      in if uniqueIds = [] then Inr []
         else if \<not> readable then (if strict then Inl ''blocklist unreadable'' else Inr [])
         else
           (let blockedActorSet = selectIn uniqueIds (blockedActorIds bl);
                requestedIdentities = dedupe (List.map_filter (normalizeActivityPubActorId parseUrl) uniqueIds);
                retainedActorIdentities = selectIn requestedIdentities (activityPubActorIdentitySetSql (blockedActorIds bl));
                candidatesOf = (\<lambda>i. case normalizeDomain parseUrl i of None \<Rightarrow> [] | Some d \<Rightarrow> domainSuffixCandidates d);
                domainList = dedupe (concat (map candidatesOf uniqueIds));
                blockedDomainSet = selectIn domainList (blockedDomainNames bl)
            in Inr (filter (\<lambda>i. i \<in> set blockedActorSet \<or>
                        (case normalizeActivityPubActorId parseUrl i of
                           None \<Rightarrow> False | Some n \<Rightarrow> n \<in> set retainedActorIdentities) \<or>
                        list_ex (\<lambda>c. c \<in> set blockedDomainSet) (candidatesOf i)) uniqueIds)))"

definition filterBlockedActorApIdsStrict :: "bool \<Rightarrow> url_parser \<Rightarrow> blocklist \<Rightarrow> string list \<Rightarrow> string + string list" where
  "filterBlockedActorApIdsStrict readable parseUrl bl actorApIds =
     filterBlockedActorApIds readable parseUrl bl actorApIds True"

subsection \<open>Mutations\<close>

definition upsertReason :: "string \<Rightarrow> string option \<Rightarrow> (string \<times> string option) list \<Rightarrow> (string \<times> string option) list" where
  "upsertReason k reason rows =
     (if k \<in> fst ` set rows then updateWhere (\<lambda>r. fst r = k) (\<lambda>r. (k, reason)) rows else rows @ [(k, reason)])"

definition blockDomain :: "url_parser \<Rightarrow> string \<Rightarrow> string option \<Rightarrow> blocklist \<Rightarrow> string + blocklist" where
  "blockDomain parseUrl hostnameOrUrl reason bl =
     (case normalizeDomain parseUrl hostnameOrUrl of
        None \<Rightarrow> Inl ''invalid input''
      | Some domain \<Rightarrow> Inr (bl\<lparr>bl_domains := upsertReason domain reason (bl_domains bl)\<rparr>))"

definition unblockDomain :: "url_parser \<Rightarrow> string \<Rightarrow> blocklist \<Rightarrow> blocklist" where
  "unblockDomain parseUrl hostnameOrUrl bl =
     (case normalizeDomain parseUrl hostnameOrUrl of
        None \<Rightarrow> bl
      | Some domain \<Rightarrow> bl\<lparr>bl_domains := deleteWhere (\<lambda>r. fst r = domain) (bl_domains bl)\<rparr>)"

text \<open>The retained spelling of an actor, the first in the order of SQL, or the one given.\<close>

definition retainedBlockedActorKey :: "(string \<times> string option) list \<Rightarrow> string \<Rightarrow> string" where
  "retainedBlockedActorKey rows actorApId =
     (case sort (activityPubActorIdentityMatchesSql (map fst rows) actorApId) of [] \<Rightarrow> actorApId | k # ks \<Rightarrow> k)"

definition blockActor :: "string \<Rightarrow> string option \<Rightarrow> blocklist \<Rightarrow> string + blocklist" where
  "blockActor actorApId reason bl =
     (if actorApId = [] then Inl ''actorApId is required''
      else
        (let inserted = upsertReason (retainedBlockedActorKey (bl_actors bl) actorApId) reason (bl_actors bl)
         in Inr (bl\<lparr>bl_actors := deleteWhere
              (\<lambda>r. fst r \<in> set (activityPubActorIdentityMatchesSql (map fst inserted) actorApId) \<and>
                   fst r \<noteq> retainedBlockedActorKey inserted actorApId) inserted\<rparr>)))"

definition unblockActor :: "string \<Rightarrow> blocklist \<Rightarrow> blocklist" where
  "unblockActor actorApId bl =
     (if actorApId = [] then bl
      else bl\<lparr>bl_actors := deleteWhere
             (\<lambda>r. fst r \<in> set (activityPubActorIdentityMatchesSql (blockedActorIds bl) actorApId)) (bl_actors bl)\<rparr>)"

subsection \<open>The predicate of the feeds\<close>

text \<open>The hostname the staged query extracts from an actor id.\<close>

definition operatorActorHostname :: "string \<Rightarrow> string option" where
  "operatorActorHostname actorId =
     (let s = identityFragmentless actorId;
          separator = sqlInstr (sqlLower s) ''://'';
          scheme = sqlPrefix (sqlLower s) (separator - 1);
          tail = sqlFrom (sqlLower s) (separator + 3);
          boundary = identityBoundary tail;
          authority = (if boundary = 0 then tail else sqlPrefix tail (boundary - 1));
          host = (if sqlPrefix authority 1 = ''['' \<and> 1 < sqlInstr authority '']'' then sqlPrefix authority (sqlInstr authority '']'')
                  else if 0 < sqlInstr authority '':'' then sqlPrefix authority (sqlInstr authority '':'' - 1)
                  else authority)
      in if 1 < separator \<and> (scheme = ''http'' \<or> scheme = ''https'') \<and> 0 < length authority \<and> sqlInstr authority ''@'' = 0
         then Some (if sqlSuffix host 1 = ''.'' then sqlPrefix host (length host - 1) else host) else None)"

definition operatorActorDomainNotBlockedSql :: "blocklist \<Rightarrow> string \<Rightarrow> bool" where
  "operatorActorDomainNotBlockedSql bl actorId =
     (case operatorActorHostname actorId of
        None \<Rightarrow> True
      | Some hostname \<Rightarrow>
          \<not> list_ex (\<lambda>d. hostname = d \<or> sqlSuffix hostname (length (''.'' @ d)) = ''.'' @ d) (blockedDomainNames bl))"

definition operatorActorNotBlockedSql :: "blocklist \<Rightarrow> string \<Rightarrow> bool" where
  "operatorActorNotBlockedSql bl actorId =
     (activityPubActorIdentityMatchesSql (blockedActorIds bl) actorId = [] \<and> operatorActorDomainNotBlockedSql bl actorId)"

subsection \<open>Suffixes of a domain\<close>

lemma joinDots_Cons: "ls \<noteq> [] \<Longrightarrow> joinDots (l # ls) = l @ CHR ''.'' # joinDots ls"
  by (cases ls) auto

lemma joinDots_splitOn: "joinDots (splitOn (CHR ''.'') s) = s"
proof (induction s)
  case (Cons x s)
  then show ?case
    by (cases "splitOn (CHR ''.'') s") (auto simp: joinDots_Cons split: list.splits, (case_tac list; simp)+)
qed simp

lemma splitOn_length: "length (splitOn c s) = Suc (length (filter (\<lambda>x. x = c) s))"
  by (induction s) (auto split: list.splits)

lemma mem_filter_length: "c \<in> set s \<longleftrightarrow> length (filter (\<lambda>x. x = c) s) \<noteq> 0"
  by (induction s) auto

lemma splitOn_parts: "l \<in> set (splitOn c s) \<Longrightarrow> c \<notin> set l"
  by (induction s arbitrary: l) (fastforce split: list.splits if_splits)+

text \<open>The suffixes that start after a dot, the whole text first.\<close>

fun dotSuffixes :: "string \<Rightarrow> string list" where
  "dotSuffixes [] = []"
| "dotSuffixes (c # s) = (if c = CHR ''.'' then s # dotSuffixes s else dotSuffixes s)"

lemma set_dotSuffixes: "d \<in> set (dotSuffixes s) \<longleftrightarrow> endsWith s (CHR ''.'' # d)"
proof (induction s)
  case Nil
  then show ?case by (simp add: endsWith_def)
next
  case (Cons c s)
  have "endsWith (c # s) (CHR ''.'' # d) \<longleftrightarrow> (c = CHR ''.'' \<and> d = s) \<or> endsWith s (CHR ''.'' # d)"
    unfolding endsWith_takeLast by (auto simp: Cons_eq_append_conv)
  then show ?case using Cons by auto
qed

lemma suffixes_drop:
  "map (\<lambda>i. joinDots (drop i (splitOn (CHR ''.'') s))) [0..<length (splitOn (CHR ''.'') s)] = s # dotSuffixes s"
proof (induction s)
  case (Cons c s)
  let ?L = "splitOn (CHR ''.'') s"
  obtain l ls where L: "?L = l # ls" by (cases ?L) auto
  have tl: "map (\<lambda>i. joinDots (drop i ?L)) [Suc 0..<length ?L] = dotSuffixes s"
    using Cons by (simp add: L upt_rec [of 0] del: upt_Suc)
  show ?case
  proof (cases "c = CHR ''.''")
    case True
    have "map (\<lambda>i. joinDots (drop i ([] # ?L))) [0..<Suc (length ?L)]
        = joinDots ([] # ?L) # map (\<lambda>i. joinDots (drop i ?L)) [0..<length ?L]"
      by (simp add: upt_rec [of 0 "Suc (length ?L)"] map_Suc_upt [symmetric] del: upt_Suc)
    then show ?thesis using Cons True by (simp add: joinDots_Cons joinDots_splitOn del: upt_Suc)
  next
    case False
    have "map (\<lambda>i. joinDots (drop i ((c # l) # ls))) [Suc 0..<Suc (length ls)]
        = map (\<lambda>i. joinDots (drop i (l # ls))) [Suc 0..<Suc (length ls)]"
      by (rule map_cong) (auto simp: drop_Cons split: nat.splits)
    also have "\<dots> = dotSuffixes s" using tl unfolding L by simp
    finally have rest: "map (\<lambda>i. joinDots (drop i ((c # l) # ls))) [Suc 0..<Suc (length ls)] = dotSuffixes s" .
    have "joinDots ((c # l) # ls) = c # s"
      using joinDots_splitOn [of s] L by (cases ls) auto
    then show ?thesis using rest False L
      by (simp add: upt_rec [of 0 "Suc (length ls)"] del: upt_Suc)
  qed
qed simp

text \<open>The candidates of a domain: itself, and every parent with at least two labels.\<close>

lemma candidates_suffixes:
  "set (domainSuffixCandidates h) = {h} \<union> {d. endsWith h (CHR ''.'' # d) \<and> CHR ''.'' \<in> set d}"
proof -
  let ?f = "\<lambda>i. joinDots (drop i (splitOn (CHR ''.'') h))"
  let ?n = "length (splitOn (CHR ''.'') h)"
  have n: "?n = Suc (length (filter (\<lambda>x. x = CHR ''.'') h))" by (rule splitOn_length)
  have all: "map ?f [0..<?n] = h # dotSuffixes h" by (rule suffixes_drop)
  have dots: "length (filter (\<lambda>x. x = CHR ''.'') (?f i)) = ?n - 1 - i" if "i < ?n" for i
    using that
  proof (induction i)
    case 0
    then show ?case by (simp add: joinDots_splitOn n)
  next
    case (Suc i)
    then obtain l ls where d: "drop i (splitOn (CHR ''.'') h) = l # ls" by (cases "drop i (splitOn (CHR ''.'') h)") auto
    then have ls: "drop (Suc i) (splitOn (CHR ''.'') h) = ls" by (metis drop_Suc list.sel(3) tl_drop)
    have "ls \<noteq> []" using Suc.prems ls by auto
    have "l \<in> set (splitOn (CHR ''.'') h)" using d by (metis in_set_dropD list.set_intros(1))
    then have "CHR ''.'' \<notin> set l" by (rule splitOn_parts)
    then have "filter (\<lambda>x. x = CHR ''.'') l = []" by (intro filter_False) auto
    then show ?case using Suc by (simp add: d ls joinDots_Cons \<open>ls \<noteq> []\<close>)
  qed
  show ?thesis
  proof (cases "?n = 1")
    case True
    then have "\<forall>x \<in> set h. x \<noteq> CHR ''.''" using n by (simp add: filter_empty_conv)
    then have "CHR ''.'' \<notin> set h" by blast
    then have "{d. endsWith h (CHR ''.'' # d)} = {}" by (auto simp: endsWith_takeLast)
    then show ?thesis using True by (simp add: domainSuffixCandidates_def Let_def)
  next
    case False
    then have n2: "2 \<le> ?n" using n by linarith
    have "set (domainSuffixCandidates h) = ?f ` {0..<?n - 1}"
      using n2 by (auto simp: domainSuffixCandidates_def Let_def)
    moreover have "?f ` {0..<?n - 1} = {?f i | i. i < ?n \<and> CHR ''.'' \<in> set (?f i)}"
    proof -
      have "CHR ''.'' \<in> set (?f i) \<longleftrightarrow> i < ?n - 1" if "i < ?n" for i
        using dots [OF that] that unfolding mem_filter_length by linarith
      then show ?thesis by auto
    qed
    moreover have "{?f i | i. i < ?n \<and> CHR ''.'' \<in> set (?f i)} = {d \<in> set (map ?f [0..<?n]). CHR ''.'' \<in> set d}"
      by auto
    moreover have "CHR ''.'' \<in> set h" using n2 n unfolding mem_filter_length by linarith
    ultimately show ?thesis by (auto simp: all set_dotSuffixes)
  qed
qed

lemma domainBlocked_iff:
  assumes "normalizeDomain parseUrl u = Some h"
  shows "isDomainBlockedStrict True parseUrl bl u
    = Inr (\<exists>d \<in> set (blockedDomainNames bl). h = d \<or> (CHR ''.'' \<in> set d \<and> endsWith h (CHR ''.'' # d)))"
  using assms by (auto simp: isDomainBlockedStrict_def candidates_suffixes list_ex_iff)

lemma sqlSuffix_endsWith: "sqlSuffix h (length (''.'' @ d)) = ''.'' @ d \<longleftrightarrow> endsWith h (CHR ''.'' # d)"
  using takeLast_eq [of "CHR ''.'' # d" h] by (simp add: sqlSuffix_def)

subsection \<open>The batched filter\<close>

lemma set_selectIn: "set (selectIn ids rows) = {r \<in> set rows. r \<in> set ids}"
proof -
  have "set ids = (\<Union>chunk \<in> set (chunksOf BLOCKLIST_IN_CHUNK ids). set chunk)"
    using concat_chunksOf [of BLOCKLIST_IN_CHUNK ids] by (metis BLOCKLIST_IN_CHUNK_def set_concat zero_less_numeral)
  then show ?thesis by (auto simp: selectIn_def)
qed

lemma set_identitySet: "set (activityPubActorIdentitySetSql rows) = (\<Union>r \<in> set rows. set (identityValues r))"
  by (simp add: activityPubActorIdentitySetSql_def)

lemma matches_nonempty:
  "activityPubActorIdentityMatchesSql rows t \<noteq> [] \<longleftrightarrow> (\<exists>r \<in> set rows. set (identityValues r) \<inter> set (identityValues t) \<noteq> {})"
  by (auto simp: activityPubActorIdentityMatchesSql_def filter_empty_conv list_ex_iff)

lemma normalizeDomain_stable:
  assumes "normalizeDomain parseUrl i = Some d"
  shows "d \<noteq> []"
  using assms by (auto simp: normalizeDomain_def Let_def split: option.splits if_splits)

lemma set_map_filter: "set (List.map_filter f xs) = {y. \<exists>x \<in> set xs. f x = Some y}"
  by (force simp: List.map_filter_def)

text \<open>What the batched filter answers for one id, with the chunks gone.\<close>

lemma filter_mem:
  assumes "filterBlockedActorApIdsStrict True parseUrl bl ids = Inr blocked"
  shows "i \<in> set blocked \<longleftrightarrow> i \<in> set ids \<and> i \<noteq> [] \<and>
    (i \<in> set (blockedActorIds bl) \<or>
     (\<exists>n. normalizeActivityPubActorId parseUrl i = Some n \<and> n \<in> set (activityPubActorIdentitySetSql (blockedActorIds bl))) \<or>
     (\<exists>h. normalizeDomain parseUrl i = Some h \<and> (\<exists>d \<in> set (domainSuffixCandidates h). d \<in> set (blockedDomainNames bl))))"
proof (cases "dedupe (filter (\<lambda>i. i \<noteq> []) ids) = []")
  case True
  then have "filter (\<lambda>i. i \<noteq> []) ids = []" by simp
  then have "\<forall>i \<in> set ids. i = []" by (metis (mono_tags, lifting) filter_empty_conv)
  then show ?thesis using assms True
    by (auto simp: filterBlockedActorApIdsStrict_def filterBlockedActorApIds_def)
next
  case False
  let ?u = "dedupe (filter (\<lambda>i. i \<noteq> []) ids)"
  let ?cands = "\<lambda>i. case normalizeDomain parseUrl i of None \<Rightarrow> [] | Some d \<Rightarrow> domainSuffixCandidates d"
  let ?reqs = "dedupe (List.map_filter (normalizeActivityPubActorId parseUrl) ?u)"
  let ?P = "\<lambda>i. i \<in> set (selectIn ?u (blockedActorIds bl)) \<or>
      (case normalizeActivityPubActorId parseUrl i of
         None \<Rightarrow> False | Some n \<Rightarrow> n \<in> set (selectIn ?reqs (activityPubActorIdentitySetSql (blockedActorIds bl)))) \<or>
      list_ex (\<lambda>c. c \<in> set (selectIn (dedupe (concat (map ?cands ?u))) (blockedDomainNames bl))) (?cands i)"
  have b: "blocked = filter ?P ?u"
    using assms False unfolding filterBlockedActorApIdsStrict_def filterBlockedActorApIds_def Let_def by simp
  have u: "i \<in> set ?u \<longleftrightarrow> i \<in> set ids \<and> i \<noteq> []" by auto
  show ?thesis
  proof (cases "i \<in> set ?u")
    case True
    have n: "n \<in> set ?reqs" if "normalizeActivityPubActorId parseUrl i = Some n" for n
      using that True by (auto simp: set_map_filter)
    have d: "d \<in> set (concat (map ?cands ?u))" if "d \<in> set (?cands i)" for d
      using that True unfolding set_concat set_map by blast
    have a: "i \<in> set (selectIn ?u (blockedActorIds bl)) \<longleftrightarrow> i \<in> set (blockedActorIds bl)"
      using True unfolding set_selectIn by blast
    have r: "(case normalizeActivityPubActorId parseUrl i of
         None \<Rightarrow> False | Some n \<Rightarrow> n \<in> set (selectIn ?reqs (activityPubActorIdentitySetSql (blockedActorIds bl)))) \<longleftrightarrow>
      (\<exists>n. normalizeActivityPubActorId parseUrl i = Some n \<and> n \<in> set (activityPubActorIdentitySetSql (blockedActorIds bl)))"
      using n unfolding set_selectIn by (cases "normalizeActivityPubActorId parseUrl i") auto
    have "list_ex (\<lambda>c. c \<in> set (selectIn (dedupe (concat (map ?cands ?u))) (blockedDomainNames bl))) (?cands i) \<longleftrightarrow>
      (\<exists>d \<in> set (?cands i). d \<in> set (blockedDomainNames bl))"
      unfolding list_ex_iff set_selectIn set_dedupe using d by blast
    also have "\<dots> \<longleftrightarrow> (\<exists>h. normalizeDomain parseUrl i = Some h \<and>
        (\<exists>d \<in> set (domainSuffixCandidates h). d \<in> set (blockedDomainNames bl)))"
      by (cases "normalizeDomain parseUrl i") simp_all
    finally have dom: "list_ex (\<lambda>c. c \<in> set (selectIn (dedupe (concat (map ?cands ?u))) (blockedDomainNames bl))) (?cands i)
        \<longleftrightarrow> (\<exists>h. normalizeDomain parseUrl i = Some h \<and>
        (\<exists>d \<in> set (domainSuffixCandidates h). d \<in> set (blockedDomainNames bl)))" .
    have "i \<in> set blocked \<longleftrightarrow> i \<in> set ?u \<and> ?P i" unfolding b by (simp only: set_filter mem_Collect_eq)
    then show ?thesis by (simp only: a r dom u conj_assoc)
  next
    case False
    then show ?thesis using u unfolding b set_filter mem_Collect_eq by blast
  qed
qed

subsection \<open>Retained spellings\<close>

definition sameIdentity :: "string \<Rightarrow> string \<Rightarrow> bool" where
  "sameIdentity r t = list_ex (\<lambda>v. v \<in> set (identityValues t)) (identityValues r)"

lemma set_matches: "set (activityPubActorIdentityMatchesSql rows t) = {r \<in> set rows. sameIdentity r t}"
  by (auto simp: activityPubActorIdentityMatchesSql_def sameIdentity_def)

lemma matches_empty_iff: "activityPubActorIdentityMatchesSql rows t = [] \<longleftrightarrow> (\<forall>r \<in> set rows. \<not> sameIdentity r t)"
  unfolding activityPubActorIdentityMatchesSql_def sameIdentity_def remdups_eq_nil_iff filter_empty_conv by (rule refl)

lemma identityValues_self [simp]: "r \<in> set (identityValues r)"
  by (auto simp: identityValues_def split: option.splits)

lemma sameIdentity_refl [simp]: "sameIdentity t t"
  unfolding sameIdentity_def list_ex_iff using identityValues_self by blast

lemma retainedKey_cases:
  "(retainedBlockedActorKey rows t \<in> fst ` set rows \<and> sameIdentity (retainedBlockedActorKey rows t) t) \<or>
   (retainedBlockedActorKey rows t = t \<and> (\<forall>r \<in> set rows. \<not> sameIdentity (fst r) t))"
proof (cases "sort (activityPubActorIdentityMatchesSql (map fst rows) t)")
  case Nil
  then have "activityPubActorIdentityMatchesSql (map fst rows) t = []" by (metis set_empty set_sort)
  then have "{r \<in> set (map fst rows). sameIdentity r t} = {}" unfolding set_matches [symmetric] by simp
  then have "\<forall>r \<in> set rows. \<not> sameIdentity (fst r) t" by auto
  then show ?thesis using Nil by (simp add: retainedBlockedActorKey_def)
next
  case (Cons k ks)
  then have "k \<in> set (activityPubActorIdentityMatchesSql (map fst rows) t)" by (metis list.set_intros(1) set_sort)
  then show ?thesis using Cons by (auto simp: retainedBlockedActorKey_def set_matches)
qed

lemma retainedKey_same:
  assumes "{r \<in> fst ` set rows. sameIdentity r t} = {r \<in> fst ` set rows'. sameIdentity r t}"
  shows "retainedBlockedActorKey rows t = retainedBlockedActorKey rows' t"
proof -
  have "set (activityPubActorIdentityMatchesSql (map fst rows) t) = set (activityPubActorIdentityMatchesSql (map fst rows') t)"
    using assms by (simp add: set_matches)
  then have "sort (activityPubActorIdentityMatchesSql (map fst rows) t) = sort (activityPubActorIdentityMatchesSql (map fst rows') t)"
    by (intro sorted_distinct_set_unique) (simp_all add: activityPubActorIdentityMatchesSql_def)
  then show ?thesis by (simp add: retainedBlockedActorKey_def)
qed

lemma set_upsertReason:
  "set (upsertReason k reason rows) = {r \<in> set rows. fst r \<noteq> k} \<union> {(k, reason)}"
  by (force simp: upsertReason_def set_updateWhere)

lemma keys_upsertReason: "fst ` set (upsertReason k reason rows) = insert k (fst ` set rows)"
  unfolding set_upsertReason by force

lemma keys_deleteKey: "fst ` set (deleteWhere (\<lambda>r. fst r = k) rows) = fst ` set rows - {k}"
  by force

lemma unblock_gone:
  assumes "i \<noteq> []"
  shows "activityPubActorIdentityMatchesSql (blockedActorIds (unblockActor i bl)) i = []"
  unfolding matches_empty_iff
proof
  fix r assume "r \<in> set (blockedActorIds (unblockActor i bl))"
  then obtain p where p: "p \<in> set (bl_actors bl)" "r = fst p"
    "fst p \<notin> set (activityPubActorIdentityMatchesSql (blockedActorIds bl) i)"
    using assms unfolding unblockActor_def by (simp only: if_False blocklist.select_convs blocklist.update_convs
        set_map set_deleteWhere) auto
  then have "r \<in> set (blockedActorIds bl)" by simp
  then show "\<not> sameIdentity r i" using p(2,3) unfolding set_matches by blast
qed

lemma keysUnique_upsertReason: "keysUnique fst rows \<Longrightarrow> keysUnique fst (upsertReason k reason rows)"
  by (auto simp: upsertReason_def keysUnique_updateWhere) (simp add: keysUnique_def)

subsection \<open>Properties\<close>

text \<open>A host is covered by a block of itself, or of a parent domain with at least two labels.\<close>

definition covers :: "string \<Rightarrow> string \<Rightarrow> bool" where
  "covers d h = (h = d \<or> (CHR ''.'' \<in> set d \<and> endsWith h (CHR ''.'' # d)))"

lemma domainBlocked_covers:
  assumes "normalizeDomain parseUrl u = Some h"
  shows "isDomainBlockedStrict True parseUrl bl u = Inr (\<exists>d \<in> fst ` set (bl_domains bl). covers d h)"
  using domainBlocked_iff [OF assms] by (simp add: covers_def)

text \<open>
  A domain block covers the domain and all its subdomains and nothing else. Blocking adds
  exactly the hosts the new block covers to those that were blocked, whatever the input spelling
  (a bare host, a URL, letter case, a root dot), and unblocking leaves exactly what the other
  entries cover.
\<close>

theorem domain_block_covers_subdomains:
  assumes "normalizeDomain parseUrl input = Some d" and "normalizeDomain parseUrl u = Some h"
  shows "\<exists>bl'. blockDomain parseUrl input reason bl = Inr bl' \<and>
    (isDomainBlockedStrict True parseUrl bl' u = Inr True \<longleftrightarrow>
       covers d h \<or> isDomainBlockedStrict True parseUrl bl u = Inr True) \<and>
    isDomainBlockedStrict True parseUrl (unblockDomain parseUrl input bl') u
      = Inr (\<exists>d' \<in> fst ` set (bl_domains bl). d' \<noteq> d \<and> covers d' h)"
proof -
  let ?bl = "bl\<lparr>bl_domains := upsertReason d reason (bl_domains bl)\<rparr>"
  have added: "fst ` set (bl_domains ?bl) = insert d (fst ` set (bl_domains bl))"
    by (simp add: keys_upsertReason)
  have "bl_domains (unblockDomain parseUrl input ?bl)
      = deleteWhere (\<lambda>r. fst r = d) (upsertReason d reason (bl_domains bl))"
    by (simp add: unblockDomain_def assms(1))
  then have removed: "fst ` set (bl_domains (unblockDomain parseUrl input ?bl)) = fst ` set (bl_domains bl) - {d}"
    using keys_deleteKey [of d "upsertReason d reason (bl_domains bl)"] keys_upsertReason [of d reason "bl_domains bl"]
    by (simp only: insert_Diff_single) blast
  show ?thesis
  proof (intro exI [of _ ?bl] conjI)
    show "blockDomain parseUrl input reason bl = Inr ?bl" by (simp add: blockDomain_def assms(1))
    show "isDomainBlockedStrict True parseUrl ?bl u = Inr True \<longleftrightarrow>
        covers d h \<or> isDomainBlockedStrict True parseUrl bl u = Inr True"
      unfolding domainBlocked_covers [OF assms(2)] added by simp
    show "isDomainBlockedStrict True parseUrl (unblockDomain parseUrl input ?bl) u
        = Inr (\<exists>d' \<in> fst ` set (bl_domains bl). d' \<noteq> d \<and> covers d' h)"
      unfolding domainBlocked_covers [OF assms(2)] removed by blast
  qed
qed

theorem domain_block_covers_subdomains_witness:
  "\<exists>bl'. blockDomain (\<lambda>_. None) ''Attacker.NET.'' None \<lparr>bl_actors = [], bl_domains = []\<rparr> = Inr bl' \<and>
    isDomainBlockedStrict True (\<lambda>_. None) bl' ''node1.attacker.net'' = Inr True"
proof -
  have "normalizeDomain (\<lambda>_. None) ''Attacker.NET.'' = Some ''attacker.net''"
    "normalizeDomain (\<lambda>_. None) ''node1.attacker.net'' = Some ''node1.attacker.net''"
    "covers ''attacker.net'' ''node1.attacker.net''"
    by code_simp+
  from domain_block_covers_subdomains [OF this(1,2)] this(3) show ?thesis by blast
qed

text \<open>
  The strict lookups fail closed. When the database does not answer, the strict actor lookup
  throws for every actor and the strict batch throws as soon as one id is not empty, while the
  best-effort variants answer "not blocked"; and a strict domain lookup answers without the
  database only for an input that has no domain.
\<close>

theorem strict_blocklist_fails_closed:
  "(isActorBlockedStrict False parseUrl bl i = Inl ''blocklist unreadable'' \<longleftrightarrow> i \<noteq> []) \<and>
   (filterBlockedActorApIdsStrict False parseUrl bl ids = Inl ''blocklist unreadable'' \<longleftrightarrow> list_ex (\<lambda>j. j \<noteq> []) ids) \<and>
   (isDomainBlockedStrict False parseUrl bl u = Inr False \<longleftrightarrow> normalizeDomain parseUrl u = None) \<and>
   \<not> isActorBlocked False parseUrl bl i \<and> filterBlockedActorApIds False parseUrl bl ids False = Inr []"
proof -
  have "filter (\<lambda>j. j \<noteq> []) ids = [] \<longleftrightarrow> \<not> list_ex (\<lambda>j. j \<noteq> []) ids"
    by (auto simp: filter_empty_conv list_ex_iff)
  then show ?thesis
    by (auto simp: isActorBlockedStrict_def isDomainBlockedStrict_def filterBlockedActorApIdsStrict_def
        filterBlockedActorApIds_def isActorBlocked_def Let_def split: option.splits)
qed

text \<open>
  C23: The feed predicate and the strict lookup agree on every host except below a blocked name
  of one label. For an actor whose host both normalizations read as the same text, the SQL
  predicate admits it exactly when the strict lookup answers "not blocked" and no blocked name
  without a dot is a parent of the host: a block of a top-level domain hides its actors from
  feeds, while delivery and ingress still treat them as not blocked.
\<close>

theorem feed_predicate_against_strict:
  assumes "normalizeDomain parseUrl i = Some h" and "operatorActorHostname i = Some h"
  shows "operatorActorDomainNotBlockedSql bl i \<longleftrightarrow>
    isDomainBlockedStrict True parseUrl bl i = Inr False \<and>
    list_all (\<lambda>d. CHR ''.'' \<notin> set d \<longrightarrow> \<not> endsWith h (CHR ''.'' # d)) (blockedDomainNames bl)"
  unfolding operatorActorDomainNotBlockedSql_def assms(2) option.case sqlSuffix_endsWith
    domainBlocked_covers [OF assms(1)]
  by (auto simp: covers_def list_ex_iff list_all_iff)

definition exampleParser :: url_parser where
  "exampleParser s =
     (if s = ''https://a.com/users/bob'' \<or> s = ''https://A.com/users/bob/'' then
        Some \<lparr>u_protocol = ''https:'', u_username = [], u_password = [], u_hostname = ''a.com'', u_host = ''a.com'',
              u_port = [], u_pathname = (if s = ''https://a.com/users/bob'' then ''/users/bob'' else ''/users/bob/''),
              u_search = [], u_hash = []\<rparr>
      else None)"

definition exampleBlocklist :: blocklist where
  "exampleBlocklist = \<lparr>bl_actors = [(''https://A.com/users/bob/'', None)], bl_domains = [(''com'', None)]\<rparr>"

theorem feed_predicate_against_strict_witness:
  "\<not> operatorActorDomainNotBlockedSql exampleBlocklist ''https://a.com/users/bob'' \<and>
   isDomainBlockedStrict True exampleParser exampleBlocklist ''https://a.com/users/bob'' = Inr False"
proof -
  have "normalizeDomain exampleParser ''https://a.com/users/bob'' = Some ''a.com''"
    "operatorActorHostname ''https://a.com/users/bob'' = Some ''a.com''"
    "\<not> list_all (\<lambda>d. CHR ''.'' \<notin> set d \<longrightarrow> \<not> endsWith ''a.com'' (CHR ''.'' # d)) (blockedDomainNames exampleBlocklist)"
    "isDomainBlockedStrict True exampleParser exampleBlocklist ''https://a.com/users/bob'' = Inr False"
    by code_simp+
  then show ?thesis using feed_predicate_against_strict [of exampleParser "''https://a.com/users/bob''" "''a.com''" exampleBlocklist]
    by blast
qed

text \<open>
  Blocking an actor keeps one row per actor and is undone by unblocking. Over a table with
  unique keys, blocking leaves exactly one row among all spellings of the actor, with the new
  reason, keeps every row of other actors, and makes the strict lookup answer "blocked";
  unblocking, whatever the spelling under which the actor was blocked, leaves no row of it.
\<close>

theorem actor_block_roundtrip:
  assumes "keysUnique fst (bl_actors bl)" and "i \<noteq> []"
  shows "\<exists>bl' k. blockActor i reason bl = Inr bl' \<and> keysUnique fst (bl_actors bl') \<and>
    {r \<in> set (bl_actors bl'). sameIdentity (fst r) i} = {(k, reason)} \<and>
    {r \<in> set (bl_actors bl'). \<not> sameIdentity (fst r) i} = {r \<in> set (bl_actors bl). \<not> sameIdentity (fst r) i} \<and>
    isActorBlockedStrict True parseUrl bl' i = Inr True \<and>
    activityPubActorIdentityMatchesSql (blockedActorIds (unblockActor i bl')) i = []"
proof -
  define k where "k = retainedBlockedActorKey (bl_actors bl) i"
  define ins where "ins = upsertReason k reason (bl_actors bl)"
  have k: "sameIdentity k i" using retainedKey_cases [of "bl_actors bl" i] by (auto simp: k_def)
  have old: "k \<in> fst ` set (bl_actors bl)" if "r \<in> set (bl_actors bl)" "sameIdentity (fst r) i" for r
    using retainedKey_cases [of "bl_actors bl" i] that by (auto simp: k_def)
  have set_ins: "set ins = {r \<in> set (bl_actors bl). fst r \<noteq> k} \<union> {(k, reason)}"
    by (simp add: ins_def set_upsertReason)
  have keep: "retainedBlockedActorKey ins i = k"
  proof (cases "\<exists>r \<in> set (bl_actors bl). sameIdentity (fst r) i")
    case True
    then have "fst ` set ins = fst ` set (bl_actors bl)" using old by (auto simp: ins_def keys_upsertReason)
    then show ?thesis using retainedKey_same [of ins i "bl_actors bl"] by (simp add: k_def)
  next
    case False
    then have only: "fst r = k" if "r \<in> set ins" "sameIdentity (fst r) i" for r using that by (auto simp: set_ins)
    have mem: "(k, reason) \<in> set ins" using set_ins by blast
    show ?thesis using retainedKey_cases [of ins i]
    proof
      assume key: "retainedBlockedActorKey ins i \<in> fst ` set ins \<and> sameIdentity (retainedBlockedActorKey ins i) i"
      then obtain r where r: "r \<in> set ins" "retainedBlockedActorKey ins i = fst r" by blast
      then show ?thesis using only [OF r(1)] key by simp
    next
      assume "retainedBlockedActorKey ins i = i \<and> (\<forall>r \<in> set ins. \<not> sameIdentity (fst r) i)"
      then have "\<not> sameIdentity (fst (k, reason)) i" using mem by blast
      then show ?thesis using k by simp
    qed
  qed
  let ?gone = "\<lambda>r. fst r \<in> set (activityPubActorIdentityMatchesSql (map fst ins) i) \<and> fst r \<noteq> k"
  let ?bl = "bl\<lparr>bl_actors := deleteWhere ?gone ins\<rparr>"
  have block: "blockActor i reason bl = Inr ?bl"
    using assms(2) keep by (simp add: blockActor_def Let_def ins_def k_def)
  have rows: "set (bl_actors ?bl) = {r \<in> set ins. sameIdentity (fst r) i \<longrightarrow> fst r = k}"
    by (auto simp: set_matches)
  have unique: "keysUnique fst (bl_actors ?bl)"
    using keysUnique_deleteWhere [OF keysUnique_upsertReason [OF assms(1)]] by (simp add: ins_def)
  have mine: "{r \<in> set (bl_actors ?bl). sameIdentity (fst r) i} = {(k, reason)}"
    unfolding rows set_ins using k by auto
  have others: "{r \<in> set (bl_actors ?bl). \<not> sameIdentity (fst r) i} = {r \<in> set (bl_actors bl). \<not> sameIdentity (fst r) i}"
    unfolding rows set_ins using k by auto
  have "(k, reason) \<in> set (bl_actors ?bl)" using mine by blast
  then have "k \<in> set (blockedActorIds ?bl)" by force
  then have "activityPubActorIdentityMatchesSql (blockedActorIds ?bl) i \<noteq> []"
    unfolding matches_empty_iff using k by blast
  then have blocked: "isActorBlockedStrict True parseUrl ?bl i = Inr True"
    using assms(2) by (simp add: isActorBlockedStrict_def)
  have gone: "activityPubActorIdentityMatchesSql (blockedActorIds (unblockActor i ?bl)) i = []"
    by (rule unblock_gone [OF assms(2)])
  show ?thesis
    using block unique mine others blocked gone by (intro exI [of _ ?bl] exI [of _ k]) (rule conjI, assumption)+
qed

theorem actor_block_roundtrip_witness:
  "\<exists>bl'. blockActor ''https://a.com/users/bob'' (Some ''spam'') exampleBlocklist = Inr bl' \<and>
     activityPubActorIdentityMatchesSql (blockedActorIds (unblockActor ''https://a.com/users/bob'' bl')) ''https://a.com/users/bob'' = []"
proof -
  have "keysUnique fst (bl_actors exampleBlocklist)" by (simp add: exampleBlocklist_def keysUnique_def)
  from actor_block_roundtrip [OF this, of "''https://a.com/users/bob''" "Some ''spam''" exampleParser]
  show ?thesis by blast
qed

lemma filter_total: "\<exists>blocked. filterBlockedActorApIdsStrict True parseUrl bl ids = Inr blocked"
  unfolding filterBlockedActorApIdsStrict_def filterBlockedActorApIds_def Let_def
  by (simp only: if_True if_False not_True_eq_False split: if_split) blast

text \<open>
  An id the parser reads as the canonical text of the actor it spells, with a host that
  normalization leaves as it is: what the WHATWG parser gives for ids without dot segments.
\<close>

definition readAsSpelled :: "url_parser \<Rightarrow> string \<Rightarrow> bool" where
  "readAsSpelled parseUrl i =
     ((\<exists>a. canonicalActor a \<and> spells a i \<and> normalizeActivityPubActorId parseUrl i = Some (canonicalText a)) \<and>
      (\<exists>h. normalizeDomain parseUrl i = Some h \<and> normalizeDomain parseUrl h = Some h))"

text \<open>
  C22: The batched filter answers as the single lookup does. For ids the URL parser reads as the
  actor they spell, over retained rows that are spellings of canonical actors, the strict batch
  returns exactly the requested ids for which the strict single lookup answers "blocked", with
  any number of chunks.
\<close>

theorem batched_filter_is_pointwise:
  assumes "list_all (readAsSpelled parseUrl) ids"
    and "list_all (\<lambda>r. \<exists>a. canonicalActor a \<and> spells a r) (blockedActorIds bl)"
  shows "\<exists>blocked. filterBlockedActorApIdsStrict True parseUrl bl ids = Inr blocked \<and>
    set blocked = {i \<in> set ids. isActorBlockedStrict True parseUrl bl i = Inr True}"
proof -
  obtain blocked where b: "filterBlockedActorApIdsStrict True parseUrl bl ids = Inr blocked"
    using filter_total by blast
  have "i \<in> set blocked \<longleftrightarrow> isActorBlockedStrict True parseUrl bl i = Inr True" if i: "i \<in> set ids" for i
  proof -
    obtain a h where a: "canonicalActor a" "spells a i" "normalizeActivityPubActorId parseUrl i = Some (canonicalText a)"
      and h: "normalizeDomain parseUrl i = Some h" "normalizeDomain parseUrl h = Some h"
      using assms(1) i by (auto simp: list_all_iff readAsSpelled_def)
    have ne: "i \<noteq> []" using a(2) by (auto simp: spells_def split: prod.splits)
    have rows: "\<exists>c. canonicalActor c \<and> spells c r" if "r \<in> set (blockedActorIds bl)" for r
      using assms(2) that by (simp add: list_all_iff) blast
    have one: "canonicalText a \<in> set (identityValues r) \<longleftrightarrow> sameIdentity r i" if r: "r \<in> set (blockedActorIds bl)" for r
    proof -
      obtain c where c: "canonicalActor c" "spells c r" using rows [OF r] by blast
      show ?thesis
        using spellings_match [OF c a(1,2)] spellings_match [OF c a(1) canonical_spells [OF a(1)]]
          identityValues_spelling [OF c] identityValues_spelling [OF a(1,2)] identityValues_spelling [OF a(1) canonical_spells [OF a(1)]]
        by (auto simp: sameIdentity_def list_ex_iff)
    qed
    have actor: "canonicalText a \<in> set (activityPubActorIdentitySetSql (blockedActorIds bl)) \<longleftrightarrow>
        activityPubActorIdentityMatchesSql (blockedActorIds bl) i \<noteq> []"
    proof -
      have "activityPubActorIdentityMatchesSql (blockedActorIds bl) i \<noteq> [] \<longleftrightarrow> (\<exists>r \<in> set (blockedActorIds bl). sameIdentity r i)"
        unfolding matches_empty_iff by blast
      then show ?thesis unfolding set_identitySet using one by blast
    qed
    have raw: "i \<in> set (blockedActorIds bl) \<Longrightarrow> activityPubActorIdentityMatchesSql (blockedActorIds bl) i \<noteq> []"
      unfolding matches_empty_iff using sameIdentity_refl [of i] by blast
    show ?thesis
      unfolding filter_mem [OF b]
      using i ne actor raw a(3) h
      by (auto simp: isActorBlockedStrict_def isDomainBlockedStrict_def list_ex_iff)
  qed
  moreover have "set blocked \<subseteq> set ids" using filter_mem [OF b] by blast
  ultimately show ?thesis using b by blast
qed

theorem batched_filter_is_pointwise_witness:
  "\<exists>blocked. filterBlockedActorApIdsStrict True exampleParser exampleBlocklist [''https://a.com/users/bob''] = Inr blocked \<and>
     ''https://a.com/users/bob'' \<in> set blocked"
proof -
  let ?a = "(''https'', ''a.com'', ''/users/bob'')"
  have a: "canonicalActor ?a"
    by (simp add: canonicalActor_def sqlLower_def asciiLowerChar_def endsWith_def defaultPort_def pathStart_def)
  have s1: "spells ?a ''https://a.com/users/bob''"
    by (rule spellsI [of _ "''https''" "''a.com''" "[]" _ "[]" "[]"]) (simp_all, code_simp+)
  have s2: "spells ?a ''https://A.com/users/bob/''"
    by (rule spellsI [of _ "''https''" "''A.com''" "[]" _ "''/''" "[]"]) (simp_all, code_simp+)
  have n: "normalizeActivityPubActorId exampleParser ''https://a.com/users/bob'' = Some (canonicalText ?a)"
    "normalizeDomain exampleParser ''https://a.com/users/bob'' = Some ''a.com''"
    "normalizeDomain exampleParser ''a.com'' = Some ''a.com''"
    "isActorBlockedStrict True exampleParser exampleBlocklist ''https://a.com/users/bob'' = Inr True"
    by code_simp+
  have "readAsSpelled exampleParser ''https://a.com/users/bob''"
    unfolding readAsSpelled_def using a s1 n(1-3) by blast
  then have ids: "list_all (readAsSpelled exampleParser) [''https://a.com/users/bob'']" by simp
  have rows: "list_all (\<lambda>r. \<exists>a. canonicalActor a \<and> spells a r) (blockedActorIds exampleBlocklist)"
    unfolding exampleBlocklist_def using a s2 by (simp only: blocklist.select_convs list.map fst_conv list.pred_inject) blast
  from batched_filter_is_pointwise [OF ids rows] n(4) show ?thesis by auto
qed

text \<open>
  Outside that domain the two differ: a retained row that ends in two slashes blocks its
  one-slash neighbour in the single lookup, which the batched filter lets through.
\<close>

definition slashParser :: url_parser where
  "slashParser s =
     Some \<lparr>u_protocol = ''https:'', u_username = [], u_password = [], u_hostname = ''a.com'', u_host = ''a.com'',
           u_port = [], u_pathname = drop (length ''https://a.com'') s, u_search = [], u_hash = []\<rparr>"

lemma batched_filter_misses_double_slash:
  "isActorBlockedStrict True slashParser \<lparr>bl_actors = [(''https://a.com/u//'', None)], bl_domains = []\<rparr> ''https://a.com/u/'' = Inr True"
  "filterBlockedActorApIdsStrict True slashParser \<lparr>bl_actors = [(''https://a.com/u//'', None)], bl_domains = []\<rparr>
     [''https://a.com/u/''] = Inr []"
proof -
  show "isActorBlockedStrict True slashParser \<lparr>bl_actors = [(''https://a.com/u//'', None)], bl_domains = []\<rparr> ''https://a.com/u/'' = Inr True"
    by code_simp
  show "filterBlockedActorApIdsStrict True slashParser \<lparr>bl_actors = [(''https://a.com/u//'', None)], bl_domains = []\<rparr>
     [''https://a.com/u/''] = Inr []"
    by code_simp
qed

end
