(* ===== verification/Planner.thy ===== *)
theory Planner
  imports Blocklist "HOL-Library.Multiset"
begin

section \<open>Planning delivery endpoints\<close>

text \<open>
  Models \<open>src/backend/lib/delivery/planner.ts\<close>: the grouping of a page of recipients by
  the endpoint that reaches them, from the cache of remote actors, after the operator blocklist
  has been applied. A row's \<open>lastFetchedAt\<close> is what \<open>safeParseIsoTimeMs\<close> reads from it; the
  planner reads four columns, so the row may have more.
\<close>

definition DELIVERY_ENDPOINT_CACHE_TTL_MS :: ms where "DELIVERY_ENDPOINT_CACHE_TTL_MS = 24 * 60 * 60 * 1000"
definition PLANNER_IN_CHUNK :: nat where "PLANNER_IN_CHUNK = 90"

record cached_actor =
  ac_apId :: string
  ac_inbox :: string
  ac_sharedInbox :: "string option"
  ac_lastFetchedAt :: "ms option"

record planned_group =
  pg_endpoint :: string
  pg_recipientCount :: nat
  pg_recipients :: "string list"

record plan =
  pl_groups :: "planned_group list"
  pl_unknown :: "string list"
  pl_total :: nat
  pl_shared :: nat
  pl_blocked :: "string list"

definition isActorCacheFresh :: "'c cached_actor_scheme \<Rightarrow> ms \<Rightarrow> bool" where
  "isActorCacheFresh row now =
     (case ac_lastFetchedAt row of
        None \<Rightarrow> False
      | Some lastFetched \<Rightarrow> now - lastFetched < DELIVERY_ENDPOINT_CACHE_TTL_MS)"

text \<open>The endpoint of a row, and whether it is the shared inbox.\<close>

definition chooseEndpoint :: "url_parser \<Rightarrow> 'c cached_actor_scheme \<Rightarrow> (string \<times> bool) option" where
  "chooseEndpoint parseUrl row =
     (if (case ac_sharedInbox row of None \<Rightarrow> False | Some shared \<Rightarrow> shared \<noteq> [] \<and> isSafeRemoteUrl parseUrl shared)
      then Some (the (ac_sharedInbox row), True)
      else if ac_inbox row \<noteq> [] \<and> isSafeRemoteUrl parseUrl (ac_inbox row)
      then Some (ac_inbox row, False)
      else None)"

text \<open>The \<open>Map\<close> from endpoints to recipients, in insertion order.\<close>

fun addRecipient :: "string \<Rightarrow> string \<Rightarrow> (string \<times> string list) list \<Rightarrow> (string \<times> string list) list" where
  "addRecipient endpoint apId [] = [(endpoint, [apId])]"
| "addRecipient endpoint apId ((e, rs) # groups) =
     (if e = endpoint then (e, rs @ [apId]) # groups else (e, rs) # addRecipient endpoint apId groups)"

definition planStep ::
  "url_parser \<Rightarrow> (string \<Rightarrow> 'c cached_actor_scheme option) \<Rightarrow> ms \<Rightarrow> string \<Rightarrow>
   string list \<times> (string \<times> string list) list \<times> nat \<Rightarrow> string list \<times> (string \<times> string list) list \<times> nat" where
  "planStep parseUrl byApId now apId st =
     (case st of
        (unknown, groups, shared) \<Rightarrow>
          (case (case byApId apId of
                   None \<Rightarrow> None
                 | Some row \<Rightarrow> if isActorCacheFresh row now then chooseEndpoint parseUrl row else None) of
             None \<Rightarrow> (unknown @ [apId], groups, shared)
           | Some (endpoint, usedShared) \<Rightarrow>
               (unknown, addRecipient endpoint apId groups, if usedShared then shared + 1 else shared)))"

definition planEndpointsFromActorCache ::
  "bool \<Rightarrow> url_parser \<Rightarrow> blocklist \<Rightarrow> 'c cached_actor_scheme list \<Rightarrow> ms \<Rightarrow> string list \<Rightarrow> string + plan" where
  "planEndpointsFromActorCache readable parseUrl bl cache now recipients =
     (if recipients = [] then Inr \<lparr>pl_groups = [], pl_unknown = [], pl_total = 0, pl_shared = 0, pl_blocked = []\<rparr>
      else
        (case filterBlockedActorApIdsStrict readable parseUrl bl recipients of
           Inl e \<Rightarrow> Inl e
         | Inr blockedSet \<Rightarrow>
             (let blocked = filter (\<lambda>a. a \<in> set blockedSet) recipients;
                  allowed = filter (\<lambda>a. a \<notin> set blockedSet) recipients;
                  rows = concat (map (\<lambda>chunk. filter (\<lambda>r. ac_apId r \<in> set chunk) cache) (chunksOf PLANNER_IN_CHUNK allowed));
                  byApId = map_of (rev (map (\<lambda>r. (ac_apId r, r)) rows))
              in case fold (planStep parseUrl byApId now) allowed ([], [], 0) of
                   (unknown, groups, shared) \<Rightarrow>
                     Inr \<lparr>pl_groups = map (\<lambda>(e, rs). \<lparr>pg_endpoint = e, pg_recipientCount = length rs, pg_recipients = rs\<rparr>) groups,
                          pl_unknown = unknown, pl_total = length recipients, pl_shared = shared, pl_blocked = blocked\<rparr>)))"

subsection \<open>Where a recipient goes\<close>

text \<open>The endpoint the cache gives a recipient at a time.\<close>

definition plannedEndpoint :: "url_parser \<Rightarrow> 'c cached_actor_scheme list \<Rightarrow> ms \<Rightarrow> string \<Rightarrow> (string \<times> bool) option" where
  "plannedEndpoint parseUrl cache now apId =
     (case selectBy ac_apId apId cache of
        None \<Rightarrow> None
      | Some row \<Rightarrow> if isActorCacheFresh row now then chooseEndpoint parseUrl row else None)"

lemma chooseEndpoint_safe:
  "chooseEndpoint parseUrl row = Some (e, s) \<Longrightarrow> e \<noteq> [] \<and> isSafeRemoteUrl parseUrl e"
  by (auto simp: chooseEndpoint_def split: if_splits option.splits)

lemma chunk_rows:
  "set (concat (map (\<lambda>chunk. filter (\<lambda>r. ac_apId r \<in> set chunk) cache) (chunksOf PLANNER_IN_CHUNK ids)))
     = {r \<in> set cache. ac_apId r \<in> set ids}"
proof -
  have "set ids = (\<Union>chunk \<in> set (chunksOf PLANNER_IN_CHUNK ids). set chunk)"
    using concat_chunksOf [of PLANNER_IN_CHUNK ids] by (metis PLANNER_IN_CHUNK_def set_concat zero_less_numeral)
  then show ?thesis by auto
qed

lemma map_of_rows:
  assumes "keysUnique ac_apId cache" "set rows \<subseteq> set cache"
  shows "map_of (rev (map (\<lambda>r. (ac_apId r, r)) rows)) a = (if a \<in> ac_apId ` set rows then selectBy ac_apId a cache else None)"
  using assms(2)
proof (induction rows)
  case (Cons r rows)
  then have r: "selectBy ac_apId (ac_apId r) cache = Some r" using selectBy_mem [OF assms(1)] by simp
  show ?case
  proof (cases "a \<in> ac_apId ` set rows")
    case True
    then obtain x where x: "x \<in> set cache" "ac_apId x = a" using Cons.prems by auto
    then have "selectBy ac_apId a cache \<noteq> None" using selectBy_mem [OF assms(1) x(1)] by simp
    then show ?thesis using Cons True by (auto simp: map_add_def split: option.splits)
  next
    case False
    then show ?thesis using Cons r by (auto simp: map_add_def)
  qed
qed simp

lemma byApId_lookup:
  assumes "keysUnique ac_apId cache" "a \<in> set ids"
  shows "map_of (rev (map (\<lambda>r. (ac_apId r, r))
      (concat (map (\<lambda>chunk. filter (\<lambda>r. ac_apId r \<in> set chunk) cache) (chunksOf PLANNER_IN_CHUNK ids))))) a
    = selectBy ac_apId a cache"
proof -
  let ?rows = "concat (map (\<lambda>chunk. filter (\<lambda>r. ac_apId r \<in> set chunk) cache) (chunksOf PLANNER_IN_CHUNK ids))"
  have "a \<in> ac_apId ` set ?rows \<longleftrightarrow> selectBy ac_apId a cache \<noteq> None"
    unfolding chunk_rows selectBy_None_iff keySet_def using assms(2) by auto
  then show ?thesis
    using map_of_rows [OF assms(1), of ?rows a] chunk_rows [of cache ids] by (cases "selectBy ac_apId a cache") auto
qed

subsection \<open>The groups\<close>

definition recipientsAt :: "string \<Rightarrow> (string \<times> string list) list \<Rightarrow> string list" where
  "recipientsAt e groups = (case map_of groups e of None \<Rightarrow> [] | Some rs \<Rightarrow> rs)"

definition groups_wf :: "(string \<times> string list) list \<Rightarrow> bool" where
  "groups_wf groups = (distinct (map fst groups) \<and> list_all (\<lambda>(e, rs). rs \<noteq> []) groups)"

lemma recipientsAt_add:
  "recipientsAt e' (addRecipient e a groups) = recipientsAt e' groups @ (if e' = e then [a] else [])"
proof (induction e a groups rule: addRecipient.induct)
  case (2 endpoint apId e rs groups)
  then show ?case by (cases "e = endpoint"; cases "e' = e") (simp_all add: recipientsAt_def)
qed (simp add: recipientsAt_def)

lemma keys_addRecipient: "fst ` set (addRecipient e a groups) = insert e (fst ` set groups)"
proof (induction e a groups rule: addRecipient.induct)
  case (2 endpoint apId e rs groups)
  then show ?case by (cases "e = endpoint") (simp_all, blast)
qed simp

lemma groups_wf_add: "groups_wf groups \<Longrightarrow> groups_wf (addRecipient e a groups)"
proof (induction groups)
  case (Cons g groups)
  then show ?case using keys_addRecipient [of e a groups] by (cases g) (auto simp: groups_wf_def)
qed (simp add: groups_wf_def)

lemma mset_addRecipient:
  "(\<Sum>(e, rs) \<leftarrow> addRecipient e a groups. mset rs) = (\<Sum>(e, rs) \<leftarrow> groups. mset rs) + {#a#}"
  by (induction groups) auto

lemma group_recipients: "groups_wf groups \<Longrightarrow> (e, rs) \<in> set groups \<Longrightarrow> recipientsAt e groups = rs"
  by (simp add: groups_wf_def recipientsAt_def)

text \<open>The loop of the planner over the recipients the blocklist admits.\<close>

definition planGroups :: "(string \<Rightarrow> (string \<times> bool) option) \<Rightarrow> string list \<Rightarrow> (string \<times> string list) list \<Rightarrow> (string \<times> string list) list" where
  "planGroups f = fold (\<lambda>a g. case f a of None \<Rightarrow> g | Some (e, s) \<Rightarrow> addRecipient e a g)"

lemma plan_fold:
  assumes "\<And>a. a \<in> set xs \<Longrightarrow> byApId a = selectBy ac_apId a cache"
  shows "fold (planStep parseUrl byApId now) xs (u, g, s) =
    (u @ filter (\<lambda>a. plannedEndpoint parseUrl cache now a = None) xs,
     planGroups (plannedEndpoint parseUrl cache now) xs g,
     s + length (filter (\<lambda>a. map_option snd (plannedEndpoint parseUrl cache now a) = Some True) xs))"
  using assms
proof (induction xs arbitrary: u g s)
  case (Cons a xs)
  then have "byApId a = selectBy ac_apId a cache" by simp
  then have step: "planStep parseUrl byApId now a (u, g, s) =
      (case plannedEndpoint parseUrl cache now a of
         None \<Rightarrow> (u @ [a], g, s)
       | Some (e, b) \<Rightarrow> (u, addRecipient e a g, if b then s + 1 else s))"
    by (simp add: planStep_def plannedEndpoint_def)
  show ?case
    using Cons.IH Cons.prems by (cases "plannedEndpoint parseUrl cache now a") (auto simp: step planGroups_def)
qed (simp add: planGroups_def)

lemma planGroups_wf: "groups_wf g \<Longrightarrow> groups_wf (planGroups f xs g)"
  by (induction xs arbitrary: g) (auto simp: planGroups_def groups_wf_add split: option.splits)

lemma planGroups_at:
  "recipientsAt e (planGroups f xs g) = recipientsAt e g @ filter (\<lambda>a. map_option fst (f a) = Some e) xs"
  by (induction xs arbitrary: g) (auto simp: planGroups_def recipientsAt_add split: option.splits)

lemma planGroups_mset:
  "(\<Sum>(e, rs) \<leftarrow> planGroups f xs g. mset rs) = (\<Sum>(e, rs) \<leftarrow> g. mset rs) + mset (filter (\<lambda>a. f a \<noteq> None) xs)"
  by (induction xs arbitrary: g) (auto simp: planGroups_def mset_addRecipient split: option.splits)

lemma planGroups_keys:
  "fst ` set (planGroups f xs g) = fst ` set g \<union> {e. \<exists>a \<in> set xs. map_option fst (f a) = Some e}"
  by (induction xs arbitrary: g) (auto simp: planGroups_def keys_addRecipient split: option.splits)

subsection \<open>Properties\<close>

lemma mset_filter_split: "mset (filter P xs) + mset (filter (\<lambda>x. \<not> P x) xs) = mset xs"
  by (induction xs) auto

lemma plan_total:
  assumes "filterBlockedActorApIdsStrict readable parseUrl bl recipients = Inr b"
  shows "\<exists>p. planEndpointsFromActorCache readable parseUrl bl cache now recipients = Inr p"
  unfolding planEndpointsFromActorCache_def assms sum.case Let_def by (simp split: prod.splits)

lemma plan_cases:
  assumes u: "keysUnique ac_apId cache"
    and p: "planEndpointsFromActorCache readable parseUrl bl cache now recipients = Inr p" and "recipients \<noteq> []"
  shows "\<exists>b. filterBlockedActorApIdsStrict readable parseUrl bl recipients = Inr b \<and>
    p = \<lparr>pl_groups = map (\<lambda>(e, rs). \<lparr>pg_endpoint = e, pg_recipientCount = length rs, pg_recipients = rs\<rparr>)
           (planGroups (plannedEndpoint parseUrl cache now) (filter (\<lambda>a. a \<notin> set b) recipients) []),
         pl_unknown = filter (\<lambda>a. plannedEndpoint parseUrl cache now a = None) (filter (\<lambda>a. a \<notin> set b) recipients),
         pl_total = length recipients,
         pl_shared = length (filter (\<lambda>a. map_option snd (plannedEndpoint parseUrl cache now a) = Some True)
           (filter (\<lambda>a. a \<notin> set b) recipients)),
         pl_blocked = filter (\<lambda>a. a \<in> set b) recipients\<rparr>"
proof -
  obtain b where b: "filterBlockedActorApIdsStrict readable parseUrl bl recipients = Inr b"
    using p assms(3) by (auto simp: planEndpointsFromActorCache_def split: sum.splits)
  let ?allowed = "filter (\<lambda>a. a \<notin> set b) recipients"
  let ?byApId = "map_of (rev (map (\<lambda>r. (ac_apId r, r))
      (concat (map (\<lambda>chunk. filter (\<lambda>r. ac_apId r \<in> set chunk) cache) (chunksOf PLANNER_IN_CHUNK ?allowed)))))"
  have "?byApId a = selectBy ac_apId a cache" if "a \<in> set ?allowed" for a
    by (rule byApId_lookup [OF u that])
  note loop = plan_fold [of ?allowed ?byApId cache parseUrl now "[]" "[]" 0, OF this]
  show ?thesis using p assms(3) b loop by (simp add: planEndpointsFromActorCache_def Let_def)
qed

text \<open>
  Planning loses no recipient and reaches none it must not. A plan partitions the recipients,
  counted with repetitions, into the blocked ones (those the strict filter returned), the
  unknown ones (no cache row, a stale row, or no safe endpoint) and the groups; there is one
  group per endpoint, every endpoint is a safe remote URL, and a group holds exactly the
  admitted recipients whose fresh cache row names that endpoint, in their order.
\<close>

theorem plan_partitions_recipients:
  assumes "keysUnique ac_apId cache"
    and "planEndpointsFromActorCache readable parseUrl bl cache now recipients = Inr p"
  shows "mset recipients = mset (pl_blocked p) + mset (pl_unknown p) + (\<Sum>g \<leftarrow> pl_groups p. mset (pg_recipients g)) \<and>
    distinct (map pg_endpoint (pl_groups p)) \<and> pl_total p = length recipients \<and>
    (\<exists>b. filterBlockedActorApIdsStrict readable parseUrl bl recipients = Inr b \<and>
       pl_blocked p = filter (\<lambda>a. a \<in> set b) recipients \<and>
       (\<forall>g \<in> set (pl_groups p). isSafeRemoteUrl parseUrl (pg_endpoint g) \<and>
          pg_recipientCount g = length (pg_recipients g) \<and> pg_recipients g \<noteq> [] \<and>
          pg_recipients g = filter (\<lambda>a. a \<notin> set b \<and>
            map_option fst (plannedEndpoint parseUrl cache now a) = Some (pg_endpoint g)) recipients))"
proof (cases "recipients = []")
  case True
  then show ?thesis using assms(2)
    by (auto simp: planEndpointsFromActorCache_def filterBlockedActorApIdsStrict_def filterBlockedActorApIds_def)
next
  case False
  let ?f = "plannedEndpoint parseUrl cache now"
  obtain b where b: "filterBlockedActorApIdsStrict readable parseUrl bl recipients = Inr b"
    and p: "p = \<lparr>pl_groups = map (\<lambda>(e, rs). \<lparr>pg_endpoint = e, pg_recipientCount = length rs, pg_recipients = rs\<rparr>)
           (planGroups ?f (filter (\<lambda>a. a \<notin> set b) recipients) []),
         pl_unknown = filter (\<lambda>a. ?f a = None) (filter (\<lambda>a. a \<notin> set b) recipients),
         pl_total = length recipients,
         pl_shared = length (filter (\<lambda>a. map_option snd (?f a) = Some True) (filter (\<lambda>a. a \<notin> set b) recipients)),
         pl_blocked = filter (\<lambda>a. a \<in> set b) recipients\<rparr>"
    using plan_cases [OF assms False] by blast
  let ?allowed = "filter (\<lambda>a. a \<notin> set b) recipients"
  let ?groups = "planGroups ?f ?allowed []"
  have wf: "groups_wf ?groups" by (rule planGroups_wf) (simp add: groups_wf_def)
  have sum: "(\<Sum>g \<leftarrow> pl_groups p. mset (pg_recipients g)) = mset (filter (\<lambda>a. ?f a \<noteq> None) ?allowed)"
    using planGroups_mset [of ?f ?allowed "[]"] by (simp add: p comp_def case_prod_beta')
  have "mset (filter (\<lambda>a. a \<in> set b) recipients) + mset ?allowed = mset recipients"
    by (rule mset_filter_split)
  moreover have "mset (filter (\<lambda>a. ?f a = None) ?allowed) + mset (filter (\<lambda>a. ?f a \<noteq> None) ?allowed) = mset ?allowed"
    using mset_filter_split [of "\<lambda>a. ?f a = None" ?allowed] by simp
  ultimately have split: "mset recipients = mset (pl_blocked p) + mset (pl_unknown p) + (\<Sum>g \<leftarrow> pl_groups p. mset (pg_recipients g))"
    unfolding sum by (simp add: p add.assoc)
  have keys: "distinct (map pg_endpoint (pl_groups p))"
    using wf by (simp add: p groups_wf_def comp_def case_prod_beta')
  have group: "isSafeRemoteUrl parseUrl (pg_endpoint g) \<and> pg_recipientCount g = length (pg_recipients g) \<and> pg_recipients g \<noteq> [] \<and>
      pg_recipients g = filter (\<lambda>a. a \<notin> set b \<and> map_option fst (?f a) = Some (pg_endpoint g)) recipients"
    if g_in: "g \<in> set (pl_groups p)" for g
  proof -
    obtain e rs where g: "g = \<lparr>pg_endpoint = e, pg_recipientCount = length rs, pg_recipients = rs\<rparr>" "(e, rs) \<in> set ?groups"
      using g_in by (auto simp: p)
    have rs: "rs = filter (\<lambda>a. map_option fst (?f a) = Some e) ?allowed"
      using group_recipients [OF wf g(2)] planGroups_at [of e ?f ?allowed "[]"] by (simp add: recipientsAt_def)
    have ne: "rs \<noteq> []" using wf g(2) by (auto simp: groups_wf_def list_all_iff)
    then obtain a where "a \<in> set rs" by (meson last_in_set)
    then have "map_option fst (?f a) = Some e" unfolding rs by simp
    then have "isSafeRemoteUrl parseUrl e"
      by (auto simp: plannedEndpoint_def dest: chooseEndpoint_safe split: option.splits if_splits)
    then show ?thesis using ne rs by (simp add: g(1) conj_commute)
  qed
  have "pl_total p = length recipients" "pl_blocked p = filter (\<lambda>a. a \<in> set b) recipients" by (simp_all add: p)
  then show ?thesis using split keys b group by blast
qed

definition exampleCache :: "cached_actor list" where
  "exampleCache =
     [\<lparr>ac_apId = ''https://a.com/users/bob'', ac_inbox = ''https://a.com/users/bob'', ac_sharedInbox = None,
       ac_lastFetchedAt = Some 0\<rparr>]"

theorem plan_partitions_recipients_witness:
  "\<exists>p. planEndpointsFromActorCache True exampleParser \<lparr>bl_actors = [], bl_domains = []\<rparr> exampleCache 5
      [''https://a.com/users/bob'', ''x''] = Inr p \<and>
    mset [''https://a.com/users/bob'', ''x'']
      = mset (pl_blocked p) + mset (pl_unknown p) + (\<Sum>g \<leftarrow> pl_groups p. mset (pg_recipients g))"
proof -
  have u: "keysUnique ac_apId exampleCache" by (simp add: exampleCache_def keysUnique_def)
  obtain b where "filterBlockedActorApIdsStrict True exampleParser \<lparr>bl_actors = [], bl_domains = []\<rparr>
      [''https://a.com/users/bob'', ''x''] = Inr b"
    using filter_total by blast
  then obtain p where p: "planEndpointsFromActorCache True exampleParser \<lparr>bl_actors = [], bl_domains = []\<rparr> exampleCache 5
      [''https://a.com/users/bob'', ''x''] = Inr p"
    using plan_total by blast
  from plan_partitions_recipients [OF u p] p show ?thesis by blast
qed

end
