(* ===== verification/ApValidators.thy ===== *)
theory ApValidators
  imports Messages
begin

section \<open>Narrowing ActivityPub documents\<close>

text \<open>
  Models \<open>src/backend/lib/activitypub-validators.ts\<close>: the reading of untyped JSON from other
  servers as actors, activities and WebFinger answers. A record of a document has an \<open>option\<close>
  for every optional field; a contract error is the path of the offending value.
\<close>

subsection \<open>JSON helpers\<close>

definition asString :: "jsval \<Rightarrow> string option" where
  "asString v = (case v of JStr s \<Rightarrow> Some s | _ \<Rightarrow> None)"

definition getString :: "jsval \<Rightarrow> string \<Rightarrow> string option" where
  "getString r key = asString (field r key)"

definition getRecord :: "jsval \<Rightarrow> string \<Rightarrow> jsval option" where
  "getRecord r key = (if isPlainObject (field r key) then Some (field r key) else None)"

definition strings :: "jsval list \<Rightarrow> string list" where
  "strings xs = List.map_filter asString xs"

definition getStringArray :: "jsval \<Rightarrow> string \<Rightarrow> string list option" where
  "getStringArray r key =
     (case field r key of
        JStr s \<Rightarrow> Some [s]
      | JArr xs \<Rightarrow> Some (strings xs)
      | _ \<Rightarrow> None)"

text \<open>\<open>string | string[]\<close>\<close>

datatype one_or_many = One string | Many "string list"

definition getStringOrStringArray :: "jsval \<Rightarrow> string \<Rightarrow> one_or_many option" where
  "getStringOrStringArray r key =
     (case field r key of
        JStr s \<Rightarrow> Some (One s)
      | JArr xs \<Rightarrow> if strings xs = [] then None else Some (Many (strings xs))
      | _ \<Rightarrow> None)"

definition requireRecord :: "jsval \<Rightarrow> string \<Rightarrow> string + jsval" where
  "requireRecord v path = (if isPlainObject v then Inr v else Inl path)"

subsection \<open>Remote actors\<close>

record remote_actor =
  ra_id :: string
  ra_type :: "string option"
  ra_preferredUsername :: "string option"
  ra_name :: "string option"
  ra_summary :: "string option"
  ra_icon :: "string option option"
  ra_inbox :: "string option"
  ra_outbox :: "string option"
  ra_followers :: "string option"
  ra_following :: "string option"
  ra_endpoints :: "string option option"
  ra_publicKey :: "(string option \<times> string option) option"

definition parseIcon :: "jsval \<Rightarrow> string option option" where
  "parseIcon r = map_option (\<lambda>icon. truthy (getString icon ''url'')) (getRecord r ''icon'')"

definition parsePublicKey :: "jsval \<Rightarrow> (string option \<times> string option) option" where
  "parsePublicKey r =
     map_option (\<lambda>publicKey. (getString publicKey ''id'', getString publicKey ''publicKeyPem'')) (getRecord r ''publicKey'')"

definition parseEndpoints :: "jsval \<Rightarrow> string option option" where
  "parseEndpoints r = map_option (\<lambda>endpoints. truthy (getString endpoints ''sharedInbox'')) (getRecord r ''endpoints'')"

definition parseRemoteActor :: "jsval \<Rightarrow> string \<Rightarrow> string + remote_actor" where
  "parseRemoteActor v path =
     (case requireRecord v path of
        Inl e \<Rightarrow> Inl e
      | Inr r \<Rightarrow>
          (case truthy (getString r ''id'') of
             None \<Rightarrow> Inl (path @ ''.id'')
           | Some i \<Rightarrow>
               Inr \<lparr>ra_id = i, ra_type = getString r ''type'', ra_preferredUsername = getString r ''preferredUsername'',
                    ra_name = getString r ''name'', ra_summary = getString r ''summary'', ra_icon = parseIcon r,
                    ra_inbox = getString r ''inbox'', ra_outbox = getString r ''outbox'',
                    ra_followers = getString r ''followers'', ra_following = getString r ''following'',
                    ra_endpoints = parseEndpoints r, ra_publicKey = parsePublicKey r\<rparr>))"

definition tryParseRemoteActor :: "jsval \<Rightarrow> remote_actor option" where
  "tryParseRemoteActor v = (case parseRemoteActor v ''$'' of Inl e \<Rightarrow> None | Inr d \<Rightarrow> Some d)"

subsection \<open>Activities\<close>

text \<open>\<open>summary\<close> tells an explicit \<open>null\<close> from an absent field; some fields stay raw.\<close>

record activity_object =
  ao_id :: "string option"
  ao_type :: "one_or_many option"
  ao_object :: "string option"
  ao_inReplyTo :: jsval
  ao_to :: "string list option"
  ao_cc :: "string list option"
  ao_bto :: "string list option"
  ao_bcc :: "string list option"
  ao_audience :: "string list option"
  ao_conversation :: "string option"
  ao_content :: "string option"
  ao_summary :: "string option option"
  ao_attachment :: jsval
  ao_tag :: jsval
  ao_overlays :: jsval
  ao_endTime :: "string option"
  ao_displayDuration :: "string option"
  ao_published :: "string option"
  ao_room :: "string option"

datatype object_ref = Iri string | Embedded activity_object

record activity_doc =
  ad_id :: "string option"
  ad_type :: "string option"
  ad_actor :: "string option"
  ad_object :: "object_ref option"
  ad_objectIds :: "string list option"
  ad_target :: "object_ref option"
  ad_content :: "string option"
  ad_room :: "string option"
  ad_to :: "string list option"
  ad_cc :: "string list option"
  ad_bto :: "string list option"
  ad_bcc :: "string list option"
  ad_audience :: "string list option"

definition parseActivityObjectFields :: "jsval \<Rightarrow> activity_object" where
  "parseActivityObjectFields r =
     \<lparr>ao_id = getString r ''id'', ao_type = getStringOrStringArray r ''type'', ao_object = getString r ''object'',
      ao_inReplyTo = field r ''inReplyTo'', ao_to = getStringArray r ''to'', ao_cc = getStringArray r ''cc'',
      ao_bto = getStringArray r ''bto'', ao_bcc = getStringArray r ''bcc'', ao_audience = getStringArray r ''audience'',
      ao_conversation = getString r ''conversation'', ao_content = getString r ''content'',
      ao_summary = (case field r ''summary'' of JStr s \<Rightarrow> Some (Some s) | JNull \<Rightarrow> Some None | _ \<Rightarrow> None),
      ao_attachment = field r ''attachment'', ao_tag = field r ''tag'', ao_overlays = field r ''overlays'',
      ao_endTime = getString r ''endTime'', ao_displayDuration = getString r ''displayDuration'',
      ao_published = getString r ''published'', ao_room = getString r ''room''\<rparr>"

definition parseActivityObjectOrIri :: "jsval \<Rightarrow> object_ref option" where
  "parseActivityObjectOrIri v =
     (case v of
        JStr s \<Rightarrow> Some (Iri s)
      | _ \<Rightarrow> if isPlainObject v then Some (Embedded (parseActivityObjectFields v)) else None)"

definition MAX_ACTIVITY_OBJECT_IDS :: nat where "MAX_ACTIVITY_OBJECT_IDS = 64"

definition objectIdOf :: "jsval \<Rightarrow> string option" where
  "objectIdOf v =
     (case v of
        JStr s \<Rightarrow> Some s
      | _ \<Rightarrow> if isPlainObject v then getString v ''id'' else None)"

text \<open>The loop: skip what is unusable or seen, stop when the limit is reached.\<close>

fun collectObjectIds :: "jsval list \<Rightarrow> string list \<Rightarrow> string list" where
  "collectObjectIds [] ids = ids"
| "collectObjectIds (v # vs) ids =
     (case truthy (objectIdOf v) of
        None \<Rightarrow> collectObjectIds vs ids
      | Some i \<Rightarrow>
          (if i \<in> set ids then collectObjectIds vs ids
           else if MAX_ACTIVITY_OBJECT_IDS \<le> length (ids @ [i]) then ids @ [i]
           else collectObjectIds vs (ids @ [i])))"

definition parseActivityObjectIds :: "jsval \<Rightarrow> string list option" where
  "parseActivityObjectIds v =
     (let ids = collectObjectIds (case v of JArr xs \<Rightarrow> xs | _ \<Rightarrow> [v]) []
      in if ids = [] then None else Some ids)"

definition parseActivity :: "jsval \<Rightarrow> string \<Rightarrow> string + activity_doc" where
  "parseActivity v path =
     (case requireRecord v path of
        Inl e \<Rightarrow> Inl e
      | Inr r \<Rightarrow>
          Inr \<lparr>ad_id = getString r ''id'', ad_type = getString r ''type'', ad_actor = getString r ''actor'',
               ad_object = parseActivityObjectOrIri (field r ''object''),
               ad_objectIds = parseActivityObjectIds (field r ''object''),
               ad_target = parseActivityObjectOrIri (field r ''target''),
               ad_content = getString r ''content'', ad_room = getString r ''room'',
               ad_to = getStringArray r ''to'', ad_cc = getStringArray r ''cc'', ad_bto = getStringArray r ''bto'',
               ad_bcc = getStringArray r ''bcc'', ad_audience = getStringArray r ''audience''\<rparr>)"

subsection \<open>WebFinger\<close>

record webfinger_link =
  wl_rel :: "string option"
  wl_type :: "string option"
  wl_href :: "string option"

definition parseWebFinger :: "jsval \<Rightarrow> string \<Rightarrow> string + webfinger_link list option" where
  "parseWebFinger v path =
     (case requireRecord v path of
        Inl e \<Rightarrow> Inl e
      | Inr r \<Rightarrow>
          (case field r ''links'' of
             JArr links \<Rightarrow>
               Inr (Some (map (\<lambda>l. \<lparr>wl_rel = getString l ''rel'', wl_type = getString l ''type'', wl_href = getString l ''href''\<rparr>)
                 (filter isPlainObject links)))
           | _ \<Rightarrow> Inr None))"

subsection \<open>The identifiers of an activity's objects\<close>

text \<open>What the loop computes: the distinct usable identifiers in order, cut at the limit.\<close>

definition usableIds :: "jsval list \<Rightarrow> string list" where
  "usableIds vs = List.map_filter (\<lambda>v. truthy (objectIdOf v)) vs"

lemma usableIds_simps [simp]:
  "usableIds [] = []"
  "usableIds (v # vs) = (case truthy (objectIdOf v) of None \<Rightarrow> usableIds vs | Some i \<Rightarrow> i # usableIds vs)"
  by (simp_all add: usableIds_def map_filter_simps split: option.splits)

lemma remdups_snoc: "remdups (ys @ [x]) = remdups (filter (\<lambda>y. y \<noteq> x) ys) @ [x]"
  by (induction ys) auto

lemma dedupe_Cons: "dedupe (x # xs) = x # dedupe (filter (\<lambda>y. y \<noteq> x) xs)"
  by (simp add: dedupe_def remdups_snoc rev_filter)

lemma collectObjectIds_eq:
  assumes "length ids < MAX_ACTIVITY_OBJECT_IDS"
  shows "collectObjectIds vs ids = take MAX_ACTIVITY_OBJECT_IDS (ids @ dedupe (filter (\<lambda>i. i \<notin> set ids) (usableIds vs)))"
  using assms
proof (induction vs arbitrary: ids)
  case Nil
  then show ?case by (simp add: dedupe_def)
next
  case (Cons v vs)
  show ?case
  proof (cases "truthy (objectIdOf v)")
    case None
    then show ?thesis using Cons by simp
  next
    case (Some i)
    have rest: "filter (\<lambda>y. y \<noteq> i) (filter (\<lambda>j. j \<notin> set ids) (usableIds vs)) = filter (\<lambda>j. j \<notin> set (ids @ [i])) (usableIds vs)"
      by (simp add: conj_commute)
    show ?thesis
    proof (cases "i \<in> set ids")
      case True
      then show ?thesis using Cons Some by simp
    next
      case False
      then have "dedupe (filter (\<lambda>j. j \<notin> set ids) (usableIds (v # vs))) =
          i # dedupe (filter (\<lambda>j. j \<notin> set (ids @ [i])) (usableIds vs))"
        using Some rest by (simp add: dedupe_Cons)
      moreover have "MAX_ACTIVITY_OBJECT_IDS - length ids = Suc (MAX_ACTIVITY_OBJECT_IDS - Suc (length ids))"
        using Cons.prems by simp
      ultimately show ?thesis using Cons False Some by (cases "MAX_ACTIVITY_OBJECT_IDS \<le> Suc (length ids)") simp_all
    qed
  qed
qed

subsection \<open>Properties\<close>

text \<open>
  The identifiers of the objects of an activity are read completely, without repetition and
  within the limit. The loop returns exactly the first 64 distinct usable identifiers in the
  order they are written, over a list of objects as over a single one; it returns nothing just
  when there is no usable identifier, and no identifier is empty.
\<close>

theorem activity_object_ids_read:
  "parseActivityObjectIds v =
     (let ids = take MAX_ACTIVITY_OBJECT_IDS (dedupe (usableIds (case v of JArr xs \<Rightarrow> xs | _ \<Rightarrow> [v])))
      in if ids = [] then None else Some ids) \<and>
   (case parseActivityObjectIds v of None \<Rightarrow> True
    | Some ids \<Rightarrow> distinct ids \<and> ids \<noteq> [] \<and> length ids \<le> MAX_ACTIVITY_OBJECT_IDS \<and> [] \<notin> set ids)"
proof -
  let ?vs = "case v of JArr xs \<Rightarrow> xs | _ \<Rightarrow> [v]"
  have eq: "collectObjectIds ?vs [] = take MAX_ACTIVITY_OBJECT_IDS (dedupe (usableIds ?vs))"
    using collectObjectIds_eq [of "[]" ?vs] by (simp add: MAX_ACTIVITY_OBJECT_IDS_def)
  have "[] \<notin> set (usableIds vs)" for vs
    by (induction vs) (auto simp: truthy_def split: option.splits if_splits)
  then have "[] \<notin> set (take n (dedupe (usableIds vs)))" for n vs
    using set_take_subset [of n "dedupe (usableIds vs)"] by auto
  then show ?thesis by (simp add: parseActivityObjectIds_def eq Let_def)
qed

subsection \<open>Documents that survive the wire\<close>

definition actorJson :: "remote_actor \<Rightarrow> jsval" where
  "actorJson d =
     JObj ([(''id'', JStr (ra_id d))] @ optField ''type'' JStr (ra_type d) @
       optField ''preferredUsername'' JStr (ra_preferredUsername d) @ optField ''name'' JStr (ra_name d) @
       optField ''summary'' JStr (ra_summary d) @
       optField ''icon'' (\<lambda>u. JObj (optField ''url'' JStr u)) (ra_icon d) @
       optField ''inbox'' JStr (ra_inbox d) @ optField ''outbox'' JStr (ra_outbox d) @
       optField ''followers'' JStr (ra_followers d) @ optField ''following'' JStr (ra_following d) @
       optField ''endpoints'' (\<lambda>u. JObj (optField ''sharedInbox'' JStr u)) (ra_endpoints d) @
       optField ''publicKey'' (\<lambda>(i, k). JObj (optField ''id'' JStr i @ optField ''publicKeyPem'' JStr k)) (ra_publicKey d))"

lemma asString_opt [simp]:
  "asString (if x \<noteq> None then JStr (the x) else JUndefined) = x" "asString (JStr s) = Some s" "asString JUndefined = None"
  by (cases x; simp add: asString_def)+

lemma field_opt [simp]:
  "field (JObj fs) k = (case map_of fs k of None \<Rightarrow> JUndefined | Some v \<Rightarrow> v)"
  by simp

lemma optStr_read [simp]: "(case if x \<noteq> None then Some (JStr (the x)) else None of None \<Rightarrow> JUndefined | Some v \<Rightarrow> v) =
    (if x \<noteq> None then JStr (the x) else JUndefined)"
  by simp

text \<open>
  C20: An actor document that names its optional parts properly is read back field by field.
  Reading the JSON of a document gives exactly that document: no field is lost, mixed up or
  invented, and absent fields stay absent.
\<close>

theorem remote_actor_roundtrip:
  assumes "ra_id d \<noteq> []" and "ra_icon d \<noteq> Some (Some [])" and "ra_endpoints d \<noteq> Some (Some [])"
  shows "tryParseRemoteActor (actorJson d) = Some d"
proof -
  have truthy: "truthy x = x" if "x \<noteq> Some []" for x using that by (simp add: truthy_def split: option.splits)
  obtain i t p n s ic ib ob fr fg e k where d: "d = \<lparr>ra_id = i, ra_type = t, ra_preferredUsername = p, ra_name = n,
      ra_summary = s, ra_icon = ic, ra_inbox = ib, ra_outbox = ob, ra_followers = fr, ra_following = fg,
      ra_endpoints = e, ra_publicKey = k\<rparr>" by (cases d)
  have icon: "parseIcon (actorJson d) = ra_icon d"
    using assms(2) truthy by (cases ic) (auto simp: d parseIcon_def actorJson_def getRecord_def getString_def)
  have endpoints: "parseEndpoints (actorJson d) = ra_endpoints d"
    using assms(3) truthy by (cases e) (auto simp: d parseEndpoints_def actorJson_def getRecord_def getString_def)
  have key: "parsePublicKey (actorJson d) = ra_publicKey d"
    by (cases k) (auto simp: d parsePublicKey_def actorJson_def getRecord_def getString_def)
  have "parseRemoteActor (actorJson d) ''$'' = Inr d"
    using assms(1) icon endpoints key
    by (simp add: parseRemoteActor_def requireRecord_def truthy_def d getString_def actorJson_def)
  then show ?thesis by (simp add: tryParseRemoteActor_def)
qed

definition exampleActorDoc :: remote_actor where
  "exampleActorDoc =
     \<lparr>ra_id = ''https://a.com/users/bob'', ra_type = Some ''Person'', ra_preferredUsername = None, ra_name = Some [],
      ra_summary = None, ra_icon = Some None, ra_inbox = Some ''https://a.com/users/bob'', ra_outbox = None, ra_followers = None,
      ra_following = None, ra_endpoints = None, ra_publicKey = Some (None, Some ''pem'')\<rparr>"

theorem remote_actor_roundtrip_witness: "tryParseRemoteActor (actorJson exampleActorDoc) = Some exampleActorDoc"
  by (rule remote_actor_roundtrip) (simp_all add: exampleActorDoc_def)

end
