(* ===== verification/ActorCache.thy ===== *)
theory ActorCache
  imports ApValidators Planner Ledger
begin

section \<open>The cache of remote actors and its failure ledger\<close>

text \<open>
  Models \<open>src/backend/lib/activitypub-actor-cache.ts\<close>: the fetch of a remote actor, the one
  write of its cache row, and the ledger of failed fetches with its backoff and its lease (one
  request at a time may fetch an actor that is not cached). The tables are those of the
  database: cached actors, failed fetches, tombstones (canonical ids of actors that deleted
  themselves). Where the code reads between two writes, an argument says what other requests
  do there. \<open>Number\<close> and \<open>Date.parse\<close> on a header of another server are parameters.
\<close>

definition TRANSIENT_BACKOFF_BASE_SECONDS :: int where "TRANSIENT_BACKOFF_BASE_SECONDS = 30"
definition INVALID_BACKOFF_BASE_SECONDS :: int where "INVALID_BACKOFF_BASE_SECONDS = 5 * 60"
definition MAX_FETCH_BACKOFF_SECONDS :: int where "MAX_FETCH_BACKOFF_SECONDS = 60 * 60"
definition MAX_REMOTE_RETRY_AFTER_SECONDS :: int where "MAX_REMOTE_RETRY_AFTER_SECONDS = 24 * 60 * 60"
definition FETCH_FAILURE_RETENTION_MS :: ms where "FETCH_FAILURE_RETENTION_MS = 30 * 24 * 60 * 60 * 1000"
definition FETCH_FAILURE_REAP_LIMIT :: nat where "FETCH_FAILURE_REAP_LIMIT = 50"
definition REMOTE_ACTOR_FETCH_LEASE_MS :: ms where "REMOTE_ACTOR_FETCH_LEASE_MS = 30 * 1000"
definition MAX_REMOTE_NAME_LENGTH :: nat where "MAX_REMOTE_NAME_LENGTH = 50"
definition MAX_REMOTE_SUMMARY_LENGTH :: nat where "MAX_REMOTE_SUMMARY_LENGTH = 500"
definition MAX_REMOTE_USERNAME_LENGTH :: nat where "MAX_REMOTE_USERNAME_LENGTH = 100"

lemmas fetch_constants =
  TRANSIENT_BACKOFF_BASE_SECONDS_def INVALID_BACKOFF_BASE_SECONDS_def MAX_FETCH_BACKOFF_SECONDS_def
  MAX_REMOTE_RETRY_AFTER_SECONDS_def FETCH_FAILURE_RETENTION_MS_def FETCH_FAILURE_REAP_LIMIT_def
  REMOTE_ACTOR_FETCH_LEASE_MS_def

subsection \<open>Cache rows\<close>

record actor_row = cached_actor +
  ar_type :: string
  ar_preferredUsername :: "string option"
  ar_name :: "string option"
  ar_summary :: "string option"
  ar_iconUrl :: "string option"
  ar_outbox :: "string option"
  ar_followersUrl :: "string option"
  ar_followingUrl :: "string option"
  ar_publicKeyId :: "string option"
  ar_publicKeyPem :: "string option"
  ar_rawJson :: jsval
  ar_createdAt :: ms

definition boundField :: "string option \<Rightarrow> nat \<Rightarrow> string option" where
  "boundField s n = (case s of None \<Rightarrow> None | Some x \<Rightarrow> if x = [] then None else Some (take n x))"

text \<open>
  The row of a document, with the document itself as JSON; \<open>datetime('now')\<close> has whole
  seconds.
\<close>

definition buildActorCacheFields :: "ms \<Rightarrow> jsval \<Rightarrow> remote_actor \<Rightarrow> actor_row" where
  "buildActorCacheFields now raw d =
     \<lparr>ac_apId = ra_id d, ac_inbox = the (ra_inbox d),
      ac_sharedInbox = (case ra_endpoints d of None \<Rightarrow> None | Some s \<Rightarrow> truthy s),
      ac_lastFetchedAt = Some now,
      ar_type = (case truthy (ra_type d) of None \<Rightarrow> ''Person'' | Some t \<Rightarrow> t),
      ar_preferredUsername = boundField (ra_preferredUsername d) MAX_REMOTE_USERNAME_LENGTH,
      ar_name = boundField (ra_name d) MAX_REMOTE_NAME_LENGTH,
      ar_summary = boundField (ra_summary d) MAX_REMOTE_SUMMARY_LENGTH,
      ar_iconUrl = (case ra_icon d of None \<Rightarrow> None | Some u \<Rightarrow> truthy u),
      ar_outbox = truthy (ra_outbox d), ar_followersUrl = truthy (ra_followers d),
      ar_followingUrl = truthy (ra_following d),
      ar_publicKeyId = (case ra_publicKey d of None \<Rightarrow> None | Some (i, k) \<Rightarrow> truthy i),
      ar_publicKeyPem = (case ra_publicKey d of None \<Rightarrow> None | Some (i, k) \<Rightarrow> truthy k),
      ar_rawJson = raw, ar_createdAt = now div 1000 * 1000\<rparr>"

subsection \<open>Failures\<close>

datatype fetch_failure =
    FetchFailed
  | FetchNotOk int "secs option"
  | InvalidDocument
  | IdMismatch
  | MissingInbox
  | MissingPublicKey
  | ActorTombstoned

datatype failure_reason =
    RFetchFailed | RFetchNotOk | RInvalidDocument | RIdMismatch | RMissingInbox | RMissingPublicKey | RActorTombstoned

fun failureReason :: "fetch_failure \<Rightarrow> failure_reason" where
  "failureReason FetchFailed = RFetchFailed"
| "failureReason (FetchNotOk status retryAfter) = RFetchNotOk"
| "failureReason InvalidDocument = RInvalidDocument"
| "failureReason IdMismatch = RIdMismatch"
| "failureReason MissingInbox = RMissingInbox"
| "failureReason MissingPublicKey = RMissingPublicKey"
| "failureReason ActorTombstoned = RActorTombstoned"

datatype failure_kind = Gone | Unavailable | Invalid

record fetch_failure_row =
  ff_actor :: string
  ff_kind :: failure_kind
  ff_reason :: failure_reason
  ff_httpStatus :: "int option"
  ff_failureCount :: int
  ff_retryAt :: "ms option"
  ff_processingToken :: "string option"
  ff_leaseExpiresAt :: "ms option"
  ff_createdAt :: ms
  ff_updatedAt :: ms

record failure_state =
  fs_actor :: string
  fs_kind :: failure_kind
  fs_reason :: failure_reason
  fs_httpStatus :: "int option"
  fs_failureCount :: int
  fs_retryAt :: "ms option"
  fs_retryAfterSeconds :: "secs option"

record actor_db =
  adb_cache :: "actor_row list"
  adb_failures :: "fetch_failure_row list"
  adb_tombstones :: "string list"

definition canonicalRemoteActorTombstoneId :: "url_parser \<Rightarrow> string \<Rightarrow> string" where
  "canonicalRemoteActorTombstoneId parseUrl actor =
     (case normalizeActivityPubActorId parseUrl actor of None \<Rightarrow> actor | Some i \<Rightarrow> i)"

definition isRemoteActorTombstoned :: "url_parser \<Rightarrow> string list \<Rightarrow> string \<Rightarrow> bool" where
  "isRemoteActorTombstoned parseUrl tombstones actor =
     (canonicalRemoteActorTombstoneId parseUrl actor \<in> set tombstones)"

definition clampSeconds :: "rat \<Rightarrow> secs \<Rightarrow> secs" where
  "clampSeconds seconds limit = max 1 (min limit (ceiling seconds))"

definition parseRetryAfterSeconds ::
  "(string \<Rightarrow> jsnum) \<Rightarrow> (string \<Rightarrow> ms option) \<Rightarrow> string option \<Rightarrow> ms \<Rightarrow> secs option" where
  "parseRetryAfterSeconds numberOf dateOf header now =
     (case truthy header of
        None \<Rightarrow> None
      | Some v \<Rightarrow>
          (let byDate =
             (case dateOf v of
                None \<Rightarrow> None
              | Some t \<Rightarrow> if t \<le> now then None else Some (clampSeconds (of_int (t - now) / 1000) MAX_REMOTE_RETRY_AFTER_SECONDS))
           in case numberOf v of
                Fin n \<Rightarrow> if 0 \<le> n then Some (clampSeconds n MAX_REMOTE_RETRY_AFTER_SECONDS) else byDate
              | _ \<Rightarrow> byDate))"

definition classifyFetchFailure :: "fetch_failure \<Rightarrow> failure_kind" where
  "classifyFetchFailure failure =
     (case failure of
        FetchNotOk status retryAfter \<Rightarrow> if status = 410 then Gone else Unavailable
      | ActorTombstoned \<Rightarrow> Gone
      | InvalidDocument \<Rightarrow> Invalid
      | IdMismatch \<Rightarrow> Invalid
      | MissingInbox \<Rightarrow> Invalid
      | MissingPublicKey \<Rightarrow> Invalid
      | FetchFailed \<Rightarrow> Unavailable)"

definition failureBackoffSeconds :: "failure_kind \<Rightarrow> int \<Rightarrow> secs option \<Rightarrow> secs option" where
  "failureBackoffSeconds kind failureCount remoteRetryAfterSeconds =
     (if kind = Gone then None
      else
        (let base = (if kind = Invalid then INVALID_BACKOFF_BASE_SECONDS else TRANSIENT_BACKOFF_BASE_SECONDS);
             exponent = min (max 0 (failureCount - 1)) 8;
             exponential = min MAX_FETCH_BACKOFF_SECONDS (base * 2 ^ nat exponent)
         in Some (max exponential (case remoteRetryAfterSeconds of None \<Rightarrow> 0 | Some s \<Rightarrow> s))))"

definition stateFromRow :: "fetch_failure_row \<Rightarrow> ms \<Rightarrow> failure_state" where
  "stateFromRow row now =
     \<lparr>fs_actor = ff_actor row, fs_kind = ff_kind row, fs_reason = ff_reason row, fs_httpStatus = ff_httpStatus row,
      fs_failureCount = ff_failureCount row, fs_retryAt = ff_retryAt row,
      fs_retryAfterSeconds =
        (if ff_kind row = Gone then None
         else (case ff_retryAt row of None \<Rightarrow> None
           | Some t \<Rightarrow> Some (clampSeconds (of_int (t - now) / 1000) MAX_REMOTE_RETRY_AFTER_SECONDS)))\<rparr>"

definition getRemoteActorFetchFailure :: "fetch_failure_row list \<Rightarrow> string \<Rightarrow> ms \<Rightarrow> failure_state option" where
  "getRemoteActorFetchFailure rows actor now =
     (case selectBy ff_actor actor rows of
        None \<Rightarrow> None
      | Some row \<Rightarrow>
          (if ff_kind row = Gone then Some (stateFromRow row now)
           else (case ff_retryAt row of
                   None \<Rightarrow> None
                 | Some t \<Rightarrow> if t \<le> now then None else Some (stateFromRow row now))))"

subsection \<open>The lease\<close>

datatype fetch_claim = Owned string | NotOwned failure_state

definition unavailableNow :: "string \<Rightarrow> int \<Rightarrow> ms option \<Rightarrow> secs \<Rightarrow> failure_state" where
  "unavailableNow actor failureCount retryAt retryAfter =
     \<lparr>fs_actor = actor, fs_kind = Unavailable, fs_reason = RFetchFailed, fs_httpStatus = None,
      fs_failureCount = failureCount, fs_retryAt = retryAt, fs_retryAfterSeconds = Some retryAfter\<rparr>"

definition activeLeaseFailure :: "fetch_failure_row \<Rightarrow> ms \<Rightarrow> failure_state" where
  "activeLeaseFailure row now =
     unavailableNow (ff_actor row) (ff_failureCount row) (ff_leaseExpiresAt row)
       (case ff_leaseExpiresAt row of
          None \<Rightarrow> TRANSIENT_BACKOFF_BASE_SECONDS
        | Some t \<Rightarrow> clampSeconds (of_int (t - now) / 1000) MAX_REMOTE_RETRY_AFTER_SECONDS)"

definition currentFailureOrLease :: "fetch_failure_row \<Rightarrow> ms \<Rightarrow> failure_state" where
  "currentFailureOrLease row now =
     (if ff_kind row = Gone then stateFromRow row now
      else (case ff_retryAt row of
              None \<Rightarrow> activeLeaseFailure row now
            | Some t \<Rightarrow> if now < t then stateFromRow row now else activeLeaseFailure row now))"

definition newLease :: "string \<Rightarrow> string \<Rightarrow> ms \<Rightarrow> fetch_failure_row" where
  "newLease actor token now =
     \<lparr>ff_actor = actor, ff_kind = Unavailable, ff_reason = RFetchFailed, ff_httpStatus = None, ff_failureCount = 0,
      ff_retryAt = None, ff_processingToken = Some token, ff_leaseExpiresAt = Some (now + REMOTE_ACTOR_FETCH_LEASE_MS),
      ff_createdAt = now, ff_updatedAt = now\<rparr>"

definition notLaterThan :: "ms option \<Rightarrow> ms \<Rightarrow> bool" where
  "notLaterThan t now = (case t of None \<Rightarrow> True | Some x \<Rightarrow> x \<le> now)"

definition leaseClaimable :: "string \<Rightarrow> ms \<Rightarrow> fetch_failure_row \<Rightarrow> bool" where
  "leaseClaimable actor now r =
     (ff_actor r = actor \<and> ff_kind r \<noteq> Gone \<and> notLaterThan (ff_retryAt r) now \<and>
      (ff_processingToken r = None \<or> notLaterThan (ff_leaseExpiresAt r) now))"

text \<open>\<open>meanwhile\<close> is what others do to the ledger before the losing claim reads it.\<close>

definition claimRemoteActorFetch ::
  "string \<Rightarrow> string \<Rightarrow> ms \<Rightarrow> (fetch_failure_row list \<Rightarrow> fetch_failure_row list) \<Rightarrow>
   fetch_failure_row list \<Rightarrow> fetch_claim \<times> fetch_failure_row list" where
  "claimRemoteActorFetch actor token now meanwhile rows =
     (if selectBy ff_actor actor rows = None then (Owned token, rows @ [newLease actor token now])
      else if 0 < affectedRows (leaseClaimable actor now) rows
      then (Owned token, updateWhere (leaseClaimable actor now)
              (\<lambda>r. r\<lparr>ff_processingToken := Some token, ff_leaseExpiresAt := Some (now + REMOTE_ACTOR_FETCH_LEASE_MS),
                     ff_updatedAt := now\<rparr>) rows)
      else
        (let rows' = meanwhile rows
         in case selectBy ff_actor actor rows' of
              None \<Rightarrow> (NotOwned (unavailableNow actor 0 None TRANSIENT_BACKOFF_BASE_SECONDS), rows')
            | Some current \<Rightarrow> (NotOwned (currentFailureOrLease current now), rows')))"

subsection \<open>Recording, clearing, reaping\<close>

definition failureRow :: "string \<Rightarrow> fetch_failure \<Rightarrow> int \<Rightarrow> ms \<Rightarrow> ms \<Rightarrow> fetch_failure_row" where
  "failureRow actor failure failureCount now created =
     (let kind = classifyFetchFailure failure;
          remote = (case failure of FetchNotOk status retryAfter \<Rightarrow> retryAfter | _ \<Rightarrow> None);
          backoff = failureBackoffSeconds kind failureCount remote
      in \<lparr>ff_actor = actor, ff_kind = kind, ff_reason = failureReason failure,
          ff_httpStatus = (case failure of FetchNotOk status retryAfter \<Rightarrow> Some status | _ \<Rightarrow> None),
          ff_failureCount = failureCount, ff_retryAt = map_option (\<lambda>s. now + s * 1000) backoff,
          ff_processingToken = None, ff_leaseExpiresAt = None, ff_createdAt = created, ff_updatedAt = now\<rparr>)"

definition recordedState :: "fetch_failure_row \<Rightarrow> ms \<Rightarrow> failure_state" where
  "recordedState row now =
     \<lparr>fs_actor = ff_actor row, fs_kind = ff_kind row, fs_reason = ff_reason row, fs_httpStatus = ff_httpStatus row,
      fs_failureCount = ff_failureCount row, fs_retryAt = ff_retryAt row,
      fs_retryAfterSeconds = map_option (\<lambda>t. (t - now) div 1000) (ff_retryAt row)\<rparr>"

text \<open>
  The statement of a claimant takes effect only while its token is on the row and the actor is
  not cached; a claimant that lost to a successful fetch removes its own lease.
  \<open>meanwhile\<close> happens between the read of the count and the write.
\<close>

definition ownLease :: "string \<Rightarrow> string \<Rightarrow> fetch_failure_row \<Rightarrow> bool" where
  "ownLease actor token r = (ff_actor r = actor \<and> ff_processingToken r = Some token)"

definition recordRemoteActorFetchFailure ::
  "string \<Rightarrow> fetch_failure \<Rightarrow> ms \<Rightarrow> string option \<Rightarrow> (actor_db \<Rightarrow> actor_db) \<Rightarrow> actor_db \<Rightarrow> failure_state \<times> actor_db" where
  "recordRemoteActorFetchFailure actor failure now claimToken meanwhile db0 =
     (let prior = selectBy ff_actor actor (adb_failures db0);
          failureCount = min ((case prior of None \<Rightarrow> 0 | Some r \<Rightarrow> ff_failureCount r) + 1) 1000000;
          values = failureRow actor failure failureCount now;
          db = meanwhile db0;
          rows = adb_failures db;
          cached = selectBy ac_apId actor (adb_cache db) \<noteq> None
      in case truthy claimToken of
           Some token \<Rightarrow>
             (if \<not> cached \<and> 0 < affectedRows (ownLease actor token) rows
              then (recordedState (values now) now,
                    db\<lparr>adb_failures := updateWhere (ownLease actor token) (\<lambda>r. values (ff_createdAt r)) rows\<rparr>)
              else
                (let db' = (if cached then db\<lparr>adb_failures := deleteWhere (ownLease actor token) rows\<rparr> else db)
                 in (case selectBy ff_actor actor (adb_failures db') of
                       Some current \<Rightarrow> currentFailureOrLease current now
                     | None \<Rightarrow> unavailableNow actor 0 None TRANSIENT_BACKOFF_BASE_SECONDS, db')))
         | None \<Rightarrow>
             (recordedState (values now) now,
              db\<lparr>adb_failures := (if selectBy ff_actor actor rows = None then rows @ [values now]
                   else updateWhere (\<lambda>r. ff_actor r = actor) (\<lambda>r. values (ff_createdAt r)) rows)\<rparr>))"

definition clearRemoteActorFetchFailure :: "string \<Rightarrow> string option \<Rightarrow> fetch_failure_row list \<Rightarrow> fetch_failure_row list" where
  "clearRemoteActorFetchFailure actor claimToken rows =
     (case truthy claimToken of
        Some token \<Rightarrow> deleteWhere (ownLease actor token) rows
      | None \<Rightarrow> deleteWhere (\<lambda>r. ff_actor r = actor) rows)"

definition reapable :: "ms \<Rightarrow> fetch_failure_row \<Rightarrow> bool" where
  "reapable now r =
     (ff_updatedAt r < now - FETCH_FAILURE_RETENTION_MS \<and> notLaterThan (ff_leaseExpiresAt r) now)"

definition reapRemoteActorFetchFailures :: "ms \<Rightarrow> fetch_failure_row list \<Rightarrow> nat \<times> fetch_failure_row list" where
  "reapRemoteActorFetchFailures now rows =
     (let candidates = map ff_actor (take FETCH_FAILURE_REAP_LIMIT (sort_key ff_updatedAt (filter (reapable now) rows)));
          P = (\<lambda>r. ff_actor r \<in> set candidates \<and> reapable now r)
      in if candidates = [] then (0, rows) else (affectedRows P rows, deleteWhere P rows))"

subsection \<open>The cache write\<close>

datatype cache_result = Cached remote_actor actor_row | NotCached fetch_failure

datatype cache_mode = CacheUpsert | CacheInsert

definition writeActorRow :: "cache_mode \<Rightarrow> actor_row \<Rightarrow> actor_row list \<Rightarrow> actor_row list" where
  "writeActorRow mode row rows =
     (if mode = CacheUpsert \<and> selectBy ac_apId (ac_apId row) rows \<noteq> None
      then updateWhere (\<lambda>r. ac_apId r = ac_apId row) (\<lambda>r. row\<lparr>ar_createdAt := ar_createdAt r\<rparr>) rows
      else insertOrIgnore ac_apId row rows)"

text \<open>The batch: both statements test the tombstone themselves.\<close>

definition cacheWrite :: "url_parser \<Rightarrow> cache_mode \<Rightarrow> actor_row \<Rightarrow> actor_db \<Rightarrow> actor_db" where
  "cacheWrite parseUrl mode row db =
     (if isRemoteActorTombstoned parseUrl (adb_tombstones db) (ac_apId row) then db
      else db\<lparr>adb_cache := writeActorRow mode row (adb_cache db),
              adb_failures := deleteWhere (\<lambda>r. ff_actor r = ac_apId row) (adb_failures db)\<rparr>)"

text \<open>\<open>afterWrite\<close> and \<open>afterRead\<close> happen between the batch and the reads that follow.\<close>

definition cacheRemoteActorDocument ::
  "url_parser \<Rightarrow> ms \<Rightarrow> string \<Rightarrow> jsval \<Rightarrow> cache_mode \<Rightarrow> bool \<Rightarrow> (actor_db \<Rightarrow> actor_db) \<Rightarrow> (actor_db \<Rightarrow> actor_db) \<Rightarrow>
   actor_db \<Rightarrow> cache_result \<times> actor_db" where
  "cacheRemoteActorDocument parseUrl now expected raw mode requireKey afterWrite afterRead db =
     (if \<not> isSafeRemoteUrl parseUrl expected then (NotCached MissingInbox, db)
      else
        (case tryParseRemoteActor raw of
           None \<Rightarrow> (NotCached InvalidDocument, db)
         | Some d \<Rightarrow>
             (if ra_id d \<noteq> expected then (NotCached IdMismatch, db)
              else if truthy (ra_inbox d) = None \<or> \<not> isSafeRemoteUrl parseUrl (ra_id d) \<or>
                      \<not> isSafeRemoteUrl parseUrl (the (ra_inbox d))
              then (NotCached MissingInbox, db)
              else if requireKey \<and> (case ra_publicKey d of None \<Rightarrow> True | Some (i, k) \<Rightarrow> truthy k = None)
              then (NotCached MissingPublicKey, db)
              else
                (let db1 = afterWrite (cacheWrite parseUrl mode (buildActorCacheFields now raw d) db)
                 in if isRemoteActorTombstoned parseUrl (adb_tombstones db1) (ra_id d)
                    then (NotCached ActorTombstoned, db1)
                    else
                      (let db2 = afterRead db1
                       in case selectBy ac_apId (ra_id d) (adb_cache db2) of
                            Some row \<Rightarrow> (Cached d row, db2)
                          | None \<Rightarrow>
                              (if isRemoteActorTombstoned parseUrl (adb_tombstones db2) (ra_id d)
                               then (NotCached ActorTombstoned, db2) else (NotCached FetchFailed, db2)))))))"

text \<open>What the signed GET of an actor gives: an error, a status, a body, or one that is no JSON.\<close>

datatype actor_response = GetThrew | GetStatus int "string option" | GetJson jsval | GetNotJson

definition fetchAndUpsertActorCache ::
  "url_parser \<Rightarrow> (string \<Rightarrow> jsnum) \<Rightarrow> (string \<Rightarrow> ms option) \<Rightarrow> (string \<Rightarrow> actor_response) \<Rightarrow> ms \<Rightarrow> string \<Rightarrow>
   cache_mode \<Rightarrow> bool \<Rightarrow> (actor_db \<Rightarrow> actor_db) \<Rightarrow> (actor_db \<Rightarrow> actor_db) \<Rightarrow> actor_db \<Rightarrow> cache_result \<times> actor_db" where
  "fetchAndUpsertActorCache parseUrl numberOf dateOf getActor now actor mode requireKey afterWrite afterRead db =
     (if \<not> isSafeRemoteUrl parseUrl actor then (NotCached MissingInbox, db)
      else
        (case getActor actor of
           GetThrew \<Rightarrow> (NotCached FetchFailed, db)
         | GetNotJson \<Rightarrow> (NotCached FetchFailed, db)
         | GetStatus status retryAfter \<Rightarrow>
             (NotCached (FetchNotOk status (parseRetryAfterSeconds numberOf dateOf retryAfter now)), db)
         | GetJson raw \<Rightarrow> cacheRemoteActorDocument parseUrl now actor raw mode requireKey afterWrite afterRead db))"

subsection \<open>Bounds\<close>

lemma clampSeconds_bounds: "1 \<le> limit \<Longrightarrow> 1 \<le> clampSeconds q limit \<and> clampSeconds q limit \<le> limit"
  by (simp add: clampSeconds_def)

lemma clampSeconds_covers:
  assumes "t - now \<le> 1000 * limit"
  shows "t \<le> now + 1000 * clampSeconds (of_int (t - now) / 1000) limit"
proof -
  define c where "c = ceiling (rat_of_int (t - now) / 1000)"
  have "rat_of_int (t - now) / 1000 \<le> rat_of_int c" unfolding c_def by (rule le_of_int_ceiling)
  then have "rat_of_int (t - now) \<le> rat_of_int c * 1000" by (simp only: pos_divide_le_eq zero_less_numeral)
  then have "rat_of_int (t - now) \<le> rat_of_int (c * 1000)" by (simp only: of_int_mult of_int_numeral)
  then have "t - now \<le> c * 1000" by (simp only: of_int_le_iff)
  moreover have "clampSeconds (of_int (t - now) / 1000) limit = max 1 (min limit c)" by (simp only: clampSeconds_def c_def)
  ultimately show ?thesis using assms by (simp only: max_def min_def) (auto split: if_splits)
qed

lemma retryAfter_bounds: "parseRetryAfterSeconds numberOf dateOf header now = Some s \<Longrightarrow> 1 \<le> s \<and> s \<le> MAX_REMOTE_RETRY_AFTER_SECONDS"
  using clampSeconds_bounds [of MAX_REMOTE_RETRY_AFTER_SECONDS]
  by (auto simp: parseRetryAfterSeconds_def Let_def MAX_REMOTE_RETRY_AFTER_SECONDS_def
      split: option.splits jsnum.splits if_splits)

text \<open>The remote wish of a failure, when the code built it: between a second and a day.\<close>

definition remoteWish :: "fetch_failure \<Rightarrow> secs" where
  "remoteWish failure = (case failure of FetchNotOk status (Some s) \<Rightarrow> s | _ \<Rightarrow> 0)"

definition backoffWindow :: "failure_kind \<Rightarrow> int \<Rightarrow> fetch_failure \<Rightarrow> secs" where
  "backoffWindow kind n failure =
     max (min MAX_FETCH_BACKOFF_SECONDS
            ((if kind = Invalid then INVALID_BACKOFF_BASE_SECONDS else TRANSIENT_BACKOFF_BASE_SECONDS) * 2 ^ nat (min (max 0 (n - 1)) 8)))
       (remoteWish failure)"

lemma failureBackoff_eq:
  "failureBackoffSeconds kind n (case failure of FetchNotOk status retryAfter \<Rightarrow> retryAfter | _ \<Rightarrow> None) =
     (if kind = Gone then None else Some (backoffWindow kind n failure))"
proof -
  have wish: "(case (case failure of FetchNotOk status retryAfter \<Rightarrow> retryAfter | _ \<Rightarrow> None) of None \<Rightarrow> 0 | Some s \<Rightarrow> s) = remoteWish failure"
    by (simp add: remoteWish_def split: fetch_failure.split)
  show ?thesis unfolding failureBackoffSeconds_def Let_def backoffWindow_def wish ..
qed

subsection \<open>The ledger as fenced rows\<close>

definition leaseToken :: "actor_db \<Rightarrow> string \<Rightarrow> string option" where
  "leaseToken db a = Option.bind (selectBy ff_actor a (adb_failures db)) ff_processingToken"

text \<open>Unique keys, and no empty token (tokens are UUIDs).\<close>

definition ledger_wf :: "actor_db \<Rightarrow> bool" where
  "ledger_wf db = (keysUnique ff_actor (adb_failures db) \<and> list_all (\<lambda>r. ff_processingToken r \<noteq> Some []) (adb_failures db))"

definition leaseClaim :: "string \<Rightarrow> string \<Rightarrow> ms \<Rightarrow> actor_db \<Rightarrow> actor_db option" where
  "leaseClaim a token now db =
     (if token = [] then None
      else (case claimRemoteActorFetch a token now (\<lambda>rows. rows) (adb_failures db) of
              (Owned t, rows) \<Rightarrow> Some (db\<lparr>adb_failures := rows\<rparr>)
            | (NotOwned st, rows) \<Rightarrow> None))"

datatype lease_settlement = LeaseRecord fetch_failure ms | LeaseClear

definition leaseSettle :: "string \<Rightarrow> string \<Rightarrow> lease_settlement \<Rightarrow> actor_db \<Rightarrow> bool \<times> actor_db" where
  "leaseSettle a token c db =
     (if token = [] then (False, db)
      else (0 < affectedRows (ownLease a token) (adb_failures db),
            case c of
              LeaseRecord failure now \<Rightarrow> snd (recordRemoteActorFetchFailure a failure now (Some token) (\<lambda>db. db) db)
            | LeaseClear \<Rightarrow> db\<lparr>adb_failures := clearRemoteActorFetchFailure a (Some token) (adb_failures db)\<rparr>))"

text \<open>What happens without a token: failures, a successful fetch, the reaper, a deletion.\<close>

datatype lease_sweep =
    SweepFailure string fetch_failure ms
  | SweepClear string
  | SweepReap ms
  | SweepCached url_parser cache_mode actor_row

fun leaseSweep :: "lease_sweep \<Rightarrow> actor_db \<Rightarrow> actor_db" where
  "leaseSweep (SweepFailure a failure now) db = snd (recordRemoteActorFetchFailure a failure now None (\<lambda>db. db) db)"
| "leaseSweep (SweepClear a) db = db\<lparr>adb_failures := clearRemoteActorFetchFailure a None (adb_failures db)\<rparr>"
| "leaseSweep (SweepReap now) db = db\<lparr>adb_failures := snd (reapRemoteActorFetchFailures now (adb_failures db))\<rparr>"
| "leaseSweep (SweepCached parseUrl mode row) db = cacheWrite parseUrl mode row db"

lemma leaseToken_update:
  assumes "\<And>r. P r \<Longrightarrow> ff_actor (f r) = ff_actor r"
  shows "leaseToken (db\<lparr>adb_failures := updateWhere P f (adb_failures db)\<rparr>) k =
    (case selectBy ff_actor k (adb_failures db) of None \<Rightarrow> None
     | Some r \<Rightarrow> if P r then ff_processingToken (f r) else ff_processingToken r)"
  using selectBy_updateWhere [of P ff_actor f k "adb_failures db"] assms
  by (simp add: leaseToken_def split: option.splits)

lemma selectBy_deleteWhere:
  assumes "keysUnique key rows"
  shows "selectBy key k (deleteWhere P rows) =
    (case selectBy key k rows of None \<Rightarrow> None | Some r \<Rightarrow> if P r then None else Some r)"
  using assms
proof (induction rows)
  case (Cons r rows)
  have later: "selectBy key k rows = None" if "key r = k"
    using Cons.prems that by (simp add: selectBy_None_iff keysUnique_def keySet_def)
  have "keysUnique key rows" using Cons.prems by (simp add: keysUnique_def)
  then show ?case using Cons.IH later by (auto simp: deleteWhere_def)
qed (simp add: deleteWhere_def)

lemma leaseToken_delete:
  assumes "keysUnique ff_actor (adb_failures db)"
  shows "leaseToken (db\<lparr>adb_failures := deleteWhere P (adb_failures db)\<rparr>) k =
    (case selectBy ff_actor k (adb_failures db) of None \<Rightarrow> None | Some r \<Rightarrow> if P r then None else ff_processingToken r)"
  using selectBy_deleteWhere [OF assms] by (simp add: leaseToken_def split: option.splits)

lemma ledger_wf_update:
  assumes "ledger_wf db" "\<And>r. P r \<Longrightarrow> ff_actor (f r) = ff_actor r" "\<And>r. P r \<Longrightarrow> ff_processingToken (f r) \<noteq> Some []"
  shows "ledger_wf (db\<lparr>adb_failures := updateWhere P f (adb_failures db)\<rparr>)"
  using assms by (auto simp: ledger_wf_def keysUnique_updateWhere intro: list_all_updateWhere)

lemma ledger_wf_delete: "ledger_wf db \<Longrightarrow> ledger_wf (db\<lparr>adb_failures := deleteWhere P (adb_failures db)\<rparr>)"
  by (simp add: ledger_wf_def keysUnique_deleteWhere list_all_deleteWhere)

lemma owned_lease:
  assumes "keysUnique ff_actor rows"
  shows "0 < affectedRows (ownLease a token) rows \<longleftrightarrow> Option.bind (selectBy ff_actor a rows) ff_processingToken = Some token"
  using affectedRows_key [OF assms, of "ownLease a token" a] selectBy_SomeD [of ff_actor a rows]
  by (auto simp: ownLease_def split: option.splits)

lemma not_owned_lease:
  assumes "keysUnique ff_actor rows" "Option.bind (selectBy ff_actor a rows) ff_processingToken \<noteq> Some token" "r \<in> set rows"
  shows "\<not> ownLease a token r"
  using assms selectBy_mem [OF assms(1,3)] by (auto simp: ownLease_def)

lemma newLease_simps [simp]: "ff_actor (newLease a t now) = a" "ff_processingToken (newLease a t now) = Some t"
  by (simp_all add: newLease_def)

lemma failureRow_simps [simp]:
  "ff_actor (failureRow a f n now cr) = a" "ff_processingToken (failureRow a f n now cr) = None" "ff_createdAt (failureRow a f n now cr) = cr"
  by (simp_all add: failureRow_def Let_def)

lemma claimable_key: "leaseClaimable a now r \<Longrightarrow> ff_actor r = a"
  by (simp add: leaseClaimable_def)

lemma claim_some:
  assumes "keysUnique ff_actor rows" "0 < affectedRows (leaseClaimable a now) rows"
  obtains r where "selectBy ff_actor a rows = Some r" "leaseClaimable a now r"
proof -
  have "affectedRows (leaseClaimable a now) rows = (case selectBy ff_actor a rows of None \<Rightarrow> 0 | Some r \<Rightarrow> if leaseClaimable a now r then 1 else 0)"
    by (rule affectedRows_key [OF assms(1)]) (rule claimable_key)
  then show thesis using assms(2) that by (auto split: option.splits if_splits)
qed

lemma claim_law:
  assumes wf: "ledger_wf db" and claim: "leaseClaim a tok now db = Some db'"
  shows "ledger_wf db' \<and> leaseToken db' a = Some tok \<and> (\<forall>k. k \<noteq> a \<longrightarrow> leaseToken db' k = leaseToken db k)"
proof -
  have tok: "tok \<noteq> []" using claim by (auto simp: leaseClaim_def split: if_splits)
  let ?rows = "adb_failures db"
  show ?thesis
  proof (cases "selectBy ff_actor a ?rows")
    case None
    then have db': "db' = db\<lparr>adb_failures := ?rows @ [newLease a tok now]\<rparr>"
      using claim tok by (simp add: leaseClaim_def claimRemoteActorFetch_def)
    have "a \<notin> ff_actor ` set ?rows" using None by (simp add: selectBy_None_iff keySet_def)
    then have "ledger_wf db'" using wf tok by (auto simp: ledger_wf_def db' keysUnique_def)
    moreover have "leaseToken db' k = (if k = a then Some tok else leaseToken db k)" for k
      using None by (auto simp: leaseToken_def db' selectBy_append split: option.splits)
    ultimately show ?thesis by simp
  next
    case (Some r0)
    let ?f = "\<lambda>r. r\<lparr>ff_processingToken := Some tok, ff_leaseExpiresAt := Some (now + REMOTE_ACTOR_FETCH_LEASE_MS), ff_updatedAt := now\<rparr>"
    have won: "0 < affectedRows (leaseClaimable a now) ?rows"
      using claim Some tok by (auto simp: leaseClaim_def claimRemoteActorFetch_def Let_def split: if_splits)
    then have db': "db' = db\<lparr>adb_failures := updateWhere (leaseClaimable a now) ?f ?rows\<rparr>"
      using claim Some tok by (simp add: leaseClaim_def claimRemoteActorFetch_def)
    obtain r where r: "selectBy ff_actor a ?rows = Some r" "leaseClaimable a now r"
      by (rule claim_some [OF _ won]) (use wf in \<open>simp add: ledger_wf_def\<close>)
    have "ledger_wf db'" unfolding db' by (rule ledger_wf_update [OF wf]) (simp_all add: tok)
    moreover have "leaseToken db' k = (if k = a then Some tok else leaseToken db k)" for k
      using leaseToken_update [of "leaseClaimable a now" ?f db k] r claimable_key selectBy_SomeD [of ff_actor k ?rows]
      by (auto simp: db' leaseToken_def split: option.splits)
    ultimately show ?thesis by simp
  qed
qed

lemma owned_update_token:
  assumes wf: "ledger_wf db" and tok: "leaseToken db a = Some tok"
    and f: "\<And>r. ownLease a tok r \<Longrightarrow> ff_actor (f r) = a \<and> ff_processingToken (f r) = None"
  shows "ledger_wf (db\<lparr>adb_failures := updateWhere (ownLease a tok) f (adb_failures db)\<rparr>)"
    "leaseToken (db\<lparr>adb_failures := updateWhere (ownLease a tok) f (adb_failures db)\<rparr>) k = (if k = a then None else leaseToken db k)"
proof -
  have keep: "\<And>r. ownLease a tok r \<Longrightarrow> ff_actor (f r) = ff_actor r" using f by (simp add: ownLease_def)
  show "ledger_wf (db\<lparr>adb_failures := updateWhere (ownLease a tok) f (adb_failures db)\<rparr>)"
    by (rule ledger_wf_update [OF wf keep]) (use f in auto)
  have "ownLease a tok r \<longleftrightarrow> k = a" if "selectBy ff_actor k (adb_failures db) = Some r" for r
    using that tok selectBy_SomeD [OF that] by (auto simp: ownLease_def leaseToken_def)
  then show "leaseToken (db\<lparr>adb_failures := updateWhere (ownLease a tok) f (adb_failures db)\<rparr>) k = (if k = a then None else leaseToken db k)"
    using leaseToken_update [of "ownLease a tok" f db k, OF keep] f tok
    by (cases "selectBy ff_actor k (adb_failures db)") (auto simp: leaseToken_def [of db])
qed

lemma owned_delete_token:
  assumes wf: "ledger_wf db" and tok: "leaseToken db a = Some tok"
  shows "leaseToken (db\<lparr>adb_failures := deleteWhere (ownLease a tok) (adb_failures db)\<rparr>) k = (if k = a then None else leaseToken db k)"
proof -
  have "ownLease a tok r \<longleftrightarrow> k = a" if "selectBy ff_actor k (adb_failures db) = Some r" for r
    using that tok selectBy_SomeD [OF that] by (auto simp: ownLease_def leaseToken_def)
  then show ?thesis
    using leaseToken_delete [of db "ownLease a tok" k] wf by (auto simp: ledger_wf_def leaseToken_def split: option.splits)
qed

lemma deleteWhere_none: "(\<And>r. r \<in> set rows \<Longrightarrow> \<not> P r) \<Longrightarrow> deleteWhere P rows = rows"
  by (simp add: deleteWhere_def filter_id_conv)

lemma recorded_owned:
  assumes wf: "ledger_wf db" and tok: "leaseToken db a = Some tok" "tok \<noteq> []"
  shows "ledger_wf (snd (recordRemoteActorFetchFailure a failure now (Some tok) (\<lambda>db. db) db)) \<and>
    leaseToken (snd (recordRemoteActorFetchFailure a failure now (Some tok) (\<lambda>db. db) db)) k = (if k = a then None else leaseToken db k)"
proof -
  have "0 < affectedRows (ownLease a tok) (adb_failures db)"
    using owned_lease [of "adb_failures db" a tok] wf tok by (simp add: ledger_wf_def leaseToken_def)
  then show ?thesis
    using owned_update_token [OF wf tok(1)] owned_delete_token [OF wf tok(1)] ledger_wf_delete [OF wf] tok(2)
    by (simp add: recordRemoteActorFetchFailure_def Let_def truthy_def)
qed

lemma recorded_stale:
  assumes wf: "ledger_wf db" and tok: "leaseToken db a \<noteq> Some tok" "tok \<noteq> []"
  shows "snd (recordRemoteActorFetchFailure a failure now (Some tok) (\<lambda>db. db) db) = db"
proof -
  have none: "\<not> ownLease a tok r" if "r \<in> set (adb_failures db)" for r
    using not_owned_lease [OF _ _ that] wf tok by (simp add: ledger_wf_def leaseToken_def)
  then have "affectedRows (ownLease a tok) (adb_failures db) = 0" by (simp add: affectedRows_eq_0)
  then show ?thesis
    using deleteWhere_none [of "adb_failures db" "ownLease a tok"] none tok(2)
    by (simp add: recordRemoteActorFetchFailure_def Let_def truthy_def)
qed

lemma leaseToken_rows: "selectBy ff_actor k rows' = selectBy ff_actor k (adb_failures db) \<or> selectBy ff_actor k rows' = None \<Longrightarrow>
    leaseToken (db\<lparr>adb_failures := rows'\<rparr>) k = leaseToken db k \<or> leaseToken (db\<lparr>adb_failures := rows'\<rparr>) k = None"
  by (auto simp: leaseToken_def)

lemma delete_sweep:
  assumes "ledger_wf db"
  shows "ledger_wf (db\<lparr>adb_failures := deleteWhere P (adb_failures db)\<rparr>) \<and>
    (leaseToken (db\<lparr>adb_failures := deleteWhere P (adb_failures db)\<rparr>) k = leaseToken db k \<or>
     leaseToken (db\<lparr>adb_failures := deleteWhere P (adb_failures db)\<rparr>) k = None)"
  using ledger_wf_delete [OF assms] selectBy_deleteWhere [of ff_actor "adb_failures db" k P] assms
  by (auto simp: ledger_wf_def intro!: leaseToken_rows split: option.splits)

lemma failure_sweep:
  assumes wf: "ledger_wf db"
  shows "ledger_wf (leaseSweep (SweepFailure a failure now) db) \<and>
    (leaseToken (leaseSweep (SweepFailure a failure now) db) k = leaseToken db k \<or>
     leaseToken (leaseSweep (SweepFailure a failure now) db) k = None)"
proof (cases "selectBy ff_actor a (adb_failures db)")
  case None
  then have "a \<notin> ff_actor ` set (adb_failures db)" by (simp add: selectBy_None_iff keySet_def)
  then show ?thesis
    using wf None by (auto simp: recordRemoteActorFetchFailure_def Let_def truthy_def ledger_wf_def keysUnique_def
        leaseToken_def selectBy_append split: option.splits)
next
  case (Some r)
  show ?thesis
    using wf Some by (auto simp: recordRemoteActorFetchFailure_def Let_def truthy_def leaseToken_update
        intro!: ledger_wf_update split: option.splits) (auto simp: leaseToken_def)
qed

interpretation fetch_fence: fenced_rows leaseToken leaseClaim leaseSettle leaseSweep ledger_wf
proof
  fix t t' :: actor_db and k tok and a :: ms
  assume "ledger_wf t" "leaseClaim k tok a t = Some t'"
  then show "ledger_wf t' \<and> leaseToken t' k = Some tok \<and> (\<forall>k'. k' \<noteq> k \<longrightarrow> leaseToken t' k' = leaseToken t k')"
    by (rule claim_law)
next
  fix t :: actor_db and k tok c
  assume wf: "ledger_wf t"
  have empty: "leaseToken t k \<noteq> Some []"
  proof
    assume "leaseToken t k = Some []"
    then obtain r where "r \<in> set (adb_failures t)" "ff_processingToken r = Some []"
      using selectBy_SomeD [of ff_actor k] by (auto simp: leaseToken_def bind_eq_Some_conv)
    then show False using wf by (auto simp: ledger_wf_def list_all_iff)
  qed
  show "fst (leaseSettle k tok c t) \<longleftrightarrow> leaseToken t k = Some tok"
    using owned_lease [of "adb_failures t" k tok] wf empty by (auto simp: leaseSettle_def ledger_wf_def leaseToken_def)
  show "snd (leaseSettle k tok c t) = t" if "leaseToken t k \<noteq> Some tok"
  proof (cases "tok = []")
    case False
    have "\<not> ownLease k tok r" if "r \<in> set (adb_failures t)" for r
      using not_owned_lease [OF _ _ that] wf \<open>leaseToken t k \<noteq> Some tok\<close> by (simp add: ledger_wf_def leaseToken_def)
    then show ?thesis using recorded_stale [OF wf that False] False deleteWhere_none [of "adb_failures t" "ownLease k tok"]
      by (simp add: leaseSettle_def clearRemoteActorFetchFailure_def truthy_def split: lease_settlement.split)
  qed (simp add: leaseSettle_def)
  show "ledger_wf (snd (leaseSettle k tok c t)) \<and> leaseToken (snd (leaseSettle k tok c t)) k = None \<and>
      (\<forall>k'. k' \<noteq> k \<longrightarrow> leaseToken (snd (leaseSettle k tok c t)) k' = leaseToken t k')"
    if held: "leaseToken t k = Some tok"
  proof -
    have tok: "tok \<noteq> []" using held empty by auto
    show ?thesis
      using recorded_owned [OF wf held tok] owned_delete_token [OF wf held] ledger_wf_delete [OF wf] tok
      by (cases c) (simp_all add: leaseSettle_def clearRemoteActorFetchFailure_def truthy_def)
  qed
next
  fix t :: actor_db and s k
  assume wf: "ledger_wf t"
  show "ledger_wf (leaseSweep s t) \<and> (leaseToken (leaseSweep s t) k = leaseToken t k \<or> leaseToken (leaseSweep s t) k = None)"
  proof (cases s)
    case (SweepFailure a failure now)
    then show ?thesis using failure_sweep [OF wf] by simp
  next
    case (SweepCached parseUrl mode row)
    have "ledger_wf (t\<lparr>adb_cache := c, adb_failures := rows\<rparr>) = ledger_wf (t\<lparr>adb_failures := rows\<rparr>)"
      "leaseToken (t\<lparr>adb_cache := c, adb_failures := rows\<rparr>) k = leaseToken (t\<lparr>adb_failures := rows\<rparr>) k" for c rows
      by (simp_all add: ledger_wf_def leaseToken_def)
    then show ?thesis using SweepCached wf delete_sweep [OF wf, of _ k] by (simp add: cacheWrite_def)
  qed (use delete_sweep [OF wf, of _ k] wf in
      \<open>simp_all add: clearRemoteActorFetchFailure_def truthy_def reapRemoteActorFetchFailures_def Let_def\<close>)
qed

lemma reapable_expired:
  "reapable now = expired (\<lambda>r. notLaterThan (ff_leaseExpiresAt r) now) ff_updatedAt (now - FETCH_FAILURE_RETENTION_MS - 1)"
  by (auto simp: fun_eq_iff reapable_def expired_def)

lemma reap_purge:
  "reapRemoteActorFetchFailures now =
     purgeRows ff_actor (\<lambda>r. notLaterThan (ff_leaseExpiresAt r) now) ff_updatedAt FETCH_FAILURE_REAP_LIMIT (now - FETCH_FAILURE_RETENTION_MS - 1)"
  by (simp add: fun_eq_iff reapRemoteActorFetchFailures_def purgeRows_def selectPurge_def reapable_expired [symmetric] Let_def)

interpretation fetch_retention: retained_ledger ff_actor reapable reapRemoteActorFetchFailures FETCH_FAILURE_REAP_LIMIT
  by unfold_locales
    (auto simp: reapable_expired reap_purge purgeRows_count purgeRows_rest purgeRows_keeps FETCH_FAILURE_REAP_LIMIT_def
      dest: subsetD [OF purgeRows_keeps(1)])

subsection \<open>What the cache holds\<close>

definition bounded :: "nat \<Rightarrow> string option \<Rightarrow> bool" where
  "bounded n s = (case s of None \<Rightarrow> True | Some x \<Rightarrow> x \<noteq> [] \<and> length x \<le> n)"

definition actor_row_wf :: "url_parser \<Rightarrow> actor_row \<Rightarrow> bool" where
  "actor_row_wf parseUrl r =
     (isSafeRemoteUrl parseUrl (ac_apId r) \<and> isSafeRemoteUrl parseUrl (ac_inbox r) \<and> ac_inbox r \<noteq> [] \<and>
      getString (ar_rawJson r) ''id'' = Some (ac_apId r) \<and> ac_sharedInbox r \<noteq> Some [] \<and>
      bounded MAX_REMOTE_USERNAME_LENGTH (ar_preferredUsername r) \<and> bounded MAX_REMOTE_NAME_LENGTH (ar_name r) \<and>
      bounded MAX_REMOTE_SUMMARY_LENGTH (ar_summary r))"

definition actor_db_wf :: "url_parser \<Rightarrow> actor_db \<Rightarrow> bool" where
  "actor_db_wf parseUrl db =
     (keysUnique ac_apId (adb_cache db) \<and> list_all (actor_row_wf parseUrl) (adb_cache db) \<and>
      list_all (\<lambda>r. \<not> isRemoteActorTombstoned parseUrl (adb_tombstones db) (ac_apId r)) (adb_cache db))"

lemma bounded_boundField [simp]: "0 < n \<Longrightarrow> bounded n (boundField s n)"
  by (auto simp: bounded_def boundField_def split: option.splits)

lemma truthy_not_empty [simp]: "truthy s \<noteq> Some []"
  by (auto simp: truthy_def split: option.splits)

lemma built_simps [simp]:
  "ac_apId (buildActorCacheFields now raw d) = ra_id d" "ac_lastFetchedAt (buildActorCacheFields now raw d) = Some now"
  "ar_rawJson (buildActorCacheFields now raw d) = raw" "ac_inbox (buildActorCacheFields now raw d) = the (ra_inbox d)"
  by (simp_all add: buildActorCacheFields_def)

lemma parsed_id: "tryParseRemoteActor raw = Some d \<Longrightarrow> getString raw ''id'' = Some (ra_id d) \<and> ra_id d \<noteq> []"
  by (auto simp: tryParseRemoteActor_def parseRemoteActor_def requireRecord_def truthy_def split: sum.splits option.splits if_splits)

lemma built_wf:
  assumes "tryParseRemoteActor raw = Some d" "truthy (ra_inbox d) \<noteq> None" "isSafeRemoteUrl parseUrl (ra_id d)"
    "isSafeRemoteUrl parseUrl (the (ra_inbox d))"
  shows "actor_row_wf parseUrl (buildActorCacheFields now raw d)"
  using assms parsed_id [OF assms(1)]
  by (auto simp: actor_row_wf_def buildActorCacheFields_def MAX_REMOTE_USERNAME_LENGTH_def MAX_REMOTE_NAME_LENGTH_def
      MAX_REMOTE_SUMMARY_LENGTH_def truthy_def split: option.splits)

lemma writeActorRow_select:
  "selectBy ac_apId k (writeActorRow mode row rows) =
     (if k = ac_apId row then
        (case selectBy ac_apId k rows of
           None \<Rightarrow> Some row
         | Some old \<Rightarrow> Some (if mode = CacheUpsert then row\<lparr>ar_createdAt := ar_createdAt old\<rparr> else old))
      else selectBy ac_apId k rows)"
  using selectBy_updateWhere [of "\<lambda>r. ac_apId r = ac_apId row" ac_apId "\<lambda>r. row\<lparr>ar_createdAt := ar_createdAt r\<rparr>" k rows]
    selectBy_SomeD [of ac_apId k rows]
  by (cases "selectBy ac_apId k rows") (auto simp: writeActorRow_def selectBy_insertOrIgnore)

lemma writeActorRow_wf:
  assumes "keysUnique ac_apId rows" "list_all Q rows" "Q row" "\<And>t. Q (row\<lparr>ar_createdAt := t\<rparr>)"
  shows "keysUnique ac_apId (writeActorRow mode row rows) \<and> list_all Q (writeActorRow mode row rows)"
  using assms by (auto simp: writeActorRow_def keysUnique_updateWhere keysUnique_insertOrIgnore
      intro: list_all_updateWhere list_all_insertOrIgnore)

lemma actor_row_wf_created [simp]: "actor_row_wf parseUrl (r\<lparr>ar_createdAt := t\<rparr>) = actor_row_wf parseUrl r"
  by (simp add: actor_row_wf_def)

lemma cacheWrite_wf:
  assumes "actor_db_wf parseUrl db" "actor_row_wf parseUrl row"
  shows "actor_db_wf parseUrl (cacheWrite parseUrl mode row db)"
  using assms writeActorRow_wf [of "adb_cache db" "actor_row_wf parseUrl" row mode]
    writeActorRow_wf [of "adb_cache db" "\<lambda>r. \<not> isRemoteActorTombstoned parseUrl (adb_tombstones db) (ac_apId r)" row mode]
  by (auto simp: actor_db_wf_def cacheWrite_def)

lemma deleteWhere_gone: "selectBy key k (deleteWhere (\<lambda>r. key r = k) rows) = None"
  by (auto simp: selectBy_None_iff keySet_def)

lemma cache_document_outcome:
  assumes wf: "actor_db_wf parseUrl db"
    and run: "cacheRemoteActorDocument parseUrl now actor raw mode requireKey (\<lambda>db. db) (\<lambda>db. db) db = (res, db')"
  shows "actor_db_wf parseUrl db' \<and>
    (case res of
       NotCached failure \<Rightarrow> db' = db
     | Cached d row \<Rightarrow>
         ra_id d = actor \<and> selectBy ac_apId actor (adb_cache db') = Some row \<and>
         \<not> isRemoteActorTombstoned parseUrl (adb_tombstones db) actor \<and>
         selectBy ff_actor actor (adb_failures db') = None \<and>
         (mode = CacheUpsert \<longrightarrow> (\<exists>t. row = buildActorCacheFields now raw d\<lparr>ar_createdAt := t\<rparr>)) \<and>
         (\<forall>k. k \<noteq> actor \<longrightarrow> selectBy ac_apId k (adb_cache db') = selectBy ac_apId k (adb_cache db)))"
proof -
  define reject where "reject d \<longleftrightarrow> ra_id d \<noteq> actor \<or> truthy (ra_inbox d) = None \<or> \<not> isSafeRemoteUrl parseUrl (ra_id d) \<or>
      \<not> isSafeRemoteUrl parseUrl (the (ra_inbox d)) \<or>
      (requireKey \<and> (case ra_publicKey d of None \<Rightarrow> True | Some (i, k) \<Rightarrow> truthy k = None))" for d :: remote_actor
  show ?thesis
  proof (cases "isSafeRemoteUrl parseUrl actor \<and> (\<exists>d. tryParseRemoteActor raw = Some d \<and> \<not> reject d)")
    case False
    then have "db' = db \<and> (\<exists>f. res = NotCached f)"
      using run by (auto simp: cacheRemoteActorDocument_def reject_def split: option.splits if_splits)
    then show ?thesis using wf by auto
  next
    case True
    then obtain d where d: "tryParseRemoteActor raw = Some d" "\<not> reject d" and safe: "isSafeRemoteUrl parseUrl actor" by blast
    let ?row = "buildActorCacheFields now raw d"
    let ?db1 = "cacheWrite parseUrl mode ?row db"
    have row: "actor_row_wf parseUrl ?row" by (rule built_wf [OF d(1)]) (use d(2) in \<open>auto simp: reject_def\<close>)
    have wf1: "actor_db_wf parseUrl ?db1" by (rule cacheWrite_wf [OF wf row])
    have key: "ra_id d = actor" using d(2) by (simp add: reject_def)
    have tombs: "adb_tombstones ?db1 = adb_tombstones db" by (simp add: cacheWrite_def)
    have accepted: "\<not> (truthy (ra_inbox d) = None \<or> \<not> isSafeRemoteUrl parseUrl (ra_id d) \<or> \<not> isSafeRemoteUrl parseUrl (the (ra_inbox d)))"
      "\<not> (requireKey \<and> (case ra_publicKey d of None \<Rightarrow> True | Some (i, k) \<Rightarrow> truthy k = None))"
      using d(2) unfolding reject_def by blast+
    have eq: "(res, db') =
        (if isRemoteActorTombstoned parseUrl (adb_tombstones db) actor then (NotCached ActorTombstoned, ?db1)
         else (case selectBy ac_apId actor (adb_cache ?db1) of Some row \<Rightarrow> (Cached d row, ?db1) | None \<Rightarrow> (NotCached FetchFailed, ?db1)))"
      unfolding run [symmetric] cacheRemoteActorDocument_def if_not_P [OF accepted(1)] if_not_P [OF accepted(2)] d(1) option.case Let_def tombs
      using safe key by (simp split: option.split)
    show ?thesis
    proof (cases "isRemoteActorTombstoned parseUrl (adb_tombstones db) actor")
      case True
      then have "?db1 = db" using key by (simp add: cacheWrite_def)
      then show ?thesis using eq True wf by simp
    next
      case False
      then have db1: "?db1 = db\<lparr>adb_cache := writeActorRow mode ?row (adb_cache db),
          adb_failures := deleteWhere (\<lambda>r. ff_actor r = actor) (adb_failures db)\<rparr>"
        using key by (simp add: cacheWrite_def)
      obtain r where sel: "selectBy ac_apId actor (adb_cache ?db1) = Some r"
        and r: "mode = CacheUpsert \<longrightarrow> (\<exists>t. r = ?row\<lparr>ar_createdAt := t\<rparr>)"
      proof (cases "selectBy ac_apId actor (adb_cache db)")
        case None
        have same: "?row = ?row\<lparr>ar_createdAt := ar_createdAt ?row\<rparr>" by simp
        show thesis by (rule that [of ?row]) (use None key same in \<open>simp add: db1 writeActorRow_select, blast\<close>)
      next
        case (Some old)
        then show thesis by (intro that [of "if mode = CacheUpsert then ?row\<lparr>ar_createdAt := ar_createdAt old\<rparr> else old"])
            (use key in \<open>auto simp: db1 writeActorRow_select\<close>)
      qed
      have "res = Cached d r \<and> db' = ?db1"
        using eq False sel by simp
      then show ?thesis
        using wf1 key False sel r deleteWhere_gone [of ff_actor actor "adb_failures db"] writeActorRow_select [of _ mode ?row "adb_cache db"]
        by (auto simp: db1)
    qed
  qed
qed

text \<open>
  What a fetch leaves behind. A fetch that fails for any reason changes nothing, and an
  actor that deleted itself is never cached again. A fetch that succeeds is for the actor that
  was asked for, returns the cached row and clears the failures of that actor; with an upsert
  the row is the document's. The cache stays as it must be: one row per actor, safe ids and
  inboxes that are the document's own, bounded display fields, no tombstoned actor.
\<close>

theorem actor_fetch_outcome:
  assumes "actor_db_wf parseUrl db"
  shows "actor_db_wf parseUrl (snd (fetchAndUpsertActorCache parseUrl numberOf dateOf getActor now actor mode requireKey (\<lambda>db. db) (\<lambda>db. db) db)) \<and>
    (case fetchAndUpsertActorCache parseUrl numberOf dateOf getActor now actor mode requireKey (\<lambda>db. db) (\<lambda>db. db) db of
       (NotCached failure, db') \<Rightarrow> db' = db
     | (Cached d row, db') \<Rightarrow>
         ra_id d = actor \<and> selectBy ac_apId actor (adb_cache db') = Some row \<and>
         \<not> isRemoteActorTombstoned parseUrl (adb_tombstones db) actor \<and>
         selectBy ff_actor actor (adb_failures db') = None \<and>
         (mode = CacheUpsert \<longrightarrow> (\<exists>raw t. getActor actor = GetJson raw \<and> row = buildActorCacheFields now raw d\<lparr>ar_createdAt := t\<rparr>)) \<and>
         (\<forall>k. k \<noteq> actor \<longrightarrow> selectBy ac_apId k (adb_cache db') = selectBy ac_apId k (adb_cache db)))"
proof -
  obtain res db' where run: "fetchAndUpsertActorCache parseUrl numberOf dateOf getActor now actor mode requireKey (\<lambda>db. db) (\<lambda>db. db) db = (res, db')"
    by fastforce
  show ?thesis
  proof (cases "isSafeRemoteUrl parseUrl actor \<and> (\<exists>raw. getActor actor = GetJson raw)")
    case False
    then have "db' = db \<and> (\<exists>f. res = NotCached f)"
      using run by (auto simp: fetchAndUpsertActorCache_def split: actor_response.splits if_splits)
    then show ?thesis unfolding run using assms by auto
  next
    case True
    then obtain raw where raw: "getActor actor = GetJson raw" "isSafeRemoteUrl parseUrl actor" by blast
    then have "cacheRemoteActorDocument parseUrl now actor raw mode requireKey (\<lambda>db. db) (\<lambda>db. db) db = (res, db')"
      using run by (simp add: fetchAndUpsertActorCache_def)
    from cache_document_outcome [OF assms this] show ?thesis
      unfolding run using raw(1) by (cases res) auto
  qed
qed

definition exampleActorDb :: actor_db where
  "exampleActorDb = \<lparr>adb_cache = [], adb_failures = [newLease ''https://a.com/users/bob'' ''t'' 0], adb_tombstones = []\<rparr>"

theorem actor_fetch_outcome_witness:
  "\<exists>d row db'. fetchAndUpsertActorCache exampleParser (\<lambda>_. NaN) (\<lambda>_. None) (\<lambda>_. GetJson (actorJson exampleActorDoc)) 5
       ''https://a.com/users/bob'' CacheUpsert True (\<lambda>db. db) (\<lambda>db. db) exampleActorDb = (Cached d row, db') \<and>
     ra_id d = ''https://a.com/users/bob'' \<and> selectBy ff_actor ''https://a.com/users/bob'' (adb_failures db') = None"
proof -
  let ?run = "fetchAndUpsertActorCache exampleParser (\<lambda>_. NaN) (\<lambda>_. None) (\<lambda>_. GetJson (actorJson exampleActorDoc)) 5
       ''https://a.com/users/bob'' CacheUpsert True (\<lambda>db. db) (\<lambda>db. db) exampleActorDb"
  have wf: "actor_db_wf exampleParser exampleActorDb" by (simp add: actor_db_wf_def exampleActorDb_def keysUnique_def)
  have ok: "case fst ?run of Cached d row \<Rightarrow> True | NotCached f \<Rightarrow> False" by code_simp
  then obtain d row db' where run: "?run = (Cached d row, db')" by (cases ?run) (auto split: cache_result.splits)
  show ?thesis
    using actor_fetch_outcome [OF wf, of "\<lambda>_. NaN" "\<lambda>_. None" "\<lambda>_. GetJson (actorJson exampleActorDoc)" 5 "''https://a.com/users/bob''"
        CacheUpsert True] run by auto
qed

lemma claimed_row:
  assumes "keysUnique ff_actor rows" "claimRemoteActorFetch a tok now (\<lambda>rows. rows) rows = (Owned t, rows')"
  obtains r where "keysUnique ff_actor rows'" "selectBy ff_actor a rows' = Some r" "ff_kind r \<noteq> Gone"
    "notLaterThan (ff_retryAt r) now" "ff_processingToken r = Some tok" "ff_leaseExpiresAt r = Some (now + REMOTE_ACTOR_FETCH_LEASE_MS)"
proof (cases "selectBy ff_actor a rows")
  case None
  then have rows': "rows' = rows @ [newLease a tok now]" using assms(2) by (auto simp: claimRemoteActorFetch_def)
  moreover have "a \<notin> ff_actor ` set rows" using None by (simp add: selectBy_None_iff keySet_def)
  ultimately show thesis
    using that [of "newLease a tok now"] assms(1) None
    by (simp add: keysUnique_def selectBy_append newLease_def notLaterThan_def)
next
  case (Some r0)
  let ?f = "\<lambda>r. r\<lparr>ff_processingToken := Some tok, ff_leaseExpiresAt := Some (now + REMOTE_ACTOR_FETCH_LEASE_MS), ff_updatedAt := now\<rparr>"
  have won: "0 < affectedRows (leaseClaimable a now) rows" and rows': "rows' = updateWhere (leaseClaimable a now) ?f rows"
    using assms(2) Some by (auto simp: claimRemoteActorFetch_def Let_def split: if_splits option.splits)
  obtain r where r: "selectBy ff_actor a rows = Some r" "leaseClaimable a now r" by (rule claim_some [OF assms(1) won])
  have keep: "\<And>r. leaseClaimable a now r \<Longrightarrow> ff_actor (?f r) = ff_actor r" by simp
  show thesis
    by (rule that [of "?f r"])
      (use r assms(1) selectBy_updateWhere [of "leaseClaimable a now" ff_actor ?f a rows, OF keep]
          keysUnique_updateWhere [of "leaseClaimable a now" ff_actor ?f rows, OF keep] rows'
        in \<open>auto simp: leaseClaimable_def\<close>)
qed

lemma claimable_count:
  assumes "keysUnique ff_actor rows" "selectBy ff_actor a rows = Some r"
  shows "affectedRows (leaseClaimable a now) rows = (if leaseClaimable a now r then 1 else 0)"
  using affectedRows_key [OF assms(1), of "leaseClaimable a now" a] claimable_key assms(2) by simp



lemma recorded_row:
  assumes "keysUnique ff_actor (adb_failures db)"
  obtains row where "selectBy ff_actor a (adb_failures (snd (recordRemoteActorFetchFailure a failure now None (\<lambda>db. db) db))) = Some row"
    "keysUnique ff_actor (adb_failures (snd (recordRemoteActorFetchFailure a failure now None (\<lambda>db. db) db)))"
    "\<exists>n cr. row = failureRow a failure n now cr"
proof (cases "selectBy ff_actor a (adb_failures db)")
  case None
  let ?row = "failureRow a failure 1 now now"
  have "a \<notin> ff_actor ` set (adb_failures db)" using None by (simp add: selectBy_None_iff keySet_def)
  then show thesis
    using that [of ?row] assms None
    by (auto simp: recordRemoteActorFetchFailure_def truthy_def Let_def keysUnique_def selectBy_append)
next
  case (Some r)
  let ?n = "min (ff_failureCount r + 1) 1000000"
  let ?f = "\<lambda>r. failureRow a failure ?n now (ff_createdAt r)"
  have keep: "\<And>r. ff_actor r = a \<Longrightarrow> ff_actor (?f r) = ff_actor r" by simp
  have "snd (recordRemoteActorFetchFailure a failure now None (\<lambda>db. db) db) = db\<lparr>adb_failures := updateWhere (\<lambda>r. ff_actor r = a) ?f (adb_failures db)\<rparr>"
    using Some by (simp add: recordRemoteActorFetchFailure_def truthy_def Let_def)
  then show thesis
    using that [of "?f r"] Some assms selectBy_updateWhere [of "\<lambda>r. ff_actor r = a" ff_actor ?f a, OF keep]
      keysUnique_updateWhere [of "\<lambda>r. ff_actor r = a" ff_actor ?f, OF keep] selectBy_SomeD [OF Some]
    by auto
qed

lemma backoff_bounds:
  assumes "remoteWish failure \<le> 24 * 60 * 60"
  shows "30 \<le> backoffWindow kind n failure \<and> backoffWindow kind n failure \<le> 24 * 60 * 60 \<and> remoteWish failure \<le> backoffWindow kind n failure"
proof -
  define e where "e = (2::int) ^ nat (min (max 0 (n - 1)) 8)"
  have "1 \<le> e" by (simp add: e_def)
  define x where "x = (if kind = Invalid then 5 * 60 else 30) * e"
  have "30 \<le> x" using \<open>1 \<le> e\<close> by (cases "kind = Invalid") (auto simp: x_def)
  moreover have "backoffWindow kind n failure = max (min (60 * 60) x) (remoteWish failure)"
    unfolding backoffWindow_def e_def [symmetric] fetch_constants x_def ..
  ultimately show ?thesis using assms by (simp add: max_def min_def)
qed

text \<open>
  A failed fetch silences the actor for the right time. A server that answers 410, or a
  tombstone, ends it: every later lookup reports the actor as gone and no claim is granted.
  After any other failure there is a window between thirty seconds and a day, never shorter
  than what the server asked for: inside it every lookup reports the cooldown, with a delay of
  at least a second that reaches the end of the window, and claims are refused; when it is over
  lookups report nothing and a claim is granted.
\<close>

theorem fetch_backoff_window:
  assumes "keysUnique ff_actor (adb_failures db)" and "remoteWish failure \<le> 24 * 60 * 60"
  shows "\<exists>rows d. rows = adb_failures (snd (recordRemoteActorFetchFailure actor failure now None (\<lambda>db. db) db)) \<and>
    (if classifyFetchFailure failure = Gone then
       \<forall>t tok. (\<exists>st. getRemoteActorFetchFailure rows actor t = Some st \<and> fs_kind st = Gone) \<and>
         (\<exists>st. claimRemoteActorFetch actor tok t (\<lambda>rows. rows) rows = (NotOwned st, rows))
     else
       30 \<le> d \<and> remoteWish failure \<le> d \<and> d \<le> 24 * 60 * 60 \<and>
       (\<forall>t tok. if t < now + 1000 * d then
           (\<exists>st s. getRemoteActorFetchFailure rows actor t = Some st \<and> fs_retryAfterSeconds st = Some s \<and> 1 \<le> s \<and>
              (now \<le> t \<longrightarrow> now + 1000 * d \<le> t + 1000 * s)) \<and>
           (\<exists>st. claimRemoteActorFetch actor tok t (\<lambda>rows. rows) rows = (NotOwned st, rows))
         else getRemoteActorFetchFailure rows actor t = None \<and>
           fst (claimRemoteActorFetch actor tok t (\<lambda>rows. rows) rows) = Owned tok))"
proof -
  let ?rows = "adb_failures (snd (recordRemoteActorFetchFailure actor failure now None (\<lambda>db. db) db))"
  obtain row where sel: "selectBy ff_actor actor ?rows = Some row" and u: "keysUnique ff_actor ?rows"
    and "\<exists>n cr. row = failureRow actor failure n now cr"
    by (rule recorded_row [OF assms(1)])
  then obtain n cr where row: "row = failureRow actor failure n now cr" by blast
  define d where "d = backoffWindow (classifyFetchFailure failure) n failure"
  have r: "ff_kind row = classifyFetchFailure failure" "ff_processingToken row = None" "ff_actor row = actor"
    "ff_retryAt row = (if classifyFetchFailure failure = Gone then None else Some (now + 1000 * d))"
    by (simp_all add: row failureRow_def Let_def failureBackoff_eq d_def)
  note count = claimable_count [OF u sel]
  show ?thesis
  proof (cases "classifyFetchFailure failure = Gone")
    case True
    then have "\<not> leaseClaimable actor t row" for t using r by (simp add: leaseClaimable_def)
    then show ?thesis
      using True r sel count by (intro exI [of _ ?rows] exI [of _ 0])
        (simp add: getRemoteActorFetchFailure_def stateFromRow_def claimRemoteActorFetch_def Let_def)
  next
    case False
    have can: "leaseClaimable actor t row \<longleftrightarrow> now + 1000 * d \<le> t" for t
      using False r by (simp add: leaseClaimable_def notLaterThan_def)
    have get: "getRemoteActorFetchFailure ?rows actor t = (if now + 1000 * d \<le> t then None else Some (stateFromRow row t))" for t
      using False r sel by (simp add: getRemoteActorFetchFailure_def)
    have wait: "fs_retryAfterSeconds (stateFromRow row t) = Some (clampSeconds (of_int (now + 1000 * d - t) / 1000) MAX_REMOTE_RETRY_AFTER_SECONDS)" for t
      using False r by (simp add: stateFromRow_def)
    have bounds: "30 \<le> d" "d \<le> 24 * 60 * 60" 
      using backoff_bounds [OF assms(2), of "classifyFetchFailure failure" n] by (simp_all add: d_def)
    have covers: "now + 1000 * d \<le> t + 1000 * clampSeconds (of_int (now + 1000 * d - t) / 1000) MAX_REMOTE_RETRY_AFTER_SECONDS" if "now \<le> t" for t
      by (rule clampSeconds_covers) (use that bounds(2) in \<open>simp add: MAX_REMOTE_RETRY_AFTER_SECONDS_def\<close>)
    have pos: "1 \<le> clampSeconds q MAX_REMOTE_RETRY_AFTER_SECONDS" for q
      using clampSeconds_bounds [of MAX_REMOTE_RETRY_AFTER_SECONDS q] by (simp add: MAX_REMOTE_RETRY_AFTER_SECONDS_def)
    have claim: "claimRemoteActorFetch actor tok t (\<lambda>rows. rows) ?rows = (NotOwned (currentFailureOrLease row t), ?rows)"
      if "t < now + 1000 * d" for t tok using that can count sel by (simp add: claimRemoteActorFetch_def Let_def)
    have granted: "fst (claimRemoteActorFetch actor tok t (\<lambda>rows. rows) ?rows) = Owned tok"
      if "now + 1000 * d \<le> t" for t tok using that can count sel by (simp add: claimRemoteActorFetch_def)
    have wish: "remoteWish failure \<le> d" using backoff_bounds [OF assms(2)] by (simp add: d_def)
    have "if t < now + 1000 * d then
           (\<exists>st s. getRemoteActorFetchFailure ?rows actor t = Some st \<and> fs_retryAfterSeconds st = Some s \<and> 1 \<le> s \<and>
              (now \<le> t \<longrightarrow> now + 1000 * d \<le> t + 1000 * s)) \<and>
           (\<exists>st. claimRemoteActorFetch actor tok t (\<lambda>rows. rows) ?rows = (NotOwned st, ?rows))
         else getRemoteActorFetchFailure ?rows actor t = None \<and>
           fst (claimRemoteActorFetch actor tok t (\<lambda>rows. rows) ?rows) = Owned tok" for t tok
    proof (cases "t < now + 1000 * d")
      case True
      then have "getRemoteActorFetchFailure ?rows actor t = Some (stateFromRow row t)" by (simp add: get)
      then show ?thesis using True wait covers [of t] pos claim [OF True] by auto
    next
      case False
      then show ?thesis using get granted by simp
    qed
    then show ?thesis
      unfolding if_not_P [OF False] using bounds wish by (intro exI [of _ ?rows] exI [of _ d]) (intro conjI allI refl)
  qed
qed

theorem fetch_backoff_window_witness:
  "\<exists>rows. rows = adb_failures (snd (recordRemoteActorFetchFailure ''a'' (FetchNotOk 410 None) 5 None (\<lambda>db. db) \<lparr>adb_cache = [], adb_failures = [], adb_tombstones = []\<rparr>)) \<and>
     (\<exists>st. getRemoteActorFetchFailure rows ''a'' 1000000000000 = Some st \<and> fs_kind st = Gone)"
  using fetch_backoff_window [of "\<lparr>adb_cache = [], adb_failures = [], adb_tombstones = []\<rparr>" "FetchNotOk 410 None" "''a''" 5]
  by (auto simp: keysUnique_def remoteWish_def classifyFetchFailure_def)

text \<open>The interfaces at work: a token records once, and the reaper ends.\<close>

lemma fetch_token_settles_once:
  "freshTokens evs \<Longrightarrow> distinct (map snd (fst (fenceRun leaseClaim leaseSettle leaseSweep evs \<lparr>adb_cache = cache, adb_failures = [], adb_tombstones = tombs\<rparr>)))"
  by (rule fetch_fence.settles_once) (simp_all add: ledger_wf_def keysUnique_def tokensApart_def leaseToken_def)

lemmas reaper_converges = fetch_retention.sweeps_converge fetch_retention.sweeps_keep

end
