(* ===== verification/Social.thy ===== *)
theory Social
  imports Blocklist
begin

section \<open>The tables of the social graph\<close>

text \<open>
  The rows of \<open>src/db/schema\<close> that the read gates, the notifications and the delivery
  workers share, with the columns those components use. A text column that the code compares
  as text stays a string. The columns \<open>to_json\<close> and \<open>cc_json\<close>, which the code only
  writes as JSON arrays of strings, are the list (\<open>None\<close> for text that does not parse);
  \<open>audience_json\<close>, whose shape every reader checks, is an arbitrary JSON value.
\<close>

record follow =
  fw_followerApId :: string
  fw_followingApId :: string
  fw_status :: string

record follow_row = follow +
  fw_activityApId :: "string option"
  fw_createdAt :: string
  fw_acceptedAt :: "string option"

record community_row =
  cy_apId :: string
  cy_visibility :: "string option"
  cy_deletedAt :: "string option"

record member_row =
  mb_community :: string
  mb_actor :: string
  mb_joinedAt :: string

record recipient_row =
  rp_object :: string
  rp_recipient :: string
  rp_type :: string

type_synonym addressees = "string list option"

record object_row =
  ob_apId :: string
  ob_type :: string
  ob_attributedTo :: string
  ob_content :: string
  ob_inReplyTo :: "string option"
  ob_conversation :: "string option"
  ob_visibility :: string
  ob_to :: addressees
  ob_cc :: addressees
  ob_audience :: json_text
  ob_community :: "string option"
  ob_endTime :: "string option"
  ob_published :: string

record activity_row =
  av_apId :: string
  av_type :: string
  av_actor :: string
  av_object :: "string option"

text \<open>The database, as far as these components read it.\<close>

record social =
  so_objects :: "object_row list"
  so_activities :: "activity_row list"
  so_recipients :: "recipient_row list"
  so_communities :: "community_row list"
  so_members :: "member_row list"
  so_follows :: "follow_row list"
  so_blocks :: "(string \<times> string) list"
  so_mutes :: "(string \<times> string) list"
  so_blocklist :: blocklist

subsection \<open>Splitting the ids of a query\<close>

text \<open>\<open>chunkForInClause\<close> of \<open>chunk.ts\<close>, with its default size.\<close>

definition D1_IN_CHUNK :: nat where "D1_IN_CHUNK = 90"

definition chunkForInClause :: "'a list \<Rightarrow> 'a list list" where
  "chunkForInClause items =
     (if items = [] then [] else if length items \<le> D1_IN_CHUNK then [items] else chunksOf D1_IN_CHUNK items)"

lemma concat_chunkForInClause [simp]: "concat (chunkForInClause items) = items"
  using concat_chunksOf [of D1_IN_CHUNK items] by (simp add: chunkForInClause_def D1_IN_CHUNK_def)

lemma chunkForInClause_bound: "chunk \<in> set (chunkForInClause items) \<Longrightarrow> 0 < length chunk \<and> length chunk \<le> D1_IN_CHUNK"
  using chunksOf_bound [of chunk D1_IN_CHUNK items] by (auto simp: chunkForInClause_def split: if_splits)

text \<open>A query that is run chunk by chunk sees what one query over all ids would see.\<close>

lemma chunked_rows:
  "(\<exists>chunk \<in> set (chunkForInClause ids). \<exists>r \<in> set rows. key r \<in> set chunk \<and> P r) \<longleftrightarrow> (\<exists>r \<in> set rows. key r \<in> set ids \<and> P r)"
proof -
  have "set ids = (\<Union>chunk \<in> set (chunkForInClause ids). set chunk)"
    by (metis concat_chunkForInClause set_concat)
  then show ?thesis by auto
qed

end
