(* ===== verification/DeliveryWorld.thy ===== *)
theory DeliveryWorld
  imports Circuit ResolutionOutbox FanoutOutbox DeliveryJobs ActorCache Social
begin

section \<open>The state the delivery workers share\<close>

text \<open>
  The state of the queue consumers of \<open>src/backend/lib/delivery\<close>: the tables they write,
  the two queues, the POSTs they made and the verdicts (ack or retry) on the message at hand.
  What the consumers only read, and what is outside the repository's control (bindings, the
  answer of a producer, HTTP, signatures, random numbers), is the environment. The senders of
  \<open>queue.ts\<close> and the re-resolution of the actors of an endpoint are here, because every
  worker uses them.
\<close>

datatype verdict = Ack | Retry secs

record post_request =
  po_url :: string
  po_body :: string
  po_keyId :: string
  po_probe :: bool

record dworld =
  w_jobs :: job_db
  w_circuits :: circuit_table
  w_cache :: "actor_row list"
  w_fetchFailures :: "fetch_failure_row list"
  w_resolutions :: "resolution list"
  w_fanouts :: "fanout list"
  w_inbox :: "(string \<times> string) list"
  w_sent :: "(qmsg \<times> secs option) list"
  w_dlq :: "dlqmsg list"
  w_posts :: "post_request list"
  w_verdicts :: "verdict list"

text \<open>An HTTP response has a status; an error that is an \<open>Error\<close> has a message.\<close>

datatype http_result = HttpResponse int | HttpFailed "string option"

text \<open>A row of \<open>follows\<close>, and (below) the members as pairs of a community and an actor.\<close>

record denv =
  e_bound :: bool
  e_port :: queue_port
  e_dlqOk :: "dlqmsg \<Rightarrow> bool"
  e_parseUrl :: url_parser
  e_sha :: "string \<Rightarrow> string"
  e_isoText :: "ms \<Rightarrow> string"
  e_activities :: "(string \<times> string \<times> string) list"
  e_actorKeys :: "(string \<times> string) list"
  e_communityKeys :: "(string \<times> string) list"
  e_instanceKeys :: "(string \<times> string) list"
  e_sign :: "string \<Rightarrow> string \<Rightarrow> string \<Rightarrow> string \<Rightarrow> string option"
  e_http :: "post_request \<Rightarrow> http_result"
  e_random :: rat
  e_probeHosts :: "string option"
  e_probeSampleRate :: "string option"
  e_numberOf :: "string \<Rightarrow> jsnum"
  e_blocklist :: blocklist
  e_blocklistReadable :: bool
  e_appUrl :: string
  e_follows :: "follow list"
  e_members :: "(string \<times> string) list"
  e_getActor :: "string \<Rightarrow> actor_response"
  e_dateOf :: "string \<Rightarrow> ms option"
  e_actorTablesOk :: bool

subsection \<open>Senders\<close>

definition ackMessage :: "(dworld, unit) act" where
  "ackMessage = effect (\<lambda>w. w\<lparr>w_verdicts := w_verdicts w @ [Ack]\<rparr>)"

definition retryMessage :: "secs \<Rightarrow> (dworld, unit) act" where
  "retryMessage d = effect (\<lambda>w. w\<lparr>w_verdicts := w_verdicts w @ [Retry d]\<rparr>)"

text \<open>A worker without its bindings drops the message; the answer says whether to go on.\<close>

definition requireQueue :: "denv \<Rightarrow> (dworld, bool) act" where
  "requireQueue env = (if e_bound env then ret True else andThen ackMessage (\<lambda>_. ret False))"

definition sendQueueMessage :: "denv \<Rightarrow> qmsg \<Rightarrow> secs \<Rightarrow> (dworld, unit) act" where
  "sendQueueMessage env body delaySeconds =
     (if \<not> e_bound env then ret ()
      else if e_port env [body] \<noteq> None then throw ''queue unavailable''
      else effect (\<lambda>w. w\<lparr>w_sent := w_sent w @ [(body, if delaySeconds = 0 then None else Some delaySeconds)]\<rparr>))"

definition sendQueueMessageRequired :: "denv \<Rightarrow> qmsg \<Rightarrow> secs \<Rightarrow> (dworld, unit) act" where
  "sendQueueMessageRequired env body delaySeconds =
     (if \<not> e_bound env then throw ''DELIVERY_QUEUE and DELIVERY_DLQ bindings are required''
      else sendQueueMessage env body delaySeconds)"

definition sendDlqMessage :: "denv \<Rightarrow> dlqmsg \<Rightarrow> (dworld, unit) act" where
  "sendDlqMessage env payload =
     (if \<not> e_bound env then throw ''DELIVERY_QUEUE and DELIVERY_DLQ bindings are required''
      else if \<not> e_dlqOk env payload then throw ''dlq unavailable''
      else effect (\<lambda>w. w\<lparr>w_dlq := w_dlq w @ [payload]\<rparr>))"

text \<open>An action of the outboxes, on their table inside the world.\<close>

definition onResolutions :: "(resolution outbox, 'a) act \<Rightarrow> (dworld, 'a) act" where
  "onResolutions m w =
     (case m \<lparr>ob_rows = w_resolutions w, ob_sent = []\<rparr> of
        (r, ob) \<Rightarrow> (r, w\<lparr>w_resolutions := ob_rows ob, w_sent := w_sent w @ map (\<lambda>b. (b, None)) (ob_sent ob)\<rparr>))"

definition onFanouts :: "(fanout outbox, 'a) act \<Rightarrow> (dworld, 'a) act" where
  "onFanouts m w =
     (case m \<lparr>ob_rows = w_fanouts w, ob_sent = []\<rparr> of
        (r, ob) \<Rightarrow> (r, w\<lparr>w_fanouts := ob_rows ob, w_sent := w_sent w @ map (\<lambda>b. (b, None)) (ob_sent ob)\<rparr>))"

definition onJobs :: "(djob list \<Rightarrow> 'a \<times> djob list) \<Rightarrow> (dworld, 'a) act" where
  "onJobs f w =
     (case f (db_jobs (w_jobs w)) of (a, rows) \<Rightarrow> (Inr a, w\<lparr>w_jobs := (w_jobs w)\<lparr>db_jobs := rows\<rparr>\<rparr>))"

text \<open>A batch of messages without delay, as the producers of the workers send it.\<close>

definition sendBatchW :: "denv \<Rightarrow> qmsg list \<Rightarrow> (dworld, unit) act" where
  "sendBatchW env msgs w =
     (case e_port env msgs of
        None \<Rightarrow> (Inr (), w\<lparr>w_sent := w_sent w @ map (\<lambda>b. (b, None)) msgs\<rparr>)
      | Some n \<Rightarrow> (Inl ''queue unavailable'', w\<lparr>w_sent := w_sent w @ map (\<lambda>b. (b, None)) (take n msgs)\<rparr>))"

subsection \<open>Keyset pages\<close>

text \<open>\<open>WHERE id > cursor ORDER BY id LIMIT n\<close> over the ids of a table with that key.\<close>

definition afterCursor :: "string option \<Rightarrow> string \<Rightarrow> bool" where
  "afterCursor cursor i = (case cursor of None \<Rightarrow> True | Some c \<Rightarrow> c < i)"

definition pageAfter :: "nat \<Rightarrow> string option \<Rightarrow> string list \<Rightarrow> string list" where
  "pageAfter limit cursor ids = take limit (sort (filter (afterCursor cursor) ids))"

lemma length_after_page:
  assumes "pageAfter limit cursor ids \<noteq> []"
  shows "length (filter (afterCursor (Some (last (pageAfter limit cursor ids)))) ids) < length (filter (afterCursor cursor) ids)"
proof -
  let ?c = "last (pageAfter limit cursor ids)"
  have "?c \<in> set (pageAfter limit cursor ids)" using assms by (rule last_in_set)
  then have c: "?c \<in> set ids" "afterCursor cursor ?c"
    using set_take_subset [of limit "sort (filter (afterCursor cursor) ids)"] by (auto simp: pageAfter_def)
  have imp: "afterCursor (Some ?c) i \<Longrightarrow> afterCursor cursor i" for i
    using c(2) by (auto simp: afterCursor_def split: option.splits)
  have "filter (afterCursor (Some ?c)) ids = filter (afterCursor (Some ?c)) (filter (afterCursor cursor) ids)"
    using imp by (auto simp: filter_filter intro: filter_cong)
  moreover have "length (filter (afterCursor (Some ?c)) (filter (afterCursor cursor) ids)) < length (filter (afterCursor cursor) ids)"
    by (rule length_filter_less [of ?c]) (use c in \<open>auto simp: afterCursor_def\<close>)
  ultimately show ?thesis by simp
qed

subsection \<open>Re-resolution of the actors of an endpoint\<close>

definition RERESOLVE_PAGE_SIZE :: nat where "RERESOLVE_PAGE_SIZE = 200"
definition RERESOLVE_BATCH_SIZE :: nat where "RERESOLVE_BATCH_SIZE = 100"
definition RERESOLVE_MAX_ACTORS :: nat where "RERESOLVE_MAX_ACTORS = 2000"

text \<open>The batches of one page: until the page or the budget of actors is used up.\<close>

fun reresolveBatches :: "denv \<Rightarrow> string \<Rightarrow> ms \<Rightarrow> string list list \<Rightarrow> nat \<Rightarrow> (dworld, nat) act" where
  "reresolveBatches env activityId now [] enqueued w = (Inr enqueued, w)"
| "reresolveBatches env activityId now (batch # batches) enqueued w =
     (if RERESOLVE_MAX_ACTORS \<le> enqueued then (Inr enqueued, w)
      else
        (let candidates = filter (isSafeRemoteUrl (e_parseUrl env)) batch;
             intents = map (\<lambda>a. \<lparr>ri_activityId = activityId, ri_recipientActorApId = a\<rparr>);
             tombs = db_tombstones (w_jobs w)
         in case filterBlockedActorApIdsStrict (e_blocklistReadable env) (e_parseUrl env) (e_blocklist env) candidates of
              Inl e \<Rightarrow>
                (Inl e, w\<lparr>w_resolutions := snd (persistDeliveryResolutionJobs (e_sha env) tombs (intents candidates) now (w_resolutions w))\<rparr>)
            | Inr blockedSet \<Rightarrow>
                (let slice = filter (\<lambda>a. a \<notin> set blockedSet) candidates
                 in if slice = [] then reresolveBatches env activityId now batches enqueued w
                    else
                      (case onResolutions (enqueueDeliveryResolutionJobs (e_sha env) tombs (Some (e_port env))
                              (e_isoText env now) (intents slice) True now now) w of
                         (Inl e, w') \<Rightarrow> (Inl e, w')
                       | (Inr n, w') \<Rightarrow> reresolveBatches env activityId now batches (enqueued + length slice) w'))))"

function reresolvePages ::
  "denv \<Rightarrow> string \<Rightarrow> ms \<Rightarrow> string list \<Rightarrow> string option \<Rightarrow> nat \<Rightarrow> (dworld, nat) act" where
  "reresolvePages env activityId now ids cursor enqueued w =
     (if RERESOLVE_MAX_ACTORS \<le> enqueued then (Inr enqueued, w)
      else
        (let page = pageAfter RERESOLVE_PAGE_SIZE cursor ids
         in if page = [] then (Inr enqueued, w)
            else
              (case reresolveBatches env activityId now (chunksOf RERESOLVE_BATCH_SIZE page) enqueued w of
                 (Inl e, w') \<Rightarrow> (Inl e, w')
               | (Inr n, w') \<Rightarrow>
                   (if length page < RERESOLVE_PAGE_SIZE then (Inr n, w')
                    else reresolvePages env activityId now ids (Some (last page)) n w'))))"
  by pat_completeness auto
termination
  by (relation "measure (\<lambda>(env, act, now, ids, cursor, enqueued, w). length (filter (afterCursor cursor) ids))")
    (simp_all add: length_after_page)

declare reresolvePages.simps [simp del]

definition enqueueResolveForEndpointActors :: "denv \<Rightarrow> ms \<Rightarrow> string \<Rightarrow> string \<Rightarrow> (dworld, nat) act" where
  "enqueueResolveForEndpointActors env now activityId endpoint w =
     (if \<not> e_bound env then (Inr 0, w)
      else reresolvePages env activityId now
             (map ac_apId (filter (\<lambda>r. ac_sharedInbox r = Some endpoint \<or> ac_inbox r = endpoint) (w_cache w))) None 0 w)"

subsection \<open>Frames\<close>

text \<open>An action that leaves a part of the world as it is, whether it returns or throws.\<close>

definition keeps :: "(dworld \<Rightarrow> 'f) \<Rightarrow> (dworld, 'a) act \<Rightarrow> bool" where
  "keeps part m = (\<forall>w. part (snd (m w)) = part w)"

named_theorems keep_rules

lemma keepsD: "keeps part m \<Longrightarrow> m w = (r, w') \<Longrightarrow> part w' = part w"
  by (metis keeps_def snd_conv)

lemma keeps_ret [keep_rules]: "keeps part (ret a)"
  by (simp add: keeps_def ret_def)

lemma keeps_throw [keep_rules]: "keeps part (throw e)"
  by (simp add: keeps_def throw_def)

lemma keeps_effect [keep_rules]: "(\<And>w. part (f w) = part w) \<Longrightarrow> keeps part (effect f)"
  by (simp add: keeps_def effect_def)

lemma keeps_andThen [keep_rules]: "keeps part m \<Longrightarrow> (\<And>a. keeps part (f a)) \<Longrightarrow> keeps part (andThen m f)"
  by (auto simp: keeps_def andThen_def split: prod.splits sum.splits) (metis snd_conv)+

lemma keeps_catching [keep_rules]: "keeps part m \<Longrightarrow> (\<And>e. keeps part (f e)) \<Longrightarrow> keeps part (catching m f)"
  by (auto simp: keeps_def catching_def split: prod.splits sum.splits) (metis snd_conv)+

lemma keeps_cases [keep_rules]: "keeps part m \<Longrightarrow> keeps part m' \<Longrightarrow> keeps part (if b then m else m')"
  by simp

text \<open>What a re-resolution leaves alone: everything but its ledger and the main queue.\<close>

definition outsideResolutions where
  "outsideResolutions w = (w_jobs w, w_circuits w, w_cache w, w_dlq w, w_verdicts w, w_posts w, w_fanouts w, w_inbox w)"

lemma onResolutions_outside: "keeps outsideResolutions (onResolutions m)"
  by (simp add: keeps_def outsideResolutions_def onResolutions_def split: prod.splits)

lemma reresolveBatches_outside: "outsideResolutions (snd (reresolveBatches env act now batches n w)) = outsideResolutions w"
proof (induction batches arbitrary: n w)
  case (Cons b bs)
  have later: "outsideResolutions (snd (case onResolutions m w of (Inl e, w') \<Rightarrow> (Inl e, w')
      | (Inr x, w') \<Rightarrow> reresolveBatches env act now bs k w')) = outsideResolutions w" for m :: "(resolution outbox, nat) act" and k
    using onResolutions_outside [of m] Cons by (auto simp: keeps_def dest!: spec [of _ w] split: prod.splits sum.splits)
  have "outsideResolutions (w\<lparr>w_resolutions := rs\<rparr>) = outsideResolutions w" for rs by (simp add: outsideResolutions_def)
  then show ?case using Cons later by (simp add: Let_def split: sum.splits)
qed simp

lemma reresolvePages_outside: "outsideResolutions (snd (reresolvePages env act now ids c n w)) = outsideResolutions w"
proof (induction env act now ids c n w rule: reresolvePages.induct)
  case (1 env act now ids c n w)
  show ?case
    using 1 reresolveBatches_outside [of env act now "chunksOf RERESOLVE_BATCH_SIZE (pageAfter RERESOLVE_PAGE_SIZE c ids)" n w]
    by (subst reresolvePages.simps) (auto simp: Let_def split: sum.splits prod.splits)
qed

lemma keeps_reresolve: "keeps outsideResolutions (enqueueResolveForEndpointActors env now act ep)"
  by (simp add: keeps_def enqueueResolveForEndpointActors_def reresolvePages_outside)

subsection \<open>An example\<close>

definition exampleDelivery :: denv where
  "exampleDelivery =
     \<lparr>e_bound = True, e_port = (\<lambda>_. None), e_dlqOk = (\<lambda>_. True), e_parseUrl = exampleParser, e_sha = id,
      e_isoText = (\<lambda>_. []), e_activities = [(''act'', ''https://b.example/users/al'', ''{}'')],
      e_actorKeys = [(''https://b.example/users/al'', ''pem'')], e_communityKeys = [], e_instanceKeys = [],
      e_sign = (\<lambda>_ _ _ _. Some ''signature''), e_http = (\<lambda>_. HttpResponse 503), e_random = 1 / 2,
      e_probeHosts = None, e_probeSampleRate = None, e_numberOf = (\<lambda>_. NaN),
      e_blocklist = \<lparr>bl_actors = [], bl_domains = []\<rparr>, e_blocklistReadable = True,
      e_appUrl = ''https://b.example'', e_follows = [], e_members = [], e_getActor = (\<lambda>_. GetThrew), e_dateOf = (\<lambda>_. None), e_actorTablesOk = True\<rparr>"

definition exampleDeliveryWorld :: dworld where
  "exampleDeliveryWorld =
     \<lparr>w_jobs = \<lparr>db_jobs = [newJob ''j'' ''act'' ''https://a.com/users/bob'' 0], db_recipients = [], db_tombstones = []\<rparr>,
      w_circuits = [], w_cache = [], w_fetchFailures = [], w_resolutions = [], w_fanouts = [], w_inbox = [], w_sent = [], w_dlq = [],
      w_posts = [], w_verdicts = []\<rparr>"

end
