(* ===== verification/DeliverEndpoint.thy ===== *)
theory DeliverEndpoint
  imports DeliveryWorld
begin

section \<open>Delivering to an endpoint\<close>

text \<open>
  Models \<open>src/backend/lib/delivery/queue-delivery.ts\<close>: the worker that POSTs one signed
  activity to one endpoint. The handler is split where it waits: it reads the job and decides
  (\<open>deliverRead\<close>), claims it after waiting for the bulkhead (\<open>deliverClaim\<close>), looks up
  what it needs and POSTs (\<open>deliverPost\<close>), and records the outcome (\<open>deliverSettle\<close>). Other
  workers act in between: \<open>processDeliverEndpoint\<close> takes what they do to the world while it
  waits for the bulkhead and while the request is out, and a clock reading for each phase.
  The bulkhead itself only delays and is not part of the state here.
\<close>

subsection \<open>Classification\<close>

definition TRANSIENT_DELIVERY_4XX :: "int list" where
  "TRANSIENT_DELIVERY_4XX = [401, 404, 408, 425, 429]"

definition isPermanentDeliveryFailure :: "int option \<Rightarrow> bool" where
  "isPermanentDeliveryFailure status =
     (case status of
        None \<Rightarrow> False
      | Some s \<Rightarrow> 400 \<le> s \<and> s < 500 \<and> s \<notin> set TRANSIENT_DELIVERY_4XX)"

definition responseOk :: "http_result \<Rightarrow> bool" where
  "responseOk res = (case res of HttpResponse s \<Rightarrow> 200 \<le> s \<and> s \<le> 299 | HttpFailed e \<Rightarrow> False)"

definition statusOf :: "http_result \<Rightarrow> int option" where
  "statusOf res = (case res of HttpResponse s \<Rightarrow> Some s | HttpFailed e \<Rightarrow> None)"

definition buildErrorMessage :: "http_result \<Rightarrow> string" where
  "buildErrorMessage res =
     (case res of
        HttpResponse s \<Rightarrow> ''HTTP '' @ decimalText s
      | HttpFailed (Some m) \<Rightarrow> m
      | HttpFailed None \<Rightarrow> ''delivery_error'')"

subsection \<open>Settings\<close>

definition parseCommaSeparated :: "string option \<Rightarrow> string list" where
  "parseCommaSeparated value =
     (case value of
        None \<Rightarrow> []
      | Some v \<Rightarrow> if v = [] then [] else filter (\<lambda>s. s \<noteq> []) (map trim (splitOn (CHR '','') v)))"

definition parseSampleRate :: "(string \<Rightarrow> jsnum) \<Rightarrow> string option \<Rightarrow> rat" where
  "parseSampleRate numberOf value =
     (case value of
        None \<Rightarrow> 1
      | Some v \<Rightarrow> if v = [] then 1 else (case numberOf v of Fin n \<Rightarrow> max 0 (min 1 n) | _ \<Rightarrow> 1))"

text \<open>The signing key: of an actor (tombstoned ones included), a community, or the instance.\<close>

definition keyIn :: "(string \<times> string) list \<Rightarrow> string \<Rightarrow> (string \<times> string) option" where
  "keyIn rows apId = (case map_of rows apId of None \<Rightarrow> None | Some k \<Rightarrow> if k = [] then None else Some (apId, k))"

definition resolveSigningActor :: "denv \<Rightarrow> string \<Rightarrow> (string \<times> string) option" where
  "resolveSigningActor env actorApId =
     (case keyIn (e_actorKeys env) actorApId of
        Some r \<Rightarrow> Some r
      | None \<Rightarrow>
          (case keyIn (e_communityKeys env) actorApId of
             Some r \<Rightarrow> Some r
           | None \<Rightarrow> keyIn (e_instanceKeys env) actorApId))"

subsection \<open>Phases\<close>

definition failJob :: "(djob \<Rightarrow> bool) \<Rightarrow> string \<Rightarrow> string \<Rightarrow> ms \<Rightarrow> (dworld, unit) act" where
  "failJob fence jobId err now =
     andThen (onJobs (\<lambda>rows. ((), failJobRows fence jobId err now rows))) (\<lambda>_. ackMessage)"

datatype deliver_plan = DeliverDone | DeliverAttempt djob string

definition deliverRead :: "denv \<Rightarrow> ms \<Rightarrow> string \<Rightarrow> (dworld, deliver_plan) act" where
  "deliverRead env now jobId w =
     (let done = (\<lambda>m. andThen m (\<lambda>_. ret DeliverDone));
          wakeLater = (\<lambda>job d. done (andThen (sendQueueMessage env
             (buildDeliverEndpointMessage (e_isoText env now) (dj_id job) (dj_reconcileAttempt job)) d) (\<lambda>_. ackMessage)))
      in case selectBy dj_id jobId (db_jobs (w_jobs w)) of
           None \<Rightarrow> done ackMessage w
         | Some job \<Rightarrow>
             (if jobTerminal (dj_status job) then
                (if dj_status job = DqDeadLetter \<and> dj_dlqPending job
                 then done (andThen (sendDlqMessage env
                        \<lparr>d_jobId = dj_id job, d_activityId = dj_activityApId job, d_endpoint = dj_inboxUrl job,
                         d_attempts = dj_attempts job, d_lastError = dj_error job,
                         d_reconcileAttempt = Some (dj_reconcileAttempt job),
                         d_deadLetteredAt = e_isoText env (case dj_lastAttemptAt job of None \<Rightarrow> now | Some t \<Rightarrow> t)\<rparr>)
                      (\<lambda>_. ackMessage)) w
                 else done ackMessage w)
              else if now < dj_nextAttemptAt job then wakeLater job (deferSecondsUntil (dj_nextAttemptAt job) now) w
              else if dj_status job = DqProcessing \<and>
                      (case dj_processingStartedAt job of None \<Rightarrow> False | Some s \<Rightarrow> now - s < STALE_PROCESSING_MS)
              then wakeLater job 30 w
              else
                (case safeEndpointHost (e_parseUrl env) (dj_inboxUrl job) of
                   None \<Rightarrow> done (failJob (unchangedFence job) (dj_id job) ''invalid_endpoint'' now) w
                 | Some host \<Rightarrow>
                     (case checkCircuit now (w_circuits w) (dj_inboxUrl job) of
                        (Defer d, circuits) \<Rightarrow> wakeLater job d (w\<lparr>w_circuits := circuits\<rparr>)
                      | (Allow, circuits) \<Rightarrow> (Inr (DeliverAttempt job host), w\<lparr>w_circuits := circuits\<rparr>)))))"

definition deliverClaim :: "djob \<Rightarrow> string \<Rightarrow> ms \<Rightarrow> (dworld, bool) act" where
  "deliverClaim job token now =
     andThen (onJobs (claimJob job token now))
       (\<lambda>claimed. if claimed then ret True else andThen ackMessage (\<lambda>_. ret False))"

text \<open>What was POSTed and what came back; \<open>None\<close> when the job was failed instead.\<close>

definition deliverPost ::
  "denv \<Rightarrow> djob \<Rightarrow> string \<Rightarrow> ms \<Rightarrow> (dworld, (string \<times> string \<times> string \<times> http_result) option) act" where
  "deliverPost env job token now w =
     (let own = ownership (dj_id job) (dj_reconcileAttempt job) token;
          failed = (\<lambda>err. andThen (failJob own (dj_id job) err now) (\<lambda>_. ret None))
      in case map_of (e_activities env) (dj_activityApId job) of
           None \<Rightarrow> failed ''activity_not_found'' w
         | Some (actorApId, rawJson) \<Rightarrow>
             (case resolveSigningActor env actorApId of
                None \<Rightarrow> failed ''signing_actor_not_found'' w
              | Some (senderApId, privateKeyPem) \<Rightarrow>
                  (let keyId = senderApId @ ''#main-key'';
                       req = \<lparr>po_url = dj_inboxUrl job, po_body = rawJson, po_keyId = keyId, po_probe = False\<rparr>
                   in case e_sign env privateKeyPem keyId (dj_inboxUrl job) rawJson of
                        None \<Rightarrow> (Inl ''signing failed'', w)
                      | Some headers \<Rightarrow>
                          (Inr (Some (senderApId, privateKeyPem, rawJson, e_http env req)), w\<lparr>w_posts := w_posts w @ [req]\<rparr>))))"

text \<open>The staging-only probe of a personal inbox after a delivery to its shared inbox.\<close>

definition maybeShadowProbeInbox :: "denv \<Rightarrow> string \<Rightarrow> string \<Rightarrow> string \<times> string \<Rightarrow> string \<Rightarrow> (dworld, unit) act" where
  "maybeShadowProbeInbox env sharedInboxEndpoint endpointHost sender body w =
     (let allowedHosts = parseCommaSeparated (e_probeHosts env);
          sampleRate = parseSampleRate (e_numberOf env) (e_probeSampleRate env)
      in if allowedHosts = [] \<or> endpointHost \<notin> set allowedHosts then (Inr (), w)
         else if sampleRate \<le> 0 then (Inr (), w)
         else if sampleRate < 1 \<and> sampleRate < e_random env then (Inr (), w)
         else
           (case find (\<lambda>r. ac_sharedInbox r = Some sharedInboxEndpoint) (w_cache w) of
              None \<Rightarrow> (Inr (), w)
            | Some rep \<Rightarrow>
                (if ac_inbox rep = [] \<or> \<not> isSafeRemoteUrl (e_parseUrl env) (ac_inbox rep) then (Inr (), w)
                 else
                   (case e_sign env (snd sender) (fst sender @ ''#main-key'') (ac_inbox rep) body of
                      None \<Rightarrow> (Inl ''signing failed'', w)
                    | Some headers \<Rightarrow>
                        (Inr (), w\<lparr>w_posts := w_posts w @ [\<lparr>po_url = ac_inbox rep, po_body = body,
                                     po_keyId = fst sender @ ''#main-key'', po_probe = True\<rparr>]\<rparr>)))))"

text \<open>
  The bookkeeping after a 2xx answer. The two writes may fail: \<open>writes\<close> says how many succeed
  (2 when none fails); the message is acked in every case.
\<close>

definition deliverSuccess :: "denv \<Rightarrow> nat \<Rightarrow> djob \<Rightarrow> string \<Rightarrow> string \<Rightarrow> ms \<Rightarrow> string \<times> string \<Rightarrow> string \<Rightarrow> (dworld, unit) act" where
  "deliverSuccess env writes job host token now sender body =
     (let own = ownership (dj_id job) (dj_reconcileAttempt job) token
      in andThen (if 1 \<le> writes then onJobs (\<lambda>rows. ((), markDelivered own now rows)) else ret ())
         (\<lambda>_. andThen (if 2 \<le> writes
            then effect (\<lambda>w. w\<lparr>w_circuits := recordCircuitSuccess (w_circuits w) (dj_inboxUrl job)\<rparr>) else ret ())
         (\<lambda>_. if writes < 2 then ackMessage
            else andThen (if dj_attempts job = 0
                   then catching (maybeShadowProbeInbox env (dj_inboxUrl job) host sender body) (\<lambda>e. ret ())
                   else ret ())
                 (\<lambda>_. ackMessage))))"

definition invalidateEndpoint :: "string \<Rightarrow> actor_row list \<Rightarrow> actor_row list" where
  "invalidateEndpoint endpoint cache =
     updateWhere (\<lambda>r. ac_inbox r = endpoint) (\<lambda>r. r\<lparr>ac_lastFetchedAt := Some 0\<rparr>)
       (updateWhere (\<lambda>r. ac_sharedInbox r = Some endpoint) (\<lambda>r. r\<lparr>ac_sharedInbox := None, ac_lastFetchedAt := Some 0\<rparr>) cache)"

text \<open>The outcome of a failed POST: final, retried with the backoff, or a dead letter.\<close>

definition settleFailure :: "denv \<Rightarrow> djob \<Rightarrow> string \<Rightarrow> ms \<Rightarrow> http_result \<Rightarrow> (dworld, unit) act" where
  "settleFailure env job token now res =
     (let own = ownership (dj_id job) (dj_reconcileAttempt job) token;
          generation = dj_reconcileAttempt job;
          endpoint = dj_inboxUrl job;
          errorMessage = buildErrorMessage res
      in if isPermanentDeliveryFailure (statusOf res) then failJob own (dj_id job) errorMessage now
         else
           andThen (onJobs (incrementDeliveryAttempts own))
           (\<lambda>attempts. case attempts of
              None \<Rightarrow> ackMessage
            | Some nextAttempts \<Rightarrow>
                andThen (effect (\<lambda>w. w\<lparr>w_circuits := recordCircuitFailure now (w_circuits w) endpoint\<rparr>))
                (\<lambda>_. if DELIVERY_MAX_ATTEMPTS \<le> nextAttempts then
                   andThen (onJobs (markDeadLetter own generation errorMessage now))
                   (\<lambda>changed. if \<not> changed then ackMessage
                      else andThen (sendDlqMessage env
                             \<lparr>d_jobId = dj_id job, d_activityId = dj_activityApId job, d_endpoint = endpoint,
                              d_attempts = nextAttempts, d_lastError = Some errorMessage,
                              d_reconcileAttempt = Some generation, d_deadLetteredAt = e_isoText env now\<rparr>)
                           (\<lambda>_. ackMessage))
                 else
                   (let delaySeconds = computeRetryDelaySeconds (e_random env) nextAttempts
                    in andThen (onJobs (\<lambda>rows. ((), markRetryWait own errorMessage now (now + delaySeconds * 1000) rows)))
                       (\<lambda>_. andThen (sendQueueMessage env (buildDeliverEndpointMessage (e_isoText env now) (dj_id job) generation) delaySeconds)
                       (\<lambda>_. ackMessage))))))"

definition deliverFailure :: "denv \<Rightarrow> djob \<Rightarrow> string \<Rightarrow> ms \<Rightarrow> http_result \<Rightarrow> (dworld, unit) act" where
  "deliverFailure env job token now res =
     andThen
       (if statusOf res = Some 404 \<or> statusOf res = Some 410
        then catching (andThen (enqueueResolveForEndpointActors env now (dj_activityApId job) (dj_inboxUrl job))
               (\<lambda>_. effect (\<lambda>w. w\<lparr>w_cache := invalidateEndpoint (dj_inboxUrl job) (w_cache w)\<rparr>))) (\<lambda>e. ret ())
        else ret ())
       (\<lambda>_. settleFailure env job token now res)"

definition deliverSettle ::
  "denv \<Rightarrow> nat \<Rightarrow> djob \<Rightarrow> string \<Rightarrow> string \<Rightarrow> ms \<Rightarrow> string \<times> string \<Rightarrow> string \<Rightarrow> http_result \<Rightarrow> (dworld, unit) act" where
  "deliverSettle env writes job host token now sender body res =
     (if responseOk res then deliverSuccess env writes job host token now sender body
      else deliverFailure env job token now res)"

text \<open>The whole handler.\<close>

definition processDeliverEndpoint ::
  "denv \<Rightarrow> string \<Rightarrow> nat \<Rightarrow> ms \<Rightarrow> ms \<Rightarrow> ms \<Rightarrow> (dworld \<Rightarrow> dworld) \<Rightarrow> (dworld \<Rightarrow> dworld) \<Rightarrow> string \<Rightarrow> (dworld, unit) act" where
  "processDeliverEndpoint env token writes readAt claimAt settleAt waiting posting jobId =
     andThen (requireQueue env)
     (\<lambda>bound. if \<not> bound then ret ()
      else andThen (deliverRead env readAt jobId)
      (\<lambda>plan. case plan of
         DeliverDone \<Rightarrow> ret ()
       | DeliverAttempt job host \<Rightarrow>
           andThen (effect waiting)
           (\<lambda>_. andThen (deliverClaim job token claimAt)
           (\<lambda>claimed. if \<not> claimed then ret ()
            else andThen (deliverPost env job token claimAt)
            (\<lambda>sent. case sent of
               None \<Rightarrow> ret ()
             | Some (senderApId, privateKeyPem, rawJson, res) \<Rightarrow>
                 andThen (effect posting)
                 (\<lambda>_. deliverSettle env writes job host token settleAt (senderApId, privateKeyPem) rawJson res))))))"

lemmas deliver_phases [handler_defs] =
  processDeliverEndpoint_def requireQueue_def deliverClaim_def failJob_def deliverSettle_def onJobs_def

subsection \<open>Verdicts\<close>

text \<open>
  An action that starts after \<open>k\<close> acks of the message at hand and, when it returns \<open>b\<close>, ends
  after \<open>h b\<close> of them; when it throws it started before any ack and gave none.
\<close>

definition ackAfter :: "nat \<Rightarrow> ('a \<Rightarrow> nat) \<Rightarrow> dworld \<Rightarrow> (string + 'a) \<times> dworld \<Rightarrow> bool" where
  "ackAfter k h w res =
     (case fst res of
        Inl e \<Rightarrow> k = 0 \<and> w_verdicts (snd res) = w_verdicts w
      | Inr b \<Rightarrow> k \<le> h b \<and> w_verdicts (snd res) = w_verdicts w @ replicate (h b - k) Ack)"

definition ackSpec :: "nat \<Rightarrow> ('a \<Rightarrow> nat) \<Rightarrow> (dworld, 'a) act \<Rightarrow> bool" where
  "ackSpec k h m = (\<forall>w. ackAfter k h w (m w))"

named_theorems ack_rules

lemma ackAfter_simps [simp]:
  "ackAfter k h w (Inl e, w') \<longleftrightarrow> k = 0 \<and> w_verdicts w' = w_verdicts w"
  "ackAfter k h w (Inr b, w') \<longleftrightarrow> k \<le> h b \<and> w_verdicts w' = w_verdicts w @ replicate (h b - k) Ack"
  by (simp_all add: ackAfter_def)

lemma ackSpec_ret [ack_rules]: "h b = k \<Longrightarrow> ackSpec k h (ret b)"
  by (simp add: ackSpec_def ret_def)

lemma ackSpec_throw [ack_rules]: "ackSpec 0 h (throw e)"
  by (simp add: ackSpec_def throw_def)

lemma ackSpec_ack [ack_rules]: "h () = Suc k \<Longrightarrow> ackSpec k h ackMessage"
  by (simp add: ackSpec_def ackMessage_def effect_def)

lemma ackSpec_effect [ack_rules]:
  "h () = k \<Longrightarrow> (\<And>w. w_verdicts (f w) = w_verdicts w) \<Longrightarrow> ackSpec k h (effect f)"
  by (simp add: ackSpec_def effect_def)

lemma ackSpec_onJobs [ack_rules]: "(\<And>a. h a = k) \<Longrightarrow> ackSpec k h (onJobs f)"
  by (simp add: ackSpec_def onJobs_def split: prod.splits)

lemma ackAfter_andThen:
  assumes "ackAfter k g w (m w)" "\<And>a w. ackAfter (g a) h w (f a w)"
  shows "ackAfter k h w (andThen m f w)"
proof (cases "m w")
  case (Pair r w1)
  show ?thesis
  proof (cases r)
    case (Inl e)
    then show ?thesis using assms(1) Pair by (simp add: andThen_def)
  next
    case (Inr a)
    have 1: "k \<le> g a" "w_verdicts w1 = w_verdicts w @ replicate (g a - k) Ack"
      using assms(1) Pair Inr by simp_all
    show ?thesis
    proof (cases "f a w1")
      case f: (Pair r2 w2)
      show ?thesis
      proof (cases r2)
        case e: (Inl e)
        then show ?thesis using assms(2) [of a w1] Pair Inr f 1 by (simp add: andThen_def)
      next
        case b: (Inr b)
        have "g a - k + (h b - g a) = h b - k" if "g a \<le> h b" using 1 that by simp
        then show ?thesis using assms(2) [of a w1] Pair Inr f 1 b
          by (auto simp: andThen_def replicate_add [symmetric])
      qed
    qed
  qed
qed

lemma ackSpec_andThen: "ackSpec k g m \<Longrightarrow> (\<And>a. ackSpec (g a) h (f a)) \<Longrightarrow> ackSpec k h (andThen m f)"
  unfolding ackSpec_def using ackAfter_andThen by blast

lemma ackSpec_seq [ack_rules]:
  "ackSpec k (\<lambda>a. k) m \<Longrightarrow> (\<And>a. ackSpec k h (f a)) \<Longrightarrow> ackSpec k h (andThen m f)"
  by (rule ackSpec_andThen)

lemma ackSpec_cases [ack_rules]:
  "ackSpec k h m \<Longrightarrow> ackSpec k h m' \<Longrightarrow> ackSpec k h (if b then m else m')"
  by simp

lemma ackAfter_catching:
  assumes "ackAfter k h w (m w)" "\<And>e w. ackAfter k h w (f e w)"
  shows "ackAfter k h w (catching m f w)"
proof (cases "m w")
  case (Pair r w1)
  show ?thesis
  proof (cases r)
    case (Inl e)
    then have "k = 0" "w_verdicts w1 = w_verdicts w" using assms(1) Pair by simp_all
    then show ?thesis using assms(2) [of w1 e] Pair Inl
      by (auto simp: catching_def ackAfter_def split: sum.splits)
  next
    case (Inr b)
    then show ?thesis using assms(1) Pair by (simp add: catching_def)
  qed
qed

lemma ackSpec_catching [ack_rules]:
  "ackSpec k h m \<Longrightarrow> (\<And>e. ackSpec k h (f e)) \<Longrightarrow> ackSpec k h (catching m f)"
  unfolding ackSpec_def using ackAfter_catching by blast

lemma ackSpec_send [ack_rules]: "h () = 0 \<Longrightarrow> ackSpec 0 h (sendQueueMessage env m d)"
  unfolding sendQueueMessage_def by (intro ack_rules) simp_all

lemma ackSpec_dlq [ack_rules]: "h () = 0 \<Longrightarrow> ackSpec 0 h (sendDlqMessage env m)"
  unfolding sendDlqMessage_def by (intro ack_rules) simp_all

lemma ackSpec_at: "ackSpec k h m \<Longrightarrow> ackSpec k h (\<lambda>w. m w)"
  by simp

lemma ackSpec_reresolve [ack_rules]:
  "(\<And>n. h n = 0) \<Longrightarrow> ackSpec 0 h (enqueueResolveForEndpointActors env now act ep)"
  using keeps_reresolve [of env now act ep]
  by (auto simp: ackSpec_def ackAfter_def keeps_def outsideResolutions_def split: sum.splits)

lemma ackSpec_fail [ack_rules]: "h () = 1 \<Longrightarrow> ackSpec 0 h (failJob fence j err now)"
  unfolding failJob_def by (intro ack_rules) simp_all

lemma ackSpec_then_ack [ack_rules]: "ackSpec 0 (\<lambda>_. 0) m \<Longrightarrow> h () = 1 \<Longrightarrow> ackSpec 0 h (andThen m (\<lambda>_. ackMessage))"
  by (rule ackSpec_andThen [where g = "\<lambda>_. 0"]) (auto intro: ackSpec_ack)

lemma ackSpec_done: "ackSpec 0 (\<lambda>_. 1) m \<Longrightarrow> h b = 1 \<Longrightarrow> ackSpec 0 h (andThen m (\<lambda>_. ret b))"
  by (rule ackSpec_andThen [where g = "\<lambda>_. 1"]) (auto intro: ackSpec_ret)

definition planAcks :: "deliver_plan \<Rightarrow> nat" where
  "planAcks plan = (case plan of DeliverDone \<Rightarrow> 1 | DeliverAttempt job host \<Rightarrow> 0)"

lemma ackAfter_circuits: "ackAfter 0 h (w\<lparr>w_circuits := c\<rparr>) r \<longleftrightarrow> ackAfter 0 h w r"
  by (simp add: ackAfter_def split: sum.splits)

lemma ackSpec_read [ack_rules]: "ackSpec 0 planAcks (deliverRead env now jobId)"
  unfolding ackSpec_def
proof
  fix w
  have done_ack: "ackAfter 0 planAcks w' (andThen m (\<lambda>_. ret DeliverDone) w')" if "ackSpec 0 (\<lambda>_. 1) m" for m :: "(dworld, unit) act" and w'
    using ackSpec_done [OF that, of planAcks DeliverDone] by (simp add: ackSpec_def planAcks_def)
  have wake: "ackSpec 0 (\<lambda>_. 1) (andThen (sendQueueMessage env m d) (\<lambda>_. ackMessage))" for m d
    by (intro ack_rules) simp_all
  have dlq: "ackSpec 0 (\<lambda>_. 1) (andThen (sendDlqMessage env m) (\<lambda>_. ackMessage))" for m
    by (intro ack_rules) simp_all
  have ack: "ackSpec 0 (\<lambda>_. 1) ackMessage" by (intro ack_rules) simp
  have fail: "ackSpec 0 (\<lambda>_. 1) (failJob fence j err t)" for fence j err t by (intro ack_rules) simp
  have attempt: "ackAfter 0 planAcks w (Inr (DeliverAttempt job host), w\<lparr>w_circuits := c\<rparr>)" for job host c
    by (simp add: planAcks_def)
  show "ackAfter 0 planAcks w (deliverRead env now jobId w)"
    unfolding deliverRead_def Let_def
    using done_ack [OF wake] done_ack [OF dlq] done_ack [OF ack] done_ack [OF fail] attempt
      done_ack [OF wake, of "w\<lparr>w_circuits := c\<rparr>" for c, unfolded ackAfter_circuits]
    by (simp split: option.splits prod.splits circuit_verdict.splits)
qed

lemma ackSpec_claim [ack_rules]: "ackSpec 0 (\<lambda>claimed. if claimed then 0 else 1) (deliverClaim job token now)"
  unfolding deliverClaim_def
  by (rule ackSpec_seq, rule ackSpec_onJobs, simp)
    (auto intro: ackSpec_ret intro!: ackSpec_done ackSpec_ack)

lemma ackSpec_post [ack_rules]: "ackSpec 0 (\<lambda>r. if r = None then 1 else 0) (deliverPost env job token now)"
  unfolding ackSpec_def
proof
  fix w
  have fail: "ackAfter 0 (\<lambda>r. if r = None then 1 else 0) w
      (andThen (failJob fence j err t) (\<lambda>_. ret (None :: (string \<times> string \<times> string \<times> http_result) option)) w)" for fence j err t
    using ackSpec_done [OF ackSpec_fail [of "\<lambda>_. 1"], of "\<lambda>r. if r = None then 1 else 0"
        "None :: (string \<times> string \<times> string \<times> http_result) option" fence j err t]
    by (simp add: ackSpec_def)
  show "ackAfter 0 (\<lambda>r. if r = None then 1 else 0) w (deliverPost env job token now w)"
    unfolding deliverPost_def Let_def using fail by (simp split: option.splits prod.splits)
qed

lemma ackSpec_probe [ack_rules]: "h () = 0 \<Longrightarrow> ackSpec 0 h (maybeShadowProbeInbox env ep host sender body)"
  by (auto simp: ackSpec_def maybeShadowProbeInbox_def Let_def split: option.splits)

lemma ackSpec_settle [ack_rules]: "ackSpec 0 (\<lambda>_. 1) (deliverSettle env writes job host token now sender body res)"
  unfolding deliverSettle_def deliverSuccess_def deliverFailure_def settleFailure_def Let_def
  by (intro ack_rules) (auto split: option.split intro!: ack_rules)

subsection \<open>What others may do\<close>

text \<open>
  What other workers and requests do while this one waits: anything to the tables and the
  queues, but they neither answer this message nor make this worker's POSTs.
\<close>

definition bystanders :: "(dworld \<Rightarrow> dworld) \<Rightarrow> bool" where
  "bystanders f = (\<forall>w. w_verdicts (f w) = w_verdicts w \<and> w_posts (f w) = w_posts w)"

lemma ackSpec_others [ack_rules]: "bystanders f \<Longrightarrow> h () = 0 \<Longrightarrow> ackSpec 0 h (effect f)"
  by (intro ack_rules) (simp_all add: bystanders_def)

lemma ackSpec_process:
  assumes "bystanders waiting" "bystanders posting"
  shows "ackSpec 0 (\<lambda>_. 1) (processDeliverEndpoint env token writes readAt claimAt settleAt waiting posting jobId)"
proof -
  have settle: "ackSpec 0 (\<lambda>_. 1) (andThen (effect posting)
      (\<lambda>_. deliverSettle env writes job host token settleAt sender rawJson res))" for job host sender rawJson res
    using assms by (intro ack_rules) simp_all
  have post: "ackSpec 0 (\<lambda>_. 1) (andThen (deliverPost env job token claimAt)
      (\<lambda>sent. case sent of None \<Rightarrow> ret () | Some (s, k, rawJson, res) \<Rightarrow>
        andThen (effect posting) (\<lambda>_. deliverSettle env writes job host token settleAt (s, k) rawJson res)))" for job host
    by (rule ackSpec_andThen [OF ackSpec_post]) (use settle in \<open>auto split: option.split intro!: ack_rules\<close>)
  have claim: "ackSpec 0 (\<lambda>_. 1) (andThen (effect waiting) (\<lambda>_. andThen (deliverClaim job token claimAt)
      (\<lambda>claimed. if \<not> claimed then ret () else andThen (deliverPost env job token claimAt)
      (\<lambda>sent. case sent of None \<Rightarrow> ret () | Some (s, k, rawJson, res) \<Rightarrow>
        andThen (effect posting) (\<lambda>_. deliverSettle env writes job host token settleAt (s, k) rawJson res)))))" for job host
  proof (rule ackSpec_seq)
    show "ackSpec 0 (\<lambda>a. 0) (effect waiting)" using assms(1) by (rule ackSpec_others) simp
  qed (rule ackSpec_andThen [OF ackSpec_claim], use post in \<open>auto intro!: ack_rules\<close>)
  have read: "ackSpec 0 (\<lambda>_. 1) (andThen (deliverRead env readAt jobId)
      (\<lambda>plan. case plan of DeliverDone \<Rightarrow> ret () | DeliverAttempt job host \<Rightarrow>
        andThen (effect waiting) (\<lambda>_. andThen (deliverClaim job token claimAt)
        (\<lambda>claimed. if \<not> claimed then ret () else andThen (deliverPost env job token claimAt)
        (\<lambda>sent. case sent of None \<Rightarrow> ret () | Some (s, k, rawJson, res) \<Rightarrow>
        andThen (effect posting) (\<lambda>_. deliverSettle env writes job host token settleAt (s, k) rawJson res))))))"
    by (rule ackSpec_andThen [OF ackSpec_read]) (use claim in \<open>auto simp: planAcks_def split: deliver_plan.split intro!: ack_rules\<close>)
  have bound: "ackSpec 0 (\<lambda>b. if b then 0 else 1) (requireQueue env)"
    unfolding requireQueue_def by (auto intro: ackSpec_ret intro!: ackSpec_done ackSpec_ack)
  show ?thesis
    unfolding processDeliverEndpoint_def
    by (rule ackSpec_andThen [OF bound]) (use read in \<open>auto intro!: ack_rules\<close>)
qed

subsection \<open>POSTs\<close>

lemma keeps_posts_prims [keep_rules]:
  "keeps w_posts ackMessage" "keeps w_posts (retryMessage d)" "keeps w_posts (onJobs g)"
  "keeps w_posts (sendQueueMessage env m d)" "keeps w_posts (sendDlqMessage env dm)"
  "keeps w_posts (onResolutions rm)" "keeps w_posts (onFanouts fm)"
  by (simp_all add: keeps_def ackMessage_def retryMessage_def onJobs_def effect_def sendQueueMessage_def throw_def ret_def
      sendDlqMessage_def onResolutions_def onFanouts_def split: prod.splits)

lemma keeps_posts_reresolve [keep_rules]: "keeps w_posts (enqueueResolveForEndpointActors env now act ep)"
  using keeps_reresolve [of env now act ep] by (simp add: keeps_def outsideResolutions_def)

lemma keeps_posts_fail [keep_rules]: "keeps w_posts (failJob fence j err now)"
  unfolding failJob_def by (intro keep_rules)

lemma keeps_posts_failure: "keeps w_posts (deliverFailure env job token now res)"
  unfolding deliverFailure_def settleFailure_def Let_def by (intro keep_rules) (auto split: option.split intro!: keep_rules)

lemma keeps_posts_claim: "keeps w_posts (deliverClaim job token now)"
  unfolding deliverClaim_def by (intro keep_rules)

lemma andThen_Inr:
  "m w = (Inr a, w') \<Longrightarrow> andThen m f w = f a w'"
  by (simp add: andThen_def)

lemma andThen_Inl:
  "m w = (Inl e, w') \<Longrightarrow> andThen m f w = (Inl e, w')"
  by (simp add: andThen_def)

lemma read_posts: "w_posts (snd (deliverRead env now jobId w)) = w_posts w"
proof -
  have fin: "w_posts (snd (andThen m (\<lambda>_. ret DeliverDone) w')) = w_posts w'" if "keeps w_posts m" for m :: "(dworld, unit) act" and w'
    using keeps_andThen [OF that keeps_ret, of "\<lambda>_. DeliverDone"] by (simp add: keeps_def)
  have wake: "keeps w_posts (andThen (sendQueueMessage env m d) (\<lambda>_. ackMessage))" for m d by (intro keep_rules)
  have dlq: "keeps w_posts (andThen (sendDlqMessage env m) (\<lambda>_. ackMessage))" for m by (intro keep_rules)
  show ?thesis
    unfolding deliverRead_def Let_def
    using fin [OF wake] fin [OF dlq] fin [OF keeps_posts_prims(1)] fin [OF keeps_posts_fail]
    by (simp split: option.splits prod.splits circuit_verdict.splits)
qed

lemma read_attempt:
  assumes "deliverRead env now jobId w = (Inr (DeliverAttempt job host), w')"
  shows "selectBy dj_id jobId (db_jobs (w_jobs w)) = Some job \<and> \<not> jobTerminal (dj_status job) \<and>
    dj_nextAttemptAt job \<le> now \<and> safeEndpointHost (e_parseUrl env) (dj_inboxUrl job) = Some host \<and>
    checkCircuit now (w_circuits w) (dj_inboxUrl job) = (Allow, w_circuits w') \<and>
    w' = w\<lparr>w_circuits := w_circuits w'\<rparr>"
proof -
  have no: "andThen m (\<lambda>_. ret DeliverDone) w0 \<noteq> (Inr (DeliverAttempt job host), w')" for m :: "(dworld, unit) act" and w0
    by (auto simp: andThen_def ret_def split: prod.splits sum.splits)
  show ?thesis using assms no unfolding deliverRead_def Let_def
    by (auto split: option.splits prod.splits circuit_verdict.splits if_splits)
qed

lemma safeHost_safe: "safeEndpointHost parseUrl u = Some host \<Longrightarrow> isSafeRemoteUrl parseUrl u"
  by (auto simp: safeEndpointHost_def split: option.splits if_splits)

lemma post_outcome:
  assumes "deliverPost env job token now w = (r, w')"
  shows "(\<exists>actor s k raw res. map_of (e_activities env) (dj_activityApId job) = Some (actor, raw) \<and>
      resolveSigningActor env actor = Some (s, k) \<and> r = Inr (Some (s, k, raw, res)) \<and>
      res = e_http env \<lparr>po_url = dj_inboxUrl job, po_body = raw, po_keyId = s @ ''#main-key'', po_probe = False\<rparr> \<and>
      w' = w\<lparr>w_posts := w_posts w @ [\<lparr>po_url = dj_inboxUrl job, po_body = raw, po_keyId = s @ ''#main-key'', po_probe = False\<rparr>]\<rparr>) \<or>
    ((\<forall>x. r \<noteq> Inr (Some x)) \<and> w_posts w' = w_posts w)"
proof -
  have fail: "w_posts (snd (andThen (failJob f j e t) (\<lambda>_. ret (None :: (string \<times> string \<times> string \<times> http_result) option)) w)) = w_posts w"
    for f j e t
  proof -
    have "keeps w_posts (andThen (failJob f j e t) (\<lambda>_. ret (None :: (string \<times> string \<times> string \<times> http_result) option)))"
      by (intro keep_rules)
    then show ?thesis by (simp add: keeps_def)
  qed
  have none: "fst (andThen (failJob f j e t) (\<lambda>_. ret (None :: (string \<times> string \<times> string \<times> http_result) option)) w) \<noteq> Inr (Some x)"
    for f j e t x by (auto simp: andThen_def ret_def split: prod.splits sum.splits)
  show ?thesis
    using assms fail none unfolding deliverPost_def Let_def
    by (auto split: option.splits prod.splits) (metis fst_conv snd_conv)+
qed

text \<open>The probes of a settlement: safe URLs, the same body.\<close>

definition probesOnly :: "denv \<Rightarrow> string \<Rightarrow> post_request list \<Rightarrow> bool" where
  "probesOnly env body ps = list_all (\<lambda>p. po_probe p \<and> isSafeRemoteUrl (e_parseUrl env) (po_url p) \<and> po_body p = body) ps"

lemma probe_posts:
  "\<exists>ps. w_posts (snd (maybeShadowProbeInbox env ep host sender body w)) = w_posts w @ ps \<and> probesOnly env body ps"
  by (auto simp: maybeShadowProbeInbox_def Let_def probesOnly_def split: option.splits)

text \<open>The writes of the bookkeeping that succeed.\<close>

definition successWrites :: "nat \<Rightarrow> djob \<Rightarrow> string \<Rightarrow> ms \<Rightarrow> dworld \<Rightarrow> dworld" where
  "successWrites writes job token now w =
     (let w1 = (if 1 \<le> writes then w\<lparr>w_jobs := (w_jobs w)\<lparr>db_jobs :=
            markDelivered (ownership (dj_id job) (dj_reconcileAttempt job) token) now (db_jobs (w_jobs w))\<rparr>\<rparr> else w)
      in if 2 \<le> writes then w1\<lparr>w_circuits := recordCircuitSuccess (w_circuits w1) (dj_inboxUrl job)\<rparr> else w1)"

lemma success_run:
  "deliverSuccess env writes job host token now sender body w =
     (let w2 = successWrites writes job token now w
      in if writes < 2 then ackMessage w2
         else andThen (if dj_attempts job = 0
                then catching (maybeShadowProbeInbox env (dj_inboxUrl job) host sender body) (\<lambda>e. ret ()) else ret ())
              (\<lambda>_. ackMessage) w2)"
  by (cases "1 \<le> writes"; cases "2 \<le> writes")
    (simp_all add: deliverSuccess_def successWrites_def andThen_def [of "ret ()"] andThen_def [of "onJobs f" for f]
      andThen_def [of "effect f" for f] effect_def ret_def onJobs_def)

lemma success_posts:
  "\<exists>ps. w_posts (snd (deliverSuccess env writes job host token now sender body w)) = w_posts w @ ps \<and> probesOnly env body ps"
proof -
  let ?probe = "if dj_attempts job = 0 then catching (maybeShadowProbeInbox env (dj_inboxUrl job) host sender body) (\<lambda>e. ret ()) else ret ()"
  have probe: "\<exists>ps. w_posts (snd (andThen ?probe (\<lambda>_. ackMessage) w')) = w_posts w' @ ps \<and> probesOnly env body ps" for w'
    using probe_posts [of env "dj_inboxUrl job" host sender body w']
    by (auto simp: act_defs ackMessage_def probesOnly_def split: prod.splits sum.splits)
  have "w_posts (successWrites writes job token now w) = w_posts w" by (simp add: successWrites_def Let_def)
  then show ?thesis
    unfolding success_run Let_def
    using probe [of "successWrites writes job token now w"] by (auto simp: probesOnly_def ackMessage_def effect_def)
qed

lemma settle_posts:
  "\<exists>ps. w_posts (snd (deliverSettle env writes job host token now sender body res w)) = w_posts w @ ps \<and> probesOnly env body ps"
proof (cases "responseOk res")
  case True
  then show ?thesis using success_posts by (simp add: deliverSettle_def)
next
  case False
  then show ?thesis using keeps_posts_failure [of env job token now res]
    by (simp add: deliverSettle_def keeps_def probesOnly_def)
qed

text \<open>The rest of the handler once the job has been read.\<close>

lemma process_after_read:
  assumes "e_bound env" "deliverRead env readAt jobId w = (r, w1)"
  shows "processDeliverEndpoint env token writes readAt claimAt settleAt waiting posting jobId w =
    (case r of
       Inl e \<Rightarrow> (Inl e, w1)
     | Inr DeliverDone \<Rightarrow> (Inr (), w1)
     | Inr (DeliverAttempt job host) \<Rightarrow>
         (case claimJob job token claimAt (db_jobs (w_jobs (waiting w1))) of
            (claimed, rows) \<Rightarrow>
              (let w2 = (waiting w1)\<lparr>w_jobs := (w_jobs (waiting w1))\<lparr>db_jobs := rows\<rparr>\<rparr>
               in if \<not> claimed then ackMessage w2
                  else
                    (case deliverPost env job token claimAt w2 of
                       (Inr (Some (s, k, raw, res)), w3) \<Rightarrow>
                         deliverSettle env writes job host token settleAt (s, k) raw res (posting w3)
                     | (Inr None, w3) \<Rightarrow> (Inr (), w3)
                     | (Inl e, w3) \<Rightarrow> (Inl e, w3)))))"
  using assms
  by (auto simp: processDeliverEndpoint_def requireQueue_def deliverClaim_def onJobs_def act_defs ackMessage_def Let_def
      split: sum.splits deliver_plan.splits prod.splits option.splits if_splits)

lemma bystanders_id: "bystanders (\<lambda>w. w)"
  by (simp add: bystanders_def)

subsection \<open>Properties\<close>

text \<open>
  C1: A delivery POSTs at most once, only what it claimed, and only to safe addresses. Whatever
  other workers do while this one waits, a run adds at most one POST besides shadow probes;
  every POST goes to a safe remote URL and carries the stored JSON of the job's activity; and
  the delivery itself goes to the endpoint of a job that was due and not terminal when read, and
  that this worker's token had just claimed.
\<close>

theorem deliver_posts_safely:
  assumes "bystanders waiting" and "bystanders posting"
  shows "\<exists>ps. w_posts (snd (processDeliverEndpoint env token writes readAt claimAt settleAt waiting posting jobId w)) = w_posts w @ ps \<and>
    length (filter (\<lambda>p. \<not> po_probe p) ps) \<le> 1 \<and> list_all (\<lambda>p. isSafeRemoteUrl (e_parseUrl env) (po_url p)) ps \<and>
    (ps \<noteq> [] \<longrightarrow> (\<exists>job actor raw.
       selectBy dj_id jobId (db_jobs (w_jobs w)) = Some job \<and> \<not> jobTerminal (dj_status job) \<and> dj_nextAttemptAt job \<le> readAt \<and>
       fst (claimJob job token claimAt (db_jobs (w_jobs (waiting (snd (deliverRead env readAt jobId w)))))) \<and>
       map_of (e_activities env) (dj_activityApId job) = Some (actor, raw) \<and>
       list_all (\<lambda>p. po_body p = raw) ps \<and> po_url (hd ps) = dj_inboxUrl job \<and> \<not> po_probe (hd ps)))"
proof (cases "e_bound env")
  case False
  then show ?thesis by (auto simp: processDeliverEndpoint_def requireQueue_def act_defs ackMessage_def)
next
  case True
  obtain r w1 where read: "deliverRead env readAt jobId w = (r, w1)" by (cases "deliverRead env readAt jobId w")
  have p1: "w_posts w1 = w_posts w" using read_posts [of env readAt jobId w] read by simp
  note run = process_after_read [OF True read, of token writes claimAt settleAt waiting posting]
  show ?thesis
  proof (cases "\<exists>job host. r = Inr (DeliverAttempt job host)")
    case False
    then have "w_posts (snd (processDeliverEndpoint env token writes readAt claimAt settleAt waiting posting jobId w)) = w_posts w"
      unfolding run using p1 by (auto split: sum.splits deliver_plan.splits)
    then show ?thesis by auto
  next
    case True
    then obtain job host where r: "r = Inr (DeliverAttempt job host)" by blast
    note job = read_attempt [OF read [unfolded r]]
    obtain claimed rows where claim: "claimJob job token claimAt (db_jobs (w_jobs (waiting w1))) = (claimed, rows)" by fastforce
    define w2 where "w2 = (waiting w1)\<lparr>w_jobs := (w_jobs (waiting w1))\<lparr>db_jobs := rows\<rparr>\<rparr>"
    have p2: "w_posts w2 = w_posts w" using assms(1) p1 by (simp add: w2_def bystanders_def)
    obtain q w3 where post: "deliverPost env job token claimAt w2 = (q, w3)" by fastforce
    show ?thesis
    proof (cases "claimed \<and> (\<exists>x. q = Inr (Some x))")
      case False
      have "w_posts w3 = w_posts w2" if "\<forall>x. q \<noteq> Inr (Some x)" using post_outcome [OF post] that by blast
      then have "w_posts (snd (processDeliverEndpoint env token writes readAt claimAt settleAt waiting posting jobId w)) = w_posts w"
        unfolding run r using False claim post p2
        by (auto simp: w2_def [symmetric] Let_def ackMessage_def effect_def split: sum.splits option.splits)
      then show ?thesis by auto
    next
      case True
      then obtain actor s k raw res where
        q: "map_of (e_activities env) (dj_activityApId job) = Some (actor, raw)" "q = Inr (Some (s, k, raw, res))"
        "w_posts w3 = w_posts w2 @ [\<lparr>po_url = dj_inboxUrl job, po_body = raw, po_keyId = s @ ''#main-key'', po_probe = False\<rparr>]"
        using post_outcome [OF post] by auto
      have eq: "processDeliverEndpoint env token writes readAt claimAt settleAt waiting posting jobId w =
          deliverSettle env writes job host token settleAt (s, k) raw res (posting w3)"
        unfolding run r using True claim post q(2) by (simp add: w2_def [symmetric])
      obtain ps where ps: "w_posts (snd (deliverSettle env writes job host token settleAt (s, k) raw res (posting w3))) = w_posts (posting w3) @ ps"
        "probesOnly env raw ps"
        using settle_posts by blast
      let ?p = "\<lparr>po_url = dj_inboxUrl job, po_body = raw, po_keyId = s @ ''#main-key'', po_probe = False\<rparr>"
      have all: "w_posts (snd (processDeliverEndpoint env token writes readAt claimAt settleAt waiting posting jobId w)) = w_posts w @ (?p # ps)"
        unfolding eq ps(1) using assms(2) q(3) p2 by (simp add: bystanders_def)
      have "filter (\<lambda>p. \<not> po_probe p) ps = []" using ps(2) by (auto simp: probesOnly_def list_all_iff filter_empty_conv)
      moreover have "isSafeRemoteUrl (e_parseUrl env) (dj_inboxUrl job)" using job safeHost_safe by blast
      moreover have "list_all (\<lambda>p. isSafeRemoteUrl (e_parseUrl env) (po_url p)) ps" "list_all (\<lambda>p. po_body p = raw) ps"
        using ps(2) by (auto simp: probesOnly_def list_all_iff)
      ultimately show ?thesis
        using all job claim True q(1) read by (intro exI [of _ "?p # ps"]) simp
    qed
  qed
qed

theorem deliver_posts_safely_witness:
  "map po_url (w_posts (snd (processDeliverEndpoint exampleDelivery ''t'' 2 5 6 7 (\<lambda>w. w) (\<lambda>w. w) ''j'' exampleDeliveryWorld)))
     = [''https://a.com/users/bob''] \<and> isSafeRemoteUrl exampleParser ''https://a.com/users/bob''"
proof -
  have run: "map po_url (w_posts (snd (processDeliverEndpoint exampleDelivery ''t'' 2 5 6 7 (\<lambda>w. w) (\<lambda>w. w) ''j'' exampleDeliveryWorld)))
     = [''https://a.com/users/bob'']" "w_posts exampleDeliveryWorld = []" "e_parseUrl exampleDelivery = exampleParser"
    by (code_simp, code_simp, simp add: exampleDelivery_def)
  obtain ps where "w_posts (snd (processDeliverEndpoint exampleDelivery ''t'' 2 5 6 7 (\<lambda>w. w) (\<lambda>w. w) ''j'' exampleDeliveryWorld)) = ps"
    "list_all (\<lambda>p. isSafeRemoteUrl exampleParser (po_url p)) ps"
    using deliver_posts_safely [OF bystanders_id bystanders_id, where env = exampleDelivery and token = "''t''" and writes = 2 and readAt = 5 and claimAt = 6 and settleAt = 7 and jobId = "''j''" and w = exampleDeliveryWorld]
    unfolding run(2,3) by auto
  then show ?thesis using run(1) by (auto simp: list_all_iff)
qed



text \<open>The endpoint invalidation in front of a failure: it never throws and only touches its own parts.\<close>

lemma failure_run:
  obtains w1 where "deliverFailure env job token now res w = settleFailure env job token now res w1"
    "w_jobs w1 = w_jobs w" "w_circuits w1 = w_circuits w" "w_dlq w1 = w_dlq w"
proof (cases "statusOf res = Some 404 \<or> statusOf res = Some 410")
  case True
  obtain r w0 where run: "enqueueResolveForEndpointActors env now (dj_activityApId job) (dj_inboxUrl job) w = (r, w0)" by fastforce
  have w0: "w_jobs w0 = w_jobs w" "w_circuits w0 = w_circuits w" "w_dlq w0 = w_dlq w"
    using keepsD [OF keeps_reresolve run] by (simp_all add: outsideResolutions_def)
  show thesis
    by (rule that [of "case r of Inl e \<Rightarrow> w0 | Inr n \<Rightarrow> w0\<lparr>w_cache := invalidateEndpoint (dj_inboxUrl job) (w_cache w0)\<rparr>"])
      (use True run w0 in \<open>auto simp: deliverFailure_def act_defs split: sum.splits\<close>)
next
  case False
  then show thesis by (intro that [of w]) (simp_all add: deliverFailure_def andThen_def ret_def)
qed

lemma ownership_key: "ownership i g t r \<Longrightarrow> dj_id r = i"
  by (simp add: ownership_def)

text \<open>The row and the other rows after a fenced update of an owned job.\<close>

lemma owned_update:
  assumes "keysUnique dj_id rows" "selectBy dj_id i rows = Some r" "ownership i g t r" "\<And>x. dj_id (f x) = dj_id x"
  shows "selectBy dj_id i (updateWhere (ownership i g t) f rows) = Some (f r)"
    "j \<noteq> i \<Longrightarrow> selectBy dj_id j (updateWhere (ownership i g t) f rows) = selectBy dj_id j rows"
    "keysUnique dj_id (updateWhere (ownership i g t) f rows)"
    "find (ownership i g t) rows = Some r" "0 < affectedRows (ownership i g t) rows"
proof -
  have key: "\<And>x. ownership i g t x \<Longrightarrow> dj_id (f x) = dj_id x" using assms(4) by simp
  note sel = selectBy_updateWhere [where key = dj_id and P = "ownership i g t" and f = f, OF key]
  show "selectBy dj_id i (updateWhere (ownership i g t) f rows) = Some (f r)" using sel assms by simp
  show "selectBy dj_id j (updateWhere (ownership i g t) f rows) = selectBy dj_id j rows" if "j \<noteq> i"
  proof (cases "selectBy dj_id j rows")
    case (Some x)
    then have "\<not> ownership i g t x" using that selectBy_SomeD [OF Some] ownership_key by blast
    then show ?thesis using sel Some by simp
  qed (use sel in simp)
  show "keysUnique dj_id (updateWhere (ownership i g t) f rows)"
    using assms(1) keysUnique_updateWhere [where key = dj_id and P = "ownership i g t" and f = f, OF key] by blast
  show find: "find (ownership i g t) rows = Some r"
    using assms(1-3)
  proof (induction rows)
    case (Cons x rows)
    then show ?case by (cases "dj_id x = i") (auto simp: keysUnique_def dest: ownership_key)
  qed simp
  show "0 < affectedRows (ownership i g t) rows"
    using selectBy_SomeD [OF assms(2)] assms(3) by (auto simp: affectedRows_def length_greater_0_conv filter_empty_conv)
qed

lemma success_end:
  "\<exists>w'. deliverSuccess env 2 job host token now sender body w = (Inr (), w') \<and>
     w_jobs w' = w_jobs (successWrites 2 job token now w) \<and> w_circuits w' = w_circuits (successWrites 2 job token now w) \<and>
     w_sent w' = w_sent (successWrites 2 job token now w) \<and> w_dlq w' = w_dlq (successWrites 2 job token now w)"
proof -
  have "\<exists>r w'. maybeShadowProbeInbox env (dj_inboxUrl job) host sender body w0 = (r, w') \<and>
      w_jobs w' = w_jobs w0 \<and> w_circuits w' = w_circuits w0 \<and> w_sent w' = w_sent w0 \<and> w_dlq w' = w_dlq w0" for w0
    by (auto simp: maybeShadowProbeInbox_def Let_def split: option.splits)
  from this [of "successWrites 2 job token now w"] show ?thesis
    unfolding success_run by (auto simp: Let_def act_defs ackMessage_def split: sum.splits)
qed

text \<open>
  C3: What a worker that still owns its claim records for each answer. A 2xx answer makes the
  job delivered and heals the circuit. A permanent 4xx fails the job and leaves the circuit
  alone. Any other answer counts one attempt and one circuit failure: below eight attempts the
  job waits for the backoff delay, with a wake-up message sent with exactly that delay; the
  eighth makes it a dead letter due in six hours, with a repair intent only while generations
  are left, and one message in the dead letter queue. The claim is released in every case, no
  other job changes, and the handler returns.
\<close>

theorem deliver_outcome_table:
  assumes "keysUnique dj_id (db_jobs (w_jobs w))" and "selectBy dj_id (dj_id job) (db_jobs (w_jobs w)) = Some r"
    and "ownership (dj_id job) (dj_reconcileAttempt job) token r"
    and "e_bound env" and "\<And>ms. e_port env ms = None" and "\<And>m. e_dlqOk env m"
  shows "\<exists>w' r'. deliverSettle env 2 job host token now sender body res w = (Inr (), w') \<and>
    selectBy dj_id (dj_id job) (db_jobs (w_jobs w')) = Some r' \<and> dj_processingToken r' = None \<and>
    (\<forall>j. j \<noteq> dj_id job \<longrightarrow> selectBy dj_id j (db_jobs (w_jobs w')) = selectBy dj_id j (db_jobs (w_jobs w))) \<and>
    (if responseOk res then
       dj_status r' = DqDelivered \<and> dj_deliveredAt r' = Some now \<and> w_sent w' = w_sent w \<and> w_dlq w' = w_dlq w \<and>
       w_circuits w' = recordCircuitSuccess (w_circuits w) (dj_inboxUrl job)
     else if isPermanentDeliveryFailure (statusOf res) then
       dj_status r' = DqFailed \<and> dj_attempts r' = dj_attempts r \<and> w_dlq w' = w_dlq w \<and> w_circuits w' = w_circuits w
     else
       dj_attempts r' = dj_attempts r + 1 \<and> w_circuits w' = recordCircuitFailure now (w_circuits w) (dj_inboxUrl job) \<and>
       (if dj_attempts r' < DELIVERY_MAX_ATTEMPTS then
          dj_status r' = DqRetryWait \<and> w_dlq w' = w_dlq w \<and>
          (let d = computeRetryDelaySeconds (e_random env) (dj_attempts r')
           in dj_nextAttemptAt r' = now + 1000 * d \<and> w_sent w' \<noteq> [] \<and>
              last (w_sent w') = (buildDeliverEndpointMessage (e_isoText env now) (dj_id job) (dj_reconcileAttempt job), if d = 0 then None else Some d))
        else
          dj_status r' = DqDeadLetter \<and> dj_nextAttemptAt r' = now + 6 * 60 * 60 * 1000 \<and>
          dj_dlqPending r' = (dj_reconcileAttempt job < MAX_RECONCILE_ATTEMPTS) \<and>
          (\<exists>m. w_dlq w' = w_dlq w @ [m] \<and> d_jobId m = dj_id job \<and> d_attempts m = dj_attempts r' \<and>
               d_reconcileAttempt m = Some (dj_reconcileAttempt job) \<and> d_lastError m = Some (buildErrorMessage res))))"
proof (cases "responseOk res")
  case True
  let ?f = "\<lambda>r. r\<lparr>dj_status := DqDelivered, dj_deliveredAt := Some now, dj_error := None, dj_lastAttemptAt := Some now,
              dj_processingStartedAt := None, dj_processingToken := None, dj_dlqPending := False\<rparr>"
  note row = owned_update [OF assms(1-3), of ?f, simplified]
  let ?w2 = "successWrites 2 job token now w"
  obtain w' where run: "deliverSuccess env 2 job host token now sender body w = (Inr (), w')"
    and same: "w_jobs w' = w_jobs ?w2" "w_circuits w' = w_circuits ?w2" "w_sent w' = w_sent ?w2" "w_dlq w' = w_dlq ?w2"
    using success_end [of env job host token now sender body w] by blast
  show ?thesis
    using True run same row
    by (simp add: deliverSettle_def successWrites_def markDelivered_def Let_def)
next
  case False
  let ?own = "ownership (dj_id job) (dj_reconcileAttempt job) token"
  obtain w1 where run: "deliverFailure env job token now res w = settleFailure env job token now res w1"
    and w1: "w_jobs w1 = w_jobs w" "w_circuits w1 = w_circuits w" "w_dlq w1 = w_dlq w"
    by (rule failure_run)
  note settle = deliverSettle_def run settleFailure_def Let_def
  show ?thesis
  proof (cases "isPermanentDeliveryFailure (statusOf res)")
    case perm: True
    let ?f = "\<lambda>r. r\<lparr>dj_status := DqFailed, dj_error := Some (buildErrorMessage res), dj_lastAttemptAt := Some now,
              dj_processingStartedAt := None, dj_processingToken := None, dj_dlqPending := False\<rparr>"
    note row = owned_update [OF assms(1-3), of ?f, simplified]
    have fence: "(\<lambda>r. dj_id r = dj_id job \<and> ?own r) = ?own" by (auto simp: fun_eq_iff ownership_def)
    show ?thesis
      using False perm row w1
      by (simp add: settle failJob_def failJobRows_def fence onJobs_def ackMessage_def andThen_def effect_def)
  next
    case trans: False
    let ?inc = "\<lambda>r. r\<lparr>dj_attempts := dj_attempts r + 1\<rparr>"
    let ?r1 = "?inc r"
    let ?rows = "db_jobs (w_jobs w)"
    let ?rows1 = "updateWhere ?own ?inc ?rows"
    note row1 = owned_update [OF assms(1-3), of ?inc, simplified]
    have own1: "?own ?r1" using assms(3) by (simp add: ownership_def)
    have inc: "incrementDeliveryAttempts ?own ?rows = (Some (dj_attempts r + 1), ?rows1)"
      using row1(4) by (simp add: incrementDeliveryAttempts_def)
    show ?thesis
    proof (cases "dj_attempts r + 1 < DELIVERY_MAX_ATTEMPTS")
      case True
      let ?d = "computeRetryDelaySeconds (e_random env) (dj_attempts r + 1)"
      let ?f = "\<lambda>r. r\<lparr>dj_status := DqRetryWait, dj_error := Some (buildErrorMessage res), dj_lastAttemptAt := Some now,
              dj_processingStartedAt := None, dj_processingToken := None, dj_nextAttemptAt := now + ?d * 1000\<rparr>"
      note row = owned_update [OF row1(3) row1(1) own1, of ?f, simplified]
      show ?thesis
        using False trans row row1(2) w1 inc True assms(4-6)
        by (simp add: settle markRetryWait_def onJobs_def ackMessage_def andThen_def effect_def sendQueueMessage_def)
    next
      case dead: False
      let ?f = "\<lambda>r. r\<lparr>dj_status := DqDeadLetter, dj_error := Some (buildErrorMessage res), dj_lastAttemptAt := Some now,
               dj_processingStartedAt := None, dj_processingToken := None,
               dj_dlqPending := (dj_reconcileAttempt job < MAX_RECONCILE_ATTEMPTS),
               dj_nextAttemptAt := now + DELIVERY_RECONCILE_DELAY_SECONDS * 1000\<rparr>"
      note row = owned_update [OF row1(3) row1(1) own1, of ?f, simplified]
      show ?thesis
        using False trans row row1(2) w1 inc dead assms(4-6)
        by (simp add: settle markDeadLetter_def onJobs_def ackMessage_def andThen_def effect_def sendDlqMessage_def
            DELIVERY_RECONCILE_DELAY_SECONDS_def)
    qed
  qed
qed

definition exampleClaimed :: djob where
  "exampleClaimed = (newJob ''j'' ''act'' ''https://a.com/users/bob'' 0)
     \<lparr>dj_status := DqProcessing, dj_processingToken := Some ''t'', dj_processingStartedAt := Some 5\<rparr>"

theorem deliver_outcome_table_witness:
  "\<exists>w' r'. deliverSettle exampleDelivery 2 exampleClaimed ''a.com'' ''t'' 7 (''al'', ''pem'') ''{}'' (HttpResponse 503)
       (exampleDeliveryWorld\<lparr>w_jobs := \<lparr>db_jobs = [exampleClaimed], db_recipients = [], db_tombstones = []\<rparr>\<rparr>) = (Inr (), w') \<and>
     selectBy dj_id ''j'' (db_jobs (w_jobs w')) = Some r' \<and> dj_status r' = DqRetryWait \<and> dj_attempts r' = 1"
proof -
  let ?w = "exampleDeliveryWorld\<lparr>w_jobs := \<lparr>db_jobs = [exampleClaimed], db_recipients = [], db_tombstones = []\<rparr>\<rparr>"
  have env: "e_bound exampleDelivery" "e_port exampleDelivery ms = None" "e_dlqOk exampleDelivery m" for ms m
    by (simp_all add: exampleDelivery_def)
  have job: "keysUnique dj_id (db_jobs (w_jobs ?w))" "selectBy dj_id (dj_id exampleClaimed) (db_jobs (w_jobs ?w)) = Some exampleClaimed"
    "ownership (dj_id exampleClaimed) (dj_reconcileAttempt exampleClaimed) ''t'' exampleClaimed"
    "dj_id exampleClaimed = ''j''" "dj_attempts exampleClaimed = 0"
    "\<not> responseOk (HttpResponse 503)" "\<not> isPermanentDeliveryFailure (statusOf (HttpResponse 503))" "(1::int) < DELIVERY_MAX_ATTEMPTS"
    by (simp_all add: keysUnique_def exampleClaimed_def newJob_def ownership_def responseOk_def isPermanentDeliveryFailure_def
        statusOf_def DELIVERY_MAX_ATTEMPTS_def BACKOFF_SERIES_SECONDS_def)
  show ?thesis
    using deliver_outcome_table [OF job(1-3) env, where host = "''a.com''" and now = 7 and sender = "(''al'', ''pem'')" and
        body = "''{}''" and res = "HttpResponse 503"] job(4-8)
    by auto
qed

end
