(* ===== verification/DeliveryFanout.thy ===== *)
theory DeliveryFanout
  imports DeliveryWorld
begin

section \<open>Fanout, actor resolution and reconciliation\<close>

text \<open>
  Models \<open>src/backend/lib/delivery/queue-batching.ts\<close>, the workers that turn an activity into
  endpoint jobs (paging through followers or the members of a community), resolve the
  endpoint of one actor, and consume repair intents; with the recovery sweep of endpoint jobs
  of \<open>queue.ts\<close>. The followers, members and activities do not change while a worker runs;
  a fetch of a remote actor happens in one step.
\<close>

definition FANOUT_FOLLOWER_PAGE_SIZE :: nat where "FANOUT_FOLLOWER_PAGE_SIZE = 200"
definition FANOUT_SEND_BATCH_SIZE :: nat where "FANOUT_SEND_BATCH_SIZE = 100"
definition FANOUT_MAX_FOLLOWERS :: nat where "FANOUT_MAX_FOLLOWERS = 20000"

lemmas fanout_page_constants =
  FANOUT_FOLLOWER_PAGE_SIZE_def FANOUT_SEND_BATCH_SIZE_def FANOUT_MAX_FOLLOWERS_def

subsection \<open>Helpers\<close>

text \<open>\<open>isLocal\<close> of \<open>ap-ids.ts\<close>\<close>

definition isLocal :: "url_parser \<Rightarrow> string \<Rightarrow> string \<Rightarrow> bool" where
  "isLocal parseUrl apId baseUrl =
     (case (parseUrl apId, parseUrl baseUrl) of
        (Some a, Some b) \<Rightarrow> u_hostname a = u_hostname b \<and> (u_port b \<noteq> [] \<longrightarrow> u_port a = u_port b)
      | _ \<Rightarrow> False)"

definition computeDeliveryJobId :: "(string \<Rightarrow> string) \<Rightarrow> string \<Rightarrow> string \<Rightarrow> string" where
  "computeDeliveryJobId sha256Hex activityId endpoint = sha256Hex (activityId @ ''|'' @ endpoint)"

definition onJobDb :: "(job_db \<Rightarrow> 'a \<times> job_db) \<Rightarrow> (dworld, 'a) act" where
  "onJobDb f w = (case f (w_jobs w) of (a, db) \<Rightarrow> (Inr a, w\<lparr>w_jobs := db\<rparr>))"

definition onFanoutRows :: "(fanout list \<Rightarrow> 'a \<times> fanout list) \<Rightarrow> (dworld, 'a) act" where
  "onFanoutRows f w = (case f (w_fanouts w) of (a, rows) \<Rightarrow> (Inr a, w\<lparr>w_fanouts := rows\<rparr>))"

definition onResolutionRows :: "(resolution list \<Rightarrow> 'a \<times> resolution list) \<Rightarrow> (dworld, 'a) act" where
  "onResolutionRows f w = (case f (w_resolutions w) of (a, rows) \<Rightarrow> (Inr a, w\<lparr>w_resolutions := rows\<rparr>))"

fun sendChunks :: "denv \<Rightarrow> qmsg list list \<Rightarrow> (dworld, unit) act" where
  "sendChunks env [] w = (Inr (), w)"
| "sendChunks env (chunk # chunks) w = andThen (sendBatchW env chunk) (\<lambda>_. sendChunks env chunks) w"

definition sendQueueBatchChunked :: "denv \<Rightarrow> qmsg list \<Rightarrow> (dworld, unit) act" where
  "sendQueueBatchChunked env requests = sendChunks env (chunksOf FANOUT_SEND_BATCH_SIZE requests)"

text \<open>
  The answer of the fetch is ignored: only an error of the database (\<open>e_actorTablesOk\<close>) is
  thrown to the caller.
\<close>

definition fetchAndCacheRemoteActor :: "denv \<Rightarrow> ms \<Rightarrow> string \<Rightarrow> (dworld, unit) act" where
  "fetchAndCacheRemoteActor env now actor w =
     (if \<not> e_actorTablesOk env then (Inl ''database unavailable'', w)
      else
        (case fetchAndUpsertActorCache (e_parseUrl env) (e_numberOf env) (e_dateOf env) (e_getActor env) now actor
                CacheUpsert False (\<lambda>db. db) (\<lambda>db. db)
                \<lparr>adb_cache = w_cache w, adb_failures = w_fetchFailures w, adb_tombstones = db_tombstones (w_jobs w)\<rparr> of
           (res, db) \<Rightarrow> (Inr (), w\<lparr>w_cache := adb_cache db, w_fetchFailures := adb_failures db\<rparr>)))"

definition resolvePreferredEndpoint :: "url_parser \<Rightarrow> 'c cached_actor_scheme option \<Rightarrow> string option" where
  "resolvePreferredEndpoint parseUrl row =
     (case row of
        None \<Rightarrow> None
      | Some r \<Rightarrow>
          (if (case ac_sharedInbox r of None \<Rightarrow> False | Some s \<Rightarrow> s \<noteq> [] \<and> isSafeRemoteUrl parseUrl s)
           then ac_sharedInbox r
           else if ac_inbox r \<noteq> [] \<and> isSafeRemoteUrl parseUrl (ac_inbox r) then Some (ac_inbox r)
           else None))"

subsection \<open>The recovery sweep of endpoint jobs\<close>

definition enqueuePendingDeliveryEndpointJobs :: "denv \<Rightarrow> ms \<Rightarrow> bool \<Rightarrow> bool \<Rightarrow> (dworld, nat) act" where
  "enqueuePendingDeliveryEndpointJobs env now includeDeferred includeFreshPending =
     andThen (onJobDb (purgeTerminalDeliveryEndpointJobs now))
     (\<lambda>_. if \<not> e_bound env then ret 0
      else (\<lambda>w.
        (let repairs = repairJobs now (db_jobs (w_jobs w));
             rows = wakeableJobs now includeDeferred includeFreshPending (db_jobs (w_jobs w))
         in andThen
              (if repairs = [] then ret ()
               else sendBatchW env
                      (map (\<lambda>r. buildReconcileJobMessage (e_isoText env now) (dj_id r) (dj_reconcileAttempt r + 1)) repairs))
              (\<lambda>_. andThen
                 (sendChunks env (chunksOf 100
                    (map (\<lambda>r. buildDeliverEndpointMessage (e_isoText env now) (dj_id r) (dj_reconcileAttempt r)) rows)))
                 (\<lambda>_. ret (length rows + length repairs))) w)))"

subsection \<open>Follower fanout\<close>

text \<open>The upserts of the planned groups, and the wake-up messages of the jobs they leave.\<close>

fun upsertGroups :: "denv \<Rightarrow> ms \<Rightarrow> string \<Rightarrow> planned_group list \<Rightarrow> job_db \<Rightarrow> qmsg list \<times> job_db" where
  "upsertGroups env now activityId [] db = ([], db)"
| "upsertGroups env now activityId (g # gs) db =
     (let jobId = computeDeliveryJobId (e_sha env) activityId (pg_endpoint g)
      in case upsertDeliveryJob now jobId activityId (pg_endpoint g) (pg_recipients g) db of
           (active, db1) \<Rightarrow>
             (case upsertGroups env now activityId gs db1 of
                (msgs, db2) \<Rightarrow>
                  ((if active then [buildDeliverEndpointMessage (e_isoText env now) jobId 0] else []) @ msgs, db2)))"

definition enqueueIntents :: "denv \<Rightarrow> bool \<Rightarrow> ms \<Rightarrow> string \<Rightarrow> string list \<Rightarrow> (dworld, nat) act" where
  "enqueueIntents env queue now activityId recipients w =
     onResolutions
       (enqueueDeliveryResolutionJobs (e_sha env) (db_tombstones (w_jobs w))
          (if queue then Some (e_port env) else None) (e_isoText env now)
          (map (\<lambda>a. \<lparr>ri_activityId = activityId, ri_recipientActorApId = a\<rparr>) recipients) False now now) w"

definition planRecipients :: "denv \<Rightarrow> ms \<Rightarrow> string list \<Rightarrow> dworld \<Rightarrow> string + plan" where
  "planRecipients env now recipients w =
     planEndpointsFromActorCache (e_blocklistReadable env) (e_parseUrl env) (e_blocklist env) (w_cache w) now recipients"

text \<open>The recipients of one page: everything durable before the first call of the producer.\<close>

definition deliverPage :: "denv \<Rightarrow> bool \<Rightarrow> ms \<Rightarrow> string \<Rightarrow> string list \<Rightarrow> (dworld, unit) act" where
  "deliverPage env queue now activityId recipients w =
     (if recipients = [] then (Inr (), w)
      else
        (case planRecipients env now recipients w of
           Inl e \<Rightarrow> (Inl e, w)
         | Inr planned \<Rightarrow>
             (case upsertGroups env now activityId (pl_groups planned) (w_jobs w) of
                (requests, db) \<Rightarrow>
                  andThen (enqueueIntents env False now activityId (pl_unknown planned))
                  (\<lambda>_. if \<not> queue then ret ()
                   else andThen (sendQueueBatchChunked env requests)
                        (\<lambda>_. andThen (enqueueIntents env True now activityId (pl_unknown planned)) (\<lambda>_. ret ())))
                  (w\<lparr>w_jobs := db\<rparr>))))"

definition acceptedFollowers :: "denv \<Rightarrow> string \<Rightarrow> string list" where
  "acceptedFollowers env followee =
     map fw_followerApId (filter (\<lambda>f. fw_followingApId f = followee \<and> fw_status f = ''accepted'') (e_follows env))"

definition remoteOnly :: "denv \<Rightarrow> string list \<Rightarrow> string list" where
  "remoteOnly env page = filter (\<lambda>a. \<not> isLocal (e_parseUrl env) a (e_appUrl env)) (dedupe page)"

function followerPages ::
  "denv \<Rightarrow> bool \<Rightarrow> ms \<Rightarrow> string \<Rightarrow> string list \<Rightarrow> string option \<Rightarrow> nat \<Rightarrow> (dworld, nat \<times> bool \<times> string option) act" where
  "followerPages env queue now activityId ids cursor processed w =
     (if FANOUT_MAX_FOLLOWERS \<le> processed then (Inr (processed, False, None), w)
      else
        (let page = pageAfter FANOUT_FOLLOWER_PAGE_SIZE cursor ids
         in if page = [] then (Inr (processed, False, None), w)
            else
              (case deliverPage env queue now activityId (remoteOnly env page) w of
                 (Inl e, w') \<Rightarrow> (Inl e, w')
               | (Inr u, w') \<Rightarrow>
                   (let processed' = processed + length page
                    in if length page < FANOUT_FOLLOWER_PAGE_SIZE then (Inr (processed', False, None), w')
                       else if FANOUT_MAX_FOLLOWERS \<le> processed' then (Inr (processed', True, Some (last page)), w')
                       else followerPages env queue now activityId ids (Some (last page)) processed' w'))))"
  by pat_completeness auto
termination
  by (relation "measure (\<lambda>(env, queue, now, act, ids, cursor, processed, w). length (filter (afterCursor cursor) ids))")
    (simp_all add: length_after_page)

declare followerPages.simps [simp del]

definition enqueueFollowerEndpointDeliveries ::
  "denv \<Rightarrow> bool \<Rightarrow> ms \<Rightarrow> string \<Rightarrow> string \<Rightarrow> string option \<Rightarrow> (dworld, nat \<times> bool \<times> string option) act" where
  "enqueueFollowerEndpointDeliveries env queue now activityId followee startCursor =
     followerPages env queue now activityId (acceptedFollowers env followee) startCursor 0"

lemma followerPages_cursor:
  "followerPages env queue now act ids cursor processed w = (Inr (n, capped, Some c), w') \<Longrightarrow>
     length (filter (afterCursor (Some c)) ids) < length (filter (afterCursor cursor) ids)"
proof (induction env queue now act ids cursor processed w rule: followerPages.induct)
  case (1 env queue now act ids cursor processed w)
  let ?page = "pageAfter FANOUT_FOLLOWER_PAGE_SIZE cursor ids"
  have step: "length (filter (afterCursor (Some (last ?page))) ids) < length (filter (afterCursor cursor) ids)" if "?page \<noteq> []"
    using length_after_page [OF that] .
  show ?case
    using 1(2) step
    apply (subst (asm) followerPages.simps)
    apply (auto simp: Let_def split: if_splits prod.splits sum.splits)
    apply (use 1(1) in \<open>fastforce simp: Let_def\<close>)
    done
qed

text \<open>The snapshot before a deletion: page after page, without the producer.\<close>

function snapshotPages :: "denv \<Rightarrow> ms \<Rightarrow> string \<Rightarrow> string \<Rightarrow> string option \<Rightarrow> (dworld, unit) act" where
  "snapshotPages env now activityId followee cursor w =
     (case enqueueFollowerEndpointDeliveries env False now activityId followee cursor w of
        (Inl e, w') \<Rightarrow> (Inl e, w')
      | (Inr (n, capped, None), w') \<Rightarrow> (Inr (), w')
      | (Inr (n, capped, Some c), w') \<Rightarrow> snapshotPages env now activityId followee (Some c) w')"
  by pat_completeness auto
termination
  by (relation "measure (\<lambda>(env, now, act, followee, cursor, w). length (filter (afterCursor cursor) (acceptedFollowers env followee)))")
    (auto simp: enqueueFollowerEndpointDeliveries_def dest: followerPages_cursor [OF sym])

declare snapshotPages.simps [simp del]

definition pendingResolutions :: "denv \<Rightarrow> ms \<Rightarrow> (dworld, nat) act" where
  "pendingResolutions env now =
     onResolutions (enqueuePendingDeliveryResolutionJobs (if e_bound env then Some (e_port env) else None) (e_isoText env now) now)"

definition snapshotAndEnqueueFollowerDeliveries :: "denv \<Rightarrow> ms \<Rightarrow> string \<Rightarrow> string \<Rightarrow> (dworld, unit) act" where
  "snapshotAndEnqueueFollowerDeliveries env now activityId followee =
     andThen (snapshotPages env now activityId followee None)
     (\<lambda>_. if \<not> e_bound env then ret ()
      else catching
        (andThen (enqueuePendingDeliveryEndpointJobs env now False True)
           (\<lambda>_. andThen (pendingResolutions env now) (\<lambda>_. ret ())))
        (\<lambda>e. ret ()))"

subsection \<open>The fanout workers\<close>

definition activityOf :: "denv \<Rightarrow> string \<Rightarrow> (string \<times> string) option" where
  "activityOf env activityId = map_of (e_activities env) activityId"

text \<open>The common head: a finished intent or a deleted activity ends it, as do missing bindings.\<close>

definition fanoutHead :: "denv \<Rightarrow> ms \<Rightarrow> string \<Rightarrow> fanout_intent \<Rightarrow> (string \<Rightarrow> (dworld, unit) act) \<Rightarrow> (dworld, unit) act" where
  "fanoutHead env now activityId intent continue w =
     (if getDeliveryFanoutState (e_sha env) intent (w_fanouts w) = FanoutTerminal then ackMessage w
      else
        (case activityOf env activityId of
           None \<Rightarrow>
             andThen (onFanoutRows (completeDeliveryFanoutJob (e_sha env) intent True
                        (Some ''Activity was deleted before fanout completed'') now))
               (\<lambda>_. ackMessage) w
         | Some (author, raw) \<Rightarrow>
             andThen (requireQueue env)
               (\<lambda>bound. if bound then continue author
                  else andThen (onFanoutRows (resetDeliveryFanoutJob (e_sha env) intent (Some ''Queue bindings unavailable'') now))
                         (\<lambda>_. ret ())) w))"

definition processFanoutFollowers :: "denv \<Rightarrow> ms \<Rightarrow> string \<Rightarrow> string \<Rightarrow> string option \<Rightarrow> (dworld, unit) act" where
  "processFanoutFollowers env now activityId followee msgCursor =
     (let intent = FollowersIntent activityId followee
      in fanoutHead env now activityId intent
        (\<lambda>author. andThen (enqueueFollowerEndpointDeliveries env True now activityId followee msgCursor)
          (\<lambda>(processed, capped, nextCursor).
             andThen
               (case nextCursor of
                  Some c \<Rightarrow>
                    if capped
                    then sendQueueMessage env
                           \<lparr>q_body = FanoutFollowers activityId followee (Some c), q_autoDlqAttempt = None,
                            q_scheduledAt = e_isoText env now\<rparr> 0
                    else ret ()
                | None \<Rightarrow> ret ())
               (\<lambda>_. andThen
                  (if \<not> capped then andThen (onFanoutRows (completeDeliveryFanoutJob (e_sha env) intent False None now)) (\<lambda>_. ret ())
                   else ret ())
                  (\<lambda>_. ackMessage)))))"

subsection \<open>Community fanout\<close>

definition membersOf :: "denv \<Rightarrow> string \<Rightarrow> string list" where
  "membersOf env community = map snd (filter (\<lambda>(c, a). c = community) (e_members env))"

definition insertInbox :: "string \<Rightarrow> string \<Rightarrow> (string \<times> string) list \<Rightarrow> (string \<times> string) list" where
  "insertInbox activityId actor rows = (if (actor, activityId) \<in> set rows then rows else rows @ [(actor, activityId)])"

definition communityMessage :: "denv \<Rightarrow> ms \<Rightarrow> string \<Rightarrow> string \<Rightarrow> string option \<Rightarrow> fanout_stage \<Rightarrow> string option \<Rightarrow> qmsg" where
  "communityMessage env now activityId community announce stage cursor =
     \<lparr>q_body = FanoutCommunity activityId community (truthy announce) (Some stage) (truthy cursor), q_autoDlqAttempt = None,
      q_scheduledAt = e_isoText env now\<rparr>"

text \<open>One page of a community: the audience of its stage, and where to go on.\<close>

definition communityPage :: "denv \<Rightarrow> string \<Rightarrow> fanout_stage \<Rightarrow> string option \<Rightarrow> string list" where
  "communityPage env community stage cursor =
     pageAfter FANOUT_FOLLOWER_PAGE_SIZE cursor
       (if stage = RemoteFollowers then acceptedFollowers env community else membersOf env community)"

definition communityNext :: "fanout_stage \<Rightarrow> string list \<Rightarrow> (fanout_stage \<times> string option) option" where
  "communityNext stage page =
     (if length page = FANOUT_FOLLOWER_PAGE_SIZE then Some (stage, Some (last page))
      else
        (case stage of
           LocalMembers \<Rightarrow> Some (RemoteMembers, None)
         | RemoteMembers \<Rightarrow> Some (RemoteFollowers, None)
         | RemoteFollowers \<Rightarrow> None))"

definition localRecipients :: "denv \<Rightarrow> string \<Rightarrow> string list \<Rightarrow> string list" where
  "localRecipients env author page = filter (\<lambda>a. isLocal (e_parseUrl env) a (e_appUrl env) \<and> a \<noteq> author) page"

definition remoteRecipients :: "denv \<Rightarrow> string \<Rightarrow> string list \<Rightarrow> string list" where
  "remoteRecipients env author page = filter (\<lambda>a. a \<noteq> author) (remoteOnly env page)"

text \<open>In this worker the wake-ups go out before the intents of the unknown recipients are stored.\<close>

definition deliverRemotePage :: "denv \<Rightarrow> ms \<Rightarrow> string \<Rightarrow> string list \<Rightarrow> (dworld, unit) act" where
  "deliverRemotePage env now activityId recipients w =
     (if recipients = [] then (Inr (), w)
      else
        (case planRecipients env now recipients w of
           Inl e \<Rightarrow> (Inl e, w)
         | Inr planned \<Rightarrow>
             (case upsertGroups env now activityId (pl_groups planned) (w_jobs w) of
                (requests, db) \<Rightarrow>
                  andThen (sendQueueBatchChunked env requests)
                    (\<lambda>_. andThen (enqueueIntents env True now activityId (pl_unknown planned)) (\<lambda>_. ret ()))
                    (w\<lparr>w_jobs := db\<rparr>))))"

definition communityStep ::
  "denv \<Rightarrow> ms \<Rightarrow> string \<Rightarrow> string \<Rightarrow> string option \<Rightarrow> string \<Rightarrow> fanout_stage \<Rightarrow> string list \<Rightarrow> (dworld, unit) act" where
  "communityStep env now activityId community announce author stage page =
     (if stage = LocalMembers
      then effect (\<lambda>w. w\<lparr>w_inbox := fold (insertInbox activityId) (localRecipients env author page) (w_inbox w)\<rparr>)
      else deliverRemotePage env now (case announce of None \<Rightarrow> activityId | Some n \<Rightarrow> n) (remoteRecipients env author page))"

definition processFanoutCommunity ::
  "denv \<Rightarrow> ms \<Rightarrow> string \<Rightarrow> string \<Rightarrow> string option \<Rightarrow> fanout_stage option \<Rightarrow> string option \<Rightarrow> (dworld, unit) act" where
  "processFanoutCommunity env now activityId community announce msgStage msgCursor =
     (let intent = CommunityIntent activityId community (truthy announce);
          stage = (case msgStage of None \<Rightarrow> LocalMembers | Some s \<Rightarrow> s);
          page = communityPage env community stage msgCursor
      in fanoutHead env now activityId intent
        (\<lambda>author. andThen (communityStep env now activityId community announce author stage page)
          (\<lambda>_. andThen
             (case communityNext stage page of
                Some (stage', cursor') \<Rightarrow> sendQueueMessage env (communityMessage env now activityId community announce stage' cursor') 0
              | None \<Rightarrow> andThen (onFanoutRows (completeDeliveryFanoutJob (e_sha env) intent False None now)) (\<lambda>_. ret ()))
             (\<lambda>_. ackMessage))))"

subsection \<open>Resolving one actor\<close>

text \<open>The settlement of a ticket, when the message has one.\<close>

definition finishResolution :: "resolution_ticket option \<Rightarrow> resolution_status \<Rightarrow> string option \<Rightarrow> ms \<Rightarrow> (dworld, unit) act" where
  "finishResolution ticket status reason now =
     (case ticket of
        None \<Rightarrow> ackMessage
      | Some c \<Rightarrow> andThen (onResolutionRows (completeDeliveryResolutionJob c status reason now)) (\<lambda>_. ackMessage))"

definition endpointStale :: "'c cached_actor_scheme option \<Rightarrow> ms \<Rightarrow> bool" where
  "endpointStale row now =
     (case row of
        None \<Rightarrow> True
      | Some r \<Rightarrow> (case ac_lastFetchedAt r of None \<Rightarrow> True | Some t \<Rightarrow> DELIVERY_ENDPOINT_CACHE_TTL_MS < now - t))"

text \<open>What follows a fetch that threw: the budget of the row, or of the message without one.\<close>

definition resolveFetchFailed :: "denv \<Rightarrow> ms \<Rightarrow> string \<Rightarrow> string \<Rightarrow> int option \<Rightarrow> resolution_ticket option \<Rightarrow> string \<Rightarrow> (dworld, unit) act" where
  "resolveFetchFailed env now activityId recipient attempts ticket err =
     (case ticket of
        Some c \<Rightarrow>
          andThen (onResolutionRows (retryDeliveryResolutionJob c err 60 now))
          (\<lambda>(owned, isLast). if \<not> owned \<or> isLast then ackMessage else retryMessage 60)
      | None \<Rightarrow>
          (let nextAttempt = (case attempts of None \<Rightarrow> 0 | Some n \<Rightarrow> n) + 1
           in if MAX_RESOLVE_ATTEMPTS < nextAttempt then ackMessage
              else andThen (sendQueueMessage env (buildResolveActorMessage (e_isoText env now) activityId recipient nextAttempt) 60)
                     (\<lambda>_. ackMessage)))"

text \<open>Once the cache has been refreshed, or needed no refresh.\<close>

definition resolveMaterialize :: "denv \<Rightarrow> ms \<Rightarrow> string \<Rightarrow> string \<Rightarrow> resolution_ticket option \<Rightarrow> (dworld, unit) act" where
  "resolveMaterialize env now activityId recipient ticket w =
     (case resolvePreferredEndpoint (e_parseUrl env) (selectBy ac_apId recipient (w_cache w)) of
        None \<Rightarrow> finishResolution ticket RsDiscarded (Some ''endpoint_unresolved'') now w
      | Some endpoint \<Rightarrow>
          (let jobId = computeDeliveryJobId (e_sha env) activityId endpoint
           in andThen (onJobDb (upsertDeliveryJob now jobId activityId endpoint [recipient]))
                (\<lambda>active. if \<not> active then finishResolution ticket RsDiscarded (Some ''recipient_tombstoned'') now
                 else andThen (sendQueueMessage env (buildDeliverEndpointMessage (e_isoText env now) jobId 0) 0)
                      (\<lambda>_. finishResolution ticket RsResolved None now)) w))"

definition resolveClaimed :: "denv \<Rightarrow> ms \<Rightarrow> string \<Rightarrow> string \<Rightarrow> int option \<Rightarrow> resolution_ticket option \<Rightarrow> (dworld, unit) act" where
  "resolveClaimed env now activityId recipient attempts ticket w =
     (if activityOf env activityId = None then finishResolution ticket RsDiscarded (Some ''activity_not_found'') now w
      else if isRemoteActorTombstoned (e_parseUrl env) (db_tombstones (w_jobs w)) recipient
      then finishResolution ticket RsDiscarded (Some ''recipient_tombstoned'') now w
      else
        (case isActorBlockedStrict (e_blocklistReadable env) (e_parseUrl env) (e_blocklist env) recipient of
           Inl e \<Rightarrow>
             (case ticket of
                None \<Rightarrow> (Inl e, w)
              | Some c \<Rightarrow>
                  andThen (onResolutionRows (deferDeliveryResolutionJob c e 60 now))
                  (\<lambda>owned. if owned then retryMessage 60 else ackMessage) w)
         | Inr True \<Rightarrow> finishResolution ticket RsDiscarded (Some ''recipient_blocked'') now w
         | Inr False \<Rightarrow>
             (if endpointStale (selectBy ac_apId recipient (w_cache w)) now
              then (case fetchAndCacheRemoteActor env now recipient w of
                      (Inl e, w') \<Rightarrow> resolveFetchFailed env now activityId recipient attempts ticket e w'
                    | (Inr u, w') \<Rightarrow> resolveMaterialize env now activityId recipient ticket w')
              else resolveMaterialize env now activityId recipient ticket w)))"

definition processResolveActor ::
  "denv \<Rightarrow> string \<Rightarrow> (resolution list \<Rightarrow> resolution list) \<Rightarrow> ms \<Rightarrow> string \<Rightarrow> string \<Rightarrow> int option \<Rightarrow> (dworld, unit) act" where
  "processResolveActor env token between now activityId recipient attempts =
     andThen (requireQueue env)
     (\<lambda>bound. if \<not> bound then ret ()
      else andThen (onResolutionRows (claimDeliveryResolutionJob (e_sha env) between activityId recipient token now))
      (\<lambda>claim. case claim of
         ClaimTerminal \<Rightarrow> ackMessage
       | ClaimDeferred d \<Rightarrow> retryMessage d
       | ClaimBusy d \<Rightarrow> retryMessage d
       | ClaimMissing \<Rightarrow> resolveClaimed env now activityId recipient attempts None
       | Claimed c \<Rightarrow> resolveClaimed env now activityId recipient attempts (Some c)))"

subsection \<open>Reconciliation\<close>

text \<open>A message that comes early is put back as it is.\<close>

definition processReconcileJob :: "denv \<Rightarrow> ms \<Rightarrow> qmsg \<Rightarrow> string \<Rightarrow> int \<Rightarrow> (dworld, unit) act" where
  "processReconcileJob env now msg jobId reconcileAttempt =
     andThen (requireQueue env)
     (\<lambda>bound. if \<not> bound then ret ()
      else (\<lambda>w.
        (case decideReconcile reconcileAttempt now (selectBy dj_id jobId (db_jobs (w_jobs w))) of
           ReconcileIgnore \<Rightarrow> ackMessage w
         | ReconcileLater d \<Rightarrow>
             andThen (sendQueueMessage env msg d) (\<lambda>_. ackMessage) w
         | ReconcileTry \<Rightarrow>
             andThen (onJobs (reviveJob jobId reconcileAttempt now))
             (\<lambda>revived. if \<not> revived then ackMessage
              else andThen (sendQueueMessage env (buildDeliverEndpointMessage (e_isoText env now) jobId reconcileAttempt) 0)
                   (\<lambda>_. ackMessage)) w)))"

subsection \<open>Pages\<close>

lemma page_short:
  "length (pageAfter n cursor ids) < n \<Longrightarrow> a \<in> set ids \<Longrightarrow> afterCursor cursor a \<Longrightarrow> a \<in> set (pageAfter n cursor ids)"
  by (auto simp: pageAfter_def min_def split: if_splits)

lemma page_or_later:
  assumes "a \<in> set ids" "afterCursor cursor a" "pageAfter n cursor ids \<noteq> []"
  shows "a \<in> set (pageAfter n cursor ids) \<or> afterCursor (Some (last (pageAfter n cursor ids))) a"
proof -
  let ?l = "sort (filter (afterCursor cursor) ids)"
  have "a \<in> set ?l" using assms by simp
  then have a: "a \<in> set (take n ?l) \<or> a \<in> set (drop n ?l)" by (metis append_take_drop_id set_append Un_iff)
  have "sorted (take n ?l @ drop n ?l)" by simp
  then have le: "\<forall>x \<in> set (take n ?l). \<forall>y \<in> set (drop n ?l). x \<le> y" by (simp only: sorted_append) blast
  have last: "last (take n ?l) \<in> set (take n ?l)" using assms(3) unfolding pageAfter_def by (rule last_in_set)
  show ?thesis
  proof (cases "a \<in> set (take n ?l)")
    case False
    then have "last (take n ?l) \<le> a" "last (take n ?l) \<noteq> a" using a le last by auto
    then have "last (take n ?l) < a" by (rule le_neq_trans)
    then show ?thesis by (simp add: pageAfter_def afterCursor_def)
  qed (simp add: pageAfter_def)
qed

subsection \<open>What the upserts keep\<close>

lemma upsert_tombstones [simp]: "db_tombstones (snd (upsertDeliveryJob now j act ep as db)) = db_tombstones db"
  by (simp add: upsertDeliveryJob_def Let_def deleteJobs_def)

lemma upsert_recipients:
  "set (db_recipients (snd (upsertDeliveryJob now j act ep as db))) =
     set (db_recipients db) \<union> {(j, a) | a. a \<in> set as \<and> a \<notin> set (db_tombstones db)}"
proof (cases "dedupe as = []")
  case True
  then show ?thesis by (simp add: upsertDeliveryJob_def)
next
  case False
  let ?recs = "fold (insertRecipient (db_tombstones db) j) (dedupe as) (db_recipients db)"
  let ?ret = "hasRetainedRecipient j ?recs"
  have "x \<notin> set (map dj_id (filter (\<lambda>r. dj_id r = j \<and> dj_attributionComplete r \<and> \<not> ?ret) rows))" if "(x, a) \<in> set ?recs" for x a rows
    using that by (force simp: hasRetainedRecipient_iff)
  then have "set (db_recipients (deleteJobs (\<lambda>r. dj_id r = j \<and> dj_attributionComplete r \<and> \<not> ?ret)
      (db\<lparr>db_jobs := rows, db_recipients := ?recs\<rparr>))) = set ?recs" for rows
    by (auto simp: deleteJobs_def Let_def)
  then have "set (db_recipients (snd (upsertDeliveryJob now j act ep as db))) = set ?recs"
    using False by (simp add: upsertDeliveryJob_def Let_def)
  then show ?thesis by (simp add: insertRecipients_set)
qed

lemma upsertGroups_keeps:
  assumes "job_db_wf db" "upsertGroups env now act gs db = (msgs, db')"
  shows "job_db_wf db' \<and> db_tombstones db' = db_tombstones db \<and>
    set (db_recipients db') = set (db_recipients db) \<union>
      {(computeDeliveryJobId (e_sha env) act (pg_endpoint g), a) | g a. g \<in> set gs \<and> a \<in> set (pg_recipients g) \<and> a \<notin> set (db_tombstones db)}"
  using assms
proof (induction gs arbitrary: db msgs)
  case (Cons g gs)
  let ?j = "computeDeliveryJobId (e_sha env) act (pg_endpoint g)"
  let ?db1 = "snd (upsertDeliveryJob now ?j act (pg_endpoint g) (pg_recipients g) db)"
  obtain msgs1 where rest: "upsertGroups env now act gs ?db1 = (msgs1, db')"
    using Cons.prems(2) by (auto simp: Let_def split: prod.splits)
  have "job_db_wf ?db1" using Cons.prems(1) by (rule upsert_wf)
  from Cons.IH [OF this rest] show ?case by (auto simp: upsert_recipients)
qed simp

subsection \<open>Secured deliveries\<close>

text \<open>
  A delivery of an activity to an actor is secured when the ledgers hold it: the actor is a
  recipient of an endpoint job of that activity, or has a resolution intent for it.
\<close>

definition secured :: "denv \<Rightarrow> string \<Rightarrow> dworld \<Rightarrow> string \<Rightarrow> bool" where
  "secured env activityId w a =
     ((\<exists>ep job. (computeDeliveryJobId (e_sha env) activityId ep, a) \<in> set (db_recipients (w_jobs w)) \<and>
         selectBy dj_id (computeDeliveryJobId (e_sha env) activityId ep) (db_jobs (w_jobs w)) = Some job) \<or>
      hasIntent (e_sha env) \<lparr>ri_activityId = activityId, ri_recipientActorApId = a\<rparr> (w_resolutions w))"

definition batchBlocked :: "denv \<Rightarrow> string \<Rightarrow> bool" where
  "batchBlocked env a =
     (case filterBlockedActorApIdsStrict True (e_parseUrl env) (e_blocklist env) [a] of Inl e \<Rightarrow> False | Inr b \<Rightarrow> a \<in> set b)"

lemma batchBlocked_mem:
  assumes "filterBlockedActorApIdsStrict True (e_parseUrl env) (e_blocklist env) ids = Inr b" "a \<in> set ids"
  shows "a \<in> set b \<longleftrightarrow> batchBlocked env a"
proof -
  obtain b1 where b1: "filterBlockedActorApIdsStrict True (e_parseUrl env) (e_blocklist env) [a] = Inr b1" using filter_total by blast
  show ?thesis using filter_mem [OF b1, of a] filter_mem [OF assms(1), of a] assms(2) b1 by (simp add: batchBlocked_def)
qed

lemma in_sum_list: "a \<in># sum_list (map f gs) \<longleftrightarrow> (\<exists>g \<in> set gs. a \<in># f g)"
  by (induction gs) auto

text \<open>What every page keeps.\<close>

definition snapshotKeeps :: "denv \<Rightarrow> string \<Rightarrow> dworld \<Rightarrow> dworld \<Rightarrow> bool" where
  "snapshotKeeps env activityId w w' =
     (job_db_wf (w_jobs w') \<and> w_cache w' = w_cache w \<and> db_tombstones (w_jobs w') = db_tombstones (w_jobs w) \<and> w_sent w' = w_sent w \<and>
      (\<forall>a. secured env activityId w a \<longrightarrow> secured env activityId w' a))"

lemma snapshotKeeps_refl: "job_db_wf (w_jobs w) \<Longrightarrow> snapshotKeeps env act w w"
  by (simp add: snapshotKeeps_def)

lemma snapshotKeeps_trans: "snapshotKeeps env act w w1 \<Longrightarrow> snapshotKeeps env act w1 w2 \<Longrightarrow> snapshotKeeps env act w w2"
  by (simp add: snapshotKeeps_def)

lemma hasIntent_mono: "set rows \<subseteq> set rows' \<Longrightarrow> hasIntent sha i rows \<Longrightarrow> hasIntent sha i rows'"
  by (auto simp: hasIntent_def list_ex_iff)

lemma persist_mono: "set rows \<subseteq> set (snd (persistDeliveryResolutionJobs sha tombs intents now rows))"
  using insertResolutions_mono by (simp add: persistDeliveryResolutionJobs_def split: prod.split)

lemma pair_secured:
  assumes "job_db_wf (w_jobs w)" "(computeDeliveryJobId (e_sha env) act ep, a) \<in> set (db_recipients (w_jobs w))"
  shows "secured env act w a"
proof -
  have "computeDeliveryJobId (e_sha env) act ep \<in> dj_id ` set (db_jobs (w_jobs w))"
    using assms by (auto simp: job_db_wf_def attributed_def list_all_iff)
  then obtain job where "selectBy dj_id (computeDeliveryJobId (e_sha env) act ep) (db_jobs (w_jobs w)) = Some job"
    using selectBy_None_iff [of dj_id _ "db_jobs (w_jobs w)"] by (fastforce simp: keySet_def)
  then show ?thesis using assms(2) by (auto simp: secured_def)
qed

lemma deliverPage_secures:
  assumes wf: "job_db_wf (w_jobs w)" and u: "keysUnique ac_apId (w_cache w)" and r: "e_blocklistReadable env"
    and nul: "char_of (0::nat) \<notin> set act"
  shows "\<exists>w'. deliverPage env False now act recipients w = (Inr (), w') \<and> snapshotKeeps env act w w' \<and>
    (\<forall>a \<in> set recipients. a \<notin> set (db_tombstones (w_jobs w)) \<and> \<not> batchBlocked env a \<longrightarrow> secured env act w' a)"
proof (cases "recipients = []")
  case True
  then show ?thesis using wf by (simp add: deliverPage_def snapshotKeeps_refl)
next
  case False
  obtain b where b: "filterBlockedActorApIdsStrict True (e_parseUrl env) (e_blocklist env) recipients = Inr b" using filter_total by blast
  obtain p where plan: "planRecipients env now recipients w = Inr p"
    using plan_total [OF b] r by (auto simp: planRecipients_def)
  note parts = plan_partitions_recipients [OF u plan [unfolded planRecipients_def]]
  obtain msgs db where ups: "upsertGroups env now act (pl_groups p) (w_jobs w) = (msgs, db)" by fastforce
  note keep = upsertGroups_keeps [OF wf ups]
  let ?intents = "map (\<lambda>a. \<lparr>ri_activityId = act, ri_recipientActorApId = a\<rparr>) (pl_unknown p)"
  let ?rows = "snd (persistDeliveryResolutionJobs (e_sha env) (db_tombstones db) ?intents now (w_resolutions w))"
  let ?w' = "w\<lparr>w_jobs := db, w_resolutions := ?rows\<rparr>"
  have run: "deliverPage env False now act recipients w = (Inr (), ?w')"
    using False plan ups
    by (simp add: deliverPage_def enqueueIntents_def onResolutions_def enqueueDeliveryResolutionJobs_def andThen_def ret_def
        split: prod.split)
  have "secured env act ?w' a" if a: "secured env act w a" for a
  proof -
    from a consider (pair) ep where "(computeDeliveryJobId (e_sha env) act ep, a) \<in> set (db_recipients (w_jobs w))"
      | (intent) "hasIntent (e_sha env) \<lparr>ri_activityId = act, ri_recipientActorApId = a\<rparr> (w_resolutions w)"
      by (auto simp: secured_def)
    then show ?thesis
    proof cases
      case pair
      then show ?thesis using keep by (intro pair_secured) auto
    next
      case intent
      then show ?thesis using hasIntent_mono [OF persist_mono] by (simp add: secured_def)
    qed
  qed
  then have keeps: "snapshotKeeps env act w ?w'" using keep by (simp add: snapshotKeeps_def)
  have "secured env act ?w' a" if a: "a \<in> set recipients" "a \<notin> set (db_tombstones (w_jobs w))" "\<not> batchBlocked env a" for a
  proof -
    have "a \<notin> set (pl_blocked p)" using a(1,3) parts b batchBlocked_mem [OF b a(1)] r by auto
    moreover have "a \<in># mset (pl_blocked p) + mset (pl_unknown p) + (\<Sum>g \<leftarrow> pl_groups p. mset (pg_recipients g))"
      using a(1) parts by (metis set_mset_mset)
    ultimately have "a \<in> set (pl_unknown p) \<or> (\<exists>g \<in> set (pl_groups p). a \<in> set (pg_recipients g))"
      by (simp add: in_sum_list)
    then show ?thesis
    proof
      assume "a \<in> set (pl_unknown p)"
      then have "hasIntent (e_sha env) \<lparr>ri_activityId = act, ri_recipientActorApId = a\<rparr> ?rows"
        using a(2) keep nul by (intro persist_hasIntent) (auto simp: list_all_iff)
      then show ?thesis by (simp add: secured_def)
    next
      assume "\<exists>g \<in> set (pl_groups p). a \<in> set (pg_recipients g)"
      then show ?thesis using keep a(2) by (auto intro!: pair_secured)
    qed
  qed
  then show ?thesis using run keeps by blast
qed

definition wantsDelivery :: "denv \<Rightarrow> dworld \<Rightarrow> string \<Rightarrow> bool" where
  "wantsDelivery env w a =
     (\<not> isLocal (e_parseUrl env) a (e_appUrl env) \<and> a \<notin> set (db_tombstones (w_jobs w)) \<and> \<not> batchBlocked env a)"

lemma wantsDelivery_kept: "snapshotKeeps env act w w' \<Longrightarrow> wantsDelivery env w' a = wantsDelivery env w a"
  by (simp add: wantsDelivery_def snapshotKeeps_def)

definition pagesSecure :: "denv \<Rightarrow> string \<Rightarrow> string list \<Rightarrow> string option \<Rightarrow> dworld \<Rightarrow> (string + nat \<times> bool \<times> string option) \<times> dworld \<Rightarrow> bool" where
  "pagesSecure env act ids cursor w res =
     (\<exists>n capped nxt w'. res = (Inr (n, capped, nxt), w') \<and> snapshotKeeps env act w w' \<and>
       (\<forall>a \<in> set ids. afterCursor cursor a \<and> wantsDelivery env w a \<longrightarrow>
          secured env act w' a \<or> (\<exists>c. nxt = Some c \<and> afterCursor (Some c) a)))"

lemma followerPages_secures:
  assumes "job_db_wf (w_jobs w)" "keysUnique ac_apId (w_cache w)" "e_blocklistReadable env" "char_of (0::nat) \<notin> set act"
    "processed < FANOUT_MAX_FOLLOWERS"
  shows "pagesSecure env act ids cursor w (followerPages env False now act ids cursor processed w)"
  using assms
proof (induction env "False" now act ids cursor processed w rule: followerPages.induct)
  case (1 env now act ids cursor processed w)
  let ?page = "pageAfter FANOUT_FOLLOWER_PAGE_SIZE cursor ids"
  let ?n = "processed + length ?page"
  show ?case
  proof (cases "?page = []")
    case True
    then have "a \<notin> set ids \<or> \<not> afterCursor cursor a" for a
      using page_short [of FANOUT_FOLLOWER_PAGE_SIZE cursor ids a] by (auto simp: FANOUT_FOLLOWER_PAGE_SIZE_def)
    then show ?thesis using True 1(2,6)
      by (subst followerPages.simps) (auto simp: pagesSecure_def snapshotKeeps_refl)
  next
    case False
    obtain w1 where run: "deliverPage env False now act (remoteOnly env ?page) w = (Inr (), w1)"
      and keep: "snapshotKeeps env act w w1"
      and sec: "\<forall>a \<in> set (remoteOnly env ?page). a \<notin> set (db_tombstones (w_jobs w)) \<and> \<not> batchBlocked env a \<longrightarrow> secured env act w1 a"
      using deliverPage_secures [OF 1(2-5)] by blast
    have on_page: "secured env act w1 a" if "a \<in> set ?page" "wantsDelivery env w a" for a
      using sec that by (simp add: remoteOnly_def wantsDelivery_def)
    note step = followerPages.simps [of env False now act ids cursor processed w]
    consider (short) "length ?page < FANOUT_FOLLOWER_PAGE_SIZE"
      | (cap) "\<not> length ?page < FANOUT_FOLLOWER_PAGE_SIZE" "FANOUT_MAX_FOLLOWERS \<le> ?n"
      | (more) "\<not> length ?page < FANOUT_FOLLOWER_PAGE_SIZE" "\<not> FANOUT_MAX_FOLLOWERS \<le> ?n" by blast
    then show ?thesis
    proof cases
      case short
      then have "a \<in> set ?page" if "a \<in> set ids" "afterCursor cursor a" for a using page_short that by blast
      then show ?thesis using short False run keep on_page 1(6) by (auto simp: step Let_def pagesSecure_def)
    next
      case cap
      have "secured env act w1 a \<or> afterCursor (Some (last ?page)) a" if "a \<in> set ids" "afterCursor cursor a" "wantsDelivery env w a" for a
        using page_or_later [OF that(1,2) False] on_page that(3) by blast
      then show ?thesis using cap False run keep 1(6) by (auto simp: step Let_def pagesSecure_def)
    next
      case more
      let ?rest = "followerPages env False now act ids (Some (last ?page)) ?n w1"
      have eq: "followerPages env False now act ids cursor processed w = ?rest"
        using more False run 1(6) by (simp add: step Let_def)
      have "pagesSecure env act ids (Some (last ?page)) w1 ?rest"
        using 1(1) [of ?page "Inr ()" w1 "()" ?n] 1(2-6) more False run keep by (simp add: snapshotKeeps_def)
      then obtain n capped nxt w' where rest: "?rest = (Inr (n, capped, nxt), w')" "snapshotKeeps env act w1 w'"
        and later: "\<forall>a \<in> set ids. afterCursor (Some (last ?page)) a \<and> wantsDelivery env w1 a \<longrightarrow>
          secured env act w' a \<or> (\<exists>c. nxt = Some c \<and> afterCursor (Some c) a)"
        by (auto simp: pagesSecure_def)
      have "secured env act w' a \<or> (\<exists>c. nxt = Some c \<and> afterCursor (Some c) a)"
        if a: "a \<in> set ids" "afterCursor cursor a" "wantsDelivery env w a" for a
        using page_or_later [OF a(1,2) False]
      proof
        assume "a \<in> set ?page"
        then show ?thesis using on_page a(3) rest(2) by (simp add: snapshotKeeps_def)
      next
        assume "afterCursor (Some (last ?page)) a"
        then show ?thesis using later a wantsDelivery_kept [OF keep] by blast
      qed
      then show ?thesis unfolding eq pagesSecure_def using rest snapshotKeeps_trans [OF keep rest(2)] by blast
    qed
  qed
qed

lemma snapshotPages_secure:
  assumes "job_db_wf (w_jobs w)" "keysUnique ac_apId (w_cache w)" "e_blocklistReadable env" "char_of (0::nat) \<notin> set act"
  shows "\<exists>w'. snapshotPages env now act followee cursor w = (Inr (), w') \<and> snapshotKeeps env act w w' \<and>
    (\<forall>a \<in> set (acceptedFollowers env followee). afterCursor cursor a \<and> wantsDelivery env w a \<longrightarrow> secured env act w' a)"
  using assms
proof (induction env now act followee cursor w rule: snapshotPages.induct)
  case (1 env now act followee cursor w)
  let ?ids = "acceptedFollowers env followee"
  have "pagesSecure env act ?ids cursor w (enqueueFollowerEndpointDeliveries env False now act followee cursor w)"
    unfolding enqueueFollowerEndpointDeliveries_def
    by (rule followerPages_secures) (use 1(2-5) in \<open>simp_all add: FANOUT_MAX_FOLLOWERS_def\<close>)
  then obtain n capped nxt w1 where run: "enqueueFollowerEndpointDeliveries env False now act followee cursor w = (Inr (n, capped, nxt), w1)"
    and keep: "snapshotKeeps env act w w1"
    and sec: "\<forall>a \<in> set ?ids. afterCursor cursor a \<and> wantsDelivery env w a \<longrightarrow>
      secured env act w1 a \<or> (\<exists>c. nxt = Some c \<and> afterCursor (Some c) a)"
    by (auto simp: pagesSecure_def)
  show ?case
  proof (cases nxt)
    case None
    then show ?thesis using run keep sec by (subst snapshotPages.simps) auto
  next
    case (Some c)
    have eq: "snapshotPages env now act followee cursor w = snapshotPages env now act followee (Some c) w1"
      using run Some by (subst snapshotPages.simps) simp
    have "\<exists>w'. snapshotPages env now act followee (Some c) w1 = (Inr (), w') \<and> snapshotKeeps env act w1 w' \<and>
      (\<forall>a \<in> set ?ids. afterCursor (Some c) a \<and> wantsDelivery env w1 a \<longrightarrow> secured env act w' a)"
      using 1(1) [OF run [symmetric] refl refl refl, of c] Some 1(2-5) keep by (simp add: snapshotKeeps_def run)
    then obtain w' where rest: "snapshotPages env now act followee (Some c) w1 = (Inr (), w')" "snapshotKeeps env act w1 w'"
      "\<forall>a \<in> set ?ids. afterCursor (Some c) a \<and> wantsDelivery env w1 a \<longrightarrow> secured env act w' a" by blast
    have "secured env act w' a" if a: "a \<in> set ?ids" "afterCursor cursor a" "wantsDelivery env w a" for a
      using sec a rest(2,3) wantsDelivery_kept [OF keep] Some by (auto simp: snapshotKeeps_def)
    then show ?thesis unfolding eq using rest(1) snapshotKeeps_trans [OF keep rest(2)] by blast
  qed
qed

subsection \<open>Properties\<close>



lemma process_resolve_claimed:
  assumes "e_bound env"
    and "claimDeliveryResolutionJob (e_sha env) between activityId recipient token now (w_resolutions w) = (Claimed c, rows)"
  shows "processResolveActor env token between now activityId recipient attempts w =
    resolveClaimed env now activityId recipient attempts (Some c) (w\<lparr>w_resolutions := rows\<rparr>)"
  using assms by (simp add: processResolveActor_def requireQueue_def andThen_def ret_def onResolutionRows_def)

lemma claim_row:
  assumes "claimDeliveryResolutionJob sha id activityId recipient token now rows = (Claimed c, rows')" "keysUnique rs_id rows"
  obtains r where "selectBy rs_id (rt_id c) rows' = Some r" "ownedBy c r" "rs_attempts r = rt_attempts c"
    "rt_id c = computeDeliveryResolutionId sha activityId recipient"
proof -
  let ?i = "computeDeliveryResolutionId sha activityId recipient"
  obtain row where row: "selectBy rs_id ?i rows = Some row" "claimable now row"
      "c = \<lparr>rt_id = ?i, rt_processingToken = token, rt_attempts = rs_attempts row\<rparr>"
      "rows' = updateWhere (\<lambda>r. rs_id r = ?i \<and> claimable now r)
        (\<lambda>r. r\<lparr>rs_status := RsProcessing, rs_processingToken := Some token, rs_updatedAt := now\<rparr>) rows"
    using claim_by_id [of ?i token now rows c rows'] assms by (auto simp: claimDeliveryResolutionJob_def)
  show thesis
    by (rule that [of "row\<lparr>rs_status := RsProcessing, rs_processingToken := Some token, rs_updatedAt := now\<rparr>"])
      (use row selectBy_SomeD [OF row(1)] in \<open>auto simp: selectBy_updateWhere ownedBy_def\<close>)
qed

lemma fetch_nothing:
  assumes "e_actorTablesOk env" "e_getActor env a = GetThrew \<or> (\<exists>s h. e_getActor env a = GetStatus s h)"
  shows "fetchAndCacheRemoteActor env now a w = (Inr (), w)"
  using assms by (auto simp: fetchAndCacheRemoteActor_def fetchAndUpsertActorCache_def)

text \<open>The row a completion leaves.\<close>

lemma completed_row:
  assumes "selectBy rs_id (rt_id c) (w_resolutions w) = Some r" "ownedBy c r"
  shows "\<exists>w' r'. finishResolution (Some c) status reason now w = (Inr (), w') \<and>
    selectBy rs_id (rt_id c) (w_resolutions w') = Some r' \<and> rs_status r' = status \<and> rs_lastError r' = reason \<and>
    rs_attempts r' = rs_attempts r \<and> w_verdicts w' = w_verdicts w @ [Ack] \<and> w_jobs w' = w_jobs w \<and> w_sent w' = w_sent w"
  using assms
  by (simp add: finishResolution_def onResolutionRows_def completeDeliveryResolutionJob_def andThen_def ackMessage_def effect_def
      selectBy_updateWhere)

text \<open>
  C18: A recipient that could not be fetched is given up at the first failure. When the actor
  is not cached and the request fails (a network error, or any status that is not a success,
  503 as well as 404), the fetch reports nothing to the worker, which then finds no endpoint:
  the claimed resolution is discarded at once with its attempts unchanged, no endpoint job and
  no message are made, and the message is acked. The retries of \<open>MAX_RESOLVE_ATTEMPTS\<close> are
  never used for such failures.
\<close>

theorem unfetched_recipient_discarded:
  assumes "keysUnique rs_id (w_resolutions w)" and "e_bound env"
    and "claimDeliveryResolutionJob (e_sha env) id activityId recipient token now (w_resolutions w) = (Claimed c, rows)"
    and "activityOf env activityId \<noteq> None" and "\<not> isRemoteActorTombstoned (e_parseUrl env) (db_tombstones (w_jobs w)) recipient"
    and "isActorBlockedStrict (e_blocklistReadable env) (e_parseUrl env) (e_blocklist env) recipient = Inr False"
    and "selectBy ac_apId recipient (w_cache w) = None" and "e_actorTablesOk env"
    and "e_getActor env recipient = GetThrew \<or> (\<exists>status header. e_getActor env recipient = GetStatus status header)"
  shows "\<exists>w' r'. processResolveActor env token id now activityId recipient attempts w = (Inr (), w') \<and>
    selectBy rs_id (computeDeliveryResolutionId (e_sha env) activityId recipient) (w_resolutions w') = Some r' \<and>
    rs_status r' = RsDiscarded \<and> rs_lastError r' = Some ''endpoint_unresolved'' \<and> rs_attempts r' = rt_attempts c \<and>
    w_jobs w' = w_jobs w \<and> w_sent w' = w_sent w \<and> w_verdicts w' = w_verdicts w @ [Ack]"
proof -
  obtain r where r: "selectBy rs_id (rt_id c) rows = Some r" "ownedBy c r" "rs_attempts r = rt_attempts c"
      "rt_id c = computeDeliveryResolutionId (e_sha env) activityId recipient"
    by (rule claim_row [OF assms(3,1)])
  let ?w1 = "w\<lparr>w_resolutions := rows\<rparr>"
  have "processResolveActor env token id now activityId recipient attempts w =
      finishResolution (Some c) RsDiscarded (Some ''endpoint_unresolved'') now ?w1"
    unfolding process_resolve_claimed [OF assms(2,3)]
    using assms(4-7) fetch_nothing [OF assms(8,9)]
    by (auto simp: resolveClaimed_def endpointStale_def resolveMaterialize_def resolvePreferredEndpoint_def)
  moreover have "\<exists>w' r'. finishResolution (Some c) RsDiscarded (Some ''endpoint_unresolved'') now ?w1 = (Inr (), w') \<and>
      selectBy rs_id (rt_id c) (w_resolutions w') = Some r' \<and> rs_status r' = RsDiscarded \<and>
      rs_lastError r' = Some ''endpoint_unresolved'' \<and> rs_attempts r' = rs_attempts r \<and>
      w_verdicts w' = w_verdicts ?w1 @ [Ack] \<and> w_jobs w' = w_jobs ?w1 \<and> w_sent w' = w_sent ?w1"
    by (rule completed_row) (use r in simp_all)
  ultimately show ?thesis using r(3,4) by auto
qed

theorem unfetched_recipient_discarded_witness:
  "\<exists>w' r'. processResolveActor exampleDelivery ''t'' id 0 ''act'' ''https://a.com/users/bob'' None
       (exampleDeliveryWorld\<lparr>w_jobs := noJobs, w_resolutions := [newResolution 0 (''resolve_actor|act|https://a.com/users/bob'',
          \<lparr>ri_activityId = ''act'', ri_recipientActorApId = ''https://a.com/users/bob''\<rparr>)]\<rparr>) = (Inr (), w') \<and>
     w_resolutions w' = [r'] \<and> rs_status r' = RsDiscarded \<and> rs_attempts r' = 0"
proof -
  let ?r = "newResolution 0 (''resolve_actor|act|https://a.com/users/bob'',
      \<lparr>ri_activityId = ''act'', ri_recipientActorApId = ''https://a.com/users/bob''\<rparr>)"
  let ?w = "exampleDeliveryWorld\<lparr>w_jobs := noJobs, w_resolutions := [?r]\<rparr>"
  let ?c = "\<lparr>rt_id = ''resolve_actor|act|https://a.com/users/bob'', rt_processingToken = ''t'', rt_attempts = 0\<rparr>"
  have claim: "fst (claimDeliveryResolutionJob (e_sha exampleDelivery) id ''act'' ''https://a.com/users/bob'' ''t'' 0 (w_resolutions ?w)) = Claimed ?c"
    by code_simp
  then obtain rows where rows: "claimDeliveryResolutionJob (e_sha exampleDelivery) id ''act'' ''https://a.com/users/bob'' ''t'' 0 (w_resolutions ?w) = (Claimed ?c, rows)"
    by (cases "claimDeliveryResolutionJob (e_sha exampleDelivery) id ''act'' ''https://a.com/users/bob'' ''t'' 0 (w_resolutions ?w)") auto
  have len: "length (w_resolutions (snd (processResolveActor exampleDelivery ''t'' id 0 ''act'' ''https://a.com/users/bob'' None ?w))) = 1"
    by code_simp
  have pre: "keysUnique rs_id (w_resolutions ?w)" "e_bound exampleDelivery" "activityOf exampleDelivery ''act'' \<noteq> None"
    "selectBy ac_apId ''https://a.com/users/bob'' (w_cache ?w) = None" "e_actorTablesOk exampleDelivery"
    "e_getActor exampleDelivery ''https://a.com/users/bob'' = GetThrew"
    by (simp_all add: keysUnique_def exampleDelivery_def exampleDeliveryWorld_def activityOf_def)
  have "\<not> isRemoteActorTombstoned (e_parseUrl exampleDelivery) (db_tombstones (w_jobs ?w)) ''https://a.com/users/bob''"
    "isActorBlockedStrict (e_blocklistReadable exampleDelivery) (e_parseUrl exampleDelivery) (e_blocklist exampleDelivery) ''https://a.com/users/bob'' = Inr False"
    by code_simp+
  then obtain w' r' where done_at: "processResolveActor exampleDelivery ''t'' id 0 ''act'' ''https://a.com/users/bob'' None ?w = (Inr (), w')"
    "selectBy rs_id (computeDeliveryResolutionId (e_sha exampleDelivery) ''act'' ''https://a.com/users/bob'') (w_resolutions w') = Some r'"
    "rs_status r' = RsDiscarded" "rs_attempts r' = 0"
    using unfetched_recipient_discarded [OF pre(1,2) rows pre(3) _ _ pre(4,5) disjI1 [OF pre(6)]] by fastforce
  moreover obtain x where "w_resolutions w' = [x]" using len done_at(1) by (auto simp: length_Suc_conv)
  ultimately show ?thesis by (auto split: if_splits)
qed

lemma finish_keeps:
  "w_jobs (snd (finishResolution ticket status reason now w)) = w_jobs w \<and>
   w_cache (snd (finishResolution ticket status reason now w)) = w_cache w \<and>
   w_sent (snd (finishResolution ticket status reason now w)) = w_sent w"
  by (simp add: finishResolution_def onResolutionRows_def andThen_def ackMessage_def effect_def split: option.split prod.split)

lemma claimed_forbidden:
  assumes "activityOf env activityId = None \<or> isRemoteActorTombstoned (e_parseUrl env) (db_tombstones (w_jobs w)) recipient \<or>
    isActorBlockedStrict (e_blocklistReadable env) (e_parseUrl env) (e_blocklist env) recipient \<noteq> Inr False"
  shows "w_jobs (snd (resolveClaimed env now activityId recipient attempts ticket w)) = w_jobs w \<and>
    w_cache (snd (resolveClaimed env now activityId recipient attempts ticket w)) = w_cache w \<and>
    w_sent (snd (resolveClaimed env now activityId recipient attempts ticket w)) = w_sent w"
  using assms finish_keeps
  by (auto simp: resolveClaimed_def onResolutionRows_def andThen_def retryMessage_def ackMessage_def effect_def
      split: sum.splits option.splits bool.splits prod.splits)

text \<open>
  C12: Nothing is made for a recipient that must not get it. When the activity is gone, the
  recipient deleted itself, the operator blocked it, or the blocklist cannot be read, then
  whatever others do to the row meanwhile, and with or without a row, the worker neither fetches
  the recipient nor creates or changes an endpoint job, nor sends a message.
\<close>

theorem resolve_materializes_nothing_forbidden:
  assumes "activityOf env activityId = None \<or> isRemoteActorTombstoned (e_parseUrl env) (db_tombstones (w_jobs w)) recipient \<or>
    isActorBlockedStrict (e_blocklistReadable env) (e_parseUrl env) (e_blocklist env) recipient \<noteq> Inr False"
  shows "w_jobs (snd (processResolveActor env token between now activityId recipient attempts w)) = w_jobs w \<and>
    w_cache (snd (processResolveActor env token between now activityId recipient attempts w)) = w_cache w \<and>
    w_sent (snd (processResolveActor env token between now activityId recipient attempts w)) = w_sent w"
proof (cases "e_bound env")
  case True
  obtain claim rows where claim: "claimDeliveryResolutionJob (e_sha env) between activityId recipient token now (w_resolutions w) = (claim, rows)"
    by fastforce
  have later: "w_jobs (snd (resolveClaimed env now activityId recipient attempts ticket (w\<lparr>w_resolutions := rows\<rparr>))) = w_jobs w \<and>
      w_cache (snd (resolveClaimed env now activityId recipient attempts ticket (w\<lparr>w_resolutions := rows\<rparr>))) = w_cache w \<and>
      w_sent (snd (resolveClaimed env now activityId recipient attempts ticket (w\<lparr>w_resolutions := rows\<rparr>))) = w_sent w" for ticket
    using claimed_forbidden [of env activityId "w\<lparr>w_resolutions := rows\<rparr>" recipient now attempts ticket] assms by simp
  show ?thesis
    using True claim later
    by (cases claim) (simp_all add: processResolveActor_def requireQueue_def andThen_def ret_def onResolutionRows_def
        ackMessage_def retryMessage_def effect_def)
qed (simp add: processResolveActor_def requireQueue_def andThen_def ret_def ackMessage_def effect_def)

theorem resolve_materializes_nothing_forbidden_witness:
  "w_sent (snd (processResolveActor exampleDelivery ''t'' id 0 ''gone'' ''https://a.com/users/bob'' None exampleDeliveryWorld)) = []"
proof -
  have "activityOf exampleDelivery ''gone'' = None" "w_sent exampleDeliveryWorld = []"
    by (simp_all add: activityOf_def exampleDelivery_def exampleDeliveryWorld_def)
  then show ?thesis using resolve_materializes_nothing_forbidden [of exampleDelivery "''gone''"] by simp
qed

subsection \<open>The pages of a community\<close>

fun stageRank :: "fanout_stage \<Rightarrow> nat" where
  "stageRank LocalMembers = 2"
| "stageRank RemoteMembers = 1"
| "stageRank RemoteFollowers = 0"

definition stageAudience :: "denv \<Rightarrow> string \<Rightarrow> fanout_stage \<Rightarrow> string list" where
  "stageAudience env community stage = (if stage = RemoteFollowers then acceptedFollowers env community else membersOf env community)"

lemma communityPage_audience:
  "communityPage env community stage cursor = pageAfter FANOUT_FOLLOWER_PAGE_SIZE cursor (stageAudience env community stage)"
  by (simp add: communityPage_def stageAudience_def)

text \<open>The pages the chain of continuation messages runs through.\<close>

function communityTrace :: "denv \<Rightarrow> string \<Rightarrow> fanout_stage \<Rightarrow> string option \<Rightarrow> (fanout_stage \<times> string list) list" where
  "communityTrace env community stage cursor =
     (let page = communityPage env community stage cursor
      in (stage, page) #
         (case communityNext stage page of
            None \<Rightarrow> []
          | Some (stage', cursor') \<Rightarrow> communityTrace env community stage' cursor'))"
  by pat_completeness auto

lemma communityNext_cases:
  assumes "communityNext stage (communityPage env community stage cursor) = Some (stage', cursor')"
  shows "(stage' = stage \<and> communityPage env community stage cursor \<noteq> [] \<and> cursor' = Some (last (communityPage env community stage cursor))) \<or>
    (length (communityPage env community stage cursor) < FANOUT_FOLLOWER_PAGE_SIZE \<and> Suc (stageRank stage') = stageRank stage \<and> cursor' = None)"
proof -
  have "length (communityPage env community stage cursor) \<le> FANOUT_FOLLOWER_PAGE_SIZE"
    by (simp add: communityPage_def pageAfter_def)
  then show ?thesis using assms
    by (auto simp: communityNext_def FANOUT_FOLLOWER_PAGE_SIZE_def split: if_splits fanout_stage.splits)
qed

termination communityTrace
proof (relation "measures [\<lambda>(env, community, stage, cursor). stageRank stage,
    \<lambda>(env, community, stage, cursor). length (filter (afterCursor cursor) (stageAudience env community stage))]")
  fix env community stage cursor page x stage' cursor'
  assume "page = communityPage env community stage cursor" "communityNext stage page = Some x" "(stage', cursor') = x"
  then have next_page: "communityNext stage (communityPage env community stage cursor) = Some (stage', cursor')" by simp
  show "((env, community, stage', cursor'), (env, community, stage, cursor)) \<in> measures [\<lambda>(env, community, stage, cursor). stageRank stage,
      \<lambda>(env, community, stage, cursor). length (filter (afterCursor cursor) (stageAudience env community stage))]"
    using communityNext_cases [OF next_page] length_after_page [of FANOUT_FOLLOWER_PAGE_SIZE cursor "stageAudience env community stage"]
    by (auto simp: communityPage_audience)
qed simp

declare communityTrace.simps [simp del]

text \<open>The stages from one on, each with its whole audience.\<close>

definition stagesFrom :: "fanout_stage \<Rightarrow> fanout_stage set" where
  "stagesFrom stage = {s. stageRank s \<le> stageRank stage}"

lemma page_subset: "set (communityPage env community stage cursor) \<subseteq> {a \<in> set (stageAudience env community stage). afterCursor cursor a}"
  unfolding communityPage_audience pageAfter_def using set_take_subset by fastforce

lemma stage_split:
  "s \<in> stagesFrom stage \<longleftrightarrow> s = stage \<or> (\<exists>stage'. Suc (stageRank stage') = stageRank stage \<and> s \<in> stagesFrom stage')"
  by (cases s; cases stage) (auto simp: stagesFrom_def intro: exI [of _ RemoteMembers] exI [of _ RemoteFollowers])

lemma afterCursor_trans: "afterCursor cursor l \<Longrightarrow> afterCursor (Some l) a \<Longrightarrow> afterCursor cursor a"
  by (auto simp: afterCursor_def split: option.splits)

lemma communityTrace_covers:
  "(\<exists>page. (s, page) \<in> set (communityTrace env community stage cursor) \<and> a \<in> set page) \<longleftrightarrow>
     a \<in> set (stageAudience env community s) \<and> s \<in> stagesFrom stage \<and> (s = stage \<longrightarrow> afterCursor cursor a)"
proof (induction env community stage cursor rule: communityTrace.induct)
  case (1 env community stage cursor)
  let ?page = "communityPage env community stage cursor"
  have here: "a \<in> set ?page \<Longrightarrow> a \<in> set (stageAudience env community stage) \<and> afterCursor cursor a" using page_subset by blast
  have self: "stage \<in> stagesFrom stage" by (simp add: stagesFrom_def)
  show ?case
  proof (cases "communityNext stage ?page")
    case None
    then have "stage = RemoteFollowers" "length ?page \<noteq> FANOUT_FOLLOWER_PAGE_SIZE"
      by (auto simp: communityNext_def split: if_splits fanout_stage.splits)
    then have short: "length ?page < FANOUT_FOLLOWER_PAGE_SIZE" by (simp add: communityPage_def pageAfter_def)
    have "s \<in> stagesFrom stage \<longleftrightarrow> s = stage" using \<open>stage = RemoteFollowers\<close> by (cases s) (auto simp: stagesFrom_def)
    moreover have "a \<in> set ?page \<longleftrightarrow> a \<in> set (stageAudience env community stage) \<and> afterCursor cursor a"
      using here page_short [of FANOUT_FOLLOWER_PAGE_SIZE cursor "stageAudience env community stage" a] short
      by (auto simp: communityPage_audience)
    ultimately show ?thesis using None by (subst communityTrace.simps) (auto simp: Let_def)
  next
    case (Some x)
    obtain stage' cursor' where x: "x = (stage', cursor')" by fastforce
    note IH = 1 [OF refl Some x [symmetric]]
    have trace: "communityTrace env community stage cursor = (stage, ?page) # communityTrace env community stage' cursor'"
      using Some x by (subst communityTrace.simps) (simp add: Let_def)
    from communityNext_cases [OF Some [unfolded x]] show ?thesis
    proof
      assume same: "stage' = stage \<and> ?page \<noteq> [] \<and> cursor' = Some (last ?page)"
      have "last ?page \<in> set ?page" using same by simp
      then have after: "afterCursor cursor (last ?page)" using page_subset by blast
      have "a \<in> set ?page \<or> (a \<in> set (stageAudience env community stage) \<and> afterCursor (Some (last ?page)) a) \<longleftrightarrow>
          a \<in> set (stageAudience env community stage) \<and> afterCursor cursor a"
        using here page_or_later [of a "stageAudience env community stage" cursor FANOUT_FOLLOWER_PAGE_SIZE] same
          afterCursor_trans [OF after, of a]
        by (auto simp: communityPage_audience)
      then show ?thesis unfolding trace using IH same self by auto
    next
      assume rest: "length ?page < FANOUT_FOLLOWER_PAGE_SIZE \<and> Suc (stageRank stage') = stageRank stage \<and> cursor' = None"
      have now: "a \<in> set ?page \<longleftrightarrow> a \<in> set (stageAudience env community stage) \<and> afterCursor cursor a"
        using here page_short [of FANOUT_FOLLOWER_PAGE_SIZE cursor "stageAudience env community stage" a] rest
        by (auto simp: communityPage_audience)
      have "s \<in> stagesFrom stage' \<longleftrightarrow> s \<in> stagesFrom stage \<and> s \<noteq> stage" for s
        using rest by (cases s; cases stage; cases stage') (auto simp: stagesFrom_def)
      then show ?thesis unfolding trace using IH now rest self by (auto simp: afterCursor_def)
    qed
  qed
qed

text \<open>The pages of the chain are at most one page long, and the worker goes where the chain goes.\<close>

lemma communityTrace_pages:
  "(s, page) \<in> set (communityTrace env community stage cursor) \<Longrightarrow> length page \<le> FANOUT_FOLLOWER_PAGE_SIZE"
proof (induction env community stage cursor rule: communityTrace.induct)
  case (1 env community stage cursor)
  have here: "length (communityPage env community stage cursor) \<le> FANOUT_FOLLOWER_PAGE_SIZE" by (simp add: communityPage_def pageAfter_def)
  show ?case using 1(2) here
    by (subst (asm) communityTrace.simps) (auto simp: Let_def split: option.splits prod.splits dest!: 1(1) [OF refl sym refl])
qed

definition communityPosition :: "denv \<Rightarrow> ms \<Rightarrow> string \<Rightarrow> string \<Rightarrow> string option \<Rightarrow> fanout_stage \<Rightarrow> string option \<Rightarrow> (qmsg \<times> secs option) option" where
  "communityPosition env now activityId community announce stage cursor =
     map_option (\<lambda>(stage', cursor'). (communityMessage env now activityId community announce stage' cursor', None))
       (communityNext stage (communityPage env community stage cursor))"

lemma processFanoutCommunity_sends:
  assumes open_intent: "getDeliveryFanoutState (e_sha env) (CommunityIntent activityId community (truthy announce)) (w_fanouts w) \<noteq> FanoutTerminal"
    and activity: "activityOf env activityId = Some (author, raw)" and bound: "e_bound env"
    and run: "processFanoutCommunity env now activityId community announce (Some stage) cursor w = (Inr (), w')"
    and "communityPosition env now activityId community announce stage cursor = Some message"
  shows "\<exists>earlier. w_sent w' = earlier @ [message]"
proof -
  from assms(5) obtain stage' cursor' where pos: "communityNext stage (communityPage env community stage cursor) = Some (stage', cursor')"
    and message: "message = (communityMessage env now activityId community announce stage' cursor', None)"
    by (auto simp: communityPosition_def)
  show ?thesis
    using run open_intent activity bound message
    by (auto simp: processFanoutCommunity_def fanoutHead_def Let_def requireQueue_def pos andThen_def ret_def sendQueueMessage_def throw_def effect_def ackMessage_def
        split: prod.splits sum.splits if_splits)
qed

text \<open>
  community fanout. Following the messages of the worker from the start, the pages of each stage
  together hold exactly the audience of the stage (members for local and remote members, accepted
  followers of the community for the last stage) and no page is longer than 200; and a run of the
  worker that succeeds at one position leaves, as the last message of the queue, the message of the
  next position of this chain.
\<close>

theorem community_fanout_covers_audience:
  assumes "getDeliveryFanoutState (e_sha env) (CommunityIntent activityId community (truthy announce)) (w_fanouts w) \<noteq> FanoutTerminal"
    and "activityOf env activityId = Some (author, raw)" and "e_bound env"
    and "processFanoutCommunity env now activityId community announce (Some stage) cursor w = (Inr (), w')"
  shows "((\<exists>page. (s, page) \<in> set (communityTrace env community LocalMembers None) \<and> a \<in> set page) \<longleftrightarrow>
           a \<in> set (stageAudience env community s)) \<and>
         (\<forall>(s, page) \<in> set (communityTrace env community LocalMembers None). length page \<le> 200) \<and>
         (\<forall>message. communityPosition env now activityId community announce stage cursor = Some message \<longrightarrow>
           (\<exists>earlier. w_sent w' = earlier @ [message]))"
proof (intro conjI allI impI)
  show "(\<exists>page. (s, page) \<in> set (communityTrace env community LocalMembers None) \<and> a \<in> set page) \<longleftrightarrow>
      a \<in> set (stageAudience env community s)"
    unfolding communityTrace_covers by (cases s) (auto simp: stagesFrom_def afterCursor_def)
  show "\<forall>(s, page) \<in> set (communityTrace env community LocalMembers None). length page \<le> 200"
    using communityTrace_pages by (fastforce simp: FANOUT_FOLLOWER_PAGE_SIZE_def)
  show "\<exists>earlier. w_sent w' = earlier @ [message]"
    if "communityPosition env now activityId community announce stage cursor = Some message" for message
    by (rule processFanoutCommunity_sends [OF assms that])
qed

theorem community_fanout_covers_audience_witness:
  "let env = exampleDelivery\<lparr>e_members := [(''https://b.example/groups/g'', ''https://a.com/users/bob'')]\<rparr>;
       run = processFanoutCommunity env 9 ''act'' ''https://b.example/groups/g'' None (Some LocalMembers) None exampleDeliveryWorld
   in fst run = Inr () \<and> length (w_sent (snd run)) = 1 \<and>
      (\<exists>page. (RemoteMembers, page) \<in> set (communityTrace env ''https://b.example/groups/g'' LocalMembers None) \<and>
         ''https://a.com/users/bob'' \<in> set page)"
proof -
  let ?env = "exampleDelivery\<lparr>e_members := [(''https://b.example/groups/g'', ''https://a.com/users/bob'')]\<rparr>"
  let ?run = "processFanoutCommunity ?env 9 ''act'' ''https://b.example/groups/g'' None (Some LocalMembers) None exampleDeliveryWorld"
  have run: "fst ?run = Inr () \<and> length (w_sent (snd ?run)) = 1" by code_simp
  have hyps: "getDeliveryFanoutState (e_sha ?env) (CommunityIntent ''act'' ''https://b.example/groups/g'' (truthy None)) (w_fanouts exampleDeliveryWorld) \<noteq> FanoutTerminal"
    "activityOf ?env ''act'' = Some (''https://b.example/users/al'', ''{}'')" "e_bound ?env"
    "''https://a.com/users/bob'' \<in> set (stageAudience ?env ''https://b.example/groups/g'' RemoteMembers)"
    by code_simp+
  obtain w' where w': "?run = (Inr (), w')" using run by (cases ?run) auto
  show ?thesis
    using community_fanout_covers_audience [OF hyps(1-3) w', of RemoteMembers "''https://a.com/users/bob''"] run hyps(4)
    by (simp add: Let_def)
qed

end
