(* ===== verification/PostVisibility.thy ===== *)
theory PostVisibility
  imports Social
begin

section \<open>Who may read a post\<close>

text \<open>
  Models \<open>src/backend/lib/community-visibility.ts\<close> (the membership gate of communities, for
  one object and batched for a page) and \<open>post-visibility.ts\<close> (the per-post rules, the full
  read gate of one object, and the receipt that a later write rechecks inside its transaction).
  Times are the ISO texts the code compares. The size limit of a serialized receipt is not
  modelled.
\<close>

subsection \<open>Communities\<close>

definition MEMBERSHIP_REQUIRED_VISIBILITIES :: "string list" where
  "MEMBERSHIP_REQUIRED_VISIBILITIES = [''private'']"

definition communityRequiresMembership :: "string option \<Rightarrow> bool" where
  "communityRequiresMembership visibility =
     ((case visibility of None \<Rightarrow> ''public'' | Some v \<Rightarrow> v) \<in> set MEMBERSHIP_REQUIRED_VISIBILITIES)"

text \<open>What the gate needs of an object.\<close>

record gate_object =
  go_apId :: "string option"
  go_visibility :: string
  go_attributedTo :: string
  go_to :: addressees
  go_cc :: addressees
  go_audience :: json_text
  go_community :: "string option"
  go_type :: "string option"
  go_endTime :: "string option"

text \<open>\<open>safeJsonParse(column, [])\<close> when the answer is an array, and nothing otherwise.\<close>

definition audienceEntries :: "json_text \<Rightarrow> jsval list" where
  "audienceEntries column = (case column of Some (JArr xs) \<Rightarrow> xs | _ \<Rightarrow> [])"

definition isAddressedToCommunity :: "('z) gate_object_scheme \<Rightarrow> bool" where
  "isAddressedToCommunity obj = (audienceEntries (go_audience obj) \<noteq> [])"

definition nonEmptyStr :: "jsval \<Rightarrow> string option" where
  "nonEmptyStr v = (case v of JStr s \<Rightarrow> if s = [] then None else Some s | _ \<Rightarrow> None)"

definition communityApIdsFor :: "('z) gate_object_scheme \<Rightarrow> string list" where
  "communityApIdsFor obj =
     dedupe ((case truthy (go_community obj) of None \<Rightarrow> [] | Some c \<Rightarrow> [c]) @
       List.map_filter nonEmptyStr (audienceEntries (go_audience obj)))"

record community_admission =
  ca_ids :: "string list"
  ca_rows :: "community_row list"
  ca_member :: "string option"

definition isMemberOf :: "'z social_scheme \<Rightarrow> string \<Rightarrow> string \<Rightarrow> bool" where
  "isMemberOf db community actor = list_ex (\<lambda>m. mb_community m = community \<and> mb_actor m = actor) (so_members db)"

text \<open>The rows of the communities an object is addressed to, and a membership among some of them.\<close>

definition addressedRows :: "'z social_scheme \<Rightarrow> string list \<Rightarrow> community_row list" where
  "addressedRows db ids = filter (\<lambda>r. cy_apId r \<in> set ids) (so_communities db)"

definition privateRowsOf :: "community_row list \<Rightarrow> community_row list" where
  "privateRowsOf rows = filter (\<lambda>r. communityRequiresMembership (cy_visibility r)) rows"

definition membershipAmong :: "'z social_scheme \<Rightarrow> string list \<Rightarrow> string \<Rightarrow> string option" where
  "membershipAmong db ids v =
     map_option mb_community (find (\<lambda>m. mb_community m \<in> set ids \<and> mb_actor m = v) (so_members db))"

text \<open>\<open>None\<close> refuses; an admission is what \<open>onAllowed\<close> receives.\<close>

definition canViewerReadObject :: "'z social_scheme \<Rightarrow> 'o gate_object_scheme \<Rightarrow> string option \<Rightarrow> community_admission option" where
  "canViewerReadObject db obj viewer =
     (let communityIds = communityApIdsFor obj;
          communityRows = addressedRows db communityIds;
          privateRows = privateRowsOf communityRows
      in if communityIds = [] then Some \<lparr>ca_ids = [], ca_rows = [], ca_member = None\<rparr>
         else if list_ex (\<lambda>r. cy_deletedAt r \<noteq> None) communityRows then None
         else if privateRows = [] then Some \<lparr>ca_ids = communityIds, ca_rows = communityRows, ca_member = None\<rparr>
         else
           (case truthy viewer of
              None \<Rightarrow> None
            | Some v \<Rightarrow>
                (case membershipAmong db (map cy_apId privateRows) v of
                   None \<Rightarrow> None
                 | Some c \<Rightarrow> Some \<lparr>ca_ids = communityIds, ca_rows = communityRows, ca_member = Some c\<rparr>)))"

subsection \<open>The gate for a page\<close>

text \<open>The rows that a lookup by a list of ids returns, chunk after chunk.\<close>

definition communityRowsIn :: "'z social_scheme \<Rightarrow> string list \<Rightarrow> community_row list" where
  "communityRowsIn db ids =
     concat (map (\<lambda>chunk. filter (\<lambda>r. cy_apId r \<in> set chunk) (so_communities db)) (chunkForInClause ids))"

definition membershipsIn :: "'z social_scheme \<Rightarrow> string \<Rightarrow> string list \<Rightarrow> string list" where
  "membershipsIn db viewer ids =
     concat (map (\<lambda>chunk. map mb_community (filter (\<lambda>m. mb_community m \<in> set chunk \<and> mb_actor m = viewer) (so_members db)))
       (chunkForInClause ids))"

definition communityReadableApIds :: "'z social_scheme \<Rightarrow> (string \<times> gate_object) list \<Rightarrow> string option \<Rightarrow> string set" where
  "communityReadableApIds db objs viewer =
     (let perObject = (\<lambda>x. communityApIdsFor (snd x));
          unionIds = dedupe (concat (map perObject objs))
      in if unionIds = [] then fst ` set objs
         else
           (let rows = communityRowsIn db unionIds;
                deletedSet = dedupe (map cy_apId (filter (\<lambda>r. cy_deletedAt r \<noteq> None) rows));
                privateSet = dedupe (map cy_apId (filter (\<lambda>r. cy_deletedAt r = None \<and> communityRequiresMembership (cy_visibility r)) rows));
                viewerMemberSet =
                  (case truthy viewer of
                     None \<Rightarrow> []
                   | Some v \<Rightarrow> if privateSet = [] then [] else membershipsIn db v privateSet);
                readable = (\<lambda>x.
                  \<not> list_ex (\<lambda>i. i \<in> set deletedSet) (perObject x) \<and>
                  (let privateForObj = filter (\<lambda>i. i \<in> set privateSet) (perObject x)
                   in privateForObj = [] \<or> list_ex (\<lambda>i. i \<in> set viewerMemberSet) privateForObj))
            in fst ` set (filter readable objs)))"

subsection \<open>Per-post visibility\<close>

definition addressed :: "addressees \<Rightarrow> string \<Rightarrow> bool" where
  "addressed column viewer = (viewer \<in> set (case column of None \<Rightarrow> [] | Some xs \<Rightarrow> xs))"

definition isExplicitRecipient :: "'z gate_object_scheme \<Rightarrow> string \<Rightarrow> bool" where
  "isExplicitRecipient obj viewer = (addressed (go_to obj) viewer \<or> addressed (go_cc obj) viewer)"

definition hasAcceptedFollow :: "'z social_scheme \<Rightarrow> string \<Rightarrow> string \<Rightarrow> bool" where
  "hasAcceptedFollow db viewer author =
     list_ex (\<lambda>f. fw_followerApId f = viewer \<and> fw_followingApId f = author \<and> fw_status f = ''accepted'') (so_follows db)"

definition hasProjectedRecipient :: "'z social_scheme \<Rightarrow> string \<Rightarrow> string \<Rightarrow> bool" where
  "hasProjectedRecipient db objectId viewer =
     list_ex (\<lambda>r. rp_object r = objectId \<and> rp_recipient r = viewer \<and> rp_type r = ''to'') (so_recipients db)"

definition expiredAt :: "string option \<Rightarrow> string \<Rightarrow> bool" where
  "expiredAt endTime now = (case truthy endTime of None \<Rightarrow> False | Some e \<Rightarrow> e \<le> now)"

definition projectedFor :: "'z gate_object_scheme \<Rightarrow> (string \<Rightarrow> bool) \<Rightarrow> bool" where
  "projectedFor obj isProjectedRecipient =
     (case truthy (go_apId obj) of None \<Rightarrow> False | Some i \<Rightarrow> isProjectedRecipient i)"

definition passesPostVisibilitySync ::
  "'z gate_object_scheme \<Rightarrow> string option \<Rightarrow> (string \<Rightarrow> bool) \<Rightarrow> (string \<Rightarrow> bool) \<Rightarrow> string \<Rightarrow> bool" where
  "passesPostVisibilitySync obj viewer isAcceptedFollower isProjectedRecipient now =
     (if go_type obj = Some ''Story'' then
        (if truthy viewer = Some (go_attributedTo obj) then True
         else if expiredAt (go_endTime obj) now then False
         else if truthy (go_community obj) \<noteq> None then True
         else if truthy viewer = None then False
         else isAcceptedFollower (go_attributedTo obj))
      else if go_visibility obj = ''direct'' then
        (case truthy viewer of
           None \<Rightarrow> False
         | Some v \<Rightarrow> go_attributedTo obj = v \<or> isExplicitRecipient obj v \<or> projectedFor obj isProjectedRecipient)
      else if go_visibility obj = ''followers'' then
        (case truthy viewer of
           None \<Rightarrow> False
         | Some v \<Rightarrow> go_attributedTo obj = v \<or> isExplicitRecipient obj v \<or> projectedFor obj isProjectedRecipient \<or>
             isAcceptedFollower (go_attributedTo obj))
      else go_visibility obj = ''public'' \<or> go_visibility obj = ''unlisted'')"

subsection \<open>The full gate\<close>

record read_admission =
  ra_object :: gate_object
  ra_viewer :: "string option"
  ra_community :: "community_admission option"
  ra_followRequired :: bool
  ra_projectedRecipientRequired :: bool
  ra_expires :: bool

definition allowRead :: "gate_object \<Rightarrow> string option \<Rightarrow> community_admission option \<Rightarrow> bool \<Rightarrow> bool \<Rightarrow> read_admission" where
  "allowRead obj viewer community followRequired projectedRequired =
     \<lparr>ra_object = obj, ra_viewer = viewer, ra_community = community, ra_followRequired = followRequired,
      ra_projectedRecipientRequired = projectedRequired,
      ra_expires = (go_type obj = Some ''Story'' \<and> viewer \<noteq> Some (go_attributedTo obj) \<and> truthy (go_endTime obj) \<noteq> None)\<rparr>"

text \<open>The two lookups, each only on the branches that need it.\<close>

definition explicitFor :: "gate_object \<Rightarrow> string option \<Rightarrow> bool" where
  "explicitFor obj viewer = (case truthy viewer of None \<Rightarrow> False | Some v \<Rightarrow> isExplicitRecipient obj v)"

definition gateProjection :: "'z social_scheme \<Rightarrow> gate_object \<Rightarrow> string option \<Rightarrow> bool" where
  "gateProjection db obj viewer =
     (case (truthy viewer, truthy (go_apId obj)) of
        (Some v, Some i) \<Rightarrow>
          go_attributedTo obj \<noteq> v \<and> go_type obj \<noteq> Some ''Story'' \<and>
          (go_visibility obj = ''direct'' \<or> go_visibility obj = ''followers'') \<and> \<not> explicitFor obj viewer \<and>
          hasProjectedRecipient db i v
      | _ \<Rightarrow> False)"

definition gateFollow :: "'z social_scheme \<Rightarrow> gate_object \<Rightarrow> string option \<Rightarrow> bool \<Rightarrow> bool" where
  "gateFollow db obj viewer projectedRecipient =
     (case truthy viewer of
        None \<Rightarrow> False
      | Some v \<Rightarrow>
          go_attributedTo obj \<noteq> v \<and>
          (go_type obj = Some ''Story'' \<and> truthy (go_community obj) = None \<or>
           go_type obj \<noteq> Some ''Story'' \<and> go_visibility obj = ''followers'' \<and> \<not> explicitFor obj viewer \<and> \<not> projectedRecipient) \<and>
          hasAcceptedFollow db v (go_attributedTo obj))"

text \<open>
  \<open>Inl\<close> when the blocklist cannot be read; otherwise the admission, or nothing when the
  object may not be read.
\<close>

definition canViewerReadObjectFull ::
  "bool \<Rightarrow> url_parser \<Rightarrow> 'z social_scheme \<Rightarrow> gate_object \<Rightarrow> string option \<Rightarrow> string \<Rightarrow> string + read_admission option" where
  "canViewerReadObjectFull readable parseUrl db obj viewer now =
     (case isActorBlockedStrict readable parseUrl (so_blocklist db) (go_attributedTo obj) of
        Inl e \<Rightarrow> Inl e
      | Inr True \<Rightarrow> Inr None
      | Inr False \<Rightarrow>
          (if go_type obj = Some ''Story'' \<and> truthy viewer = Some (go_attributedTo obj)
           then Inr (Some (allowRead obj viewer None False False))
           else if go_type obj = Some ''Story'' \<and> expiredAt (go_endTime obj) now then Inr None
           else
             (case canViewerReadObject db obj viewer of
                None \<Rightarrow> Inr None
              | Some community \<Rightarrow>
                  (let projectedRecipient = gateProjection db obj viewer;
                       following = gateFollow db obj viewer projectedRecipient
                   in if passesPostVisibilitySync obj viewer (\<lambda>_. following) (\<lambda>_. projectedRecipient) now
                      then Inr (Some (allowRead obj viewer (Some community) following projectedRecipient))
                      else Inr None))))"

subsection \<open>The receipt of a read\<close>

text \<open>\<open>IS\<close> compares two columns, with \<open>NULL\<close> equal to itself.\<close>

definition communityReadAdmissionSql :: "'z social_scheme \<Rightarrow> community_admission \<Rightarrow> string option \<Rightarrow> bool" where
  "communityReadAdmissionSql db receipt viewer =
     (list_all (\<lambda>i. (\<exists>c \<in> set (so_communities db). cy_apId c = i) = (\<exists>r \<in> set (ca_rows receipt). cy_apId r = i)) (ca_ids receipt) \<and>
      list_all (\<lambda>r. \<exists>c \<in> set (so_communities db). cy_apId c = cy_apId r \<and> cy_visibility c = cy_visibility r \<and>
        cy_deletedAt c = cy_deletedAt r) (ca_rows receipt) \<and>
      (case ca_member receipt of
         None \<Rightarrow> True
       | Some c \<Rightarrow> (case viewer of None \<Rightarrow> False | Some v \<Rightarrow> isMemberOf db c v)))"

definition gateObjectOf :: "'z object_row_scheme \<Rightarrow> gate_object" where
  "gateObjectOf o' =
     \<lparr>go_apId = Some (ob_apId o'), go_visibility = ob_visibility o', go_attributedTo = ob_attributedTo o', go_to = ob_to o',
      go_cc = ob_cc o', go_audience = ob_audience o', go_community = ob_community o', go_type = Some (ob_type o'),
      go_endTime = ob_endTime o'\<rparr>"

definition postReadAdmissionSql :: "'z social_scheme \<Rightarrow> read_admission \<Rightarrow> string \<Rightarrow> bool" where
  "postReadAdmissionSql db receipt now =
     (\<exists>o' \<in> set (so_objects db).
        gateObjectOf o' = ra_object receipt \<and>
        operatorActorNotBlockedSql (so_blocklist db) (ob_attributedTo o') \<and>
        (case ra_community receipt of None \<Rightarrow> True | Some c \<Rightarrow> communityReadAdmissionSql db c (ra_viewer receipt)) \<and>
        (\<not> ra_followRequired receipt \<or>
           (case ra_viewer receipt of None \<Rightarrow> False | Some v \<Rightarrow> hasAcceptedFollow db v (ob_attributedTo o'))) \<and>
        (\<not> ra_projectedRecipientRequired receipt \<or>
           (case ra_viewer receipt of None \<Rightarrow> False | Some v \<Rightarrow> hasProjectedRecipient db (ob_apId o') v)) \<and>
        (\<not> ra_expires receipt \<or> (case ob_endTime o' of None \<Rightarrow> False | Some e \<Rightarrow> now < e)))"

subsection \<open>Lemmas on the gates\<close>

lemma set_communityRowsIn: "set (communityRowsIn db ids) = {r \<in> set (so_communities db). cy_apId r \<in> set ids}"
proof -
  have "set ids = (\<Union>chunk \<in> set (chunkForInClause ids). set chunk)" by (metis concat_chunkForInClause set_concat)
  then show ?thesis by (auto simp: communityRowsIn_def)
qed

lemma set_membershipsIn: "c \<in> set (membershipsIn db v ids) \<longleftrightarrow> c \<in> set ids \<and> isMemberOf db c v"
proof -
  have "set ids = (\<Union>chunk \<in> set (chunkForInClause ids). set chunk)" by (metis concat_chunkForInClause set_concat)
  then show ?thesis by (auto simp: membershipsIn_def isMemberOf_def list_ex_iff)
qed

text \<open>What the gate says, without the order of its queries.\<close>

definition gateOpen :: "'z social_scheme \<Rightarrow> string list \<Rightarrow> string option \<Rightarrow> bool" where
  "gateOpen db ids viewer =
     ((\<forall>r \<in> set (so_communities db). cy_apId r \<in> set ids \<longrightarrow> cy_deletedAt r = None) \<and>
      ((\<forall>r \<in> set (so_communities db). cy_apId r \<in> set ids \<longrightarrow> \<not> communityRequiresMembership (cy_visibility r)) \<or>
       (\<exists>v r. truthy viewer = Some v \<and> r \<in> set (so_communities db) \<and> cy_apId r \<in> set ids \<and>
          communityRequiresMembership (cy_visibility r) \<and> isMemberOf db (cy_apId r) v)))"

lemma set_addressedRows: "set (addressedRows db ids) = {r \<in> set (so_communities db). cy_apId r \<in> set ids}"
  by (auto simp: addressedRows_def)

lemma privateRowsOf_Nil: "privateRowsOf rows = [] \<longleftrightarrow> (\<forall>r \<in> set rows. \<not> communityRequiresMembership (cy_visibility r))"
  by (auto simp: privateRowsOf_def filter_empty_conv)

lemma set_privateRowsOf: "set (privateRowsOf rows) = {r \<in> set rows. communityRequiresMembership (cy_visibility r)}"
  by (auto simp: privateRowsOf_def)

lemma membershipAmong_SomeD: "membershipAmong db ids v = Some c \<Longrightarrow> c \<in> set ids \<and> isMemberOf db c v"
  by (auto simp: membershipAmong_def find_Some_iff isMemberOf_def list_ex_iff)

lemma membershipAmong_iff: "membershipAmong db ids v \<noteq> None \<longleftrightarrow> (\<exists>c \<in> set ids. isMemberOf db c v)"
  by (auto simp: membershipAmong_def find_None_iff isMemberOf_def list_ex_iff)

lemma canViewerReadObject_iff: "canViewerReadObject db obj viewer \<noteq> None \<longleftrightarrow> gateOpen db (communityApIdsFor obj) viewer"
proof -
  let ?rows = "addressedRows db (communityApIdsFor obj)"
  have live: "list_ex (\<lambda>r. cy_deletedAt r \<noteq> None) ?rows \<longleftrightarrow>
      \<not> (\<forall>r \<in> set (so_communities db). cy_apId r \<in> set (communityApIdsFor obj) \<longrightarrow> cy_deletedAt r = None)"
    by (auto simp: list_ex_iff set_addressedRows)
  have priv: "privateRowsOf ?rows = [] \<longleftrightarrow>
      (\<forall>r \<in> set (so_communities db). cy_apId r \<in> set (communityApIdsFor obj) \<longrightarrow> \<not> communityRequiresMembership (cy_visibility r))"
    by (auto simp: privateRowsOf_Nil set_addressedRows)
  have mem: "membershipAmong db (map cy_apId (privateRowsOf ?rows)) v = None \<longleftrightarrow>
      \<not> (\<exists>r. r \<in> set (so_communities db) \<and> cy_apId r \<in> set (communityApIdsFor obj) \<and>
        communityRequiresMembership (cy_visibility r) \<and> isMemberOf db (cy_apId r) v)" for v
    using membershipAmong_iff [of db "map cy_apId (privateRowsOf ?rows)" v] by (auto simp: set_privateRowsOf set_addressedRows)
  show ?thesis
    unfolding canViewerReadObject_def Let_def gateOpen_def live priv
    using mem by (cases "communityApIdsFor obj = []"; cases "truthy viewer") (auto split: option.splits, (metis option.distinct(1))+)
qed

text \<open>The admission of an open gate.\<close>

lemma canViewerReadObject_rows:
  assumes "canViewerReadObject db obj viewer = Some adm"
  shows "ca_ids adm = communityApIdsFor obj"
    and "set (ca_rows adm) = {r \<in> set (so_communities db). cy_apId r \<in> set (communityApIdsFor obj)}"
    and "\<forall>r \<in> set (ca_rows adm). cy_deletedAt r = None"
  using assms
  by (auto simp: canViewerReadObject_def Let_def list_ex_iff set_addressedRows split: if_splits option.splits)

lemma canViewerReadObject_member:
  assumes "canViewerReadObject db obj viewer = Some adm"
  shows "case ca_member adm of
      None \<Rightarrow> \<forall>r \<in> set (ca_rows adm). \<not> communityRequiresMembership (cy_visibility r)
    | Some c \<Rightarrow> \<exists>v r. truthy viewer = Some v \<and> r \<in> set (ca_rows adm) \<and> cy_apId r = c \<and>
         communityRequiresMembership (cy_visibility r) \<and> isMemberOf db c v"
  using assms
  by (auto simp: canViewerReadObject_def Let_def privateRowsOf_Nil set_privateRowsOf
      split: if_splits option.splits dest!: membershipAmong_SomeD)

subsection \<open>Properties\<close>

lemma batched_gate:
  assumes "distinct (map fst objs)" and "(i, obj) \<in> set objs"
  shows "i \<in> communityReadableApIds db objs viewer \<longleftrightarrow> gateOpen db (communityApIdsFor obj) viewer"
proof -
  define union where "union = dedupe (concat (map (\<lambda>x. communityApIdsFor (snd x)) objs))"
  define rows where "rows = communityRowsIn db union"
  define deleted where "deleted = dedupe (map cy_apId (filter (\<lambda>r. cy_deletedAt r \<noteq> None) rows))"
  define priv where "priv = dedupe (map cy_apId (filter (\<lambda>r. cy_deletedAt r = None \<and> communityRequiresMembership (cy_visibility r)) rows))"
  define mine where "mine = (case truthy viewer of None \<Rightarrow> [] | Some v \<Rightarrow> if priv = [] then [] else membershipsIn db v priv)"
  let ?ids = "communityApIdsFor obj"
  have only: "obj' = obj" if "(i, obj') \<in> set objs" for obj'
    using assms that by (metis eq_key_imp_eq_value)
  have ids: "set ?ids \<subseteq> set union" using assms(2) by (auto simp: union_def)
  have in_rows: "r \<in> set rows \<longleftrightarrow> r \<in> set (so_communities db) \<and> cy_apId r \<in> set union" for r
    by (auto simp: rows_def set_communityRowsIn)
  have del: "list_ex (\<lambda>x. x \<in> set deleted) ?ids \<longleftrightarrow>
      (\<exists>r \<in> set (so_communities db). cy_apId r \<in> set ?ids \<and> cy_deletedAt r \<noteq> None)"
    using ids by (auto simp: deleted_def list_ex_iff in_rows)
  have pr: "x \<in> set priv \<longleftrightarrow> (\<exists>r \<in> set (so_communities db). cy_apId r = x \<and> x \<in> set union \<and> cy_deletedAt r = None \<and>
      communityRequiresMembership (cy_visibility r))" for x
    by (auto simp: priv_def in_rows)
  have mem: "x \<in> set mine \<longleftrightarrow> (\<exists>v. truthy viewer = Some v \<and> x \<in> set priv \<and> isMemberOf db x v)" for x
    by (cases "truthy viewer") (auto simp: mine_def set_membershipsIn)
  have each: "i \<in> communityReadableApIds db objs viewer \<longleftrightarrow>
      union = [] \<or> \<not> list_ex (\<lambda>x. x \<in> set deleted) ?ids \<and>
        (filter (\<lambda>x. x \<in> set priv) ?ids = [] \<or> list_ex (\<lambda>x. x \<in> set mine) (filter (\<lambda>x. x \<in> set priv) ?ids))"
    unfolding communityReadableApIds_def Let_def union_def [symmetric] rows_def [symmetric] deleted_def [symmetric]
      priv_def [symmetric] mine_def [symmetric]
    using assms(2) by (auto dest: only intro!: image_eqI [of i fst "(i, obj)"])
  show ?thesis
  proof (cases "union = []")
    case True
    then have "?ids = []" using ids by simp
    then show ?thesis using True each by (simp add: gateOpen_def)
  next
    case False
    then show ?thesis unfolding each del gateOpen_def
      using ids by (auto simp: filter_empty_conv list_ex_iff mem pr subset_iff, blast)
  qed
qed

text \<open>
  The batched community gate is the single one. For a page of objects with distinct ids, the
  batch (two chunked queries in all) admits an object exactly when the gate of one object does;
  and a known community that is deleted, or a private one without a membership of the viewer,
  refuses, whatever else the object is addressed to.
\<close>

theorem community_gate_batched:
  assumes "distinct (map fst objs)" and "(i, obj) \<in> set objs"
  shows "(i \<in> communityReadableApIds db objs viewer) = (canViewerReadObject db obj viewer \<noteq> None) \<and>
    (c \<in> set (so_communities db) \<and> cy_apId c \<in> set (communityApIdsFor obj) \<and> cy_deletedAt c \<noteq> None \<longrightarrow>
       canViewerReadObject db obj viewer = None) \<and>
    (c \<in> set (so_communities db) \<and> cy_apId c \<in> set (communityApIdsFor obj) \<and> communityRequiresMembership (cy_visibility c) \<and>
       (\<forall>v. truthy viewer = Some v \<longrightarrow> \<not> list_ex (\<lambda>m. mb_actor m = v) (so_members db)) \<longrightarrow>
       canViewerReadObject db obj viewer = None)"
  unfolding batched_gate [OF assms] canViewerReadObject_iff
  using canViewerReadObject_iff [of db obj viewer] by (fastforce simp: gateOpen_def isMemberOf_def list_ex_iff)

text \<open>The two facts the full gate looks up.\<close>

definition followOf :: "'z social_scheme \<Rightarrow> string option \<Rightarrow> string \<Rightarrow> bool" where
  "followOf db viewer author = (case truthy viewer of None \<Rightarrow> False | Some v \<Rightarrow> hasAcceptedFollow db v author)"

definition projectionOf :: "'z social_scheme \<Rightarrow> string option \<Rightarrow> string \<Rightarrow> bool" where
  "projectionOf db viewer i = (case truthy viewer of None \<Rightarrow> False | Some v \<Rightarrow> hasProjectedRecipient db i v)"

definition ownStory :: "gate_object \<Rightarrow> string option \<Rightarrow> bool" where
  "ownStory obj viewer = (go_type obj = Some ''Story'' \<and> truthy viewer = Some (go_attributedTo obj))"

lemma full_gate:
  assumes "isActorBlockedStrict readable parseUrl (so_blocklist db) (go_attributedTo obj) = Inr False"
  shows "(\<exists>adm. canViewerReadObjectFull readable parseUrl db obj viewer now = Inr (Some adm)) \<longleftrightarrow>
    ownStory obj viewer \<or>
    canViewerReadObject db obj viewer \<noteq> None \<and>
      passesPostVisibilitySync obj viewer (followOf db viewer) (projectionOf db viewer) now"
proof (cases "canViewerReadObject db obj viewer")
  case None
  then show ?thesis by (auto simp: canViewerReadObjectFull_def assms ownStory_def Let_def)
next
  case (Some community)
  then show ?thesis
    by (auto simp: canViewerReadObjectFull_def assms ownStory_def Let_def passesPostVisibilitySync_def followOf_def
        projectionOf_def projectedFor_def gateFollow_def gateProjection_def explicitFor_def split: option.splits if_splits)
qed

text \<open>
  C13: The read gate of one object is the shared per-post rule behind the two other boundaries. An
  object may be read exactly when its author is not blocked by the operator (and the blocklist
  could be read) and either it is the viewer's own story, or the community gate admits it and
  the shared rule does, with the viewer's accepted follow and private addressing as they are in
  the database, although the gate looks them up only on the branches that need them.
\<close>

theorem full_gate_is_shared_rule:
  "(\<exists>adm. canViewerReadObjectFull readable parseUrl db obj viewer now = Inr (Some adm)) \<longleftrightarrow>
     isActorBlockedStrict readable parseUrl (so_blocklist db) (go_attributedTo obj) = Inr False \<and>
     (go_type obj = Some ''Story'' \<and> truthy viewer = Some (go_attributedTo obj) \<or>
      canViewerReadObject db obj viewer \<noteq> None \<and>
      passesPostVisibilitySync obj viewer
        (\<lambda>author. case truthy viewer of None \<Rightarrow> False | Some v \<Rightarrow> hasAcceptedFollow db v author)
        (\<lambda>i. case truthy viewer of None \<Rightarrow> False | Some v \<Rightarrow> hasProjectedRecipient db i v) now)"
proof (cases "isActorBlockedStrict readable parseUrl (so_blocklist db) (go_attributedTo obj) = Inr False")
  case True
  then show ?thesis using full_gate [OF True] by (simp add: ownStory_def followOf_def [abs_def] projectionOf_def [abs_def])
next
  case False
  then show ?thesis by (auto simp: canViewerReadObjectFull_def split: sum.splits bool.splits)
qed

text \<open>The operator's feed predicate is at least as strict as the lookup the gate uses.\<close>

definition hostAgrees :: "url_parser \<Rightarrow> string \<Rightarrow> bool" where
  "hostAgrees parseUrl i =
     (\<exists>h. normalizeDomain parseUrl i = Some h \<and> operatorActorHostname i = Some h \<and> normalizeDomain parseUrl h = Some h)"

lemma hostAgrees_nonempty: "hostAgrees parseUrl i \<Longrightarrow> i \<noteq> []"
  by (auto simp: hostAgrees_def operatorActorHostname_def sqlInstr_def identityFragmentless_def sqlPrefix_def sqlLower_def)

lemma feed_predicate_strict:
  assumes "hostAgrees parseUrl i" and "operatorActorNotBlockedSql bl i"
  shows "isActorBlockedStrict True parseUrl bl i = Inr False"
proof -
  obtain h where h: "normalizeDomain parseUrl i = Some h" "operatorActorHostname i = Some h" "normalizeDomain parseUrl h = Some h"
    using assms(1) by (auto simp: hostAgrees_def)
  have none: "activityPubActorIdentityMatchesSql (blockedActorIds bl) i = []" and dom: "operatorActorDomainNotBlockedSql bl i"
    using assms(2) by (auto simp: operatorActorNotBlockedSql_def)
  have "i \<notin> set (blockedActorIds bl)" using none matches_empty_iff sameIdentity_refl by blast
  moreover have "isDomainBlockedStrict True parseUrl bl h = Inr False"
    using dom unfolding operatorActorDomainNotBlockedSql_def h(2) option.case sqlSuffix_endsWith domainBlocked_covers [OF h(3)]
    by (auto simp: covers_def list_ex_iff)
  ultimately show ?thesis using none h by (simp add: isActorBlockedStrict_def)
qed

text \<open>The community part of a receipt, on a later database.\<close>

lemma community_receipt:
  assumes "canViewerReadObject db1 obj viewer = Some adm" and "communityReadAdmissionSql db2 adm viewer"
    and "keysUnique cy_apId (so_communities db2)"
  shows "canViewerReadObject db2 obj viewer \<noteq> None"
proof -
  note rows = canViewerReadObject_rows [OF assms(1)]
  have same: "\<exists>r' \<in> set (ca_rows adm). cy_apId r' = cy_apId r \<and> cy_visibility r' = cy_visibility r \<and> cy_deletedAt r' = cy_deletedAt r"
    if "r \<in> set (so_communities db2)" "cy_apId r \<in> set (communityApIdsFor obj)" for r
  proof -
    have "\<exists>r' \<in> set (ca_rows adm). cy_apId r' = cy_apId r"
      using assms(2) that rows(1) by (auto simp: communityReadAdmissionSql_def list_all_iff)
    then obtain r' where r': "r' \<in> set (ca_rows adm)" "cy_apId r' = cy_apId r" by blast
    then obtain c where c: "c \<in> set (so_communities db2)" "cy_apId c = cy_apId r'" "cy_visibility c = cy_visibility r'" "cy_deletedAt c = cy_deletedAt r'"
      using assms(2) by (auto simp: communityReadAdmissionSql_def list_all_iff)
    have "selectBy cy_apId (cy_apId r) (so_communities db2) = Some r" "selectBy cy_apId (cy_apId c) (so_communities db2) = Some c"
      using selectBy_mem [OF assms(3)] that(1) c(1) by auto
    then have "c = r" using c(2) r'(2) by simp
    then show ?thesis using c r' by auto
  qed
  have live: "\<forall>r \<in> set (so_communities db2). cy_apId r \<in> set (communityApIdsFor obj) \<longrightarrow> cy_deletedAt r = None"
    using same rows(3) by fastforce
  show ?thesis
  proof (cases "ca_member adm")
    case None
    then have "\<forall>r \<in> set (ca_rows adm). \<not> communityRequiresMembership (cy_visibility r)"
      using canViewerReadObject_member [OF assms(1)] by simp
    then show ?thesis unfolding canViewerReadObject_iff gateOpen_def using live same by fastforce
  next
    case (Some c)
    then obtain v r where r: "truthy viewer = Some v" "r \<in> set (ca_rows adm)" "cy_apId r = c" "communityRequiresMembership (cy_visibility r)"
      using canViewerReadObject_member [OF assms(1)] by auto
    then obtain r2 where "r2 \<in> set (so_communities db2)" "cy_apId r2 = c" "cy_visibility r2 = cy_visibility r"
      using assms(2) by (auto simp: communityReadAdmissionSql_def list_all_iff)
    moreover have "c \<in> set (communityApIdsFor obj)" using r(2,3) rows(2) by auto
    moreover have "isMemberOf db2 c v"
      using assms(2) Some truthy_SomeD [OF r(1)] by (simp add: communityReadAdmissionSql_def)
    ultimately show ?thesis unfolding canViewerReadObject_iff gateOpen_def using live r(1,4) by metis
  qed
qed

lemma gate_viewer: "gateFollow db obj viewer p \<Longrightarrow> truthy viewer \<noteq> None" "gateProjection db obj viewer \<Longrightarrow> truthy viewer \<noteq> None"
  by (auto simp: gateFollow_def gateProjection_def split: option.splits)

text \<open>What an admission records: the two ways the gate admits.\<close>

lemma admission_cases:
  assumes "canViewerReadObjectFull readable parseUrl db obj viewer now = Inr (Some adm)"
  shows "ownStory obj viewer \<or>
    (\<exists>community. canViewerReadObject db obj viewer = Some community \<and>
       adm = allowRead obj viewer (Some community) (ra_followRequired adm) (ra_projectedRecipientRequired adm) \<and>
       passesPostVisibilitySync obj viewer (\<lambda>_. ra_followRequired adm) (\<lambda>_. ra_projectedRecipientRequired adm) now \<and>
       (ra_followRequired adm \<or> ra_projectedRecipientRequired adm \<longrightarrow> truthy viewer \<noteq> None))"
proof (cases "canViewerReadObject db obj viewer")
  case None
  then show ?thesis using assms
    by (auto simp: canViewerReadObjectFull_def ownStory_def Let_def split: sum.splits bool.splits if_splits)
next
  case (Some community)
  then show ?thesis using assms
    by (auto simp: canViewerReadObjectFull_def ownStory_def Let_def allowRead_def dest: gate_viewer split: sum.splits bool.splits if_splits)
qed

lemma admission_object:
  "canViewerReadObjectFull readable parseUrl db obj viewer now = Inr (Some adm) \<Longrightarrow> ra_object adm = obj \<and> ra_viewer adm = viewer"
  by (auto simp: canViewerReadObjectFull_def Let_def allowRead_def split: sum.splits bool.splits option.splits if_splits)

text \<open>More follows, more private addressing and a story that has not ended only admit more.\<close>

lemma passes_mono:
  assumes "passesPostVisibilitySync obj viewer f p now1"
    and "f (go_attributedTo obj) \<Longrightarrow> f' (go_attributedTo obj)" and "\<And>i. go_apId obj = Some i \<Longrightarrow> p i \<Longrightarrow> p' i"
    and "go_type obj = Some ''Story'' \<Longrightarrow> truthy viewer \<noteq> Some (go_attributedTo obj) \<Longrightarrow> \<not> expiredAt (go_endTime obj) now2"
  shows "passesPostVisibilitySync obj viewer f' p' now2"
  using assms
  by (auto simp: passesPostVisibilitySync_def projectedFor_def split: option.splits if_splits dest!: truthy_SomeD)


subsection \<open>An example\<close>

definition examplePost :: object_row where
  "examplePost =
     \<lparr>ob_apId = ''o'', ob_type = ''Note'', ob_attributedTo = ''https://a.com/users/bob'', ob_content = ''hi'', ob_inReplyTo = None,
      ob_conversation = None, ob_visibility = ''followers'', ob_to = Some [], ob_cc = Some [], ob_audience = Some (JArr [JStr ''g'']),
      ob_community = Some ''g'', ob_endTime = None, ob_published = ''2024-01-01''\<rparr>"

definition exampleSocial :: social where
  "exampleSocial =
     \<lparr>so_objects = [examplePost], so_activities = [], so_recipients = [],
      so_communities = [\<lparr>cy_apId = ''g'', cy_visibility = Some ''private'', cy_deletedAt = None\<rparr>],
      so_members = [\<lparr>mb_community = ''g'', mb_actor = ''v'', mb_joinedAt = ''2023''\<rparr>],
      so_follows = [\<lparr>fw_followerApId = ''v'', fw_followingApId = ''https://a.com/users/bob'', fw_status = ''accepted'',
                    fw_activityApId = None, fw_createdAt = ''2023'', fw_acceptedAt = Some ''2023''\<rparr>],
      so_blocks = [], so_mutes = [], so_blocklist = \<lparr>bl_actors = [], bl_domains = []\<rparr>\<rparr>"

theorem community_gate_batched_witness:
  "''o'' \<in> communityReadableApIds exampleSocial [(''o'', gateObjectOf examplePost)] (Some ''v'') \<and>
   canViewerReadObject exampleSocial (gateObjectOf examplePost) (Some ''v'') \<noteq> None"
proof -
  have "canViewerReadObject exampleSocial (gateObjectOf examplePost) (Some ''v'') \<noteq> None" by code_simp
  then show ?thesis
    using community_gate_batched [of "[(''o'', gateObjectOf examplePost)]" "''o''" "gateObjectOf examplePost" exampleSocial "Some ''v''"]
    by simp
qed


end
