(* ===== verification/PersonalModeration.thy ===== *)
theory PersonalModeration
  imports Social
begin

section \<open>Personal blocks and mutes\<close>

text \<open>
  Models \<open>src/backend/lib/personal-actor-moderation.ts\<close> and the feed predicates of
  \<open>feed-exclude.ts\<close>: what one member has blocked or muted, under whatever spelling it was
  stored, decides who reaches that member. A condition of a query is a predicate on the row.
\<close>

definition canonicalPersonalModerationActorId :: "url_parser \<Rightarrow> string \<Rightarrow> string" where
  "canonicalPersonalModerationActorId parseUrl actor =
     (case normalizeActivityPubActorId parseUrl actor of None \<Rightarrow> actor | Some n \<Rightarrow> n)"

definition ownedBy' :: "string option \<Rightarrow> (string \<times> string) list \<Rightarrow> string list" where
  "ownedBy' owner rows = map snd (filter (\<lambda>r. owner = None \<or> owner = Some (fst r)) rows)"

definition suppressedIds :: "'z social_scheme \<Rightarrow> string option \<Rightarrow> string list" where
  "suppressedIds db owner = ownedBy' owner (so_blocks db) @ ownedBy' owner (so_mutes db)"

definition personalActorNotSuppressedSql :: "'z social_scheme \<Rightarrow> string \<Rightarrow> string option \<Rightarrow> bool" where
  "personalActorNotSuppressedSql db actor owner =
     (activityPubActorIdentityMatchesSql (suppressedIds db owner) actor = [])"

definition actorIdentitySetContains :: "url_parser \<Rightarrow> string \<Rightarrow> string list \<Rightarrow> bool" where
  "actorIdentitySetContains parseUrl actor rawIds =
     (canonicalPersonalModerationActorId parseUrl actor \<in> set (activityPubActorIdentitySetSql rawIds))"

text \<open>The exact row, or the first retained spelling.\<close>

definition resolveRetained :: "string \<Rightarrow> string \<Rightarrow> (string \<times> string) list \<Rightarrow> string option" where
  "resolveRetained owner target rows =
     (if (owner, target) \<in> set rows then Some target
      else
        (case activityPubActorIdentityMatchesSql (ownedBy' (Some owner) rows) target of
           [] \<Rightarrow> None
         | m # ms \<Rightarrow> Some m))"

definition resolveRetainedPersonalBlockTarget :: "'z social_scheme \<Rightarrow> string \<Rightarrow> string \<Rightarrow> string option" where
  "resolveRetainedPersonalBlockTarget db blocker blocked = resolveRetained blocker blocked (so_blocks db)"

definition resolveRetainedPersonalMuteTarget :: "'z social_scheme \<Rightarrow> string \<Rightarrow> string \<Rightarrow> string option" where
  "resolveRetainedPersonalMuteTarget db muter muted = resolveRetained muter muted (so_mutes db)"

definition personalActorIsBlockedBy :: "url_parser \<Rightarrow> 'z social_scheme \<Rightarrow> string \<Rightarrow> string \<Rightarrow> bool" where
  "personalActorIsBlockedBy parseUrl db blocker blocked =
     ((blocker, blocked) \<in> set (so_blocks db) \<or>
      actorIdentitySetContains parseUrl blocked (ownedBy' (Some blocker) (so_blocks db)))"

definition personalActorIsSuppressedBy :: "url_parser \<Rightarrow> 'z social_scheme \<Rightarrow> string \<Rightarrow> string \<Rightarrow> bool" where
  "personalActorIsSuppressedBy parseUrl db owner actor =
     ((owner, actor) \<in> set (so_blocks db) \<or> (owner, actor) \<in> set (so_mutes db) \<or>
      actorIdentitySetContains parseUrl actor (suppressedIds db (Some owner)))"

definition anyOwnerSuppressesInboundActor :: "url_parser \<Rightarrow> 'z social_scheme \<Rightarrow> string \<Rightarrow> bool" where
  "anyOwnerSuppressesInboundActor parseUrl db actor =
     (actor \<in> set (map snd (so_blocks db)) \<or> actor \<in> set (map snd (so_mutes db)) \<or>
      actorIdentitySetContains parseUrl actor (suppressedIds db None))"

definition deleteRetained :: "string \<Rightarrow> string \<Rightarrow> (string \<times> string) list \<Rightarrow> (string \<times> string) list" where
  "deleteRetained owner target rows =
     (let matches = activityPubActorIdentityMatchesSql (ownedBy' (Some owner) rows) target
      in deleteWhere (\<lambda>r. fst r = owner \<and> snd r \<in> set matches) rows)"

definition deletePersonalActorBlock :: "string \<Rightarrow> string \<Rightarrow> 'z social_scheme \<Rightarrow> 'z social_scheme" where
  "deletePersonalActorBlock blocker blocked db = db\<lparr>so_blocks := deleteRetained blocker blocked (so_blocks db)\<rparr>"

definition deletePersonalActorMute :: "string \<Rightarrow> string \<Rightarrow> 'z social_scheme \<Rightarrow> 'z social_scheme" where
  "deletePersonalActorMute muter muted db = db\<lparr>so_mutes := deleteRetained muter muted (so_mutes db)\<rparr>"

subsection \<open>Feeds\<close>

text \<open>\<open>undefined\<close> for an anonymous viewer is the condition that always holds.\<close>

definition excludeBlockedMutedAuthors :: "'z social_scheme \<Rightarrow> string \<Rightarrow> string \<Rightarrow> bool" where
  "excludeBlockedMutedAuthors db viewer column =
     (viewer = [] \<or> column \<notin> set (activityPubActorIdentitySetSql (suppressedIds db (Some viewer))))"

definition excludeModeratedActors :: "'z social_scheme \<Rightarrow> string \<Rightarrow> string \<Rightarrow> bool" where
  "excludeModeratedActors db viewer column =
     (operatorActorNotBlockedSql (so_blocklist db) column \<and> excludeBlockedMutedAuthors db viewer column)"

subsection \<open>Properties\<close>

lemma set_ownedBy': "x \<in> set (ownedBy' (Some owner) rows) \<longleftrightarrow> (owner, x) \<in> set rows"
  by (force simp: ownedBy'_def)

lemma set_suppressedIds:
  "x \<in> set (suppressedIds db (Some owner)) \<longleftrightarrow> (owner, x) \<in> set (so_blocks db) \<or> (owner, x) \<in> set (so_mutes db)"
  by (simp add: suppressedIds_def set_ownedBy')

lemma suppressed_iff_hidden:
  assumes "canonicalPersonalModerationActorId parseUrl actor = actor" and "owner \<noteq> []"
  shows "personalActorIsSuppressedBy parseUrl db owner actor \<longleftrightarrow> \<not> excludeBlockedMutedAuthors db owner actor"
  using assms identityValues_self
  by (auto simp: personalActorIsSuppressedBy_def excludeBlockedMutedAuthors_def actorIdentitySetContains_def
      set_identitySet set_suppressedIds intro: bexI [of _ actor])

text \<open>
  Ingress and feeds agree on who a member has shut out. For an actor id that is in canonical
  spelling, the check before an interaction is written finds it suppressed by the member exactly
  when the feed predicate hides its posts from that member, whatever spellings the stored blocks
  and mutes have.
\<close>

theorem ingress_and_feed_agree:
  assumes "canonicalPersonalModerationActorId parseUrl actor = actor" and "owner \<noteq> []"
  shows "personalActorIsSuppressedBy parseUrl db owner actor \<longleftrightarrow> \<not> excludeBlockedMutedAuthors db owner actor"
  by (rule suppressed_iff_hidden [OF assms])

theorem ingress_and_feed_agree_witness:
  "personalActorIsSuppressedBy exampleParser
     \<lparr>so_objects = [], so_activities = [], so_recipients = [], so_communities = [], so_members = [], so_follows = [],
      so_blocks = [(''me'', ''https://A.com/users/bob/'')], so_mutes = [], so_blocklist = exampleBlocklist\<rparr>
     ''me'' ''https://a.com/users/bob'' \<and>
   \<not> excludeBlockedMutedAuthors
     \<lparr>so_objects = [], so_activities = [], so_recipients = [], so_communities = [], so_members = [], so_follows = [],
      so_blocks = [(''me'', ''https://A.com/users/bob/'')], so_mutes = [], so_blocklist = exampleBlocklist\<rparr>
     ''me'' ''https://a.com/users/bob''"
proof -
  let ?db = "\<lparr>so_objects = [], so_activities = [], so_recipients = [], so_communities = [], so_members = [], so_follows = [],
      so_blocks = [(''me'', ''https://A.com/users/bob/'')], so_mutes = [], so_blocklist = exampleBlocklist\<rparr>"
  have "canonicalPersonalModerationActorId exampleParser ''https://a.com/users/bob'' = ''https://a.com/users/bob''" by code_simp
  moreover have "personalActorIsSuppressedBy exampleParser ?db ''me'' ''https://a.com/users/bob''" by code_simp
  ultimately show ?thesis
    using ingress_and_feed_agree [of exampleParser "''https://a.com/users/bob''" "''me''" ?db] by simp
qed

text \<open>Lifting a block lifts every stored spelling of it, and no other row.\<close>

lemma set_deleteRetained:
  "set (deleteRetained owner target rows) = {r \<in> set rows. \<not> (fst r = owner \<and> sameIdentity (snd r) target)}"
  by (force simp: deleteRetained_def Let_def set_matches set_ownedBy')

text \<open>
  Unblocking works for whatever was stored. After the delete, the member no longer blocks an
  actor given in canonical spelling; every row of other members and of other actors is kept, and
  nothing else of the database changes.
\<close>

theorem unblock_lifts_every_spelling:
  assumes "canonicalPersonalModerationActorId parseUrl actor = actor"
  shows "\<not> personalActorIsBlockedBy parseUrl (deletePersonalActorBlock owner actor db) owner actor \<and>
    set (so_blocks (deletePersonalActorBlock owner actor db)) =
      {r \<in> set (so_blocks db). fst r \<noteq> owner \<or> \<not> sameIdentity (snd r) actor} \<and>
    deletePersonalActorBlock owner actor db = db\<lparr>so_blocks := so_blocks (deletePersonalActorBlock owner actor db)\<rparr>"
proof -
  have "actor \<in> set (identityValues x) \<Longrightarrow> sameIdentity x actor" for x
    by (auto simp: sameIdentity_def list_ex_iff intro: bexI [of _ actor])
  then show ?thesis using assms
    by (auto simp: personalActorIsBlockedBy_def deletePersonalActorBlock_def set_deleteRetained actorIdentitySetContains_def
        set_identitySet set_ownedBy')
qed

theorem unblock_lifts_every_spelling_witness:
  "\<not> personalActorIsBlockedBy exampleParser (deletePersonalActorBlock ''me'' ''https://a.com/users/bob''
     \<lparr>so_objects = [], so_activities = [], so_recipients = [], so_communities = [], so_members = [], so_follows = [],
      so_blocks = [(''me'', ''https://A.com/users/bob/'')], so_mutes = [], so_blocklist = exampleBlocklist\<rparr>)
     ''me'' ''https://a.com/users/bob''"
proof -
  have "canonicalPersonalModerationActorId exampleParser ''https://a.com/users/bob'' = ''https://a.com/users/bob''" by code_simp
  from unblock_lifts_every_spelling [OF this, of "''me''"] show ?thesis by blast
qed

end
