(* ===== verification/Notifications.thy ===== *)
theory Notifications
  imports PostVisibility PersonalModeration "HOL-Library.AList" "HOL-Library.Product_Lexorder"
begin

section \<open>Notifications and unread counts\<close>

text \<open>
  Models \<open>src/backend/lib/notification-eligibility.ts\<close> (which inbox rows are notifications),
  \<open>unread-counts.ts\<close> with the predicates of \<open>talk-read-receipts.ts\<close> and
  \<open>talk-peer-archives.ts\<close> it uses, the list, read and archive operations of
  \<open>routes/notifications.ts\<close>, and the selection of the event of a push job in
  \<open>notification-push.ts\<close>. A query over joined tables is a list of the joined rows. The names
  and the icon of an item's actor and the URL of its target are not modelled, nor is the realtime
  event after a change; a type filter that names a property of \<open>Object.prototype\<close> (which the
  code finds in its table of types) is not, either.
\<close>

subsection \<open>Tables\<close>

record inbox_row =
  ix_actor :: string
  ix_activity :: string
  ix_read :: bool
  ix_createdAt :: string

record talk_mode =
  tm_actor :: string
  tm_kind :: string
  tm_target :: string
  tm_thread :: string
  tm_epoch :: string

record talk_read = talk_mode +
  tr_object :: string

record notif_db = social +
  nd_inbox :: "inbox_row list"
  nd_archived :: "(string \<times> string \<times> string) list"
  nd_peerArchived :: "(string \<times> string) list"
  nd_dmArchived :: "(string \<times> string) list"
  nd_expansions :: "(string \<times> string) list"
  nd_dmRead :: "((string \<times> string) \<times> string) list"
  nd_communityRead :: "((string \<times> string) \<times> string) list"
  nd_modes :: "talk_mode list"
  nd_reads :: "talk_read list"

subsection \<open>Eligibility\<close>

definition NOTIFICATION_ACTIVITY_TYPES :: "string list" where
  "NOTIFICATION_ACTIVITY_TYPES = [''Follow'', ''Like'', ''Announce'', ''Create'']"

text \<open>A row of \<open>inbox JOIN activities LEFT JOIN objects\<close>.\<close>

type_synonym notif_row = "inbox_row \<times> activity_row \<times> object_row option"

definition objectOf :: "'z social_scheme \<Rightarrow> activity_row \<Rightarrow> object_row option" where
  "objectOf db act = (case av_object act of None \<Rightarrow> None | Some i \<Rightarrow> selectBy ob_apId i (so_objects db))"

definition joinedRows :: "'z notif_db_scheme \<Rightarrow> notif_row list" where
  "joinedRows db =
     List.map_filter
       (\<lambda>ix. map_option (\<lambda>act. (ix, act, objectOf db act)) (selectBy av_apId (ix_activity ix) (so_activities db)))
       (nd_inbox db)"

definition otherParticipantSql :: "string \<Rightarrow> object_row \<Rightarrow> string option" where
  "otherParticipantSql viewer obj =
     (if ob_attributedTo obj = viewer then (case ob_to obj of Some (x # xs) \<Rightarrow> Some x | _ \<Rightarrow> None)
      else Some (ob_attributedTo obj))"

definition peerArchivedSql :: "'z notif_db_scheme \<Rightarrow> string \<Rightarrow> string option \<Rightarrow> string option \<Rightarrow> bool" where
  "peerArchivedSql db viewer peer conversation =
     ((case peer of None \<Rightarrow> False | Some p \<Rightarrow> (viewer, p) \<in> set (nd_peerArchived db)) \<or>
      (case conversation of
         None \<Rightarrow> False
       | Some c \<Rightarrow> (viewer, c) \<in> set (nd_dmArchived db) \<and> (viewer, c) \<notin> set (nd_expansions db)))"

datatype direct_mode = DirectExclude | DirectUnlessArchived

definition isArchived :: "'z notif_db_scheme \<Rightarrow> string \<Rightarrow> string \<Rightarrow> bool" where
  "isArchived db actor activity = list_ex (\<lambda>(a, i, t). a = actor \<and> i = activity) (nd_archived db)"

definition directCondition :: "'z notif_db_scheme \<Rightarrow> string \<Rightarrow> direct_mode \<Rightarrow> object_row option \<Rightarrow> bool" where
  "directCondition db actor direct obj =
     (case obj of
        None \<Rightarrow> True
      | Some ob \<Rightarrow>
          ob_visibility ob \<noteq> ''direct'' \<or>
          direct = DirectUnlessArchived \<and> \<not> peerArchivedSql db actor (otherParticipantSql actor ob) (ob_conversation ob))"

definition notificationEligibilityWhere ::
  "'z notif_db_scheme \<Rightarrow> string \<Rightarrow> direct_mode \<Rightarrow> bool \<Rightarrow> string list \<Rightarrow> notif_row \<Rightarrow> bool" where
  "notificationEligibilityWhere db actor direct onlyArchived activityTypes row =
     (case row of (ix, act, obj) \<Rightarrow>
        av_actor act \<noteq> actor \<and>
        av_type act \<in> set activityTypes \<and>
        isArchived db (ix_actor ix) (ix_activity ix) = onlyArchived \<and>
        directCondition db actor direct obj \<and>
        operatorActorNotBlockedSql (so_blocklist db) (av_actor act) \<and>
        excludeBlockedMutedAuthors db actor (av_actor act))"

text \<open>The rows of one member's inbox that satisfy it.\<close>

definition eligibleRows :: "'z notif_db_scheme \<Rightarrow> string \<Rightarrow> direct_mode \<Rightarrow> bool \<Rightarrow> string list \<Rightarrow> notif_row list" where
  "eligibleRows db actor direct onlyArchived activityTypes =
     filter (\<lambda>row. ix_actor (fst row) = actor \<and> notificationEligibilityWhere db actor direct onlyArchived activityTypes row)
       (joinedRows db)"

definition notificationUnreadCount :: "'z notif_db_scheme \<Rightarrow> string \<Rightarrow> nat" where
  "notificationUnreadCount db actor =
     length (filter (\<lambda>row. \<not> ix_read (fst row)) (eligibleRows db actor DirectExclude False NOTIFICATION_ACTIVITY_TYPES))"

subsection \<open>Unread talk\<close>

definition unreadTalkObjectSql ::
  "'z notif_db_scheme \<Rightarrow> talk_mode \<Rightarrow> string \<Rightarrow> string \<Rightarrow> string \<Rightarrow> bool" where
  "unreadTalkObjectSql db scope published objectId legacyBaseline =
     (if list_ex (\<lambda>m. m = scope) (nd_modes db)
      then \<not> list_ex (\<lambda>r. talk_mode.truncate r = scope \<and> tr_object r = objectId) (nd_reads db)
      else legacyBaseline < published)"

abbreviation EPOCH :: string where "EPOCH \<equiv> ''1970-01-01T00:00:00Z''"

definition lastRead :: "((string \<times> string) \<times> string) list \<Rightarrow> string \<Rightarrow> string \<Rightarrow> string \<Rightarrow> string" where
  "lastRead rows actor thread fallback = (case map_of rows (actor, thread) of None \<Rightarrow> fallback | Some t \<Rightarrow> t)"

definition unreadDms :: "'z notif_db_scheme \<Rightarrow> string \<Rightarrow> object_row list" where
  "unreadDms db actor =
     filter (\<lambda>o'.
        list_ex (\<lambda>r. rp_object r = ob_apId o' \<and> rp_recipient r = actor \<and> rp_type r = ''to'') (so_recipients db) \<and>
        ob_visibility o' = ''direct'' \<and> ob_type o' = ''Note'' \<and> ob_attributedTo o' \<noteq> actor \<and>
        operatorActorNotBlockedSql (so_blocklist db) (ob_attributedTo o') \<and>
        (case ob_conversation o' of
           None \<Rightarrow> False
         | Some c \<Rightarrow>
             unreadTalkObjectSql db \<lparr>tm_actor = actor, tm_kind = ''user'', tm_target = ob_attributedTo o', tm_thread = c, tm_epoch = ''''\<rparr>
               (ob_published o') (ob_apId o') (lastRead (nd_dmRead db) actor c EPOCH)) \<and>
        \<not> peerArchivedSql db actor (Some (ob_attributedTo o')) (ob_conversation o'))
       (so_objects db)"

definition unreadCommunity :: "'z notif_db_scheme \<Rightarrow> string \<Rightarrow> (member_row \<times> object_row) list" where
  "unreadCommunity db actor =
     filter (\<lambda>(m, o').
        mb_actor m = actor \<and>
        list_ex (\<lambda>r. rp_object r = ob_apId o' \<and> rp_recipient r = mb_community m \<and> rp_type r = ''audience'') (so_recipients db) \<and>
        ob_type o' = ''Note'' \<and> ob_community o' = None \<and> ob_attributedTo o' \<noteq> actor \<and>
        operatorActorNotBlockedSql (so_blocklist db) (ob_attributedTo o') \<and>
        unreadTalkObjectSql db
          \<lparr>tm_actor = actor, tm_kind = ''community'', tm_target = mb_community m, tm_thread = mb_community m, tm_epoch = mb_joinedAt m\<rparr>
          (ob_published o') (ob_apId o') (lastRead (nd_communityRead db) actor (mb_community m) (mb_joinedAt m)))
       (List.product (so_members db) (so_objects db))"

record unread_snapshot =
  us_dm :: nat
  us_community :: nat
  us_talkTotal :: nat
  us_notifications :: nat

definition yurumeUnreadCounts :: "'z notif_db_scheme \<Rightarrow> string \<Rightarrow> nat \<times> nat \<times> nat" where
  "yurumeUnreadCounts db actor =
     (let dm = length (unreadDms db actor); community = length (unreadCommunity db actor) in (dm, community, dm + community))"

definition computeUnreadSnapshot :: "'z notif_db_scheme \<Rightarrow> string \<Rightarrow> unread_snapshot" where
  "computeUnreadSnapshot db actor =
     (case yurumeUnreadCounts db actor of (dm, community, talkTotal) \<Rightarrow>
        \<lparr>us_dm = dm, us_community = community, us_talkTotal = talkTotal, us_notifications = notificationUnreadCount db actor\<rparr>)"

subsection \<open>Reading and archiving\<close>

definition markAllEligibleNotificationsRead :: "'z notif_db_scheme \<Rightarrow> string \<Rightarrow> 'z notif_db_scheme" where
  "markAllEligibleNotificationsRead db actor =
     (let eligible = map (\<lambda>row. ix_activity (fst row))
            (filter (\<lambda>row. \<not> ix_read (fst row)) (eligibleRows db actor DirectExclude False NOTIFICATION_ACTIVITY_TYPES))
      in db\<lparr>nd_inbox := updateWhere (\<lambda>ix. ix_actor ix = actor \<and> \<not> ix_read ix \<and> ix_activity ix \<in> set eligible)
                          (\<lambda>ix. ix\<lparr>ix_read := True\<rparr>) (nd_inbox db)\<rparr>)"

definition MAX_BATCH_SIZE :: nat where "MAX_BATCH_SIZE = 90"

datatype ids_error = IdsInvalid | IdsTooLong

fun isBlank :: "jsval \<Rightarrow> bool" where
  "isBlank (JStr s) = (trim s = [])"
| "isBlank _ = True"

definition parseNotificationIds :: "jsval \<Rightarrow> nat \<Rightarrow> ids_error + string list" where
  "parseNotificationIds v maxSize =
     (case v of
        JArr xs \<Rightarrow>
          (if xs = [] then Inl IdsInvalid
           else if maxSize < length xs then Inl IdsTooLong
           else if list_ex isBlank xs then Inl IdsInvalid
           else Inr (dedupe (map (\<lambda>x. trim (strOf x)) xs)))
      | _ \<Rightarrow> Inl IdsInvalid)"

text \<open>The body of POST /read: exactly one of the two operations, and validated before any write.\<close>

definition hasOwn :: "jsval \<Rightarrow> string \<Rightarrow> bool" where
  "hasOwn body key = (case body of JObj fs \<Rightarrow> key \<in> fst ` set fs | _ \<Rightarrow> False)"

definition postRead :: "'z notif_db_scheme \<Rightarrow> string \<Rightarrow> jsval \<Rightarrow> nat \<times> 'z notif_db_scheme" where
  "postRead db actor body =
     (if \<not> isPlainObject body then (400, db)
      else if hasOwn body ''read_all'' = hasOwn body ''ids'' then (400, db)
      else if hasOwn body ''read_all'' then
        (if field body ''read_all'' \<noteq> JBool True then (400, db) else (200, markAllEligibleNotificationsRead db actor))
      else
        (case parseNotificationIds (field body ''ids'') MAX_BATCH_SIZE of
           Inl e \<Rightarrow> (400, db)
         | Inr ids \<Rightarrow>
             (200, db\<lparr>nd_inbox := updateWhere (\<lambda>ix. ix_actor ix = actor \<and> ix_activity ix \<in> set ids)
                                  (\<lambda>ix. ix\<lparr>ix_read := True\<rparr>) (nd_inbox db)\<rparr>)))"

definition archiveKey :: "string \<times> string \<times> string \<Rightarrow> string \<times> string" where
  "archiveKey r = (fst r, fst (snd r))"

text \<open>\<open>INSERT .. SELECT\<close> from the actor's own inbox, ignoring markers that exist.\<close>

definition archiveRows :: "'z notif_db_scheme \<Rightarrow> string \<Rightarrow> string \<Rightarrow> (inbox_row \<Rightarrow> bool) \<Rightarrow> nat \<times> 'z notif_db_scheme" where
  "archiveRows db actor archivedAt chosen =
     (let rows = map (\<lambda>ix. (actor, ix_activity ix, archivedAt)) (filter (\<lambda>ix. ix_actor ix = actor \<and> chosen ix) (nd_inbox db));
          archived = insertManyIgnore archiveKey rows (nd_archived db)
      in (length archived - length (nd_archived db), db\<lparr>nd_archived := archived\<rparr>))"

definition ARCHIVE_CREATE_BATCH_SIZE :: nat where "ARCHIVE_CREATE_BATCH_SIZE = 30"

fun archiveBatches :: "string list list \<Rightarrow> string \<Rightarrow> string \<Rightarrow> nat \<times> 'z notif_db_scheme \<Rightarrow> nat \<times> 'z notif_db_scheme" where
  "archiveBatches [] actor archivedAt (n, db) = (n, db)"
| "archiveBatches (batch # batches) actor archivedAt (n, db) =
     (case archiveRows db actor archivedAt (\<lambda>ix. ix_activity ix \<in> set batch) of
        (k, db') \<Rightarrow> archiveBatches batches actor archivedAt (n + k, db'))"

definition batchArchiveInsert :: "'z notif_db_scheme \<Rightarrow> string \<Rightarrow> string list \<Rightarrow> string \<Rightarrow> nat \<times> 'z notif_db_scheme" where
  "batchArchiveInsert db actor ids archivedAt = archiveBatches (chunksOf ARCHIVE_CREATE_BATCH_SIZE ids) actor archivedAt (0, db)"

definition archiveAllInboxRows :: "'z notif_db_scheme \<Rightarrow> string \<Rightarrow> string \<Rightarrow> nat \<times> 'z notif_db_scheme" where
  "archiveAllInboxRows db actor archivedAt = archiveRows db actor archivedAt (\<lambda>ix. True)"

definition unarchive :: "'z notif_db_scheme \<Rightarrow> string \<Rightarrow> string list \<Rightarrow> 'z notif_db_scheme" where
  "unarchive db actor ids =
     db\<lparr>nd_archived := deleteWhere (\<lambda>(a, i, t). a = actor \<and> i \<in> set ids) (nd_archived db)\<rparr>"

definition postArchive :: "'z notif_db_scheme \<Rightarrow> string \<Rightarrow> string \<Rightarrow> jsval \<Rightarrow> nat \<times> 'z notif_db_scheme" where
  "postArchive db actor now body =
     (if \<not> isPlainObject body then (400, db)
      else
        (case parseNotificationIds (field body ''ids'') MAX_BATCH_SIZE of
           Inl e \<Rightarrow> (400, db)
         | Inr ids \<Rightarrow> (200, snd (batchArchiveInsert db actor ids now))))"

definition deleteArchive :: "'z notif_db_scheme \<Rightarrow> string \<Rightarrow> jsval \<Rightarrow> nat \<times> 'z notif_db_scheme" where
  "deleteArchive db actor body =
     (if \<not> isPlainObject body then (400, db)
      else
        (case parseNotificationIds (field body ''ids'') MAX_BATCH_SIZE of
           Inl e \<Rightarrow> (400, db)
         | Inr ids \<Rightarrow> (200, unarchive db actor ids)))"

definition ARCHIVE_CLEANUP_BATCH :: nat where "ARCHIVE_CLEANUP_BATCH = 200"

text \<open>
  The retention of archived rows, as the statements the code issues: for every chunk of ids the
  inbox rows, and then their markers.
\<close>

datatype cleanup_stmt = DropInbox "string list" | DropMarkers "string list"

fun cleanupStep :: "string \<Rightarrow> cleanup_stmt \<Rightarrow> 'z notif_db_scheme \<Rightarrow> 'z notif_db_scheme" where
  "cleanupStep actor (DropInbox ids) db =
     db\<lparr>nd_inbox := deleteWhere (\<lambda>ix. ix_actor ix = actor \<and> ix_activity ix \<in> set ids) (nd_inbox db)\<rparr>"
| "cleanupStep actor (DropMarkers ids) db = unarchive db actor ids"

definition cleanupStatements :: "'z notif_db_scheme \<Rightarrow> string \<Rightarrow> string \<Rightarrow> cleanup_stmt list" where
  "cleanupStatements db actor retentionDate =
     (let ids = map (\<lambda>(a, i, t). i)
            (take ARCHIVE_CLEANUP_BATCH (filter (\<lambda>(a, i, t). a = actor \<and> t < retentionDate) (nd_archived db)))
      in concat (map (\<lambda>chunk. [DropInbox chunk, DropMarkers chunk]) (chunkForInClause ids)))"

definition cleanupArchivedNotifications :: "'z notif_db_scheme \<Rightarrow> string \<Rightarrow> string \<Rightarrow> 'z notif_db_scheme" where
  "cleanupArchivedNotifications db actor retentionDate =
     fold (cleanupStep actor) (cleanupStatements db actor retentionDate) db"

text \<open>
  The throttle: the last run of every member. \<open>Map.set\<close> on a member that is there replaces its
  entry.
\<close>

definition ARCHIVED_CLEANUP_INTERVAL_MS :: ms where "ARCHIVED_CLEANUP_INTERVAL_MS = 5 * 60 * 1000"

definition ARCHIVED_CLEANUP_TIMESTAMPS_MAX :: nat where "ARCHIVED_CLEANUP_TIMESTAMPS_MAX = 10000"

type_synonym cleanup_stamps = "(string \<times> ms) list"

definition pruneArchivedCleanupTimestamps :: "ms \<Rightarrow> cleanup_stamps \<Rightarrow> cleanup_stamps" where
  "pruneArchivedCleanupTimestamps now stamps =
     (let fresh = filter (\<lambda>(a, lastRun). now - lastRun < ARCHIVED_CLEANUP_INTERVAL_MS) stamps
      in if ARCHIVED_CLEANUP_TIMESTAMPS_MAX \<le> length fresh then [] else fresh)"

definition maybeCleanupArchivedNotifications ::
  "ms \<Rightarrow> string \<Rightarrow> string \<Rightarrow> cleanup_stamps \<times> 'z notif_db_scheme \<Rightarrow> cleanup_stamps \<times> 'z notif_db_scheme" where
  "maybeCleanupArchivedNotifications now retentionDate actor w =
     (case w of (stamps, db) \<Rightarrow>
        (if now - (case map_of stamps actor of None \<Rightarrow> 0 | Some t \<Rightarrow> t) < ARCHIVED_CLEANUP_INTERVAL_MS then (stamps, db)
         else (AList.update actor now (pruneArchivedCleanupTimestamps now stamps), cleanupArchivedNotifications db actor retentionDate)))"

subsection \<open>The list\<close>

definition activityToNotificationType :: "string \<Rightarrow> bool \<Rightarrow> string option \<Rightarrow> string option" where
  "activityToNotificationType activityType hasInReplyTo followStatus =
     (if activityType = ''Follow'' then Some (if followStatus = Some ''pending'' then ''follow_request'' else ''follow'')
      else if activityType = ''Like'' then Some ''like''
      else if activityType = ''Announce'' then Some ''announce''
      else if activityType = ''Create'' then Some (if hasInReplyTo then ''reply'' else ''mention'')
      else None)"

datatype target_kind = TargetPost | TargetStory | TargetProfile | TargetNotifications

definition notificationTarget :: "string option \<Rightarrow> string \<Rightarrow> string option \<Rightarrow> string option \<Rightarrow> target_kind \<times> string option" where
  "notificationTarget type activityActor objectId objectType =
     (if type = Some ''follow'' \<or> type = Some ''follow_request'' then (TargetProfile, Some activityActor)
      else
        (case truthy objectId of
           None \<Rightarrow> (TargetNotifications, None)
         | Some i \<Rightarrow> if objectType = Some ''Story'' then (TargetStory, Some i) else (TargetPost, Some i)))"

text \<open>The cursor: the creation time and the activity of the last row, separated by NUL.\<close>

abbreviation NUL :: char where "NUL \<equiv> char_of (0::nat)"

type_synonym notif_cursor = "string \<times> string option"

definition decodeNotifCursor :: "string \<Rightarrow> notif_cursor" where
  "decodeNotifCursor before =
     (if NUL \<notin> set before then (before, None)
      else (takeWhile (\<lambda>c. c \<noteq> NUL) before, Some (tl (dropWhile (\<lambda>c. c \<noteq> NUL) before))))"

definition encodeNotifCursor :: "string \<Rightarrow> string \<Rightarrow> string" where
  "encodeNotifCursor createdAt activity = createdAt @ NUL # activity"

definition notifCursorPredicate :: "notif_cursor \<Rightarrow> inbox_row \<Rightarrow> bool" where
  "notifCursorPredicate cursor ix =
     (case cursor of
        (createdAt, None) \<Rightarrow> ix_createdAt ix < createdAt
      | (createdAt, Some activity) \<Rightarrow>
          ix_createdAt ix < createdAt \<or> ix_createdAt ix = createdAt \<and> ix_activity ix < activity)"

definition activityTypesOf :: "string option \<Rightarrow> string list" where
  "activityTypesOf typeFilter =
     (case truthy typeFilter of
        None \<Rightarrow> NOTIFICATION_ACTIVITY_TYPES
      | Some t \<Rightarrow>
          (if t = ''follow'' then [''Follow''] else if t = ''like'' then [''Like''] else if t = ''announce'' then [''Announce'']
           else if t = ''reply'' \<or> t = ''mention'' then [''Create''] else NOTIFICATION_ACTIVITY_TYPES))"

text \<open>\<open>objects.inReplyTo IS (NOT) NULL\<close> of the joined object.\<close>

definition replyCondition :: "string option \<Rightarrow> object_row option \<Rightarrow> bool" where
  "replyCondition typeFilter obj =
     (let reply = (case obj of None \<Rightarrow> False | Some ob \<Rightarrow> ob_inReplyTo ob \<noteq> None)
      in if typeFilter = Some ''reply'' then reply else if typeFilter = Some ''mention'' then \<not> reply else True)"

definition rowKey :: "notif_row \<Rightarrow> string \<times> string" where
  "rowKey row = (ix_createdAt (fst row), ix_activity (fst row))"

definition listRows :: "'z notif_db_scheme \<Rightarrow> string \<Rightarrow> string option \<Rightarrow> bool \<Rightarrow> string option \<Rightarrow> notif_row list" where
  "listRows db actor typeFilter showArchived before =
     rev (sort_key rowKey
       (filter (\<lambda>row. replyCondition typeFilter (snd (snd row)) \<and>
           (case truthy before of None \<Rightarrow> True | Some b \<Rightarrow> notifCursorPredicate (decodeNotifCursor b) (fst row)))
         (eligibleRows db actor DirectExclude showArchived (activityTypesOf typeFilter))))"

text \<open>
  \<open>parseInt(s, 10)\<close>, \<open>None\<close> when it is not finite, and the limit of a page. A value that
  rounds to infinity as a double is not finite.
\<close>

definition parseInt10 :: "string \<Rightarrow> int option" where
  "parseInt10 s =
     (let t = dropWhile isSpace s;
          neg = startsWith t ''-'';
          ds = takeWhile isDigit (if neg \<or> startsWith t ''+'' then drop 1 t else t);
          n = decimalVal ds
      in if ds = [] \<or> 2 ^ 1024 - 2 ^ 970 \<le> n then None else Some (if neg then - n else n))"

definition parseLimit :: "string option \<Rightarrow> nat \<Rightarrow> nat \<Rightarrow> nat" where
  "parseLimit value fallback m =
     (case parseInt10 (case value of None \<Rightarrow> '''' | Some s \<Rightarrow> s) of
        None \<Rightarrow> fallback
      | Some n \<Rightarrow> nat (min (max n 1) (int m)))"

text \<open>The content gate of a page: the objects whose body its viewer may see.\<close>

definition pageObjects :: "'z notif_db_scheme \<Rightarrow> notif_row list \<Rightarrow> object_row list" where
  "pageObjects db entries =
     (let ids = dedupe (List.map_filter (\<lambda>row. av_object (fst (snd row))) entries)
      in filter (\<lambda>o'. ob_apId o' \<in> set ids) (so_objects db))"

definition followedAuthors :: "'z notif_db_scheme \<Rightarrow> string \<Rightarrow> object_row list \<Rightarrow> string list" where
  "followedAuthors db actor objs =
     (let authors = dedupe (map ob_attributedTo (filter (\<lambda>o'. ob_attributedTo o' \<noteq> actor \<and>
            (ob_type o' = ''Story'' \<and> truthy (ob_community o') = None \<or> ob_type o' \<noteq> ''Story'' \<and> ob_visibility o' = ''followers'')) objs))
      in dedupe (map fw_followingApId
           (filter (\<lambda>f. fw_followerApId f = actor \<and> fw_followingApId f \<in> set authors \<and> fw_status f = ''accepted'') (so_follows db))))"

definition projectedRecipientIds :: "'z notif_db_scheme \<Rightarrow> string \<Rightarrow> object_row list \<Rightarrow> string list" where
  "projectedRecipientIds db actor objs =
     (let candidates = map ob_apId (filter (\<lambda>o'. ob_attributedTo o' \<noteq> actor \<and>
            (ob_visibility o' = ''followers'' \<or> ob_visibility o' = ''direct'')) objs)
      in dedupe (map rp_object
           (filter (\<lambda>r. rp_recipient r = actor \<and> rp_type r = ''to'' \<and> rp_object r \<in> set candidates) (so_recipients db))))"

definition readableObjectIds :: "'z notif_db_scheme \<Rightarrow> string \<Rightarrow> string \<Rightarrow> object_row list \<Rightarrow> string set" where
  "readableObjectIds db actor now objs =
     (let visible = filter (\<lambda>o'. passesPostVisibilitySync (gateObjectOf o') (Some actor)
            (\<lambda>author. author \<in> set (followedAuthors db actor objs)) (\<lambda>i. i \<in> set (projectedRecipientIds db actor objs)) now) objs
      in communityReadableApIds db (map (\<lambda>o'. (ob_apId o', gateObjectOf o')) visible) (Some actor))"

record notif_item =
  ni_id :: string
  ni_type :: string
  ni_object :: "string option"
  ni_read :: bool
  ni_createdAt :: string
  ni_actor :: string
  ni_content :: string
  ni_target :: "target_kind \<times> string option"

definition followStatusOf :: "'z notif_db_scheme \<Rightarrow> notif_row list \<Rightarrow> string \<Rightarrow> string option" where
  "followStatusOf db entries activity =
     map_of (rev (List.map_filter (\<lambda>f. map_option (\<lambda>i. (i, fw_status f)) (truthy (fw_activityApId f)))
       (filter (\<lambda>f. \<exists>row \<in> set entries. fw_activityApId f = Some (ix_activity (fst row))) (so_follows db)))) activity"

definition notifItem :: "'z notif_db_scheme \<Rightarrow> string set \<Rightarrow> notif_row list \<Rightarrow> notif_row \<Rightarrow> notif_item" where
  "notifItem db readable entries row =
     (case row of (ix, act, obj) \<Rightarrow>
        (let objectData = (case truthy (av_object act) of None \<Rightarrow> None | Some i \<Rightarrow> selectBy ob_apId i (pageObjects db entries));
             inReplyTo = (case objectData of None \<Rightarrow> None | Some ob \<Rightarrow> ob_inReplyTo ob);
             notifType = activityToNotificationType (av_type act) (truthy inReplyTo \<noteq> None) (followStatusOf db entries (ix_activity ix))
         in \<lparr>ni_id = ix_activity ix,
             ni_type = (case notifType of None \<Rightarrow> toLowerCase (av_type act) | Some t \<Rightarrow> t),
             ni_object = av_object act, ni_read = ix_read ix, ni_createdAt = ix_createdAt ix, ni_actor = av_actor act,
             ni_content = (case objectData of None \<Rightarrow> ''''
               | Some ob \<Rightarrow> if ob_apId ob \<in> readable then ob_content ob else ''''),
             ni_target = notificationTarget notifType (av_actor act) (av_object act) (map_option ob_type objectData)\<rparr>))"

text \<open>GET \<open>/\<close>: the items, \<open>has_more\<close> and \<open>next_cursor\<close>, from one row more than the page has.\<close>

definition getNotifications ::
  "'z notif_db_scheme \<Rightarrow> string \<Rightarrow> string \<Rightarrow> string option \<Rightarrow> bool \<Rightarrow> string option \<Rightarrow> string option \<Rightarrow>
   notif_item list \<times> bool \<times> string option" where
  "getNotifications db actor now typeFilter showArchived limitParam before =
     (let limit = parseLimit limitParam 20 90;
          entries = take (limit + 1) (listRows db actor typeFilter showArchived before);
          readable = readableObjectIds db actor now (pageObjects db entries);
          items = map (notifItem db readable entries) entries;
          has_more = limit < length items;
          page = (if has_more then take limit items else items)
      in (page, has_more,
          if has_more \<and> page \<noteq> [] then Some (encodeNotifCursor (ni_createdAt (last page)) (ni_id (last page))) else None))"

text \<open>The handlers of GET \<open>/\<close> and \<open>/unread/count\<close>, which first clean up, and of POST \<open>/archive/all\<close>.\<close>

definition handleList ::
  "ms \<Rightarrow> string \<Rightarrow> string \<Rightarrow> string option \<Rightarrow> bool \<Rightarrow> string option \<Rightarrow> string option \<Rightarrow> string \<Rightarrow>
   cleanup_stamps \<times> 'z notif_db_scheme \<Rightarrow> (notif_item list \<times> bool \<times> string option) \<times> cleanup_stamps \<times> 'z notif_db_scheme" where
  "handleList nowMs retentionDate now typeFilter showArchived limitParam before actor w =
     (let w' = maybeCleanupArchivedNotifications nowMs retentionDate actor w
      in (getNotifications (snd w') actor now typeFilter showArchived limitParam before, w'))"

definition handleUnreadCount ::
  "ms \<Rightarrow> string \<Rightarrow> string \<Rightarrow> cleanup_stamps \<times> 'z notif_db_scheme \<Rightarrow> nat \<times> cleanup_stamps \<times> 'z notif_db_scheme" where
  "handleUnreadCount nowMs retentionDate actor w =
     (let w' = maybeCleanupArchivedNotifications nowMs retentionDate actor w in (notificationUnreadCount (snd w') actor, w'))"

definition handleArchiveAll :: "string \<Rightarrow> string \<Rightarrow> 'z notif_db_scheme \<Rightarrow> nat \<times> 'z notif_db_scheme" where
  "handleArchiveAll now actor db = archiveAllInboxRows db actor now"

subsection \<open>Push events\<close>

datatype product = Yurucommu | Yurume

definition communityTalkMember :: "'z notif_db_scheme \<Rightarrow> string \<Rightarrow> activity_row \<Rightarrow> bool" where
  "communityTalkMember db actor act =
     list_ex (\<lambda>r. Some (rp_object r) = av_object act \<and> rp_type r = ''audience'' \<and>
       list_ex (\<lambda>m. mb_community m = rp_recipient r \<and> mb_actor m = actor) (so_members db)) (so_recipients db)"

definition loadPushEvent ::
  "'z notif_db_scheme \<Rightarrow> string \<Rightarrow> string \<Rightarrow> product option \<Rightarrow> (activity_row \<times> object_row option) option" where
  "loadPushEvent db actor activity explicitProduct =
     (case explicitProduct of
        Some p \<Rightarrow>
          (case filter (\<lambda>act. av_apId act = activity \<and> av_actor act \<noteq> actor \<and> av_type act \<in> set NOTIFICATION_ACTIVITY_TYPES \<and>
              communityTalkMember db actor act \<and> excludeModeratedActors db actor (av_actor act)) (so_activities db) of
             [] \<Rightarrow> None
           | act # acts \<Rightarrow> Some (act, objectOf db act))
      | None \<Rightarrow>
          (case filter (\<lambda>row. ix_activity (fst row) = activity)
              (eligibleRows db actor DirectUnlessArchived False NOTIFICATION_ACTIVITY_TYPES) of
             [] \<Rightarrow> None
           | row # rows \<Rightarrow> Some (snd row)))"

definition unreadCountForProduct :: "'z notif_db_scheme \<Rightarrow> string \<Rightarrow> product \<Rightarrow> nat" where
  "unreadCountForProduct db actor p =
     (case p of Yurume \<Rightarrow> snd (snd (yurumeUnreadCounts db actor)) | Yurucommu \<Rightarrow> notificationUnreadCount db actor)"

subsection \<open>Reading everything\<close>

text \<open>What the joins and the eligibility see of the inbox does not depend on the read flags.\<close>

lemma read_flags_invisible [simp]:
  "objectOf (db\<lparr>nd_inbox := b\<rparr>) = objectOf db"
  "notificationEligibilityWhere (db\<lparr>nd_inbox := b\<rparr>) = notificationEligibilityWhere db"
  "notificationEligibilityWhere db' actor direct onlyArchived types (ix\<lparr>ix_read := r\<rparr>, act, obj) =
     notificationEligibilityWhere db' actor direct onlyArchived types (ix, act, obj)"
  "yurumeUnreadCounts (db\<lparr>nd_inbox := b\<rparr>) a = yurumeUnreadCounts db a"
  by (auto simp: objectOf_def notificationEligibilityWhere_def peerArchivedSql_def isArchived_def directCondition_def
      excludeBlockedMutedAuthors_def suppressedIds_def yurumeUnreadCounts_def unreadDms_def unreadCommunity_def
      unreadTalkObjectSql_def Let_def fun_eq_iff split: option.splits)

lemma set_joinedRows:
  "(ix, act, obj) \<in> set (joinedRows db) \<longleftrightarrow>
     ix \<in> set (nd_inbox db) \<and> selectBy av_apId (ix_activity ix) (so_activities db) = Some act \<and> obj = objectOf db act"
  by (auto simp: joinedRows_def set_map_filter)

lemma set_eligibleRows:
  "(ix, act, obj) \<in> set (eligibleRows db actor direct onlyArchived types) \<longleftrightarrow>
     (ix, act, obj) \<in> set (joinedRows db) \<and> ix_actor ix = actor \<and>
     notificationEligibilityWhere db actor direct onlyArchived types (ix, act, obj)"
  by (auto simp: eligibleRows_def)

lemma mem_updateWhere: "x \<in> set (updateWhere P f rows) \<longleftrightarrow> (\<exists>r \<in> set rows. x = (if P r then f r else r))"
  by (auto simp: updateWhere_def)

abbreviation unreadEligible :: "'z notif_db_scheme \<Rightarrow> string \<Rightarrow> string set" where
  "unreadEligible db actor \<equiv>
     (\<lambda>row. ix_activity (fst row)) `
       {row \<in> set (eligibleRows db actor DirectExclude False NOTIFICATION_ACTIVITY_TYPES). \<not> ix_read (fst row)}"

lemma markAll_inbox:
  "markAllEligibleNotificationsRead db actor =
     db\<lparr>nd_inbox := updateWhere (\<lambda>ix. ix_actor ix = actor \<and> \<not> ix_read ix \<and> ix_activity ix \<in> unreadEligible db actor)
          (\<lambda>ix. ix\<lparr>ix_read := True\<rparr>) (nd_inbox db)\<rparr>"
  by (simp add: markAllEligibleNotificationsRead_def Let_def image_image)

lemma markAll_unread:
  "\<forall>row \<in> set (eligibleRows (markAllEligibleNotificationsRead db actor) actor DirectExclude False NOTIFICATION_ACTIVITY_TYPES).
     ix_read (fst row)"
proof (intro ballI, rule ccontr)
  let ?db = "markAllEligibleNotificationsRead db actor"
  fix row
  assume row: "row \<in> set (eligibleRows ?db actor DirectExclude False NOTIFICATION_ACTIVITY_TYPES)" and "\<not> ix_read (fst row)"
  obtain ix act obj where split: "row = (ix, act, obj)" by (cases row)
  have unread: "\<not> ix_read ix" using \<open>\<not> ix_read (fst row)\<close> split by simp
  have ix: "ix \<in> set (nd_inbox ?db)" and own: "ix_actor ix = actor"
    and act: "selectBy av_apId (ix_activity ix) (so_activities db) = Some act" "obj = objectOf db act"
    and elig: "notificationEligibilityWhere db actor DirectExclude False NOTIFICATION_ACTIVITY_TYPES (ix, act, obj)"
    using row by (auto simp: split set_eligibleRows set_joinedRows markAll_inbox)
  obtain old where old: "old \<in> set (nd_inbox db)"
    "ix = (if ix_actor old = actor \<and> \<not> ix_read old \<and> ix_activity old \<in> unreadEligible db actor then old\<lparr>ix_read := True\<rparr> else old)"
    using ix by (auto simp: markAll_inbox mem_updateWhere)
  have same: "ix = old" "ix_activity old \<notin> unreadEligible db actor" using old(2) unread own by (auto split: if_splits)
  have "(old, act, obj) \<in> set (eligibleRows db actor DirectExclude False NOTIFICATION_ACTIVITY_TYPES)"
    using old(1) own act elig same(1) by (simp add: set_eligibleRows set_joinedRows)
  then show False using same unread by force
qed

text \<open>
  Reading all clears exactly the badge. Afterwards the unread count is zero; only read flags
  changed, and only from unread to read; a row of another member, an archived one and a direct
  message keep theirs; the two talk badges are unchanged.
\<close>

theorem read_all_clears_badge:
  "(let db' = snd (postRead db actor (JObj [(''read_all'', JBool True)])) in
     notificationUnreadCount db' actor = 0 \<and>
     map (ix_read_update (\<lambda>_. False)) (nd_inbox db') = map (ix_read_update (\<lambda>_. False)) (nd_inbox db) \<and>
     list_all2 (\<lambda>old new. ix_read old \<longrightarrow> ix_read new) (nd_inbox db) (nd_inbox db') \<and>
     list_all2 (\<lambda>old new. new = old \<or> ix_actor old = actor \<and>
         \<not> isArchived db actor (ix_activity old) \<and>
         (\<forall>act ob. selectBy av_apId (ix_activity old) (so_activities db) = Some act \<and> objectOf db act = Some ob \<longrightarrow>
            ob_visibility ob \<noteq> ''direct''))
       (nd_inbox db) (nd_inbox db') \<and>
     yurumeUnreadCounts db' someone = yurumeUnreadCounts db someone)"
proof -
  have db': "snd (postRead db actor (JObj [(''read_all'', JBool True)])) = markAllEligibleNotificationsRead db actor"
    by (simp add: postRead_def hasOwn_def)
  have count: "notificationUnreadCount (markAllEligibleNotificationsRead db actor) actor = 0"
    using markAll_unread [of db actor] by (simp add: notificationUnreadCount_def filter_empty_conv)
  have elig: "\<not> isArchived db actor (ix_activity ix) \<and>
      (\<forall>act ob. selectBy av_apId (ix_activity ix) (so_activities db) = Some act \<and> objectOf db act = Some ob \<longrightarrow> ob_visibility ob \<noteq> ''direct'')"
    if "ix_activity ix \<in> unreadEligible db actor" for ix
    using that by (auto simp: set_eligibleRows set_joinedRows notificationEligibilityWhere_def directCondition_def)
  show ?thesis unfolding db' Let_def
    using count elig by (auto simp: markAll_inbox updateWhere_def list_all2_conv_all_nth)
qed

subsection \<open>Walking the pages\<close>

lemma cursor_roundtrip [simp]:
  "NUL \<notin> set createdAt \<Longrightarrow> decodeNotifCursor (encodeNotifCursor createdAt activity) = (createdAt, Some activity)"
proof -
  assume a: "NUL \<notin> set createdAt"
  have "takeWhile (\<lambda>c. c \<noteq> NUL) (createdAt @ NUL # activity) = createdAt"
    "dropWhile (\<lambda>c. c \<noteq> NUL) (createdAt @ NUL # activity) = NUL # activity"
    using a by (induction createdAt) auto
  then show ?thesis by (simp add: decodeNotifCursor_def encodeNotifCursor_def)
qed

lemma cursor_after: "NUL \<notin> set createdAt \<Longrightarrow>
    notifCursorPredicate (decodeNotifCursor (encodeNotifCursor createdAt activity)) (fst row) \<longleftrightarrow> rowKey row < (createdAt, activity)"
  by (auto simp: notifCursorPredicate_def rowKey_def less_prod_def order_le_less)

lemma listRows_after:
  assumes "NUL \<notin> set createdAt"
  shows "listRows db actor typeFilter showArchived (Some (encodeNotifCursor createdAt activity)) =
    filter (\<lambda>row. rowKey row < (createdAt, activity)) (listRows db actor typeFilter showArchived None)"
proof -
  have "truthy (Some (encodeNotifCursor createdAt activity)) = Some (encodeNotifCursor createdAt activity)"
    by (simp add: truthy_def encodeNotifCursor_def)
  then show ?thesis
    by (simp add: listRows_def cursor_after [OF assms] rev_filter [symmetric] filter_sort truthy_def conj_ac)
qed

lemma set_listRows:
  "set (listRows db actor typeFilter showArchived None) =
     {row \<in> set (eligibleRows db actor DirectExclude showArchived (activityTypesOf typeFilter)). replyCondition typeFilter (snd (snd row))}"
  by (auto simp: listRows_def truthy_def)

text \<open>The primary key of the inbox makes the order of a member's list strict.\<close>

lemma distinct_mapfilter: "distinct (map g xs) \<Longrightarrow> (\<And>x y. f x = Some y \<Longrightarrow> h y = g x) \<Longrightarrow> distinct (map h (List.map_filter f xs))"
proof (induction xs)
  case (Cons x xs)
  have "h ` set (List.map_filter f xs) \<subseteq> g ` set xs" using Cons.prems(2) by (force simp: set_map_filter)
  then show ?case using Cons by (cases "f x") (auto simp: List.map_filter_simps)
qed (simp add: List.map_filter_simps)

abbreviation inboxKey :: "inbox_row \<Rightarrow> string \<times> string" where
  "inboxKey ix \<equiv> (ix_actor ix, ix_activity ix)"

lemma distinct_eligible:
  assumes "keysUnique inboxKey (nd_inbox db)"
  shows "distinct (map (\<lambda>row. ix_activity (fst row)) (eligibleRows db actor direct onlyArchived types))"
proof -
  have "distinct (map (\<lambda>row. inboxKey (fst row)) (joinedRows db))" unfolding joinedRows_def
    by (rule distinct_mapfilter [OF assms [unfolded keysUnique_def]]) auto
  then have "distinct (map (\<lambda>row. inboxKey (fst row)) (eligibleRows db actor direct onlyArchived types))"
    unfolding eligibleRows_def by (rule distinct_map_filter)
  then show ?thesis by (auto simp: distinct_map inj_on_def eligibleRows_def)
qed

lemma sorted_desc:
  "distinct (map k rows) \<Longrightarrow> sorted_wrt (\<lambda>a b. k b < k a) (rev (sort_key (k :: _ \<Rightarrow> 'k :: linorder) rows))"
proof -
  assume "distinct (map k rows)"
  then have "distinct (map k (sort_key k rows))" by (simp add: distinct_map inj_on_def)
  moreover have "sorted (map k (sort_key k rows))" by simp
  ultimately have "sorted_wrt (<) (map k (sort_key k rows))" by (simp add: strict_sorted_iff)
  then show ?thesis by (simp add: sorted_wrt_map sorted_wrt_rev)
qed

lemma listRows_sorted:
  assumes "keysUnique inboxKey (nd_inbox db)"
  shows "sorted_wrt (\<lambda>a b. rowKey b < rowKey a) (listRows db actor typeFilter showArchived before)"
proof -
  have "distinct (map rowKey (filter P (eligibleRows db actor direct showArchived types)))" for P direct types
    using distinct_eligible [OF assms, of actor direct showArchived types]
    by (auto simp: distinct_map inj_on_def rowKey_def)
  then show ?thesis unfolding listRows_def by (rule sorted_desc)
qed

text \<open>What lies after the last row of a page is the rest of the list.\<close>

lemma filter_after_last:
  assumes "sorted_wrt (\<lambda>a b. k b < k a) rows" and "0 < n" "n < length rows"
  shows "filter (\<lambda>r. (k r :: 'k :: linorder) < k (last (take n rows))) rows = drop n rows"
proof -
  have s: "sorted_wrt (\<lambda>a b. k b < k a) (take n rows @ drop n rows)" using assms(1) by simp
  obtain xs x where split: "take n rows = xs @ [x]" using assms(2,3) by (cases "take n rows" rule: rev_cases) auto
  have "filter (\<lambda>r. k r < k x) (take n rows) = []" "filter (\<lambda>r. k r < k x) (drop n rows) = drop n rows"
    using s unfolding split sorted_wrt_append by (auto simp: filter_empty_conv filter_id_conv)
  then have "filter (\<lambda>r. k r < k x) (take n rows @ drop n rows) = drop n rows" unfolding filter_append by simp
  then have "filter (\<lambda>r. k r < k x) rows = drop n rows" unfolding append_take_drop_id .
  then show ?thesis by (simp add: split)
qed

lemma notifItem_key: "ni_id (notifItem db readable entries row) = ix_activity (fst row)"
  "ni_createdAt (notifItem db readable entries row) = ix_createdAt (fst row)"
  by (auto simp: notifItem_def Let_def split: prod.splits)

lemma parseLimit_pos: "0 < fallback \<Longrightarrow> 0 < m \<Longrightarrow> 0 < parseLimit v fallback m"
  by (auto simp: parseLimit_def split: option.splits)

text \<open>A client that follows \<open>next_cursor\<close>; at most \<open>n\<close> requests.\<close>

fun walkPages :: "nat \<Rightarrow> 'z notif_db_scheme \<Rightarrow> string \<Rightarrow> string \<Rightarrow> string option \<Rightarrow> bool \<Rightarrow> string option \<Rightarrow> string option \<Rightarrow> string list \<times> bool" where
  "walkPages 0 db actor now typeFilter showArchived limitParam before = ([], False)"
| "walkPages (Suc n) db actor now typeFilter showArchived limitParam before =
     (case getNotifications db actor now typeFilter showArchived limitParam before of
        (page, has_more, cursor) \<Rightarrow>
          (case cursor of
             None \<Rightarrow> (map ni_id page, True)
           | Some c \<Rightarrow>
               (case walkPages n db actor now typeFilter showArchived limitParam (Some c) of
                  (ids, finished) \<Rightarrow> (map ni_id page @ ids, finished))))"

lemma page_step:
  fixes limitParam :: "string option"
  assumes L: "L = listRows db actor typeFilter showArchived before"
    and limit: "limit = parseLimit limitParam 20 90"
  shows "map ni_id (fst (getNotifications db actor now typeFilter showArchived limitParam before)) = map (\<lambda>row. ix_activity (fst row)) (take limit L)"
    and "snd (snd (getNotifications db actor now typeFilter showArchived limitParam before)) =
      (if limit < length L then Some (encodeNotifCursor (fst (rowKey (last (take limit L)))) (snd (rowKey (last (take limit L))))) else None)"
proof -
  have pos: "0 < limit" unfolding limit by (simp add: parseLimit_pos)
  show "map ni_id (fst (getNotifications db actor now typeFilter showArchived limitParam before)) = map (\<lambda>row. ix_activity (fst row)) (take limit L)"
    by (auto simp: getNotifications_def Let_def limit [symmetric] L [symmetric] notifItem_key take_map)
  have "take limit (take (limit + 1) L) = take limit L" by simp
  moreover have "take limit L \<noteq> []" if "limit < length L" using that pos by auto
  ultimately show "snd (snd (getNotifications db actor now typeFilter showArchived limitParam before)) =
      (if limit < length L then Some (encodeNotifCursor (fst (rowKey (last (take limit L)))) (snd (rowKey (last (take limit L))))) else None)"
    by (auto simp: getNotifications_def Let_def limit [symmetric] L [symmetric] notifItem_key take_map last_map rowKey_def)
qed

lemma walk_rest:
  assumes keys: "keysUnique inboxKey (nd_inbox db)" and noNul: "\<forall>ix \<in> set (nd_inbox db). NUL \<notin> set (ix_createdAt ix)"
  shows "listRows db actor typeFilter showArchived before = L \<Longrightarrow> set L \<subseteq> set (listRows db actor typeFilter showArchived None) \<Longrightarrow>
    (\<And>k. (\<exists>row \<in> set L. rowKey row = k) \<Longrightarrow> filter (\<lambda>r. rowKey r < k) (listRows db actor typeFilter showArchived None) = filter (\<lambda>r. rowKey r < k) L) \<Longrightarrow>
    length L < n \<Longrightarrow>
    walkPages n db actor now typeFilter showArchived limitParam before = (map (\<lambda>row. ix_activity (fst row)) L, True)"
proof (induction n arbitrary: before L)
  case (Suc n)
  define limit where "limit = parseLimit limitParam 20 90"
  let ?all = "listRows db actor typeFilter showArchived None"
  note step = page_step [OF Suc.prems(1) [symmetric] limit_def, of now]
  obtain page more cursor where got: "getNotifications db actor now typeFilter showArchived limitParam before = (page, more, cursor)"
    by (metis prod_cases3)
  have pos: "0 < limit" by (simp add: limit_def parseLimit_pos)
  show ?case
  proof (cases "limit < length L")
    case False
    then show ?thesis using step got by simp
  next
    case True
    let ?last = "last (take limit L)"
    let ?k = "rowKey ?last"
    let ?c = "encodeNotifCursor (fst ?k) (snd ?k)"
    have sorted: "sorted_wrt (\<lambda>a b. rowKey b < rowKey a) L" using listRows_sorted [OF keys] Suc.prems(1) by metis
    have "take limit L \<noteq> []" using True pos by auto
    then have inL: "?last \<in> set L" by (metis in_set_takeD last_in_set)
    then have "?last \<in> set ?all" using Suc.prems(2) by blast
    then have "fst ?last \<in> set (nd_inbox db)" unfolding set_listRows by (cases ?last) (auto simp: set_eligibleRows set_joinedRows)
    then have nul: "NUL \<notin> set (fst ?k)" using noNul by (simp add: rowKey_def)
    have rest: "listRows db actor typeFilter showArchived (Some ?c) = drop limit L"
      using listRows_after [OF nul, of db actor typeFilter showArchived "snd ?k"] Suc.prems(3) [of ?k] inL
        filter_after_last [OF sorted pos True] by auto
    have "walkPages n db actor now typeFilter showArchived limitParam (Some ?c) = (map (\<lambda>row. ix_activity (fst row)) (drop limit L), True)"
    proof (rule Suc.IH [OF rest])
      show "set (drop limit L) \<subseteq> set ?all" using Suc.prems(2) set_drop_subset by fast
      show "length (drop limit L) < n" using Suc.prems(4) pos True by simp
    next
      fix k
      assume "\<exists>row \<in> set (drop limit L). rowKey row = k"
      then obtain row where row: "row \<in> set (drop limit L)" "rowKey row = k" by blast
      have "sorted_wrt (\<lambda>a b. rowKey b < rowKey a) (take limit L @ drop limit L)" using sorted by simp
      then have "\<forall>r \<in> set (take limit L). k < rowKey r" using row unfolding sorted_wrt_append by blast
      then have "filter (\<lambda>r. rowKey r < k) (take limit L) = []" by (auto simp: filter_empty_conv)
      then have "filter (\<lambda>r. rowKey r < k) (take limit L @ drop limit L) = filter (\<lambda>r. rowKey r < k) (drop limit L)"
        unfolding filter_append by simp
      moreover have "row \<in> set L" using row(1) by (rule in_set_dropD)
      ultimately show "filter (\<lambda>r. rowKey r < k) ?all = filter (\<lambda>r. rowKey r < k) (drop limit L)"
        using Suc.prems(3) row(2) by (metis append_take_drop_id)
    qed
    then have "walkPages (Suc n) db actor now typeFilter showArchived limitParam before =
        (map (\<lambda>row. ix_activity (fst row)) (take limit L) @ map (\<lambda>row. ix_activity (fst row)) (drop limit L), True)"
      using step got True by simp
    then show ?thesis by (metis append_take_drop_id map_append)
  qed
qed simp

text \<open>
  C16: Following the cursor visits every notification once. With the primary key of the inbox and
  timestamps without the separator, a client that follows \<open>next_cursor\<close> ends after at most one
  request per listed row and one more, and has then seen the activity of every row of its list,
  each once, whatever page size it asks for and however many rows share a millisecond.
\<close>

theorem pages_visit_every_row_once:
  assumes "keysUnique inboxKey (nd_inbox db)" and "\<forall>ix \<in> set (nd_inbox db). NUL \<notin> set (ix_createdAt ix)"
    and "length (eligibleRows db actor DirectExclude showArchived (activityTypesOf typeFilter)) < n"
  shows "\<exists>ids. walkPages n db actor now typeFilter showArchived limitParam None = (ids, True) \<and> distinct ids \<and>
    set ids = {ix_activity ix | ix act obj.
      (ix, act, obj) \<in> set (eligibleRows db actor DirectExclude showArchived (activityTypesOf typeFilter)) \<and> replyCondition typeFilter obj}"
proof -
  let ?L = "listRows db actor typeFilter showArchived None"
  have "length ?L \<le> length (eligibleRows db actor DirectExclude showArchived (activityTypesOf typeFilter))"
    by (simp add: listRows_def)
  then have "length ?L < n" using assms(3) by simp
  then have "walkPages n db actor now typeFilter showArchived limitParam None = (map (\<lambda>row. ix_activity (fst row)) ?L, True)"
    by (intro walk_rest [OF assms(1,2) refl]) simp_all
  moreover have "distinct (map (\<lambda>row. ix_activity (fst row)) ?L)"
    using distinct_eligible [OF assms(1), of actor DirectExclude showArchived "activityTypesOf typeFilter"]
    by (auto simp: listRows_def distinct_map inj_on_def)
  moreover have "set (map (\<lambda>row. ix_activity (fst row)) ?L) = {ix_activity ix | ix act obj.
      (ix, act, obj) \<in> set (eligibleRows db actor DirectExclude showArchived (activityTypesOf typeFilter)) \<and> replyCondition typeFilter obj}"
    unfolding set_map set_listRows by (force simp: image_iff)
  ultimately show ?thesis by blast
qed

subsection \<open>The body of a listed object\<close>

lemma page_visibility:
  assumes "ob \<in> set objs" "actor \<noteq> []"
  shows "passesPostVisibilitySync (gateObjectOf ob) (Some actor) (\<lambda>author. author \<in> set (followedAuthors db actor objs))
      (\<lambda>i. i \<in> set (projectedRecipientIds db actor objs)) now =
    passesPostVisibilitySync (gateObjectOf ob) (Some actor) (hasAcceptedFollow db actor) (\<lambda>i. hasProjectedRecipient db i actor) now"
proof -
  have viewer: "truthy (Some actor) = Some actor" using assms(2) by (simp add: truthy_def)
  have follow: "ob_attributedTo ob \<in> set (followedAuthors db actor objs) \<longleftrightarrow> hasAcceptedFollow db actor (ob_attributedTo ob)"
    if "ob_attributedTo ob \<noteq> actor" "ob_type ob = ''Story'' \<and> truthy (ob_community ob) = None \<or> ob_type ob \<noteq> ''Story'' \<and> ob_visibility ob = ''followers''"
    using that assms(1) unfolding followedAuthors_def hasAcceptedFollow_def Let_def list_ex_iff
    by (auto simp: image_iff intro!: bexI [of _ ob])
  have projected: "ob_apId ob \<in> set (projectedRecipientIds db actor objs) \<longleftrightarrow> hasProjectedRecipient db (ob_apId ob) actor"
    if "ob_attributedTo ob \<noteq> actor" "ob_visibility ob = ''followers'' \<or> ob_visibility ob = ''direct''"
    using that assms(1) unfolding projectedRecipientIds_def hasProjectedRecipient_def Let_def list_ex_iff
    by (auto simp: image_iff)
  have gate: "go_attributedTo (gateObjectOf ob) = ob_attributedTo ob" "go_apId (gateObjectOf ob) = Some (ob_apId ob)"
    "go_type (gateObjectOf ob) = Some (ob_type ob)" "go_visibility (gateObjectOf ob) = ob_visibility ob"
    "go_community (gateObjectOf ob) = ob_community ob"
    by (simp_all add: gateObjectOf_def)
  show ?thesis
    unfolding passesPostVisibilitySync_def viewer gate projectedFor_def
    using follow projected by (auto simp: truthy_def split: option.splits)
qed

lemma readableObjectIds_iff:
  assumes "keysUnique ob_apId objs" "ob \<in> set objs" "actor \<noteq> []"
  shows "ob_apId ob \<in> readableObjectIds db actor now objs \<longleftrightarrow>
    passesPostVisibilitySync (gateObjectOf ob) (Some actor) (hasAcceptedFollow db actor) (\<lambda>i. hasProjectedRecipient db i actor) now \<and>
    canViewerReadObject db (gateObjectOf ob) (Some actor) \<noteq> None"
proof -
  let ?V = "filter (\<lambda>o'. passesPostVisibilitySync (gateObjectOf o') (Some actor)
            (\<lambda>author. author \<in> set (followedAuthors db actor objs)) (\<lambda>i. i \<in> set (projectedRecipientIds db actor objs)) now) objs"
  let ?M = "map (\<lambda>o'. (ob_apId o', gateObjectOf o')) ?V"
  have dist: "distinct (map fst ?M)" using assms(1) by (simp add: keysUnique_def comp_def distinct_map_filter)
  have readable: "readableObjectIds db actor now objs = communityReadableApIds db ?M (Some actor)"
    by (simp add: readableObjectIds_def Let_def)
  show ?thesis
  proof (cases "ob \<in> set ?V")
    case True
    then have "(ob_apId ob, gateObjectOf ob) \<in> set ?M" by auto
    then show ?thesis unfolding canViewerReadObject_iff readable
      using batched_gate [OF dist, of "ob_apId ob" "gateObjectOf ob" db "Some actor"] True page_visibility [OF assms(2,3), of db now]
      by simp
  next
    case False
    have "fst ` set ?M \<subseteq> ob_apId ` set ?V" by auto
    moreover have "ob_apId ob \<notin> ob_apId ` set ?V"
      using False assms(1,2) by (auto simp: keysUnique_def distinct_map inj_on_def)
    moreover have "communityReadableApIds db ?M (Some actor) \<subseteq> fst ` set ?M"
      unfolding communityReadableApIds_def Let_def by (auto simp del: set_map)
    ultimately have "ob_apId ob \<notin> readableObjectIds db actor now objs" using readable by blast
    then show ?thesis using False page_visibility [OF assms(2,3), of db now] assms(2) by auto
  qed
qed

lemma set_pageObjects: "ob \<in> set (pageObjects db entries) \<longleftrightarrow>
    ob \<in> set (so_objects db) \<and> (\<exists>row \<in> set entries. av_object (fst (snd row)) = Some (ob_apId ob))"
  by (auto simp: pageObjects_def Let_def set_map_filter image_iff)

lemma keysUnique_pageObjects: "keysUnique ob_apId (so_objects db) \<Longrightarrow> keysUnique ob_apId (pageObjects db entries)"
  by (simp add: pageObjects_def Let_def keysUnique_def distinct_map_filter)

text \<open>
  C15: A notification shows the body of its object exactly when its reader may read it. For every
  item of every page, if the activity's object is known, its body is shown when the community
  gate admits the reader and the shared visibility rule does, with the follows and the private
  addressing as they are in the database; otherwise, and when the object is unknown, the body is
  empty, although the notification itself is listed.
\<close>

theorem listed_body_is_gated:
  assumes item: "item \<in> set (fst (getNotifications db actor now typeFilter showArchived limitParam before))"
    and keys: "keysUnique ob_apId (so_objects db)" and actor: "actor \<noteq> []"
  shows "case ni_object item of
      None \<Rightarrow> ni_content item = ''''
    | Some i \<Rightarrow>
       (case selectBy ob_apId i (so_objects db) of
          None \<Rightarrow> ni_content item = ''''
        | Some ob \<Rightarrow> ni_content item =
            (if i \<noteq> [] \<and> passesPostVisibilitySync (gateObjectOf ob) (Some actor) (hasAcceptedFollow db actor)
                  (\<lambda>j. hasProjectedRecipient db j actor) now \<and>
                canViewerReadObject db (gateObjectOf ob) (Some actor) \<noteq> None
             then ob_content ob else ''''))"
proof -
  define entries where "entries = take (parseLimit limitParam 20 90 + 1) (listRows db actor typeFilter showArchived before)"
  define readable where "readable = readableObjectIds db actor now (pageObjects db entries)"
  have "fst (getNotifications db actor now typeFilter showArchived limitParam before) =
      (let items = map (notifItem db readable entries) entries
       in if parseLimit limitParam 20 90 < length items then take (parseLimit limitParam 20 90) items else items)"
    by (simp add: getNotifications_def Let_def entries_def readable_def)
  then have "set (fst (getNotifications db actor now typeFilter showArchived limitParam before)) \<subseteq> notifItem db readable entries ` set entries"
    by (auto simp: Let_def take_map dest!: in_set_takeD split: if_splits)
  then obtain row where row: "row \<in> set entries" "item = notifItem db readable entries row" using item by blast
  obtain ix act obj where split: "row = (ix, act, obj)" by (cases row)
  have object: "ni_object item = av_object act" by (simp add: row(2) split notifItem_def Let_def)
  have content: "ni_content item = (case (case truthy (av_object act) of None \<Rightarrow> None | Some i \<Rightarrow> selectBy ob_apId i (pageObjects db entries)) of
      None \<Rightarrow> '''' | Some ob \<Rightarrow> if ob_apId ob \<in> readable then ob_content ob else '''')"
    by (simp add: row(2) split notifItem_def Let_def)
  show ?thesis
  proof (cases "av_object act")
    case None
    then show ?thesis using object content by (simp add: truthy_def)
  next
    case (Some i)
    have lookup: "selectBy ob_apId i (pageObjects db entries) = selectBy ob_apId i (so_objects db)"
    proof (cases "selectBy ob_apId i (so_objects db)")
      case None
      then have "i \<notin> ob_apId ` set (so_objects db)" by (simp add: selectBy_None_iff keySet_def)
      then have "selectBy ob_apId i (pageObjects db entries) = None"
        unfolding selectBy_None_iff keySet_def by (auto simp: set_pageObjects)
      then show ?thesis using None by simp
    next
      case (Some ob)
      then have ob: "ob \<in> set (pageObjects db entries)" "ob_apId ob = i"
        using selectBy_SomeD [OF Some] row(1) \<open>av_object act = Some i\<close> split by (auto simp: set_pageObjects intro: bexI [of _ row])
      then show ?thesis using selectBy_mem [OF keysUnique_pageObjects [OF keys] ob(1)] Some by simp
    qed
    show ?thesis
    proof (cases "selectBy ob_apId i (so_objects db)")
      case None
      then show ?thesis using object content Some lookup by (simp add: truthy_def)
    next
      case (Some ob)
      then have ob: "ob \<in> set (pageObjects db entries)" "ob_apId ob = i" using selectBy_SomeD lookup by metis+
      show ?thesis
        using content object \<open>av_object act = Some i\<close> Some lookup readableObjectIds_iff [OF keysUnique_pageObjects [OF keys] ob(1) actor, of db now] ob(2)
        by (auto simp: truthy_def readable_def)
    qed
  qed
qed

subsection \<open>What a push announces\<close>

text \<open>The first row of a query.\<close>

lemma first_row: "(case filter P xs of [] \<Rightarrow> None | x # rest \<Rightarrow> Some (f x)) = Some y \<Longrightarrow> \<exists>x \<in> set xs. P x \<and> f x = y"
  by (induction xs) (auto split: if_splits)

lemma only_row: "x \<in> set xs \<Longrightarrow> P x \<Longrightarrow> (\<And>z. z \<in> set xs \<Longrightarrow> P z \<Longrightarrow> z = x) \<Longrightarrow>
    (case filter P xs of [] \<Rightarrow> None | x # rest \<Rightarrow> Some (f x)) = Some (f x)"
proof -
  assume x: "x \<in> set xs" "P x" and only: "\<And>z. z \<in> set xs \<Longrightarrow> P z \<Longrightarrow> z = x"
  have "x \<in> set (filter P xs)" using x by simp
  then obtain z zs where z: "filter P xs = z # zs" by (cases "filter P xs") simp_all
  then have "z \<in> set (filter P xs)" by simp
  then have "z = x" by (intro only) simp_all
  then show ?thesis using z by simp
qed


subsection \<open>Archiving\<close>

definition archivedFor :: "string \<Rightarrow> string list \<Rightarrow> (string \<times> string \<times> string) list \<Rightarrow> bool" where
  "archivedFor actor ids rows = list_all (\<lambda>(a, i, t). a = actor \<and> i \<in> set ids) rows"

lemma insertManyIgnore_suffix: "\<exists>added. insertManyIgnore key rs rows = rows @ added \<and> set added \<subseteq> set rs"
proof (induction rs arbitrary: rows)
  case (Cons r rs)
  from Cons [of "insertOrIgnore key r rows"] obtain added where
    a: "insertManyIgnore key rs (insertOrIgnore key r rows) = insertOrIgnore key r rows @ added" "set added \<subseteq> set rs" by blast
  show ?case
  proof (cases "key r \<in> key ` set rows")
    case True
    then show ?thesis using a by (auto simp: insertOrIgnore_def)
  next
    case False
    then have "insertManyIgnore key (r # rs) rows = rows @ (r # added)" using a(1) by (simp add: insertOrIgnore_def)
    then show ?thesis using a(2) by (metis insert_mono list.set(2))
  qed
qed simp

lemma archiveRows_effect:
  "\<exists>added. snd (archiveRows db actor t chosen) = db\<lparr>nd_archived := nd_archived db @ added\<rparr> \<and>
     (\<forall>(a, i, u) \<in> set added. a = actor \<and> (\<exists>ix \<in> set (nd_inbox db). ix_actor ix = actor \<and> ix_activity ix = i \<and> chosen ix)) \<and>
     (\<forall>ix \<in> set (nd_inbox db). ix_actor ix = actor \<and> chosen ix \<longrightarrow> isArchived (snd (archiveRows db actor t chosen)) actor (ix_activity ix))"
proof -
  let ?rs = "map (\<lambda>ix. (actor, ix_activity ix, t)) (filter (\<lambda>ix. ix_actor ix = actor \<and> chosen ix) (nd_inbox db))"
  obtain added where a: "insertManyIgnore archiveKey ?rs (nd_archived db) = nd_archived db @ added" "set added \<subseteq> set ?rs"
    using insertManyIgnore_suffix [of archiveKey ?rs "nd_archived db"] by blast
  have res: "snd (archiveRows db actor t chosen) = db\<lparr>nd_archived := nd_archived db @ added\<rparr>"
    using a(1) by (simp add: archiveRows_def)
  have "isArchived (snd (archiveRows db actor t chosen)) actor (ix_activity ix)"
    if "ix \<in> set (nd_inbox db)" "ix_actor ix = actor" "chosen ix" for ix
  proof -
    have "(actor, ix_activity ix) \<in> keySet archiveKey (insertManyIgnore archiveKey ?rs (nd_archived db))"
      unfolding keySet_insertManyIgnore using that by (force simp: keySet_def archiveKey_def image_iff)
    then have "(actor, ix_activity ix) \<in> archiveKey ` set (nd_archived db @ added)" unfolding a(1) keySet_def .
    then show ?thesis unfolding res by (auto simp: isArchived_def list_ex_iff archiveKey_def image_iff Bex_def)
  qed
  then show ?thesis using res a(2) by (intro exI [of _ added]) auto
qed

lemma archiveBatches_effect:
  "\<exists>added. snd (archiveBatches batches actor t (n, db)) = db\<lparr>nd_archived := nd_archived db @ added\<rparr> \<and>
     archivedFor actor (concat batches) added \<and>
     (\<forall>ix \<in> set (nd_inbox db). ix_actor ix = actor \<and> ix_activity ix \<in> set (concat batches) \<longrightarrow>
        isArchived (snd (archiveBatches batches actor t (n, db))) actor (ix_activity ix))"
proof (induction batches arbitrary: n db)
  case Nil
  show ?case by (rule exI [of _ "[]"]) (simp add: archivedFor_def)
next
  case (Cons batch batches)
  let ?chosen = "\<lambda>ix. ix_activity ix \<in> set batch"
  obtain added1 where raw: "snd (archiveRows db actor t ?chosen) = db\<lparr>nd_archived := nd_archived db @ added1\<rparr>"
    "\<forall>(a, i, u) \<in> set added1. a = actor \<and> (\<exists>ix \<in> set (nd_inbox db). ix_actor ix = actor \<and> ix_activity ix = i \<and> ?chosen ix)"
    "\<forall>ix \<in> set (nd_inbox db). ix_actor ix = actor \<and> ?chosen ix \<longrightarrow> isArchived (snd (archiveRows db actor t ?chosen)) actor (ix_activity ix)"
    using archiveRows_effect [of db actor t ?chosen] by blast
  note a1 = raw(1)
  have batch: "\<forall>(a, i, u) \<in> set added1. a = actor \<and> i \<in> set batch" using raw(2) by auto
  let ?db1 = "db\<lparr>nd_archived := nd_archived db @ added1\<rparr>"
  obtain k where k: "archiveRows db actor t ?chosen = (k, ?db1)" using a1 by (metis prod.collapse)
  obtain added2 where a2: "snd (archiveBatches batches actor t (n + k, ?db1)) = ?db1\<lparr>nd_archived := nd_archived ?db1 @ added2\<rparr>"
    "archivedFor actor (concat batches) added2"
    "\<forall>ix \<in> set (nd_inbox ?db1). ix_actor ix = actor \<and> ix_activity ix \<in> set (concat batches) \<longrightarrow>
        isArchived (snd (archiveBatches batches actor t (n + k, ?db1))) actor (ix_activity ix)"
    using Cons [of "n + k" ?db1] by blast
  have res: "snd (archiveBatches (batch # batches) actor t (n, db)) = db\<lparr>nd_archived := nd_archived db @ (added1 @ added2)\<rparr>"
    using a2(1) k by simp
  have "archivedFor actor (concat (batch # batches)) (added1 @ added2)"
    using batch a2(2) by (auto simp: archivedFor_def list_all_iff)
  moreover have "isArchived (db\<lparr>nd_archived := nd_archived db @ (added1 @ added2)\<rparr>) actor (ix_activity ix)"
    if "ix \<in> set (nd_inbox db)" "ix_actor ix = actor" "ix_activity ix \<in> set (concat (batch # batches))" for ix
    using that raw(3) a2(3) a2(1) a1 k by (auto simp: isArchived_def)
  ultimately show ?case using res by (intro exI [of _ "added1 @ added2"]) auto
qed

lemma batchArchive_effect:
  "\<exists>added. snd (batchArchiveInsert db actor ids t) = db\<lparr>nd_archived := nd_archived db @ added\<rparr> \<and> archivedFor actor ids added \<and>
     (\<forall>ix \<in> set (nd_inbox db). ix_actor ix = actor \<and> ix_activity ix \<in> set ids \<longrightarrow>
        isArchived (snd (batchArchiveInsert db actor ids t)) actor (ix_activity ix))"
  using archiveBatches_effect [of "chunksOf ARCHIVE_CREATE_BATCH_SIZE ids" actor t 0 db]
  by (simp add: batchArchiveInsert_def concat_chunksOf ARCHIVE_CREATE_BATCH_SIZE_def)

lemma archived_objectOf [simp]: "objectOf (db\<lparr>nd_archived := b\<rparr>) = objectOf db"
  by (auto simp: objectOf_def fun_eq_iff split: option.splits)

lemma archived_invisible [simp]:
  "joinedRows (db\<lparr>nd_archived := b\<rparr>) = joinedRows db"
  "directCondition (db\<lparr>nd_archived := b\<rparr>) = directCondition db"
  "excludeBlockedMutedAuthors (db\<lparr>nd_archived := b\<rparr>) = excludeBlockedMutedAuthors db"
  by (auto simp: joinedRows_def peerArchivedSql_def directCondition_def
      excludeBlockedMutedAuthors_def suppressedIds_def fun_eq_iff split: option.splits)

text \<open>
  Archiving and unarchiving is a round trip. For a valid list of ids, none of them archived
  yet, POST and then DELETE on \<open>/archive\<close> both succeed and restore the database exactly;
  in between, the member's list is what it was without those activities, each of them that was
  listed is in the archived list, and the other members' lists are the same.
\<close>

theorem archive_roundtrip:
  assumes body: "isPlainObject body" "parseNotificationIds (field body ''ids'') MAX_BATCH_SIZE = Inr ids"
    and fresh: "\<forall>i \<in> set ids. \<not> isArchived db actor i"
  shows "fst (postArchive db actor now body) = 200 \<and>
    deleteArchive (snd (postArchive db actor now body)) actor body = (200, db) \<and>
    eligibleRows (snd (postArchive db actor now body)) actor direct False types =
      filter (\<lambda>row. ix_activity (fst row) \<notin> set ids) (eligibleRows db actor direct False types) \<and>
    set (eligibleRows (snd (postArchive db actor now body)) actor direct True types) =
      set (eligibleRows db actor direct True types) \<union>
      {row \<in> set (eligibleRows db actor direct False types). ix_activity (fst row) \<in> set ids} \<and>
    (other \<noteq> actor \<longrightarrow>
      eligibleRows (snd (postArchive db actor now body)) other direct archived types = eligibleRows db other direct archived types)"
proof -
  obtain added where add: "snd (batchArchiveInsert db actor ids now) = db\<lparr>nd_archived := nd_archived db @ added\<rparr>"
    "archivedFor actor ids added"
    "\<forall>ix \<in> set (nd_inbox db). ix_actor ix = actor \<and> ix_activity ix \<in> set ids \<longrightarrow>
        isArchived (db\<lparr>nd_archived := nd_archived db @ added\<rparr>) actor (ix_activity ix)"
    using batchArchive_effect [of db actor ids now] by auto
  let ?db1 = "db\<lparr>nd_archived := nd_archived db @ added\<rparr>"
  have post: "postArchive db actor now body = (200, ?db1)" using body add(1) by (simp add: postArchive_def)
  have "filter (\<lambda>r. \<not> (case r of (a, i, t) \<Rightarrow> a = actor \<and> i \<in> set ids)) (nd_archived db) = nd_archived db"
    using fresh by (auto simp: filter_id_conv isArchived_def list_ex_iff)
  moreover have "filter (\<lambda>r. \<not> (case r of (a, i, t) \<Rightarrow> a = actor \<and> i \<in> set ids)) added = []"
    using add(2) by (auto simp: filter_empty_conv archivedFor_def list_all_iff)
  ultimately have delete: "deleteArchive ?db1 actor body = (200, db)"
    using body by (simp add: deleteArchive_def unarchive_def deleteWhere_def)
  have marked: "isArchived ?db1 a (ix_activity ix) = (isArchived db a (ix_activity ix) \<or> a = actor \<and> ix_activity ix \<in> set ids)"
    if "ix \<in> set (nd_inbox db)" "ix_actor ix = a" for ix a
  proof -
    have "isArchived ?db1 a (ix_activity ix) = (isArchived db a (ix_activity ix) \<or> (\<exists>t. (a, ix_activity ix, t) \<in> set added))"
      by (auto simp: isArchived_def list_ex_iff)
    moreover have "(\<exists>t. (a, ix_activity ix, t) \<in> set added) \<Longrightarrow> a = actor \<and> ix_activity ix \<in> set ids"
      using add(2) by (auto simp: archivedFor_def list_all_iff)
    ultimately show ?thesis using add(3) that by auto
  qed
  have elig: "row \<in> set (joinedRows db) \<Longrightarrow> ix_actor (fst row) = a \<Longrightarrow>
      notificationEligibilityWhere ?db1 a direct b types row =
      (if a = actor \<and> ix_activity (fst row) \<in> set ids then b \<and> notificationEligibilityWhere db a direct False types row
       else notificationEligibilityWhere db a direct b types row)" for row a b
    using marked [of "fst row" a] fresh
    by (cases row) (auto simp: notificationEligibilityWhere_def set_joinedRows)
  have "eligibleRows ?db1 actor direct False types = filter (\<lambda>row. ix_activity (fst row) \<notin> set ids) (eligibleRows db actor direct False types)"
    unfolding eligibleRows_def filter_filter archived_invisible by (rule filter_cong [OF refl]) (auto simp: elig split: if_splits)
  moreover have "set (eligibleRows ?db1 actor direct True types) = set (eligibleRows db actor direct True types) \<union>
      {row \<in> set (eligibleRows db actor direct False types). ix_activity (fst row) \<in> set ids}"
  proof -
    have "notificationEligibilityWhere db actor direct True types row \<Longrightarrow> ix_activity (fst row) \<notin> set ids" if "ix_actor (fst row) = actor" for row
      using fresh that by (cases row) (auto simp: notificationEligibilityWhere_def)
    then show ?thesis unfolding eligibleRows_def set_filter archived_invisible by (auto simp: elig split: if_splits)
  qed
  moreover have "eligibleRows ?db1 other direct archived types = eligibleRows db other direct archived types" if "other \<noteq> actor"
    unfolding eligibleRows_def archived_invisible by (rule filter_cong [OF refl]) (use that in \<open>auto simp: elig\<close>)
  ultimately show ?thesis using post delete by simp
qed

subsection \<open>Retention\<close>

lemma eligible_keep:
  assumes "\<And>ix. ix \<in> set (nd_inbox db) \<Longrightarrow> \<not> keep ix \<Longrightarrow> isArchived db (ix_actor ix) (ix_activity ix)"
  shows "eligibleRows (db\<lparr>nd_inbox := filter keep (nd_inbox db)\<rparr>) actor direct False types = eligibleRows db actor direct False types"
proof -
  have joined: "joinedRows (db\<lparr>nd_inbox := filter keep rows\<rparr>) = filter (\<lambda>row. keep (fst row)) (joinedRows (db\<lparr>nd_inbox := rows\<rparr>))" for rows
    by (induction rows) (auto simp: joinedRows_def List.map_filter_simps split: option.splits)
  have "keep (fst row)" if "row \<in> set (joinedRows db)" "ix_actor (fst row) = actor"
    "notificationEligibilityWhere db actor direct False types row" for row
  proof -
    obtain ix act obj where row: "row = (ix, act, obj)" by (rule prod_cases3)
    have "ix \<in> set (nd_inbox db)" "\<not> isArchived db (ix_actor ix) (ix_activity ix)"
      using that by (simp_all add: row set_joinedRows notificationEligibilityWhere_def)
    then show ?thesis using assms row by auto
  qed
  then show ?thesis using joined [of "nd_inbox db"]
    by (auto simp: eligibleRows_def intro!: filter_cong)
qed

lemma eligible_unarchive:
  assumes "\<And>ix. ix \<in> set (nd_inbox db) \<Longrightarrow> ix_actor ix = actor \<Longrightarrow> ix_activity ix \<notin> set ids"
  shows "eligibleRows (unarchive db actor ids) other direct archived types = eligibleRows db other direct archived types"
proof -
  have "isArchived (unarchive db actor ids) a (ix_activity ix) = isArchived db a (ix_activity ix)"
    if "ix \<in> set (nd_inbox db)" "ix_actor ix = a" for ix a
    using assms [OF that(1)] that(2) by (auto simp: isArchived_def unarchive_def deleteWhere_def list_ex_iff)
  then have "notificationEligibilityWhere (unarchive db actor ids) other direct archived types row =
      notificationEligibilityWhere db other direct archived types row"
    if "row \<in> set (joinedRows db)" "ix_actor (fst row) = other" for row
    using that by (cases row) (auto simp: notificationEligibilityWhere_def set_joinedRows unarchive_def)
  then show ?thesis unfolding eligibleRows_def by (simp add: unarchive_def cong: filter_cong) (auto intro!: filter_cong simp: unarchive_def)
qed

lemma cleanup_prefix:
  assumes "\<forall>chunk \<in> set chunks. \<forall>i \<in> set chunk. \<forall>ix \<in> set (nd_inbox db). ix_actor ix = actor \<and> ix_activity ix = i \<longrightarrow> isArchived db actor i"
  shows "eligibleRows (fold (cleanupStep actor) (take n (concat (map (\<lambda>chunk. [DropInbox chunk, DropMarkers chunk]) chunks))) db) other direct False types =
    eligibleRows db other direct False types"
  using assms
proof (induction chunks arbitrary: db n)
  case (Cons chunk chunks)
  let ?d1 = "cleanupStep actor (DropInbox chunk) db"
  let ?d2 = "cleanupStep actor (DropMarkers chunk) ?d1"
  have e1: "eligibleRows ?d1 other direct False types = eligibleRows db other direct False types"
    unfolding cleanupStep.simps deleteWhere_def
    by (rule eligible_keep) (use Cons.prems in auto)
  have e2: "eligibleRows ?d2 other direct False types = eligibleRows ?d1 other direct False types"
    unfolding cleanupStep.simps(2) by (rule eligible_unarchive) (auto simp: deleteWhere_def)
  have "\<forall>chunk \<in> set chunks. \<forall>i \<in> set chunk. \<forall>ix \<in> set (nd_inbox ?d2). ix_actor ix = actor \<and> ix_activity ix = i \<longrightarrow> isArchived ?d2 actor i"
    using Cons.prems by (fastforce simp: deleteWhere_def unarchive_def isArchived_def list_ex_iff)
  then have rest: "eligibleRows (fold (cleanupStep actor) (take m (concat (map (\<lambda>chunk. [DropInbox chunk, DropMarkers chunk]) chunks))) ?d2) other direct False types =
      eligibleRows ?d2 other direct False types" for m by (rule Cons.IH)
  consider "n = 0" | "n = 1" | m where "n = Suc (Suc m)" by (metis One_nat_def not0_implies_Suc)
  then show ?case using e1 e2 rest by cases (simp_all del: cleanupStep.simps)
qed simp

text \<open>
  The clean-up of archived notifications never touches a list. Whatever statement of it the
  process dies after, everybody's list of notifications that are not archived, and so the badge,
  is what it was before: no expired notification resurfaces because its marker went first, and
  no other is lost.
\<close>

theorem cleanup_never_resurfaces:
  "eligibleRows (fold (cleanupStep actor) (take n (cleanupStatements db actor retentionDate)) db) other direct False types =
     eligibleRows db other direct False types \<and>
   notificationUnreadCount (cleanupArchivedNotifications db actor retentionDate) other = notificationUnreadCount db other"
proof -
  let ?ids = "map (\<lambda>(a, i, t). i) (take ARCHIVE_CLEANUP_BATCH (filter (\<lambda>(a, i, t). a = actor \<and> t < retentionDate) (nd_archived db)))"
  have archived: "isArchived db actor i" if i: "i \<in> set ?ids" for i
  proof -
    obtain r where r: "r \<in> set (take ARCHIVE_CLEANUP_BATCH (filter (\<lambda>(a, i, t). a = actor \<and> t < retentionDate) (nd_archived db)))"
      "i = (\<lambda>(a, i, t). i) r" using i unfolding set_map by blast
    then have "r \<in> set (nd_archived db)" "fst r = actor" by (auto dest!: in_set_takeD)
    then show ?thesis using r(2) unfolding isArchived_def list_ex_iff by (intro bexI [of _ r]) auto
  qed
  have chunk: "i \<in> set ids" if "chunk \<in> set (chunkForInClause ids)" "i \<in> set chunk" for chunk i and ids :: "string list"
    using that by (subst concat_chunkForInClause [symmetric]) (auto simp del: concat_chunkForInClause)
  have prefix: "eligibleRows (fold (cleanupStep actor) (take m (cleanupStatements db actor retentionDate)) db) other direct' False types' =
     eligibleRows db other direct' False types'" for m direct' types'
    unfolding cleanupStatements_def Let_def by (rule cleanup_prefix) (use archived chunk in blast)
  show ?thesis using prefix prefix [of "length (cleanupStatements db actor retentionDate)" DirectExclude NOTIFICATION_ACTIVITY_TYPES]
    by (simp add: notificationUnreadCount_def cleanupArchivedNotifications_def)
qed

subsection \<open>An example\<close>

definition likeOf :: "string \<Rightarrow> activity_row" where
  "likeOf i = \<lparr>av_apId = i, av_type = ''Like'', av_actor = ''https://a.com/users/bob'', av_object = Some ''o''\<rparr>"

definition exampleNotif :: notif_db where
  "exampleNotif =
     \<lparr>so_objects = [examplePost], so_activities = [likeOf ''l1'', likeOf ''l2''], so_recipients = [],
      so_communities = so_communities exampleSocial, so_members = so_members exampleSocial, so_follows = so_follows exampleSocial,
      so_blocks = [], so_mutes = [], so_blocklist = \<lparr>bl_actors = [], bl_domains = []\<rparr>,
      nd_inbox = [\<lparr>ix_actor = ''v'', ix_activity = ''l1'', ix_read = False, ix_createdAt = ''2024''\<rparr>,
                  \<lparr>ix_actor = ''v'', ix_activity = ''l2'', ix_read = False, ix_createdAt = ''2024''\<rparr>],
      nd_archived = [], nd_peerArchived = [], nd_dmArchived = [], nd_expansions = [], nd_dmRead = [], nd_communityRead = [],
      nd_modes = [], nd_reads = []\<rparr>"

theorem read_all_clears_badge_witness:
  "notificationUnreadCount exampleNotif ''v'' = 2 \<and>
   notificationUnreadCount (snd (postRead exampleNotif ''v'' (JObj [(''read_all'', JBool True)]))) ''v'' = 0"
proof
  show "notificationUnreadCount exampleNotif ''v'' = 2" by code_simp
  show "notificationUnreadCount (snd (postRead exampleNotif ''v'' (JObj [(''read_all'', JBool True)]))) ''v'' = 0"
    using read_all_clears_badge [of exampleNotif "''v''"] by (simp add: Let_def)
qed

lemma exampleNotif_keys: "keysUnique inboxKey (nd_inbox exampleNotif)" "keysUnique ob_apId (so_objects exampleNotif)"
  by (simp_all add: exampleNotif_def keysUnique_def)

theorem pages_visit_every_row_once_witness:
  "\<exists>ids. walkPages 3 exampleNotif ''v'' ''2024'' None False (Some ''1'') None = (ids, True) \<and> distinct ids \<and>
     set ids = {''l1'', ''l2''}"
proof -
  have "\<forall>ix \<in> set (nd_inbox exampleNotif). NUL \<notin> set (ix_createdAt ix)" by code_simp
  moreover have "length (eligibleRows exampleNotif ''v'' DirectExclude False (activityTypesOf None)) < 3" by code_simp
  moreover have "{ix_activity ix | ix act obj.
      (ix, act, obj) \<in> set (eligibleRows exampleNotif ''v'' DirectExclude False (activityTypesOf None)) \<and> replyCondition None obj}
    = (\<lambda>row. ix_activity (fst row)) ` set (eligibleRows exampleNotif ''v'' DirectExclude False (activityTypesOf None))"
    by (force simp: replyCondition_def image_iff)
  moreover have "(\<lambda>row. ix_activity (fst row)) ` set (eligibleRows exampleNotif ''v'' DirectExclude False (activityTypesOf None)) = {''l1'', ''l2''}"
    by code_simp
  ultimately show ?thesis
    using pages_visit_every_row_once [OF exampleNotif_keys(1), of "''v''" False None 3 "''2024''" "Some ''1''"] by simp
qed

theorem listed_body_is_gated_witness:
  "\<exists>item \<in> set (fst (getNotifications exampleNotif ''v'' ''2024'' None False None None)). ni_content item = ''hi''"
proof -
  have "(case fst (getNotifications exampleNotif ''v'' ''2024'' None False None None) of
      item # items \<Rightarrow> ni_object item = Some ''o'' | [] \<Rightarrow> False)" by code_simp
  then obtain item where item: "item \<in> set (fst (getNotifications exampleNotif ''v'' ''2024'' None False None None))"
    "ni_object item = Some ''o''" by (auto split: list.splits)
  have row: "selectBy ob_apId ''o'' (so_objects exampleNotif) = Some examplePost" by (simp add: exampleNotif_def examplePost_def)
  have passes: "passesPostVisibilitySync (gateObjectOf examplePost) (Some ''v'') (hasAcceptedFollow exampleNotif ''v'')
      (\<lambda>j. hasProjectedRecipient exampleNotif j ''v'') ''2024'' \<and>
    canViewerReadObject exampleNotif (gateObjectOf examplePost) (Some ''v'') \<noteq> None" by code_simp
  have "ni_content item = ob_content examplePost"
    using listed_body_is_gated [OF item(1) exampleNotif_keys(2)] item(2) row passes by simp
  then show ?thesis using item(1) by (auto simp: examplePost_def)
qed


theorem archive_roundtrip_witness:
  "deleteArchive (snd (postArchive exampleNotif ''v'' ''2025'' (JObj [(''ids'', JArr [JStr '' l1 ''])]))) ''v'' (JObj [(''ids'', JArr [JStr '' l1 ''])])
     = (200, exampleNotif)"
proof -
  have "parseNotificationIds (field (JObj [(''ids'', JArr [JStr '' l1 ''])]) ''ids'') MAX_BATCH_SIZE = Inr [''l1'']"
    by code_simp
  moreover have "\<forall>i \<in> set [''l1'']. \<not> isArchived exampleNotif ''v'' i" by code_simp
  ultimately show ?thesis
    using archive_roundtrip [of "JObj [(''ids'', JArr [JStr '' l1 ''])]" "[''l1'']" exampleNotif "''v''"] by simp
qed

end
