(* ===== verification/PushJobs.thy ===== *)
theory PushJobs
  imports Ledger Notifications
begin

section \<open>The ledger of notification pushes\<close>

text \<open>
  Models the durable outbox of \<open>src/backend/lib/notification-push.ts\<close>: the rows a trigger
  writes for every unread inbox insert, the sweep that reclaims, purges and publishes them, the
  claim of a worker with its lease, and the settlements. The theory Pushers has the registration
  of devices, PushDelivery the worker.
\<close>

definition MAX_NOTIFICATION_PUSHERS_PER_PRODUCT :: nat where "MAX_NOTIFICATION_PUSHERS_PER_PRODUCT = 16"
definition MAX_NOTIFICATION_PUSHERS_PER_APP :: nat where "MAX_NOTIFICATION_PUSHERS_PER_APP = 8"
definition MAX_NOTIFICATION_PUSH_DISPATCH :: nat where "MAX_NOTIFICATION_PUSH_DISPATCH = 16"
definition MAX_NOTIFICATION_PUSH_ATTEMPTS :: int where "MAX_NOTIFICATION_PUSH_ATTEMPTS = 5"
definition NOTIFICATION_PUSHER_RETENTION_DAYS :: int where "NOTIFICATION_PUSHER_RETENTION_DAYS = 90"
definition NOTIFICATION_PUSH_JOB_RETENTION_DAYS :: int where "NOTIFICATION_PUSH_JOB_RETENTION_DAYS = 90"
definition MAX_NOTIFICATION_PUSH_JOB_PURGE :: nat where "MAX_NOTIFICATION_PUSH_JOB_PURGE = 50"
definition MAX_NOTIFICATION_PUSHER_PURGE :: nat where "MAX_NOTIFICATION_PUSHER_PURGE = 50"
definition MAX_QUEUE_SCAN :: nat where "MAX_QUEUE_SCAN = 50"
definition STALE_PUSH_MS :: ms where "STALE_PUSH_MS = 2 * 60 * 1000"
definition STALE_INFLIGHT_RECLAIM_MS :: ms where "STALE_INFLIGHT_RECLAIM_MS = 15 * 60 * 1000"

subsection \<open>Rows\<close>

datatype push_status = PjPending | PjQueued | PjProcessing | PjRetryWait | PjDelivered | PjFailed

text \<open>\<open>pj_pending\<close> is \<open>NULL\<close> or a text that should hold a list of pusher ids.\<close>

record push_job =
  pj_id :: string
  pj_actor :: string
  pj_activity :: string
  pj_product :: "string option"
  pj_status :: push_status
  pj_token :: "string option"
  pj_attempts :: int
  pj_pending :: "json_text option"
  pj_nextAttemptAt :: ms
  pj_lastError :: "string option"
  pj_createdAt :: ms
  pj_updatedAt :: ms
  pj_deliveredAt :: "ms option"

text \<open>The row of the trigger.\<close>

definition newPushJob :: "string \<Rightarrow> string \<Rightarrow> string \<Rightarrow> string option \<Rightarrow> ms \<Rightarrow> push_job" where
  "newPushJob i actor activity prd now =
     \<lparr>pj_id = i, pj_actor = actor, pj_activity = activity, pj_product = prd, pj_status = PjPending, pj_token = None,
      pj_attempts = 0, pj_pending = None, pj_nextAttemptAt = now, pj_lastError = None, pj_createdAt = now, pj_updatedAt = now,
      pj_deliveredAt = None\<rparr>"

record pusher =
  pu_id :: string
  pu_actor :: string
  pu_product :: product
  pu_scope :: "string option"
  pu_kind :: string
  pu_appId :: string
  pu_pushkey :: string
  pu_pushkeyHash :: string
  pu_appDisplayName :: "string option"
  pu_deviceDisplayName :: "string option"
  pu_profileTag :: "string option"
  pu_lang :: "string option"
  pu_data :: json_text
  pu_gatewayUrl :: string
  pu_createdAt :: ms
  pu_updatedAt :: ms
  pu_lastSeenAt :: ms

subsection \<open>Retention\<close>

definition purgeExpiredNotificationPushJobs :: "ms \<Rightarrow> push_job list \<Rightarrow> nat \<times> push_job list" where
  "purgeExpiredNotificationPushJobs now jobs =
     purgeRows pj_id (\<lambda>r. True) pj_updatedAt MAX_NOTIFICATION_PUSH_JOB_PURGE
       (now - NOTIFICATION_PUSH_JOB_RETENTION_DAYS * 86400000) jobs"

definition purgeExpiredNotificationPushers :: "ms \<Rightarrow> pusher list \<Rightarrow> nat \<times> pusher list" where
  "purgeExpiredNotificationPushers now pushers =
     purgeRows pu_id (\<lambda>r. True) pu_lastSeenAt MAX_NOTIFICATION_PUSHER_PURGE
       (now - NOTIFICATION_PUSHER_RETENTION_DAYS * 86400000) pushers"

subsection \<open>Sweeps\<close>

definition keepError :: "string option \<Rightarrow> string \<Rightarrow> string option" where
  "keepError lastError msg = (case lastError of None \<Rightarrow> Some msg | Some e \<Rightarrow> Some e)"

text \<open>A row that lost its message uses up one attempt and waits again, or fails.\<close>

definition lostMessage :: "push_status \<Rightarrow> string \<Rightarrow> ms \<Rightarrow> push_job \<Rightarrow> push_job" where
  "lostMessage waiting msg now r =
     r\<lparr>pj_status := (if MAX_NOTIFICATION_PUSH_ATTEMPTS \<le> pj_attempts r + 1 then PjFailed else waiting),
       pj_attempts := pj_attempts r + 1, pj_token := None, pj_lastError := keepError (pj_lastError r) msg, pj_updatedAt := now\<rparr>"

definition inFlight :: "push_status \<Rightarrow> bool" where
  "inFlight s = (s = PjQueued \<or> s = PjProcessing)"

definition waitingPush :: "push_status \<Rightarrow> bool" where
  "waitingPush s = (s = PjPending \<or> s = PjRetryWait)"

definition reclaimStalePushJobs :: "ms \<Rightarrow> push_job list \<Rightarrow> push_job list" where
  "reclaimStalePushJobs now jobs =
     updateWhere (\<lambda>r. inFlight (pj_status r) \<and> pj_updatedAt r \<le> now - STALE_INFLIGHT_RECLAIM_MS)
       (lostMessage PjPending ''reclaimed stale in-flight push job'' now) jobs"

definition duePushJobs :: "ms \<Rightarrow> pusher list \<Rightarrow> push_job list \<Rightarrow> push_job list" where
  "duePushJobs now pushers jobs =
     take MAX_QUEUE_SCAN (sort_key pj_createdAt
       (filter (\<lambda>r. waitingPush (pj_status r) \<and> pj_nextAttemptAt r \<le> now \<and> list_ex (\<lambda>p. pu_actor p = pj_actor r) pushers) jobs))"

definition markPushQueued :: "string list \<Rightarrow> ms \<Rightarrow> push_job list \<Rightarrow> push_job list" where
  "markPushQueued ids now jobs =
     updateWhere (\<lambda>r. pj_id r \<in> set ids \<and> waitingPush (pj_status r))
       (\<lambda>r. r\<lparr>pj_status := PjQueued, pj_token := None, pj_updatedAt := now\<rparr>) jobs"

definition buildNotificationPushMessage :: "string \<Rightarrow> string \<Rightarrow> qmsg" where
  "buildNotificationPushMessage scheduledAt jobId =
     \<lparr>q_body = NotificationPush jobId, q_autoDlqAttempt = None, q_scheduledAt = scheduledAt\<rparr>"

text \<open>The state of the sweep: the two tables and the main queue.\<close>

record push_tables =
  pt_jobs :: "push_job list"
  pt_pushers :: "pusher list"
  pt_sent :: "qmsg list"

definition enqueuePendingNotificationPushJobs ::
  "queue_port option \<Rightarrow> string \<Rightarrow> ms \<Rightarrow> (push_tables, nat) act" where
  "enqueuePendingNotificationPushJobs queue isoNow now t0 =
     (let t1 = t0\<lparr>pt_jobs := snd (purgeExpiredNotificationPushJobs now (pt_jobs t0)),
                  pt_pushers := snd (purgeExpiredNotificationPushers now (pt_pushers t0))\<rparr>
      in case queue of
           None \<Rightarrow> (Inr 0, t1)
         | Some port \<Rightarrow>
             (let t2 = t1\<lparr>pt_jobs := reclaimStalePushJobs now (pt_jobs t1)\<rparr>;
                  rows = duePushJobs now (pt_pushers t2) (pt_jobs t2);
                  msgs = map (\<lambda>r. buildNotificationPushMessage isoNow (pj_id r)) rows
              in if rows = [] then (Inr 0, t2)
                 else
                   (case port msgs of
                      Some k \<Rightarrow> (Inl ''queue unavailable'', t2\<lparr>pt_sent := pt_sent t2 @ take k msgs\<rparr>)
                    | None \<Rightarrow>
                        (Inr (length rows),
                         t2\<lparr>pt_sent := pt_sent t2 @ msgs, pt_jobs := markPushQueued (map pj_id rows) now (pt_jobs t2)\<rparr>))))"

definition recoverDeadLetteredNotificationPushJob :: "string \<Rightarrow> ms \<Rightarrow> push_job list \<Rightarrow> bool \<times> push_job list" where
  "recoverDeadLetteredNotificationPushJob jobId now jobs =
     (let P = (\<lambda>r. pj_id r = jobId \<and> (inFlight (pj_status r) \<or> waitingPush (pj_status r)))
      in (0 < affectedRows P jobs,
          updateWhere P (\<lambda>r. (lostMessage PjRetryWait ''queue message dead-lettered'' now r)\<lparr>pj_nextAttemptAt := now\<rparr>) jobs))"

subsection \<open>Claim and settlement\<close>

text \<open>The statements of \<open>processNotificationPushJob\<close>; every one is decided by the row it finds.\<close>

definition reclaimProcessing :: "push_job \<Rightarrow> ms \<Rightarrow> push_job list \<Rightarrow> bool \<times> push_job list" where
  "reclaimProcessing seen now jobs =
     (let P = (\<lambda>r. pj_id r = pj_id seen \<and> pj_status r = PjProcessing \<and> pj_updatedAt r = pj_updatedAt seen)
      in (0 < affectedRows P jobs, updateWhere P (\<lambda>r. r\<lparr>pj_status := PjQueued, pj_token := None, pj_updatedAt := now\<rparr>) jobs))"

definition claimPush :: "push_job \<Rightarrow> string \<Rightarrow> ms \<Rightarrow> push_job list \<Rightarrow> bool \<times> push_job list" where
  "claimPush seen token now jobs =
     (let P = (\<lambda>r. pj_id r = pj_id seen \<and> pj_status r = pj_status seen \<and> pj_updatedAt r = pj_updatedAt seen \<and> pj_nextAttemptAt r \<le> now)
      in (0 < affectedRows P jobs,
          updateWhere P (\<lambda>r. r\<lparr>pj_status := PjProcessing, pj_token := Some token, pj_updatedAt := now\<rparr>) jobs))"

definition processingLeaseWhere :: "string \<Rightarrow> string \<Rightarrow> push_job \<Rightarrow> bool" where
  "processingLeaseWhere jobId token r = (pj_id r = jobId \<and> pj_status r = PjProcessing \<and> pj_token r = Some token)"

text \<open>A write under the lease, with the answer whether the lease still held.\<close>

definition underLease :: "string \<Rightarrow> string \<Rightarrow> (push_job \<Rightarrow> push_job) \<Rightarrow> push_job list \<Rightarrow> bool \<times> push_job list" where
  "underLease jobId token f jobs =
     (0 < affectedRows (processingLeaseWhere jobId token) jobs, updateWhere (processingLeaseWhere jobId token) f jobs)"

definition refreshProcessingLease :: "string \<Rightarrow> string \<Rightarrow> ms \<Rightarrow> push_job list \<Rightarrow> bool \<times> push_job list" where
  "refreshProcessingLease jobId token now = underLease jobId token (\<lambda>r. r\<lparr>pj_updatedAt := now\<rparr>)"

definition idsJson :: "string list \<Rightarrow> json_text" where
  "idsJson ids = Some (JArr (map JStr ids))"

definition finishJob :: "string \<Rightarrow> string \<Rightarrow> string option \<Rightarrow> ms \<Rightarrow> push_job list \<Rightarrow> bool \<times> push_job list" where
  "finishJob jobId token lastError now =
     underLease jobId token (\<lambda>r. r\<lparr>pj_status := PjDelivered, pj_token := None, pj_pending := Some (idsJson []),
       pj_lastError := lastError, pj_deliveredAt := Some now, pj_updatedAt := now\<rparr>)"

text \<open>The end of an attempt that leaves work: the budget decides between waiting and failing.\<close>

definition failPush :: "string \<Rightarrow> string \<Rightarrow> int \<Rightarrow> string list option \<Rightarrow> string \<Rightarrow> ms \<Rightarrow> push_job list \<Rightarrow> bool \<times> push_job list" where
  "failPush jobId token attempts remaining lastError now =
     underLease jobId token (\<lambda>r. r\<lparr>pj_status := PjFailed, pj_token := None, pj_attempts := attempts,
       pj_pending := (case remaining of None \<Rightarrow> pj_pending r | Some ids \<Rightarrow> Some (idsJson ids)),
       pj_lastError := Some lastError, pj_updatedAt := now\<rparr>)"

definition retryPush :: "string \<Rightarrow> string \<Rightarrow> int \<Rightarrow> string list option \<Rightarrow> string \<Rightarrow> ms \<Rightarrow> ms \<Rightarrow> push_job list \<Rightarrow> bool \<times> push_job list" where
  "retryPush jobId token attempts remaining lastError nextAttemptAt now =
     underLease jobId token (\<lambda>r. r\<lparr>pj_status := PjRetryWait, pj_token := None, pj_attempts := attempts,
       pj_pending := (case remaining of None \<Rightarrow> pj_pending r | Some ids \<Rightarrow> Some (idsJson ids)),
       pj_nextAttemptAt := nextAttemptAt, pj_lastError := Some lastError, pj_updatedAt := now\<rparr>)"

definition setPendingIds :: "string \<Rightarrow> string \<Rightarrow> string list \<Rightarrow> ms \<Rightarrow> push_job list \<Rightarrow> bool \<times> push_job list" where
  "setPendingIds jobId token ids now =
     underLease jobId token (\<lambda>r. r\<lparr>pj_pending := Some (idsJson ids), pj_updatedAt := now\<rparr>)"

definition parsePendingIds :: "json_text option \<Rightarrow> string list option" where
  "parsePendingIds value =
     (case value of
        None \<Rightarrow> None
      | Some None \<Rightarrow> Some []
      | Some (Some v) \<Rightarrow> (case v of JArr xs \<Rightarrow> Some (if list_all isStr xs then map strOf xs else []) | _ \<Rightarrow> Some []))"

lemma parsePendingIds_idsJson [simp]: "parsePendingIds (Some (idsJson ids)) = Some ids"
  by (simp add: parsePendingIds_def idsJson_def list_all_iff comp_def)

subsection \<open>Interfaces\<close>

definition pushStale :: "ms \<Rightarrow> push_job \<Rightarrow> bool" where
  "pushStale now = expired (\<lambda>r. True) pj_updatedAt (now - NOTIFICATION_PUSH_JOB_RETENTION_DAYS * 86400000)"

definition pusherStale :: "ms \<Rightarrow> pusher \<Rightarrow> bool" where
  "pusherStale now = expired (\<lambda>r. True) pu_lastSeenAt (now - NOTIFICATION_PUSHER_RETENTION_DAYS * 86400000)"

interpretation push_retention:
  retained_ledger pj_id pushStale purgeExpiredNotificationPushJobs MAX_NOTIFICATION_PUSH_JOB_PURGE
  by unfold_locales
    (auto simp: pushStale_def purgeExpiredNotificationPushJobs_def purgeRows_count purgeRows_rest purgeRows_keeps
      MAX_NOTIFICATION_PUSH_JOB_PURGE_def dest: subsetD [OF purgeRows_keeps(1)])

interpretation pusher_retention:
  retained_ledger pu_id pusherStale purgeExpiredNotificationPushers MAX_NOTIFICATION_PUSHER_PURGE
  by unfold_locales
    (auto simp: pusherStale_def purgeExpiredNotificationPushers_def purgeRows_count purgeRows_rest purgeRows_keeps
      MAX_NOTIFICATION_PUSHER_PURGE_def dest: subsetD [OF purgeRows_keeps(1)])

text \<open>The token that owns a row, as the lease condition reads it.\<close>

definition leaseOf :: "push_job \<Rightarrow> string option" where
  "leaseOf r = (if pj_status r = PjProcessing then pj_token r else None)"

definition pushToken :: "push_job list \<Rightarrow> string \<Rightarrow> string option" where
  "pushToken jobs i = Option.bind (selectBy pj_id i jobs) leaseOf"

lemma lease_iff: "processingLeaseWhere i tok r \<longleftrightarrow> pj_id r = i \<and> leaseOf r = Some tok"
  by (auto simp: processingLeaseWhere_def leaseOf_def)

lemma lease_owner:
  "keysUnique pj_id jobs \<Longrightarrow> 0 < affectedRows (processingLeaseWhere i tok) jobs \<longleftrightarrow> pushToken jobs i = Some tok"
  by (subst affectedRows_key [of pj_id _ _ i])
    (auto simp: lease_iff pushToken_def split: option.splits dest: selectBy_SomeD)

lemma no_lease_unchanged:
  assumes "keysUnique pj_id jobs" "pushToken jobs i \<noteq> Some tok"
  shows "updateWhere (processingLeaseWhere i tok) f jobs = jobs"
proof (rule updateWhere_id)
  have "affectedRows (processingLeaseWhere i tok) jobs = 0" using lease_owner [OF assms(1), of i tok] assms(2) by simp
  then show "r \<in> set jobs \<Longrightarrow> \<not> processingLeaseWhere i tok r" for r unfolding affectedRows_eq_0 by blast
qed

lemma lease_update:
  assumes "\<And>r. pj_id (f r) = pj_id r" "\<And>r. leaseOf (f r) = None"
  shows "pushToken (updateWhere (processingLeaseWhere i tok) f jobs) j =
    (if j = i \<and> pushToken jobs j = Some tok then None else pushToken jobs j)"
proof (cases "selectBy pj_id j jobs")
  case (Some r)
  have "pj_id r = j" using selectBy_SomeD [OF Some] by simp
  then show ?thesis using assms Some by (auto simp: pushToken_def selectBy_updateWhere lease_iff)
qed (simp add: pushToken_def selectBy_updateWhere assms)

text \<open>The three ways a worker settles a job it owns, and what else happens to the table.\<close>

datatype push_settlement =
    PushFinished "string option" ms
  | PushFailed int "string list option" string ms
  | PushRetry int "string list option" string ms ms

fun settlePush :: "string \<Rightarrow> string \<Rightarrow> push_settlement \<Rightarrow> push_job list \<Rightarrow> bool \<times> push_job list" where
  "settlePush i tok (PushFinished e now) = finishJob i tok e now"
| "settlePush i tok (PushFailed n ids e now) = failPush i tok n ids e now"
| "settlePush i tok (PushRetry n ids e nxt now) = retryPush i tok n ids e nxt now"

definition nonTerminal :: "push_status \<Rightarrow> bool" where
  "nonTerminal s = (inFlight s \<or> waitingPush s)"

text \<open>A claim follows a read that saw a row no worker owned.\<close>

definition claimPushRow :: "string \<Rightarrow> string \<Rightarrow> push_job \<times> ms \<Rightarrow> push_job list \<Rightarrow> push_job list option" where
  "claimPushRow i tok arg jobs =
     (case arg of (seen, now) \<Rightarrow>
        if pj_id seen = i \<and> nonTerminal (pj_status seen) \<and> pj_status seen \<noteq> PjProcessing then
          (case claimPush seen tok now jobs of (won, jobs') \<Rightarrow> if won then Some jobs' else None)
        else None)"

text \<open>The insert of the trigger: one job for a recipient and an activity.\<close>

definition insertPushJob :: "push_job \<Rightarrow> push_job list \<Rightarrow> push_job list" where
  "insertPushJob j jobs =
     (if (pj_actor j, pj_activity j) \<in> (\<lambda>r. (pj_actor r, pj_activity r)) ` set jobs then jobs else insertOrIgnore pj_id j jobs)"

datatype push_sweep =
    SwInsert string string string "string option" ms
  | SwReclaim ms
  | SwPurge ms
  | SwQueued "string list" ms
  | SwRecover string ms
  | SwReclaimProcessing push_job ms
  | SwRefresh string string ms
  | SwPending string string "string list" ms

fun sweepPush :: "push_sweep \<Rightarrow> push_job list \<Rightarrow> push_job list" where
  "sweepPush (SwInsert i actor activity prd now) jobs = insertPushJob (newPushJob i actor activity prd now) jobs"
| "sweepPush (SwReclaim now) jobs = reclaimStalePushJobs now jobs"
| "sweepPush (SwPurge now) jobs = snd (purgeExpiredNotificationPushJobs now jobs)"
| "sweepPush (SwQueued ids now) jobs = markPushQueued ids now jobs"
| "sweepPush (SwRecover i now) jobs = snd (recoverDeadLetteredNotificationPushJob i now jobs)"
| "sweepPush (SwReclaimProcessing seen now) jobs = snd (reclaimProcessing seen now jobs)"
| "sweepPush (SwRefresh i tok now) jobs = snd (refreshProcessingLease i tok now jobs)"
| "sweepPush (SwPending i tok ids now) jobs = snd (setPendingIds i tok ids now jobs)"

definition leasesKept :: "push_job list \<Rightarrow> push_job list \<Rightarrow> bool" where
  "leasesKept jobs jobs' = (keysUnique pj_id jobs' \<and> (\<forall>i tok. pushToken jobs' i = Some tok \<longrightarrow> pushToken jobs i = Some tok))"

lemma leasesKept_update:
  assumes "keysUnique pj_id jobs" "\<And>r. pj_id (f r) = pj_id r" "\<And>r tok. P r \<Longrightarrow> leaseOf (f r) = Some tok \<Longrightarrow> leaseOf r = Some tok"
  shows "leasesKept jobs (updateWhere P f jobs)"
  using assms by (auto simp: leasesKept_def keysUnique_updateWhere pushToken_def selectBy_updateWhere bind_eq_Some_conv split: if_splits)

lemma leasesKept_subset:
  assumes "keysUnique pj_id jobs" "keysUnique pj_id jobs'" "set jobs' \<subseteq> set jobs"
  shows "leasesKept jobs jobs'"
proof -
  have "selectBy pj_id i jobs = Some r" if "selectBy pj_id i jobs' = Some r" for i r
    using selectBy_SomeD [OF that] assms(3) selectBy_mem [OF assms(1)] by blast
  then show ?thesis using assms(2) by (auto simp: leasesKept_def pushToken_def bind_eq_Some_conv)
qed

lemma sweepPush_leases:
  assumes u: "keysUnique pj_id jobs"
  shows "leasesKept jobs (sweepPush s jobs)"
proof (cases s)
  case (SwInsert i actor activity prd now)
  let ?j = "newPushJob i actor activity prd now"
  have "leasesKept jobs (insertOrIgnore pj_id ?j jobs)"
    using u by (auto simp: leasesKept_def keysUnique_insertOrIgnore pushToken_def selectBy_insertOrIgnore leaseOf_def newPushJob_def
        bind_eq_Some_conv split: option.splits if_splits)
  moreover have "leasesKept jobs jobs" using u by (simp add: leasesKept_def)
  ultimately show ?thesis by (simp add: SwInsert insertPushJob_def)
next
  case (SwPurge now)
  show ?thesis unfolding SwPurge sweepPush.simps purgeExpiredNotificationPushJobs_def
    by (rule leasesKept_subset [OF u purgeRows_keeps(3) [OF u] purgeRows_keeps(1)])
qed (auto simp: reclaimStalePushJobs_def markPushQueued_def recoverDeadLetteredNotificationPushJob_def Let_def reclaimProcessing_def
      refreshProcessingLease_def setPendingIds_def underLease_def lostMessage_def leaseOf_def intro!: leasesKept_update [OF u] split: if_splits)

lemma settlePush_update:
  "\<exists>f. settlePush i tok c jobs = underLease i tok f jobs \<and> (\<forall>r. pj_id (f r) = pj_id r) \<and> (\<forall>r. leaseOf (f r) = None)"
proof (cases c)
  case (PushFinished e now)
  show ?thesis unfolding PushFinished settlePush.simps finishJob_def by (rule exI, rule conjI [OF refl]) (simp add: leaseOf_def)
next
  case (PushFailed n ids e now)
  show ?thesis unfolding PushFailed settlePush.simps failPush_def by (rule exI, rule conjI [OF refl]) (simp add: leaseOf_def)
next
  case (PushRetry n ids e nxt now)
  show ?thesis unfolding PushRetry settlePush.simps retryPush_def by (rule exI, rule conjI [OF refl]) (simp add: leaseOf_def)
qed

lemma claimPush_owner:
  assumes u: "keysUnique pj_id jobs" and claim: "claimPushRow i tok arg jobs = Some jobs'"
  shows "keysUnique pj_id jobs' \<and> pushToken jobs' i = Some tok \<and> (\<forall>j. j \<noteq> i \<longrightarrow> pushToken jobs' j = pushToken jobs j)"
proof -
  obtain seen now where arg: "arg = (seen, now)" by (cases arg)
  let ?P = "\<lambda>r. pj_id r = pj_id seen \<and> pj_status r = pj_status seen \<and> pj_updatedAt r = pj_updatedAt seen \<and> pj_nextAttemptAt r \<le> now"
  have i: "pj_id seen = i" and won: "0 < affectedRows ?P jobs"
    and jobs': "jobs' = updateWhere ?P (\<lambda>r. r\<lparr>pj_status := PjProcessing, pj_token := Some tok, pj_updatedAt := now\<rparr>) jobs"
    using claim by (auto simp: claimPushRow_def arg claimPush_def Let_def split: if_splits)
  have "affectedRows ?P jobs = (case selectBy pj_id i jobs of None \<Rightarrow> 0 | Some r \<Rightarrow> if ?P r then 1 else 0)"
    by (rule affectedRows_key [OF u]) (simp add: i)
  then obtain r where r: "selectBy pj_id i jobs = Some r" "?P r" using won by (auto split: option.splits if_splits)
  have "pushToken jobs' j = pushToken jobs j" if "j \<noteq> i" for j
    using that i selectBy_SomeD [of pj_id j jobs]
    by (cases "selectBy pj_id j jobs") (auto simp: jobs' pushToken_def selectBy_updateWhere)
  then show ?thesis using r u by (simp add: jobs' pushToken_def selectBy_updateWhere keysUnique_updateWhere leaseOf_def)
qed

interpretation push_fence:
  fenced_rows pushToken claimPushRow settlePush sweepPush "keysUnique pj_id"
proof
  fix t t' :: "push_job list" and k tok a
  assume "keysUnique pj_id t" "claimPushRow k tok a t = Some t'"
  then show "keysUnique pj_id t' \<and> pushToken t' k = Some tok \<and> (\<forall>k'. k' \<noteq> k \<longrightarrow> pushToken t' k' = pushToken t k')"
    by (rule claimPush_owner)
next
  fix t :: "push_job list" and k tok c
  assume u: "keysUnique pj_id t"
  obtain f where f: "settlePush k tok c t = underLease k tok f t" "\<And>r. pj_id (f r) = pj_id r" "\<And>r. leaseOf (f r) = None"
    using settlePush_update [of k tok c t] by blast
  show "fst (settlePush k tok c t) \<longleftrightarrow> pushToken t k = Some tok" using lease_owner [OF u] by (simp add: f(1) underLease_def)
  show "snd (settlePush k tok c t) = t" if "pushToken t k \<noteq> Some tok"
    using no_lease_unchanged [OF u that] by (simp add: f(1) underLease_def)
  show "keysUnique pj_id (snd (settlePush k tok c t)) \<and> pushToken (snd (settlePush k tok c t)) k = None \<and>
      (\<forall>k'. k' \<noteq> k \<longrightarrow> pushToken (snd (settlePush k tok c t)) k' = pushToken t k')" if "pushToken t k = Some tok"
    using u that lease_update [OF f(2,3)] by (simp add: f(1) underLease_def keysUnique_updateWhere f(2))
next
  fix t :: "push_job list" and s k
  assume "keysUnique pj_id t"
  from sweepPush_leases [OF this, of s]
  show "keysUnique pj_id (sweepPush s t) \<and> (pushToken (sweepPush s t) k = pushToken t k \<or> pushToken (sweepPush s t) k = None)"
    by (cases "pushToken (sweepPush s t) k") (auto simp: leasesKept_def)
qed

subsection \<open>The life of a push job\<close>

text \<open>One statement of the trigger, of a sweep or of a worker.\<close>

inductive push_step :: "push_job list \<Rightarrow> push_job list \<Rightarrow> bool" where
  stepSweep: "push_step jobs (sweepPush s jobs)"
| stepClaim: "claimPushRow i tok arg jobs = Some jobs' \<Longrightarrow> push_step jobs jobs'"
| stepFinish: "push_step jobs (snd (settlePush i tok (PushFinished e now) jobs))"
| stepFail: "n = MAX_NOTIFICATION_PUSH_ATTEMPTS \<Longrightarrow> push_step jobs (snd (settlePush i tok (PushFailed n ids e now) jobs))"
| stepRetry: "0 < n \<Longrightarrow> n < MAX_NOTIFICATION_PUSH_ATTEMPTS \<Longrightarrow> push_step jobs (snd (settlePush i tok (PushRetry n ids e nxt now) jobs))"

inductive_cases push_stepE: "push_step jobs jobs'"

definition push_wf :: "push_job \<Rightarrow> bool" where
  "push_wf r =
     ((pj_token r \<noteq> None \<longleftrightarrow> pj_status r = PjProcessing) \<and>
      0 \<le> pj_attempts r \<and> pj_attempts r \<le> MAX_NOTIFICATION_PUSH_ATTEMPTS \<and>
      (pj_status r = PjFailed \<longrightarrow> pj_attempts r = MAX_NOTIFICATION_PUSH_ATTEMPTS) \<and>
      (nonTerminal (pj_status r) \<longrightarrow> pj_attempts r < MAX_NOTIFICATION_PUSH_ATTEMPTS) \<and>
      (pj_deliveredAt r \<noteq> None \<longleftrightarrow> pj_status r = PjDelivered))"

abbreviation recipientKey :: "push_job \<Rightarrow> string \<times> string" where
  "recipientKey r \<equiv> (pj_actor r, pj_activity r)"

definition pushes_wf :: "push_job list \<Rightarrow> bool" where
  "pushes_wf jobs = (keysUnique pj_id jobs \<and> keysUnique recipientKey jobs \<and> list_all push_wf jobs)"

text \<open>What every write is: an insert, a purge, or an update of rows that have not ended.\<close>

definition liveUpdate :: "(push_job \<Rightarrow> bool) \<Rightarrow> (push_job \<Rightarrow> push_job) \<Rightarrow> bool" where
  "liveUpdate P f =
     ((\<forall>r. pj_id (f r) = pj_id r \<and> recipientKey (f r) = recipientKey r) \<and>
      (\<forall>r. P r \<longrightarrow> nonTerminal (pj_status r)) \<and> (\<forall>r. P r \<longrightarrow> push_wf r \<longrightarrow> push_wf (f r)))"

lemma liveUpdate_wf: "liveUpdate P f \<Longrightarrow> pushes_wf jobs \<Longrightarrow> pushes_wf (updateWhere P f jobs)"
  by (auto simp: liveUpdate_def pushes_wf_def keysUnique_updateWhere intro!: list_all_updateWhere)

lemma liveUpdate_terminal:
  "liveUpdate P f \<Longrightarrow> r \<in> set jobs \<Longrightarrow> \<not> nonTerminal (pj_status r) \<Longrightarrow> r \<in> set (updateWhere P f jobs)"
  by (force simp: liveUpdate_def set_updateWhere)

lemmas push_constants = MAX_NOTIFICATION_PUSH_ATTEMPTS_def nonTerminal_def inFlight_def waitingPush_def

lemma liveUpdate_lease:
  assumes "\<And>r. pj_id (f r) = pj_id r \<and> recipientKey (f r) = recipientKey r"
    and "\<And>r. pj_status r = PjProcessing \<Longrightarrow> push_wf r \<Longrightarrow> push_wf (f r)"
  shows "liveUpdate (processingLeaseWhere i tok) f"
  using assms by (auto simp: liveUpdate_def processingLeaseWhere_def nonTerminal_def inFlight_def)

lemma push_step_shape:
  assumes "push_step jobs jobs'"
  shows "(\<exists>P f. jobs' = updateWhere P f jobs \<and> liveUpdate P f) \<or>
    (\<exists>i actor activity prd now. jobs' = insertPushJob (newPushJob i actor activity prd now) jobs) \<or>
    (\<exists>now. jobs' = snd (purgeExpiredNotificationPushJobs now jobs))"
  using assms
proof cases
  case (stepSweep s)
  show ?thesis
  proof (cases s)
    case (SwInsert i actor activity prd now)
    then have "jobs' = insertPushJob (newPushJob i actor activity prd now) jobs" using stepSweep by simp
    then show ?thesis by blast
  next
    case (SwPurge now)
    then show ?thesis using stepSweep by auto
  next
    case (SwReclaim now)
    have "liveUpdate (\<lambda>r. inFlight (pj_status r) \<and> pj_updatedAt r \<le> now - STALE_INFLIGHT_RECLAIM_MS)
       (lostMessage PjPending ''reclaimed stale in-flight push job'' now)"
      by (auto simp: liveUpdate_def lostMessage_def push_wf_def push_constants)
    then show ?thesis using stepSweep SwReclaim by (auto simp: reclaimStalePushJobs_def)
  next
    case (SwQueued ids now)
    have "liveUpdate (\<lambda>r. pj_id r \<in> set ids \<and> waitingPush (pj_status r)) (\<lambda>r. r\<lparr>pj_status := PjQueued, pj_token := None, pj_updatedAt := now\<rparr>)"
      by (auto simp: liveUpdate_def push_wf_def push_constants)
    then show ?thesis using stepSweep SwQueued by (auto simp: markPushQueued_def)
  next
    case (SwRecover i now)
    have "liveUpdate (\<lambda>r. pj_id r = i \<and> (inFlight (pj_status r) \<or> waitingPush (pj_status r)))
       (\<lambda>r. (lostMessage PjRetryWait ''queue message dead-lettered'' now r)\<lparr>pj_nextAttemptAt := now\<rparr>)"
      by (auto simp: liveUpdate_def lostMessage_def push_wf_def push_constants)
    then show ?thesis using stepSweep SwRecover by (auto simp: recoverDeadLetteredNotificationPushJob_def Let_def)
  next
    case (SwReclaimProcessing seen now)
    have "liveUpdate (\<lambda>r. pj_id r = pj_id seen \<and> pj_status r = PjProcessing \<and> pj_updatedAt r = pj_updatedAt seen)
       (\<lambda>r. r\<lparr>pj_status := PjQueued, pj_token := None, pj_updatedAt := now\<rparr>)"
      by (auto simp: liveUpdate_def push_wf_def push_constants)
    then show ?thesis using stepSweep SwReclaimProcessing by (auto simp: reclaimProcessing_def Let_def)
  next
    case (SwRefresh i tok now)
    have "liveUpdate (processingLeaseWhere i tok) (\<lambda>r. r\<lparr>pj_updatedAt := now\<rparr>)"
      by (rule liveUpdate_lease) (auto simp: push_wf_def)
    then show ?thesis using stepSweep SwRefresh by (auto simp: refreshProcessingLease_def underLease_def)
  next
    case (SwPending i tok ids now)
    have "liveUpdate (processingLeaseWhere i tok) (\<lambda>r. r\<lparr>pj_pending := Some (idsJson ids), pj_updatedAt := now\<rparr>)"
      by (rule liveUpdate_lease) (auto simp: push_wf_def)
    then show ?thesis using stepSweep SwPending by (auto simp: setPendingIds_def underLease_def)
  qed
next
  case (stepClaim i tok arg)
  obtain seen now where arg: "arg = (seen, now)" by (cases arg)
  let ?P = "\<lambda>r. pj_id r = pj_id seen \<and> pj_status r = pj_status seen \<and> pj_updatedAt r = pj_updatedAt seen \<and> pj_nextAttemptAt r \<le> now"
  let ?f = "\<lambda>r. r\<lparr>pj_status := PjProcessing, pj_token := Some tok, pj_updatedAt := now\<rparr>"
  have "nonTerminal (pj_status seen)" and jobs': "jobs' = updateWhere ?P ?f jobs"
    using stepClaim by (auto simp: claimPushRow_def arg claimPush_def Let_def split: if_splits)
  moreover from this(1) have "liveUpdate ?P ?f" by (auto simp: liveUpdate_def push_wf_def push_constants)
  ultimately show ?thesis by blast
next
  case (stepFinish i tok e now)
  have "liveUpdate (processingLeaseWhere i tok) (\<lambda>r. r\<lparr>pj_status := PjDelivered, pj_token := None, pj_pending := Some (idsJson []),
       pj_lastError := e, pj_deliveredAt := Some now, pj_updatedAt := now\<rparr>)"
    by (rule liveUpdate_lease) (auto simp: push_wf_def push_constants)
  then show ?thesis using stepFinish by (auto simp: finishJob_def underLease_def)
next
  case (stepFail n i tok ids e now)
  have "liveUpdate (processingLeaseWhere i tok) (\<lambda>r. r\<lparr>pj_status := PjFailed, pj_token := None, pj_attempts := n,
       pj_pending := (case ids of None \<Rightarrow> pj_pending r | Some ids \<Rightarrow> Some (idsJson ids)), pj_lastError := Some e, pj_updatedAt := now\<rparr>)"
    by (rule liveUpdate_lease) (use stepFail in \<open>auto simp: push_wf_def push_constants\<close>)
  then show ?thesis using stepFail by (auto simp: failPush_def underLease_def)
next
  case (stepRetry n i tok ids e nxt now)
  have "liveUpdate (processingLeaseWhere i tok) (\<lambda>r. r\<lparr>pj_status := PjRetryWait, pj_token := None, pj_attempts := n,
       pj_pending := (case ids of None \<Rightarrow> pj_pending r | Some ids \<Rightarrow> Some (idsJson ids)), pj_nextAttemptAt := nxt,
       pj_lastError := Some e, pj_updatedAt := now\<rparr>)"
    by (rule liveUpdate_lease) (use stepRetry in \<open>auto simp: push_wf_def push_constants\<close>)
  then show ?thesis using stepRetry by (auto simp: retryPush_def underLease_def)
qed

lemma pushes_wf_insert:
  assumes "pushes_wf jobs"
  shows "pushes_wf (insertPushJob (newPushJob i actor activity prd now) jobs)"
proof -
  have "push_wf (newPushJob i actor activity prd now)" by (simp add: push_wf_def newPushJob_def push_constants)
  then show ?thesis using assms
    by (auto simp: pushes_wf_def insertPushJob_def insertOrIgnore_def keysUnique_def newPushJob_def)
qed

lemma pushes_wf_purge: "pushes_wf jobs \<Longrightarrow> pushes_wf (snd (purgeExpiredNotificationPushJobs now jobs))"
  unfolding pushes_wf_def purgeExpiredNotificationPushJobs_def purgeRows_def Let_def
  by (auto simp: keysUnique_deleteWhere list_all_deleteWhere)

lemma push_step_wf: "push_step jobs jobs' \<Longrightarrow> pushes_wf jobs \<Longrightarrow> pushes_wf jobs'"
  by (drule push_step_shape) (auto simp: liveUpdate_wf pushes_wf_insert pushes_wf_purge)

lemma push_reachable_wf: "push_step\<^sup>*\<^sup>* [] jobs \<Longrightarrow> pushes_wf jobs"
proof (induction rule: rtranclp_induct)
  case base
  show ?case by (simp add: pushes_wf_def keysUnique_def)
qed (rule push_step_wf)


text \<open>
  C30: A claimed push is settled once. Over any interleaving of claims, settlements, triggers,
  sweeps, dead-letter recoveries and lease refreshes on the table, if every claim draws a fresh
  token, no token settles its job twice, and a settlement whose lease was taken away changes
  nothing at all.
\<close>

theorem push_claim_settles_once:
  assumes "keysUnique pj_id jobs" and "tokensApart pushToken jobs evs" and "freshTokens evs"
  shows "distinct (map snd (fst (fenceRun claimPushRow settlePush sweepPush evs jobs))) \<and>
    (\<forall>i tok c. pushToken jobs i \<noteq> Some tok \<longrightarrow> settlePush i tok c jobs = (False, jobs))"
proof (intro conjI allI impI)
  show "distinct (map snd (fst (fenceRun claimPushRow settlePush sweepPush evs jobs)))"
    by (rule push_fence.settles_once [OF assms])
  fix i tok c
  assume "pushToken jobs i \<noteq> Some tok"
  then show "settlePush i tok c jobs = (False, jobs)"
    using push_fence.settle_owner [OF assms(1), of i tok c] push_fence.settle_stale [OF assms(1), of i tok c]
    by (cases "settlePush i tok c jobs") auto
qed

subsection \<open>The sweep\<close>

lemma purgeRows_updated: "r \<in> set (snd (purgeExpiredNotificationPushJobs now jobs)) \<Longrightarrow> r \<in> set jobs"
  using push_retention.purge_subset by blast

lemma reclaimed_fresh:
  "r \<in> set (reclaimStalePushJobs now jobs) \<Longrightarrow> inFlight (pj_status r) \<Longrightarrow> now - STALE_INFLIGHT_RECLAIM_MS < pj_updatedAt r"
  by (auto simp: reclaimStalePushJobs_def set_updateWhere lostMessage_def inFlight_def split: if_splits)

lemma due_sorted:
  assumes "r \<in> set (sort_key k xs)" "r \<notin> set (take n (sort_key k xs))"
  shows "n \<le> length (take n (sort_key k xs)) \<and> (\<forall>d \<in> set (take n (sort_key k xs)). (k d :: 'k :: linorder) \<le> k r)"
proof -
  let ?s = "sort_key k xs"
  have r: "r \<in> set (drop n ?s)" using assms by (metis append_take_drop_id in_set_conv_decomp set_append UnE)
  have "sorted (map k (take n ?s @ drop n ?s))" by simp
  then have "\<forall>d \<in> set (take n ?s). \<forall>x \<in> set (drop n ?s). k d \<le> k x" by (simp add: sorted_append del: append_take_drop_id)
  moreover have "drop n ?s \<noteq> []" using r by auto
  ultimately show ?thesis using r by auto
qed

text \<open>
  C31: No push is stranded. When a sweep with a producer ends, no job is in flight that was last
  touched fifteen minutes ago or more. If the producer took the batch, no job waits whose time has
  come and whose member has a device, unless the batch was full with fifty jobs at least as old,
  and every job the sweep marked as queued has a message on the queue. If the producer failed, no
  job is newly queued; without a producer the sweep only purges.
\<close>

theorem push_sweep_strands_nothing:
  assumes run: "enqueuePendingNotificationPushJobs queue isoNow now t = (res, t')"
  shows "(case queue of
      None \<Rightarrow> res = Inr 0 \<and> pt_jobs t' = snd (purgeExpiredNotificationPushJobs now (pt_jobs t)) \<and> pt_sent t' = pt_sent t
    | Some port \<Rightarrow>
       (\<forall>r \<in> set (pt_jobs t'). inFlight (pj_status r) \<longrightarrow> now - 15 * 60 * 1000 < pj_updatedAt r) \<and>
       (\<forall>e. res = Inl e \<longrightarrow> (\<forall>r \<in> set (pt_jobs t'). pj_status r = PjQueued \<longrightarrow> r \<in> set (pt_jobs t))) \<and>
       (\<forall>n. res = Inr n \<longrightarrow>
          (\<forall>r \<in> set (pt_jobs t'). waitingPush (pj_status r) \<and> pj_nextAttemptAt r \<le> now \<and>
             (\<exists>p \<in> set (pt_pushers t'). pu_actor p = pj_actor r) \<longrightarrow>
               n = 50 \<and> (\<exists>batch :: push_job list. length batch = 50 \<and> pt_sent t' = pt_sent t @ map (\<lambda>d. buildNotificationPushMessage isoNow (pj_id d)) batch \<and>
                 (\<forall>d \<in> set batch. pj_createdAt d \<le> pj_createdAt r))) \<and>
          (\<forall>r \<in> set (pt_jobs t'). pj_status r = PjQueued \<longrightarrow>
             r \<in> set (pt_jobs t) \<or> buildNotificationPushMessage isoNow (pj_id r) \<in> set (pt_sent t'))))"
proof (cases queue)
  case None
  then show ?thesis using run by (auto simp: enqueuePendingNotificationPushJobs_def Let_def)
next
  case (Some port)
  define purged where "purged = snd (purgeExpiredNotificationPushJobs now (pt_jobs t))"
  define jobs where "jobs = reclaimStalePushJobs now purged"
  define pushers where "pushers = snd (purgeExpiredNotificationPushers now (pt_pushers t))"
  define rows where "rows = duePushJobs now pushers jobs"
  define msgs where "msgs = map (\<lambda>r. buildNotificationPushMessage isoNow (pj_id r)) rows"
  have result: "(res, t') = (if rows = [] then (Inr 0, t\<lparr>pt_jobs := jobs, pt_pushers := pushers\<rparr>)
      else (case port msgs of
          Some k \<Rightarrow> (Inl ''queue unavailable'', t\<lparr>pt_jobs := jobs, pt_pushers := pushers, pt_sent := pt_sent t @ take k msgs\<rparr>)
        | None \<Rightarrow> (Inr (length rows),
            t\<lparr>pt_jobs := markPushQueued (map pj_id rows) now jobs, pt_pushers := pushers, pt_sent := pt_sent t @ msgs\<rparr>)))"
    unfolding run [symmetric] enqueuePendingNotificationPushJobs_def Let_def Some
    by (cases "port msgs") (simp_all add: jobs_def purged_def pushers_def rows_def msgs_def)
  have fresh: "now - 15 * 60 * 1000 < pj_updatedAt r" if "r \<in> set jobs" "inFlight (pj_status r)" for r
    using reclaimed_fresh that by (simp add: jobs_def STALE_INFLIGHT_RECLAIM_MS_def)
  have queued: "r \<in> set (pt_jobs t)" if "r \<in> set jobs" "pj_status r = PjQueued" for r
    using that purgeRows_updated unfolding jobs_def reclaimStalePushJobs_def purged_def
    by (auto simp: set_updateWhere lostMessage_def split: if_splits)
  have marked: "r \<in> set jobs \<and> \<not> (pj_id r \<in> pj_id ` set rows \<and> waitingPush (pj_status r)) \<or>
      (\<exists>q \<in> set jobs. pj_id q \<in> pj_id ` set rows \<and> r = q\<lparr>pj_status := PjQueued, pj_token := None, pj_updatedAt := now\<rparr>)"
    if "r \<in> set (markPushQueued (map pj_id rows) now jobs)" for r
    using that by (auto simp: markPushQueued_def set_updateWhere)
  let ?due = "filter (\<lambda>r. waitingPush (pj_status r) \<and> pj_nextAttemptAt r \<le> now \<and> list_ex (\<lambda>p. pu_actor p = pj_actor r) pushers) jobs"
  have late: "50 \<le> length rows \<and> (\<forall>d \<in> set rows. pj_createdAt d \<le> pj_createdAt r)"
    if "r \<in> set jobs" "waitingPush (pj_status r)" "pj_nextAttemptAt r \<le> now" "\<exists>p \<in> set pushers. pu_actor p = pj_actor r" "r \<notin> set rows" for r
  proof -
    have "r \<in> set (sort_key pj_createdAt ?due)" using that by (auto simp: list_ex_iff)
    from due_sorted [OF this, of MAX_QUEUE_SCAN] that(5) show ?thesis
      by (simp add: rows_def duePushJobs_def MAX_QUEUE_SCAN_def)
  qed
  have most: "length rows \<le> 50" by (simp add: rows_def duePushJobs_def MAX_QUEUE_SCAN_def)
  show ?thesis
  proof (cases "rows = []")
    case True
    then have "res = Inr 0" "t' = t\<lparr>pt_jobs := jobs, pt_pushers := pushers\<rparr>" using result by auto
    then show ?thesis using Some fresh queued late True by auto
  next
    case False
    show ?thesis
    proof (cases "port msgs")
      case None
      then have r: "res = Inr (length rows)"
        "t' = t\<lparr>pt_jobs := markPushQueued (map pj_id rows) now jobs, pt_pushers := pushers, pt_sent := pt_sent t @ msgs\<rparr>"
        using result False by auto
      have f: "\<forall>r \<in> set (pt_jobs t'). inFlight (pj_status r) \<longrightarrow> now - 15 * 60 * 1000 < pj_updatedAt r"
        using marked fresh by (fastforce simp: r(2))
      have w: "\<forall>r \<in> set (pt_jobs t'). waitingPush (pj_status r) \<and> pj_nextAttemptAt r \<le> now \<and>
             (\<exists>p \<in> set (pt_pushers t'). pu_actor p = pj_actor r) \<longrightarrow>
               length rows = 50 \<and> (\<forall>d \<in> set rows. pj_createdAt d \<le> pj_createdAt r)"
      proof (intro ballI impI)
        fix r'
        assume r': "r' \<in> set (pt_jobs t')" "waitingPush (pj_status r') \<and> pj_nextAttemptAt r' \<le> now \<and>
             (\<exists>p \<in> set (pt_pushers t'). pu_actor p = pj_actor r')"
        then have in': "r' \<in> set jobs" "pj_id r' \<notin> pj_id ` set rows" using marked [of r'] by (auto simp: r(2) waitingPush_def)
        then have "r' \<notin> set rows" by blast
        then show "length rows = 50 \<and> (\<forall>d \<in> set rows. pj_createdAt d \<le> pj_createdAt r')"
          using late [OF in'(1)] r' most by (simp add: r(2))
      qed
      have q: "\<forall>r \<in> set (pt_jobs t'). pj_status r = PjQueued \<longrightarrow>
             r \<in> set (pt_jobs t) \<or> buildNotificationPushMessage isoNow (pj_id r) \<in> set (pt_sent t')"
        using marked queued by (fastforce simp: r(2) msgs_def)
      have sent: "pt_sent t' = pt_sent t @ map (\<lambda>d. buildNotificationPushMessage isoNow (pj_id d)) rows" by (simp add: r(2) msgs_def)
      have "\<forall>r \<in> set (pt_jobs t'). waitingPush (pj_status r) \<and> pj_nextAttemptAt r \<le> now \<and>
             (\<exists>p \<in> set (pt_pushers t'). pu_actor p = pj_actor r) \<longrightarrow>
          length rows = 50 \<and> (\<exists>batch :: push_job list. length batch = 50 \<and> pt_sent t' = pt_sent t @ map (\<lambda>d. buildNotificationPushMessage isoNow (pj_id d)) batch \<and>
                 (\<forall>d \<in> set batch. pj_createdAt d \<le> pj_createdAt r))"
      proof (intro ballI impI)
        fix x
        assume x: "x \<in> set (pt_jobs t')" "waitingPush (pj_status x) \<and> pj_nextAttemptAt x \<le> now \<and> (\<exists>p \<in> set (pt_pushers t'). pu_actor p = pj_actor x)"
        have "length rows = 50 \<and> (\<forall>d \<in> set rows. pj_createdAt d \<le> pj_createdAt x)" using w x by blast
        then show "length rows = 50 \<and> (\<exists>batch :: push_job list. length batch = 50 \<and>
            pt_sent t' = pt_sent t @ map (\<lambda>d. buildNotificationPushMessage isoNow (pj_id d)) batch \<and> (\<forall>d \<in> set batch. pj_createdAt d \<le> pj_createdAt x))"
          using sent by (intro conjI exI [of _ rows]) simp_all
      qed
      note due = this
      show ?thesis unfolding Some option.case r(1)
      proof (intro conjI f allI impI)
        show "\<forall>r \<in> set (pt_jobs t'). pj_status r = PjQueued \<longrightarrow> r \<in> set (pt_jobs t)" if "(Inr (length rows) :: string + nat) = Inl e" for e
          using that by simp
        fix n
        assume "(Inr (length rows) :: string + nat) = Inr n"
        then have n: "n = length rows" by simp
        show "\<forall>r \<in> set (pt_jobs t'). waitingPush (pj_status r) \<and> pj_nextAttemptAt r \<le> now \<and>
             (\<exists>p \<in> set (pt_pushers t'). pu_actor p = pj_actor r) \<longrightarrow>
               n = 50 \<and> (\<exists>batch :: push_job list. length batch = 50 \<and> pt_sent t' = pt_sent t @ map (\<lambda>d. buildNotificationPushMessage isoNow (pj_id d)) batch \<and>
                 (\<forall>d \<in> set batch. pj_createdAt d \<le> pj_createdAt r))" unfolding n by (rule due)
        show "\<forall>r \<in> set (pt_jobs t'). pj_status r = PjQueued \<longrightarrow>
             r \<in> set (pt_jobs t) \<or> buildNotificationPushMessage isoNow (pj_id r) \<in> set (pt_sent t')" by (rule q)
      qed
    next
      case (Some k)
      then have "res = Inl ''queue unavailable''"
        "t' = t\<lparr>pt_jobs := jobs, pt_pushers := pushers, pt_sent := pt_sent t @ take k msgs\<rparr>" using result False by auto
      then show ?thesis using \<open>queue = Some port\<close> fresh queued by auto
    qed
  qed
qed


subsection \<open>Examples\<close>

definition examplePush :: push_job where
  "examplePush = newPushJob ''j'' ''ann'' ''like'' None 0"

definition ownedPush :: push_job where
  "ownedPush = examplePush\<lparr>pj_status := PjProcessing, pj_token := Some ''t1'', pj_updatedAt := 5\<rparr>"

definition examplePusher :: pusher where
  "examplePusher =
     \<lparr>pu_id = ''p'', pu_actor = ''ann'', pu_product = Yurucommu, pu_scope = None, pu_kind = ''http'', pu_appId = ''app'',
      pu_pushkey = ''key'', pu_pushkeyHash = ''hash'', pu_appDisplayName = None, pu_deviceDisplayName = None, pu_profileTag = None, pu_lang = None, pu_data = Some (JObj []), pu_gatewayUrl = ''https://gw.example/'',
      pu_createdAt = 0, pu_updatedAt = 0, pu_lastSeenAt = 0\<rparr>"

lemma claim_example: "claimPushRow ''j'' ''t1'' (examplePush, 5) [examplePush] = Some [ownedPush]"
  by (simp add: claimPushRow_def claimPush_def examplePush_def ownedPush_def newPushJob_def push_constants affectedRows_def)

lemma push_example_reachable: "push_step\<^sup>*\<^sup>* [] [ownedPush]"
proof -
  have "push_step [] (sweepPush (SwInsert ''j'' ''ann'' ''like'' None 0) [])" by (rule stepSweep)
  moreover have "sweepPush (SwInsert ''j'' ''ann'' ''like'' None 0) [] = [examplePush]"
    by (simp add: insertPushJob_def insertOrIgnore_def examplePush_def)
  ultimately have "push_step\<^sup>*\<^sup>* [] [examplePush]" by auto
  then show ?thesis using stepClaim [OF claim_example] by simp
qed


theorem push_claim_settles_once_witness:
  "distinct (map snd (fst (fenceRun claimPushRow settlePush sweepPush
     [EvClaim ''j'' ''t1'' (examplePush, 5), EvSettle ''j'' ''t1'' (PushFinished None 6), EvSettle ''j'' ''t1'' (PushFinished None 7)]
     [examplePush]))) \<and> settlePush ''j'' ''t0'' (PushFinished None 6) [examplePush] = (False, [examplePush])"
proof -
  let ?evs = "[EvClaim ''j'' ''t1'' (examplePush, 5), EvSettle ''j'' ''t1'' (PushFinished None 6), EvSettle ''j'' ''t1'' (PushFinished None 7)]
    :: (string, push_job \<times> ms, push_settlement, push_sweep) fence_event list"
  have none: "pushToken [examplePush] k = None" for k
    by (simp add: pushToken_def leaseOf_def examplePush_def newPushJob_def)
  have "keysUnique pj_id [examplePush]" by (simp add: keysUnique_def)
  moreover have "tokensApart pushToken [examplePush] ?evs" by (simp add: tokensApart_def none)
  moreover have "freshTokens ?evs" by (simp add: freshTokens_def List.map_filter_simps)
  ultimately have settled: "distinct (map snd (fst (fenceRun claimPushRow settlePush sweepPush ?evs [examplePush]))) \<and>
    (\<forall>i tok c. pushToken [examplePush] i \<noteq> Some tok \<longrightarrow> settlePush i tok c [examplePush] = (False, [examplePush]))"
    by (rule push_claim_settles_once)
  have "pushToken [examplePush] ''j'' \<noteq> Some ''t0''" by (simp add: none)
  then show ?thesis using settled by blast
qed

lemma sweep_example:
  "enqueuePendingNotificationPushJobs (Some (\<lambda>msgs. None)) ''now'' 100 \<lparr>pt_jobs = [examplePush], pt_pushers = [examplePusher], pt_sent = []\<rparr> =
     (Inr 1, \<lparr>pt_jobs = [examplePush\<lparr>pj_status := PjQueued, pj_updatedAt := 100\<rparr>], pt_pushers = [examplePusher],
       pt_sent = [buildNotificationPushMessage ''now'' ''j'']\<rparr>)"
  by (simp add: enqueuePendingNotificationPushJobs_def Let_def purgeExpiredNotificationPushJobs_def purgeExpiredNotificationPushers_def
      purgeRows_def selectPurge_def expired_def examplePush_def newPushJob_def examplePusher_def reclaimStalePushJobs_def duePushJobs_def
      markPushQueued_def push_constants MAX_QUEUE_SCAN_def NOTIFICATION_PUSH_JOB_RETENTION_DAYS_def NOTIFICATION_PUSHER_RETENTION_DAYS_def)

theorem push_sweep_strands_nothing_witness:
  "buildNotificationPushMessage ''now'' ''j''
     \<in> set (pt_sent (snd (enqueuePendingNotificationPushJobs (Some (\<lambda>msgs. None)) ''now'' 100
         \<lparr>pt_jobs = [examplePush], pt_pushers = [examplePusher], pt_sent = []\<rparr>)))"
  using push_sweep_strands_nothing [OF sweep_example] unfolding sweep_example
  by (simp add: examplePush_def newPushJob_def)

end
