(* ===== verification/WebPushKeys.thy ===== *)
theory WebPushKeys
  imports NetAddr "HOL-Library.Signed_Division"
begin

section \<open>Bytes and keys of Web Push\<close>

text \<open>
  Models the byte helpers of \<open>src/backend/lib/web-push/bytes.ts\<close> (base64url and big-endian
  integers), the P-256 arithmetic of \<open>web-push/p256.ts\<close> and the derivation of the instance's key
  in \<open>web-push/vapid.ts\<close>. A \<open>Uint8Array\<close> is a list of bytes, a \<open>bigint\<close> an integer; HKDF is a
  parameter. \<open>btoa\<close> and \<open>atob\<close> are the ones of the web platform.
\<close>

type_synonym bytes = "8 word list"

definition utf8 :: "string \<Rightarrow> bytes" where
  "utf8 s = concat (map (\<lambda>c. let n = (of_char c :: nat)
     in if n < 128 then [of_nat n] else [of_nat (192 + n div 64), of_nat (128 + n mod 64)]) s)"

definition concatBytes :: "bytes list \<Rightarrow> bytes" where
  "concatBytes parts = concat parts"

subsection \<open>base64\<close>

definition base64Alphabet :: string where
  "base64Alphabet = ''ABCDEFGHIJKLMNOPQRSTUVWXYZabcdefghijklmnopqrstuvwxyz0123456789+/''"

definition base64Char :: "nat \<Rightarrow> char" where
  "base64Char n = base64Alphabet ! n"

fun indexOf :: "'a \<Rightarrow> 'a list \<Rightarrow> nat option" where
  "indexOf x [] = None"
| "indexOf x (y # ys) = (if x = y then Some 0 else map_option Suc (indexOf x ys))"

text \<open>\<open>btoa\<close>: three code units give four characters, a rest is padded.\<close>

fun btoaUnits :: "nat list \<Rightarrow> string" where
  "btoaUnits [] = []"
| "btoaUnits [a] = [base64Char (a div 4), base64Char (a mod 4 * 16), CHR ''='', CHR ''='']"
| "btoaUnits [a, b] = [base64Char (a div 4), base64Char (a mod 4 * 16 + b div 16), base64Char (b mod 16 * 4), CHR ''='']"
| "btoaUnits (a # b # c # xs) =
     base64Char (a div 4) # base64Char (a mod 4 * 16 + b div 16) # base64Char (b mod 16 * 4 + c div 64) # base64Char (c mod 64)
       # btoaUnits xs"

definition btoa :: "string \<Rightarrow> string" where
  "btoa s = btoaUnits (map of_char s)"

text \<open>
  \<open>atob\<close>: white space is dropped, then up to two padding characters of a text whose length is a
  multiple of four; \<open>None\<close> is the \<open>InvalidCharacterError\<close>. The bits of an incomplete last
  group are dropped.
\<close>

definition asciiSpace :: "char \<Rightarrow> bool" where
  "asciiSpace c = ((of_char c :: nat) \<in> {9, 10, 12, 13, 32})"

definition dropPadding :: "string \<Rightarrow> string" where
  "dropPadding s =
     (if length s mod 4 = 0 \<and> endsWith s ''=='' then take (length s - 2) s
      else if length s mod 4 = 0 \<and> endsWith s ''='' then take (length s - 1) s
      else s)"

fun octets64 :: "nat list \<Rightarrow> nat list" where
  "octets64 (a # b # c # d # xs) = (a * 4 + b div 16) # (b mod 16 * 16 + c div 4) # (c mod 4 * 64 + d) # octets64 xs"
| "octets64 [a, b, c] = [a * 4 + b div 16, b mod 16 * 16 + c div 4]"
| "octets64 [a, b] = [a * 4 + b div 16]"
| "octets64 _ = []"

definition atob :: "string \<Rightarrow> string option" where
  "atob input =
     (let s = dropPadding (filter (\<lambda>c. \<not> asciiSpace c) input)
      in if length s mod 4 = 1 then None
         else if list_all (\<lambda>c. c \<in> set base64Alphabet) s
           then Some (map char_of (octets64 (map (\<lambda>c. the (indexOf c base64Alphabet)) s)))
         else None)"

text \<open>\<open>replace(/=+$/, "")\<close>\<close>

definition trimPadding :: "string \<Rightarrow> string" where
  "trimPadding s = rev (dropWhile (\<lambda>c. c = CHR ''='') (rev s))"

definition replaceChar :: "char \<Rightarrow> char \<Rightarrow> string \<Rightarrow> string" where
  "replaceChar a b s = map (\<lambda>c. if c = a then b else c) s"

definition base64UrlEncode :: "bytes \<Rightarrow> string" where
  "base64UrlEncode bytes =
     (let binary = map (\<lambda>b. char_of (unat b)) bytes
      in trimPadding (replaceChar CHR ''/'' CHR ''_'' (replaceChar CHR ''+'' CHR ''-'' (btoa binary))))"

text \<open>\<open>[A-Za-z0-9_-]\<close>\<close>

definition urlSafeChar :: "char \<Rightarrow> bool" where
  "urlSafeChar c =
     (let n = (of_char c :: nat)
      in isDigit c \<or> (65 \<le> n \<and> n \<le> 90) \<or> (97 \<le> n \<and> n \<le> 122) \<or> c = CHR ''_'' \<or> c = CHR ''-'')"

definition padEnd :: "string \<Rightarrow> nat \<Rightarrow> char \<Rightarrow> string" where
  "padEnd s n c = s @ replicate (n - length s) c"

definition base64UrlDecode :: "string \<Rightarrow> bytes option" where
  "base64UrlDecode value =
     (if \<not> list_all urlSafeChar value \<or> length value mod 4 = 1 then None
      else
        (let base64 = replaceChar CHR ''_'' CHR ''/'' (replaceChar CHR ''-'' CHR ''+'' value);
             padded = padEnd base64 (nat (ceilDiv (int (length base64)) 4) * 4) CHR ''=''
         in case atob padded of
              None \<Rightarrow> None
            | Some binary \<Rightarrow>
                (let bytes = map (\<lambda>c. of_nat (of_char c)) binary
                 in if base64UrlEncode bytes = value then Some bytes else None)))"

subsection \<open>Big-endian integers\<close>

definition bytesToBigInt :: "bytes \<Rightarrow> int" where
  "bytesToBigInt bytes = foldl (\<lambda>value byte. or (push_bit 8 value) (uint byte)) 0 bytes"

text \<open>The loop over the indices from the last to the first, and the check of what is left.\<close>

fun toBytesLoop :: "nat \<Rightarrow> int \<Rightarrow> bytes \<Rightarrow> int \<times> bytes" where
  "toBytesLoop 0 remaining acc = (remaining, acc)"
| "toBytesLoop (Suc n) remaining acc = toBytesLoop n (drop_bit 8 remaining) (of_int (and remaining 255) # acc)"

definition bigIntToBytes :: "int \<Rightarrow> nat \<Rightarrow> string + bytes" where
  "bigIntToBytes value len =
     (case toBytesLoop len value [] of
        (remaining, result) \<Rightarrow> if remaining \<noteq> 0 then Inl ''integer does not fit'' else Inr result)"

subsection \<open>P-256\<close>

definition P256_P :: int where "P256_P = 0xffffffff00000001000000000000000000000000ffffffffffffffffffffffff"
definition P256_ORDER :: int where "P256_ORDER = 0xffffffff00000000ffffffffffffffffbce6faada7179e84f3b9cac2fc632551"
definition P256_B :: int where "P256_B = 0x5ac635d8aa3a93e7b3ebbd55769886bc651d06b0cc53b0f63bce3c3e27d2604b"
definition GX :: int where "GX = 0x6b17d1f2e12c4247f8bce6e563a440f277037d812deb33a0f4a13945d898c296"
definition GY :: int where "GY = 0x4fe342e2fe1a7f9b8ee7eb4a7c0f9e162bce33576b315ececbb6406837bf51f5"

type_synonym jacobian = "int \<times> int \<times> int"

definition INFINITY :: jacobian where "INFINITY = (0, 1, 0)"

text \<open>\<open>%\<close> on a \<open>bigint\<close> rounds towards zero.\<close>

definition modP :: "int \<Rightarrow> int" where
  "modP value = (let result = value smod P256_P in if 0 \<le> result then result else result + P256_P)"

function modPowLoop :: "int \<Rightarrow> int \<Rightarrow> int \<Rightarrow> int" where
  "modPowLoop result factor remaining =
     (if 0 < remaining
      then modPowLoop (if odd remaining then modP (result * factor) else result) (modP (factor * factor)) (remaining div 2)
      else result)"
  by auto
termination by (relation "measure (\<lambda>(result, factor, remaining). nat remaining)") auto

declare modPowLoop.simps [simp del]

definition modPow :: "int \<Rightarrow> int \<Rightarrow> int" where
  "modPow base exponent = modPowLoop 1 (modP base) exponent"

definition doubleP :: "jacobian \<Rightarrow> jacobian" where
  "doubleP pt = (case pt of (x1, y1, z1) \<Rightarrow>
     if z1 = 0 \<or> y1 = 0 then INFINITY
     else
       (let delta = modP (z1 * z1); gamma = modP (y1 * y1); beta = modP (x1 * gamma);
            alpha = modP (3 * (x1 - delta) * (x1 + delta));
            x3 = modP (alpha * alpha - 8 * beta);
            z3 = modP ((y1 + z1) * (y1 + z1) - gamma - delta);
            y3 = modP (alpha * (4 * beta - x3) - 8 * gamma * gamma)
        in (x3, y3, z3)))"

definition addP :: "jacobian \<Rightarrow> jacobian \<Rightarrow> jacobian" where
  "addP l r0 = (case l of (x1, y1, z1) \<Rightarrow> case r0 of (x2, y2, z2) \<Rightarrow>
     if z1 = 0 then r0
     else if z2 = 0 then l
     else
       (let z1z1 = modP (z1 * z1); z2z2 = modP (z2 * z2);
            u1 = modP (x1 * z2z2); u2 = modP (x2 * z1z1);
            s1 = modP (y1 * z2 * z2z2); s2 = modP (y2 * z1 * z1z1);
            h = modP (u2 - u1); r = modP (2 * (s2 - s1))
        in if h = 0 then (if r = 0 then doubleP l else INFINITY)
           else
             (let i = modP (4 * h * h); j = modP (h * i); v = modP (u1 * i);
                  x3 = modP (r * r - j - 2 * v);
                  y3 = modP (r * (v - x3) - 2 * s1 * j);
                  z3 = modP (((z1 + z2) * (z1 + z2) - z1z1 - z2z2) * h)
              in (x3, y3, z3))))"

function scalarLoop :: "jacobian \<Rightarrow> jacobian \<Rightarrow> int \<Rightarrow> jacobian" where
  "scalarLoop result addend remaining =
     (if 0 < remaining
      then scalarLoop (if odd remaining then addP result addend else result) (doubleP addend) (remaining div 2)
      else result)"
  by auto
termination by (relation "measure (\<lambda>(result, addend, remaining). nat remaining)") auto

declare scalarLoop.simps [simp del]

definition p256PublicKeyFromPrivate :: "bytes \<Rightarrow> string + bytes" where
  "p256PublicKeyFromPrivate privateKey =
     (if length privateKey \<noteq> 32 then Inl ''P-256 private key must be 32 bytes''
      else
        (let scalar = bytesToBigInt privateKey
         in if scalar \<le> 0 \<or> P256_ORDER \<le> scalar then Inl ''P-256 private key is out of range''
            else
              (case scalarLoop INFINITY (GX, GY, 1) scalar of (x, y, z) \<Rightarrow>
                 (let zInverse = modPow z (P256_P - 2);
                      zInverse2 = modP (zInverse * zInverse);
                      affineX = modP (x * zInverse2);
                      affineY = modP (y * zInverse2 * zInverse)
                  in case bigIntToBytes affineX 32 of
                       Inl e \<Rightarrow> Inl e
                     | Inr bx \<Rightarrow>
                         (case bigIntToBytes affineY 32 of
                            Inl e \<Rightarrow> Inl e
                          | Inr byt \<Rightarrow> Inr (concatBytes [[0x04], bx, byt]))))))"

definition isP256UncompressedPoint :: "bytes \<Rightarrow> bool" where
  "isP256UncompressedPoint point =
     (if length point \<noteq> 65 \<or> point ! 0 \<noteq> 0x04 then False
      else
        (let x = bytesToBigInt (take 32 (drop 1 point)); y = bytesToBigInt (take 32 (drop 33 point))
         in if P256_P \<le> x \<or> P256_P \<le> y then False
            else modP (y * y) = modP (x * x * x - 3 * x + P256_B)))"

subsection \<open>The instance's key\<close>

definition MAX_DERIVATION_ATTEMPTS :: nat where "MAX_DERIVATION_ATTEMPTS = 256"

text \<open>HKDF is a parameter: the bits it derives from the imported secret and an info.\<close>

fun deriveLoop :: "(bytes \<Rightarrow> bytes) \<Rightarrow> string \<Rightarrow> nat list \<Rightarrow> string + bytes" where
  "deriveLoop deriveBits label [] = Inl ''VAPID key derivation did not produce a valid scalar''"
| "deriveLoop deriveBits label (counter # counters) =
     (let key = deriveBits (concatBytes [utf8 label, [0x00, of_nat counter]]);
          scalar = bytesToBigInt key
      in if 0 < scalar \<and> scalar < P256_ORDER then Inr key else deriveLoop deriveBits label counters)"

definition deriveVapidPrivateScalar :: "(bytes \<Rightarrow> bytes \<Rightarrow> bytes) \<Rightarrow> bytes \<Rightarrow> string \<Rightarrow> string + bytes" where
  "deriveVapidPrivateScalar hkdf secret label =
     (if length secret < 16 then Inl ''VAPID derivation secret must be at least 16 bytes''
      else deriveLoop (hkdf secret) label [0 ..< MAX_DERIVATION_ATTEMPTS])"

text \<open>A secret is 64 hexadecimal digits.\<close>

definition parseVapidDerivationSecret :: "string option \<Rightarrow> bytes option" where
  "parseVapidDerivationSecret value =
     (let text = trim (case value of None \<Rightarrow> [] | Some v \<Rightarrow> v)
      in if length text = 64 \<and> list_all isHexDigit (toLowerCase text)
         then (case bigIntToBytes (hexNumber (toLowerCase text)) 32 of Inl e \<Rightarrow> None | Inr b \<Rightarrow> Some b)
         else None)"


definition VAPID_KEY_LABEL :: string where "VAPID_KEY_LABEL = ''yurucommu/web-push/vapid/v1''"

text \<open>The private scalar and the public point of a key pair; the imported signing key is the scalar.\<close>

record vapid_pair =
  vp_private :: bytes
  vp_public :: bytes
  vp_publicBase64Url :: string

definition importVapidKeyPair :: "bytes \<Rightarrow> string + vapid_pair" where
  "importVapidKeyPair privateScalar =
     (case p256PublicKeyFromPrivate privateScalar of
        Inl e \<Rightarrow> Inl e
      | Inr pub \<Rightarrow> Inr \<lparr>vp_private = privateScalar, vp_public = pub, vp_publicBase64Url = base64UrlEncode pub\<rparr>)"

definition deriveVapidKeyPair :: "(bytes \<Rightarrow> bytes \<Rightarrow> bytes) \<Rightarrow> bytes \<Rightarrow> string \<Rightarrow> string + vapid_pair" where
  "deriveVapidKeyPair hkdf secret label =
     (case deriveVapidPrivateScalar hkdf secret label of Inl e \<Rightarrow> Inl e | Inr d \<Rightarrow> importVapidKeyPair d)"

text \<open>The cache of the isolate holds this value for the current secret; a failure is not kept.\<close>

definition getInstanceVapidKeyPair :: "(bytes \<Rightarrow> bytes \<Rightarrow> bytes) \<Rightarrow> string option \<Rightarrow> string + vapid_pair option" where
  "getInstanceVapidKeyPair hkdf encryptionKey =
     (case parseVapidDerivationSecret encryptionKey of
        None \<Rightarrow> Inr None
      | Some secret \<Rightarrow> map_sum id Some (deriveVapidKeyPair hkdf secret VAPID_KEY_LABEL))"

subsection \<open>base64url has one spelling for every value\<close>

fun sextets :: "nat list \<Rightarrow> nat list" where
  "sextets [] = []"
| "sextets [a] = [a div 4, a mod 4 * 16]"
| "sextets [a, b] = [a div 4, a mod 4 * 16 + b div 16, b mod 16 * 4]"
| "sextets (a # b # c # xs) = (a div 4) # (a mod 4 * 16 + b div 16) # (b mod 16 * 4 + c div 64) # (c mod 64) # sextets xs"

definition base64UrlAlphabet :: string where
  "base64UrlAlphabet = ''ABCDEFGHIJKLMNOPQRSTUVWXYZabcdefghijklmnopqrstuvwxyz0123456789-_''"

definition urlChar :: "nat \<Rightarrow> char" where
  "urlChar n = base64UrlAlphabet ! n"

lemma indexOf_nth: "distinct xs \<Longrightarrow> n < length xs \<Longrightarrow> indexOf (xs ! n) xs = Some n"
proof (induction xs arbitrary: n)
  case (Cons x xs)
  then show ?case by (cases n) auto
qed simp

lemma alphabet_facts:
  "length base64Alphabet = 64" "length base64UrlAlphabet = 64" "distinct base64Alphabet"
  "CHR ''='' \<notin> set base64UrlAlphabet" "CHR ''='' \<notin> set base64Alphabet"
  "replaceChar CHR ''/'' CHR ''_'' (replaceChar CHR ''+'' CHR ''-'' base64Alphabet) = base64UrlAlphabet"
  "replaceChar CHR ''_'' CHR ''/'' (replaceChar CHR ''-'' CHR ''+'' base64UrlAlphabet) = base64Alphabet"
  by (simp_all add: base64Alphabet_def base64UrlAlphabet_def replaceChar_def)

lemma alphabet_classes: "list_all (\<lambda>c. \<not> asciiSpace c) base64Alphabet" "list_all urlSafeChar base64UrlAlphabet"
  by (simp_all add: base64Alphabet_def base64UrlAlphabet_def asciiSpace_def urlSafeChar_def isDigit_def)

lemma replaceChar_nth: "n < length s \<Longrightarrow> replaceChar a b s ! n = (if s ! n = a then b else s ! n)"
  by (simp add: replaceChar_def)

lemma length_replaceChar [simp]: "length (replaceChar a b s) = length s"
  by (simp add: replaceChar_def)

lemma base64_digit:
  assumes "n < 64"
  shows "indexOf (base64Char n) base64Alphabet = Some n" "base64Char n \<in> set base64Alphabet" "base64Char n \<noteq> CHR ''=''"
    "\<not> asciiSpace (base64Char n)" "urlSafeChar (urlChar n)" "urlChar n \<noteq> CHR ''=''"
    "replaceChar CHR ''/'' CHR ''_'' (replaceChar CHR ''+'' CHR ''-'' [base64Char n]) = [urlChar n]"
    "replaceChar CHR ''_'' CHR ''/'' (replaceChar CHR ''-'' CHR ''+'' [urlChar n]) = [base64Char n]"
proof -
  have n: "n < length base64Alphabet" "n < length base64UrlAlphabet" using assms by (simp_all add: alphabet_facts)
  show "indexOf (base64Char n) base64Alphabet = Some n" using n alphabet_facts(3) by (simp add: base64Char_def indexOf_nth)
  show m: "base64Char n \<in> set base64Alphabet" using n by (simp add: base64Char_def)
  have u: "urlChar n \<in> set base64UrlAlphabet" using n by (simp add: urlChar_def)
  show "base64Char n \<noteq> CHR ''=''" "urlChar n \<noteq> CHR ''=''" using m u alphabet_facts(4,5) by metis+
  show "\<not> asciiSpace (base64Char n)" "urlSafeChar (urlChar n)" using m u alphabet_classes by (simp_all add: list_all_iff)
  have "replaceChar CHR ''/'' CHR ''_'' (replaceChar CHR ''+'' CHR ''-'' base64Alphabet) ! n = urlChar n"
    "replaceChar CHR ''_'' CHR ''/'' (replaceChar CHR ''-'' CHR ''+'' base64UrlAlphabet) ! n = base64Char n"
    by (simp_all add: alphabet_facts(6,7) urlChar_def base64Char_def)
  then show "replaceChar CHR ''/'' CHR ''_'' (replaceChar CHR ''+'' CHR ''-'' [base64Char n]) = [urlChar n]"
    "replaceChar CHR ''_'' CHR ''/'' (replaceChar CHR ''-'' CHR ''+'' [urlChar n]) = [base64Char n]"
    using n by (simp_all add: replaceChar_nth base64Char_def urlChar_def replaceChar_def)
qed

lemma replace_map:
  assumes "\<And>x. x \<in> set xs \<Longrightarrow> replaceChar a b (replaceChar c d [f x]) = [g x]"
  shows "replaceChar a b (replaceChar c d (map f xs)) = map g xs"
proof -
  have "replaceChar a b (replaceChar c d (map f xs)) = concat (map (\<lambda>x. replaceChar a b (replaceChar c d [f x])) xs)"
    by (induction xs) (simp_all add: replaceChar_def)
  also have "\<dots> = concat (map (\<lambda>x. [g x]) xs)" using assms by (simp cong: map_cong)
  finally show ?thesis by simp
qed

lemma sextets_bound: "list_all (\<lambda>n. n < 256) xs \<Longrightarrow> n \<in> set (sextets xs) \<Longrightarrow> n < 64"
  by (induction xs rule: sextets.induct) (auto simp: less_mult_imp_div_less)

lemma sextets_length: "length (sextets xs) mod 4 \<noteq> 1"
  by (induction xs rule: sextets.induct) auto

lemma byte_split:
  fixes b :: nat
  assumes "b < 256"
  shows "b div 16 div 16 = 0" "b div 16 mod 16 = b div 16" "b div 64 div 4 = 0" "b div 64 mod 4 = b div 64"
proof -
  have "b div 16 < 16" "b div 64 < 4" using assms by simp_all
  then show "b div 16 div 16 = 0" "b div 16 mod 16 = b div 16" "b div 64 div 4 = 0" "b div 64 mod 4 = b div 64" by simp_all
qed

lemma octets64_sextets: "list_all (\<lambda>n. n < 256) xs \<Longrightarrow> octets64 (sextets xs) = xs"
  by (induction xs rule: sextets.induct) (simp_all add: byte_split)

lemma btoaUnits_sextets: "\<exists>k. btoaUnits xs = map base64Char (sextets xs) @ replicate k CHR ''=''"
proof (induction xs rule: btoaUnits.induct)
  case 1
  show ?case by (rule exI [of _ 0]) simp
next
  case (2 a)
  show ?case by (rule exI [of _ 2]) (simp add: numeral_2_eq_2)
next
  case (3 a b)
  show ?case by (rule exI [of _ 1]) simp
next
  case (4 a b c xs)
  then obtain k where "btoaUnits xs = map base64Char (sextets xs) @ replicate k CHR ''=''" by blast
  then show ?case by (intro exI [of _ k]) simp
qed

lemma trimPadding_append:
  "list_all (\<lambda>c. c \<noteq> CHR ''='') s \<Longrightarrow> trimPadding (s @ replicate k CHR ''='') = s"
proof -
  assume s: "list_all (\<lambda>c. c \<noteq> CHR ''='') s"
  have "dropWhile (\<lambda>c. c = CHR ''='') (rev s) = rev s" using s by (cases s rule: rev_cases) auto
  then show ?thesis by (simp add: trimPadding_def dropWhile_append)
qed

lemma byte_bound: "unat (b :: 8 word) < 256"
  using unsigned_less [of b] by simp

lemma base64UrlEncode_sextets: "base64UrlEncode bs = map urlChar (sextets (map unat bs))"
proof -
  have small: "list_all (\<lambda>n. n < 256) (map unat bs)" for bs :: bytes
    using byte_bound by (auto simp: list_all_iff)
  have units: "map of_char (map (\<lambda>b. char_of (unat b)) bs) = map unat bs"
    using byte_bound by (simp add: of_char_mod_256 comp_def)
  obtain k where k: "btoaUnits (map unat bs) = map base64Char (sextets (map unat bs)) @ replicate k CHR ''=''"
    using btoaUnits_sextets by blast
  have "replaceChar CHR ''/'' CHR ''_'' (replaceChar CHR ''+'' CHR ''-'' (map base64Char (sextets (map unat bs)))) = map urlChar (sextets (map unat bs))"
    using base64_digit(7) sextets_bound [OF small] by (intro replace_map) blast
  then have "replaceChar CHR ''/'' CHR ''_'' (replaceChar CHR ''+'' CHR ''-'' (btoaUnits (map unat bs))) =
      map urlChar (sextets (map unat bs)) @ replicate k CHR ''=''"
    by (simp add: k replaceChar_def)
  moreover have "list_all (\<lambda>c. c \<noteq> CHR ''='') (map urlChar (sextets (map unat bs)))"
    using base64_digit(6) sextets_bound [OF small] by (auto simp: list_all_iff)
  ultimately show ?thesis by (simp only: base64UrlEncode_def Let_def btoa_def units trimPadding_append)
qed


lemma endsWith_mem: "endsWith s p \<Longrightarrow> c \<in> set p \<Longrightarrow> c \<in> set s"
  unfolding endsWith_def by (metis in_set_dropD)

lemma atob_digits:
  assumes digits: "list_all (\<lambda>n. n < 64) ns" and len: "length ns mod 4 \<noteq> 1"
    and k: "k = nat (ceilDiv (int (length ns)) 4) * 4 - length ns"
  shows "atob (map base64Char ns @ replicate k CHR ''='') = Some (map char_of (octets64 ns))"
proof -
  let ?s = "map base64Char ns"
  have k': "k = (if length ns mod 4 = 0 then 0 else 4 - length ns mod 4)"
  proof -
    have "- (- m div 4) = (m + 3) div 4" for m :: int by presburger
    then have "ceilDiv (int (length ns)) 4 = int ((length ns + 3) div 4)" by (simp add: ceilDiv_def zdiv_int)
    then show ?thesis using k by simp presburger
  qed
  have d: "n < 64" if "n \<in> set ns" for n using digits that by (simp add: list_all_iff)
  have nopad: "CHR ''='' \<notin> set ?s"
  proof
    assume "CHR ''='' \<in> set ?s"
    then obtain n where "n \<in> set ns" "base64Char n = CHR ''=''" by auto
    then show False using base64_digit(3) d by blast
  qed
  have "filter (\<lambda>c. \<not> asciiSpace c) (?s @ replicate k CHR ''='') = ?s @ replicate k CHR ''=''"
    using base64_digit(4) d by (auto simp: filter_id_conv asciiSpace_def)
  moreover have "dropPadding (?s @ replicate k CHR ''='') = ?s"
  proof -
    consider "length ns mod 4 = 0" "k = 0" | "length ns mod 4 = 3" "k = 1" | "length ns mod 4 = 2" "k = 2"
    proof -
      have "length ns mod 4 = 0 \<or> length ns mod 4 = 3 \<or> length ns mod 4 = 2" using len by presburger
      then show thesis using that k' by auto
    qed
    then show ?thesis
    proof cases
      case 1
      have "\<not> endsWith ?s ''=''" "\<not> endsWith ?s ''==''" using nopad endsWith_mem by fastforce+
      then show ?thesis using 1 by (simp add: dropPadding_def)
    next
      case 2
      then have "(length ns + 1) mod 4 = 0" by presburger
      moreover have "\<not> endsWith (?s @ [CHR ''='']) ''==''"
      proof
        assume e: "endsWith (?s @ [CHR ''='']) ''==''"
        then have "CHR ''='' \<in> set ?s"
          by (cases ns rule: rev_cases) (auto simp: endsWith_def)
        then show False using nopad by simp
      qed
      ultimately show ?thesis using 2 by (simp add: dropPadding_def endsWith_def)
    next
      case 3
      then have "(length ns + 2) mod 4 = 0" by presburger
      then show ?thesis using 3 by (simp add: dropPadding_def endsWith_def numeral_2_eq_2)
    qed
  qed
  moreover have "list_all (\<lambda>c. c \<in> set base64Alphabet) ?s" using base64_digit(2) d by (auto simp: list_all_iff)
  moreover have "map (\<lambda>c. the (indexOf c base64Alphabet)) ?s = ns" using base64_digit(1) d by (simp add: comp_def map_idI)
  ultimately show ?thesis using len by (simp add: atob_def Let_def)
qed

text \<open>
  base64url has one spelling for every value. Decoding a text gives bytes exactly when the
  text is their encoding: everything that was encoded decodes to itself, and paddings, white
  space, the other alphabet, impossible lengths and stray low bits are refused.
\<close>

theorem base64url_round_trip:
  "base64UrlDecode value = Some bs \<longleftrightarrow> value = base64UrlEncode bs"
proof
  assume "base64UrlDecode value = Some bs"
  then show "value = base64UrlEncode bs" by (auto simp: base64UrlDecode_def Let_def split: if_splits option.splits)
next
  assume v: "value = base64UrlEncode bs"
  define ns where "ns = sextets (map unat bs)"
  have small: "list_all (\<lambda>n. n < 256) (map unat bs)" using byte_bound by (simp add: list_all_iff)
  have digits: "n < 64" if "n \<in> set ns" for n using sextets_bound [OF small] that unfolding ns_def .
  have vdigits: "value = map urlChar ns" by (simp add: v base64UrlEncode_sextets ns_def)
  have safe: "list_all urlSafeChar value" using base64_digit(5) digits by (auto simp: vdigits list_all_iff)
  have len: "length ns mod 4 \<noteq> 1" unfolding ns_def by (rule sextets_length)
  have plain: "replaceChar CHR ''_'' CHR ''/'' (replaceChar CHR ''-'' CHR ''+'' value) = map base64Char ns"
    unfolding vdigits using base64_digit(8) digits by (intro replace_map) blast
  have "atob (padEnd (map base64Char ns) (nat (ceilDiv (int (length ns)) 4) * 4) CHR ''='') = Some (map char_of (map unat bs))"
    unfolding padEnd_def using atob_digits [OF _ len refl] digits octets64_sextets [OF small]
    by (simp add: list_all_iff ns_def)
  moreover have "map (\<lambda>c. of_nat (of_char c)) (map char_of (map unat bs)) = bs"
    using byte_bound by (simp add: comp_def map_idI of_char_mod_256)
  moreover have "length (map base64Char ns) = length value" "length value mod 4 \<noteq> 1" using len by (simp_all add: vdigits)
  ultimately show "base64UrlDecode value = Some bs"
    unfolding base64UrlDecode_def Let_def plain using safe v by (simp del: map_map)
qed


subsection \<open>Integers and bytes\<close>

definition bigEndian :: "bytes \<Rightarrow> int" where
  "bigEndian bs = foldl (\<lambda>v b. v * 256 + uint b) 0 bs"

lemma byte_or:
  fixes v :: int and b :: "8 word"
  shows "or (push_bit 8 v) (uint b) = v * 256 + uint b"
proof -
  have "and (push_bit 8 v) (uint b) = 0"
    by (rule bit_eqI) (auto simp: bit_and_iff bit_push_bit_iff bit_uint_iff)
  then show ?thesis using disjunctive_add_eq_or [of "push_bit 8 v" "uint b"] by (simp add: push_bit_eq_mult)
qed

lemma bytesToBigInt_bigEndian: "bytesToBigInt bs = bigEndian bs"
  by (simp add: bytesToBigInt_def bigEndian_def byte_or)

lemma bigEndian_Nil [simp]: "bigEndian [] = 0"
  by (simp add: bigEndian_def)

lemma bigEndian_snoc: "bigEndian (bs @ [b]) = bigEndian bs * 256 + uint b"
  by (simp add: bigEndian_def)

lemma bigEndian_bounds: "0 \<le> bigEndian bs \<and> bigEndian bs < 256 ^ length bs"
proof (induction bs rule: rev_induct)
  case (snoc b bs)
  have "uint b < 256" using uint_bounded [of b] by simp
  then show ?case using snoc uint_nonnegative [of b] by (simp add: bigEndian_snoc)
qed simp

lemma byte_of_int: "uint (of_int (and v 255) :: 8 word) = v mod 256"
proof -
  have "and v 255 = v mod 256" using take_bit_eq_mask [of 8 v] by (simp add: mask_eq_exp_minus_1 take_bit_eq_mod)
  then show ?thesis by (simp add: uint_word_of_int)
qed

lemma toBytesLoop_value:
  "toBytesLoop n v acc = (r, bs) \<Longrightarrow> \<exists>front. bs = front @ acc \<and> length front = n \<and> v = r * 256 ^ n + bigEndian front"
proof (induction n arbitrary: v acc)
  case (Suc n)
  then obtain front where f: "bs = front @ (of_int (and v 255) # acc)" "length front = n" "v div 256 = r * 256 ^ n + bigEndian front"
    by (auto simp: drop_bit_eq_div)
  have "v = v div 256 * 256 + v mod 256" by simp
  then have "v = r * 256 ^ Suc n + bigEndian (front @ [of_int (and v 255)])"
    unfolding f(3) by (simp add: bigEndian_snoc byte_of_int algebra_simps)
  then show ?case using f by (intro exI [of _ "front @ [of_int (and v 255)]"]) simp
qed simp

lemma no_carry:
  fixes r m x y :: int
  assumes "r * m + x = y" "0 \<le> x" "x < m" "0 \<le> y" "y < m"
  shows "r = 0"
proof -
  have "m \<noteq> 0" using assms by simp
  then have "(r * m + x) div m = r + x div m" by simp
  moreover have "x div m = 0" "y div m = 0" using assms by (simp_all add: div_pos_pos_trivial)
  ultimately show ?thesis using assms(1) by simp
qed

lemma digit_unique:
  fixes a b x y :: int
  assumes "0 \<le> x" "x < 256" "0 \<le> y" "y < 256" "a * 256 + x = b * 256 + y"
  shows "x = y \<and> a = b"
proof -
  have "(a - b) * 256 + x = y" using assms(5) by simp
  from no_carry [OF this assms(1-4)] show ?thesis using assms(5) by simp
qed

lemma bigEndian_inj: "length bs = length cs \<Longrightarrow> bigEndian bs = bigEndian cs \<Longrightarrow> bs = cs"
proof (induction bs arbitrary: cs rule: rev_induct)
  case (snoc b bs)
  then obtain c cs' where cs: "cs = cs' @ [c]" by (cases cs rule: rev_cases) auto
  have "uint b < 256" "uint c < 256" "0 \<le> uint b" "0 \<le> uint c"
    using uint_bounded [of b] uint_bounded [of c] by simp_all
  then have "uint b = uint c \<and> bigEndian bs = bigEndian cs'"
    using snoc.prems(2) unfolding cs bigEndian_snoc by (intro digit_unique)
  then show ?case using snoc.IH [of cs'] snoc.prems(1) by (simp add: cs word_uint_eq_iff)
qed simp

text \<open>
  Integers and bytes. An integer fits into a number of bytes exactly when it is the big-endian
  value of that many bytes, and these are then the bytes written, leading zeros included; negative
  and too large integers are refused.
\<close>

theorem big_endian_round_trip:
  "bigIntToBytes v n = Inr bs \<longleftrightarrow> length bs = n \<and> bytesToBigInt bs = v"
proof -
  obtain r cs where run: "toBytesLoop n v [] = (r, cs)" by (cases "toBytesLoop n v []")
  from toBytesLoop_value [OF run] have cs: "length cs = n" "v = r * 256 ^ n + bigEndian cs" by auto
  have bound: "0 \<le> bigEndian cs" "bigEndian cs < 256 ^ n" using bigEndian_bounds [of cs] cs(1) by auto
  show ?thesis
  proof
    assume "bigIntToBytes v n = Inr bs"
    then have "r = 0" "bs = cs" using run by (auto simp: bigIntToBytes_def split: if_splits)
    then show "length bs = n \<and> bytesToBigInt bs = v" using cs by (simp add: bytesToBigInt_bigEndian)
  next
    assume bs: "length bs = n \<and> bytesToBigInt bs = v"
    then have "r * 256 ^ n + bigEndian cs = bigEndian bs" using cs(2) by (simp add: bytesToBigInt_bigEndian)
    moreover have "0 \<le> bigEndian bs" "bigEndian bs < 256 ^ n" using bigEndian_bounds [of bs] bs by auto
    ultimately have "r = 0" using bound by (intro no_carry)
    moreover from this have "cs = bs" using bs cs by (intro bigEndian_inj) (auto simp: bytesToBigInt_bigEndian)
    ultimately show "bigIntToBytes v n = Inr bs" using run by (simp add: bigIntToBytes_def)
  qed
qed


subsection \<open>Points stay on the curve\<close>

lemma modP_mod: "modP v = v mod P256_P"
proof -
  have p: "0 < P256_P" by (simp add: P256_P_def)
  show ?thesis
  proof (cases "0 \<le> v")
    case True
    then have "v smod P256_P = v mod P256_P" using p by (simp add: signed_modulo_int_def sgn_if)
    then show ?thesis using p by (simp add: modP_def Let_def)
  next
    case False
    then have "v smod P256_P = - ((- v) mod P256_P)" using p by (simp add: signed_modulo_int_def sgn_if)
    moreover have "0 \<le> (- v) mod P256_P" "(- v) mod P256_P < P256_P" using p by simp_all
    moreover have "v mod P256_P = (if (- v) mod P256_P = 0 then 0 else P256_P - (- v) mod P256_P)"
      using zmod_zminus1_eq_if [of "- v" P256_P] by simp
    ultimately show ?thesis by (simp add: modP_def Let_def)
  qed
qed

text \<open>The curve in Jacobian coordinates, over any modulus and coefficient.\<close>

definition curveDefect :: "int \<Rightarrow> int \<Rightarrow> int \<Rightarrow> int \<Rightarrow> int" where
  "curveDefect b x y z = y ^ 2 - x ^ 3 + 3 * x * z ^ 4 - b * z ^ 6"

lemma curveDefect_cong:
  "x' mod p = x mod p \<Longrightarrow> y' mod p = y mod p \<Longrightarrow> z' mod p = z mod p \<Longrightarrow> curveDefect b x' y' z' mod p = curveDefect b x y z mod p"
  unfolding curveDefect_def by (intro mod_diff_cong mod_add_cong mod_mult_cong refl) (metis power_mod)+

lemmas mod_congs = mod_add_cong mod_diff_cong mod_mult_cong

lemma double_defect:
  fixes x y z b :: int
  defines "m \<equiv> 3 * (x - z * z) * (x + z * z)"
  shows "curveDefect b (m * m - 8 * (x * (y * y)))
       (m * (4 * (x * (y * y)) - (m * m - 8 * (x * (y * y)))) - 8 * (y * y) * (y * y)) (2 * y * z)
     = 64 * y ^ 6 * curveDefect b x y z"
  unfolding curveDefect_def m_def by algebra

lemma add_defect:
  fixes u h s t w b :: int
  defines "i \<equiv> 4 * h * h" and "r \<equiv> 2 * (t - s)"
  defines "j \<equiv> h * i" and "v \<equiv> u * i"
  defines "x \<equiv> r * r - j - 2 * v"
  shows "curveDefect b x (r * (v - x) - 2 * s * j) (2 * w * h) =
    64 * h ^ 6 * curveDefect b u s w + 16 * h ^ 3 * (x - 4 * u * h ^ 2) * (curveDefect b (u + h) t w - curveDefect b u s w)"
  unfolding curveDefect_def x_def v_def j_def r_def i_def by algebra

lemma scaled_defect: "curveDefect b (x * z' ^ 2) (y * z' ^ 3) (z * z') = z' ^ 6 * curveDefect b x y z" for x y z z' b :: int
  unfolding curveDefect_def by algebra


definition onCurve :: "jacobian \<Rightarrow> bool" where
  "onCurve pt = (case pt of (x, y, z) \<Rightarrow> z = 0 \<or> curveDefect P256_B x y z mod P256_P = 0)"

lemma onCurve_doubleP: "onCurve pt \<Longrightarrow> onCurve (doubleP pt)"
proof -
  assume on: "onCurve pt"
  obtain x y z where pt: "pt = (x, y, z)" by (cases pt)
  show ?thesis
  proof (cases "z = 0 \<or> y = 0")
    case True
    then show ?thesis by (simp add: pt doubleP_def INFINITY_def onCurve_def)
  next
    case False
    define m where "m = 3 * (x - z * z) * (x + z * z)"
    let ?X = "m * m - 8 * (x * (y * y))"
    let ?Y = "m * (4 * (x * (y * y)) - ?X) - 8 * (y * y) * (y * y)"
    obtain x3 y3 z3 where d: "doubleP pt = (x3, y3, z3)" by (cases "doubleP pt")
    define delta where "delta = modP (z * z)"
    define gamma where "gamma = modP (y * y)"
    define beta where "beta = modP (x * gamma)"
    define alpha where "alpha = modP (3 * (x - delta) * (x + delta))"
    have coords: "x3 = modP (alpha * alpha - 8 * beta)" "z3 = modP ((y + z) * (y + z) - gamma - delta)"
      "y3 = modP (alpha * (4 * beta - x3) - 8 * gamma * gamma)"
      using d False by (auto simp: pt doubleP_def Let_def alpha_def beta_def gamma_def delta_def)
    have delta: "delta mod P256_P = z * z mod P256_P" and gamma: "gamma mod P256_P = y * y mod P256_P"
      by (simp_all add: delta_def gamma_def modP_mod)
    have beta: "beta mod P256_P = x * (y * y) mod P256_P" and alpha: "alpha mod P256_P = m mod P256_P"
      unfolding beta_def alpha_def m_def modP_mod mod_mod_trivial by (intro mod_congs refl delta gamma)+
    have x3: "x3 mod P256_P = ?X mod P256_P"
      unfolding coords(1) modP_mod mod_mod_trivial by (intro mod_congs refl alpha beta)
    have y3: "y3 mod P256_P = ?Y mod P256_P"
      unfolding coords(3) modP_mod mod_mod_trivial by (intro mod_congs refl alpha beta gamma x3)
    have "z3 mod P256_P = ((y + z) * (y + z) - y * y - z * z) mod P256_P"
      unfolding coords(2) modP_mod mod_mod_trivial by (intro mod_congs refl gamma delta)
    moreover have "(y + z) * (y + z) - y * y - z * z = 2 * y * z" by algebra
    ultimately have z3: "z3 mod P256_P = (2 * y * z) mod P256_P" by simp
    from curveDefect_cong [OF x3 y3 z3, of P256_B]
    have "curveDefect P256_B x3 y3 z3 mod P256_P = (64 * y ^ 6 * curveDefect P256_B x y z) mod P256_P"
      unfolding m_def double_defect .
    then show ?thesis using on False d unfolding pt by (simp add: onCurve_def mod_eq_0_iff_dvd)
  qed
qed


lemma onCurve_addP: "onCurve l \<Longrightarrow> onCurve r0 \<Longrightarrow> onCurve (addP l r0)"
proof -
  assume on: "onCurve l" "onCurve r0"
  obtain x1 y1 z1 where l: "l = (x1, y1, z1)" by (cases l)
  obtain x2 y2 z2 where r0: "r0 = (x2, y2, z2)" by (cases r0)
  show ?thesis
  proof (cases "z1 = 0 \<or> z2 = 0")
    case True
    then show ?thesis using on by (auto simp: l r0 addP_def)
  next
    case False
    define z1z1 where "z1z1 = modP (z1 * z1)"
    define z2z2 where "z2z2 = modP (z2 * z2)"
    define u1 where "u1 = modP (x1 * z2z2)"
    define u2 where "u2 = modP (x2 * z1z1)"
    define s1 where "s1 = modP (y1 * z2 * z2z2)"
    define s2 where "s2 = modP (y2 * z1 * z1z1)"
    define h where "h = modP (u2 - u1)"
    define r where "r = modP (2 * (s2 - s1))"
    show ?thesis
    proof (cases "h = 0")
      case True
      then have "addP l r0 = (if r = 0 then doubleP l else INFINITY)"
        using False by (simp add: l r0 addP_def Let_def r_def h_def s1_def s2_def u1_def u2_def z1z1_def z2z2_def)
      then show ?thesis using onCurve_doubleP [OF on(1)] by (simp add: INFINITY_def onCurve_def)
    next
      case h0: False
      define i where "i = modP (4 * h * h)"
      define j where "j = modP (h * i)"
      define v where "v = modP (u1 * i)"
      obtain x3 y3 z3 where d: "addP l r0 = (x3, y3, z3)" by (cases "addP l r0")
      have coords: "x3 = modP (r * r - j - 2 * v)" "y3 = modP (r * (v - x3) - 2 * s1 * j)"
        "z3 = modP (((z1 + z2) * (z1 + z2) - z1z1 - z2z2) * h)"
        using d False h0
        by (auto simp: l r0 addP_def Let_def v_def j_def i_def r_def h_def s1_def s2_def u1_def u2_def z1z1_def z2z2_def)
      define U where "U = x1 * z2 ^ 2"
      define H where "H = x2 * z1 ^ 2 - U"
      define S where "S = y1 * z2 ^ 3"
      define T where "T = y2 * z1 ^ 3"
      define W where "W = z1 * z2"
      let ?i = "4 * H * H" and ?r = "2 * (T - S)"
      let ?x = "?r * ?r - H * ?i - 2 * (U * ?i)"
      have z1z1: "z1z1 mod P256_P = z1 * z1 mod P256_P" and z2z2: "z2z2 mod P256_P = z2 * z2 mod P256_P"
        by (simp_all add: z1z1_def z2z2_def modP_mod)
      have u1: "u1 mod P256_P = U mod P256_P" and u2: "u2 mod P256_P = x2 * z1 ^ 2 mod P256_P"
        unfolding u1_def u2_def U_def modP_mod mod_mod_trivial power2_eq_square by (intro mod_congs refl z1z1 z2z2)+
      have "s1 mod P256_P = y1 * z2 * (z2 * z2) mod P256_P" "s2 mod P256_P = y2 * z1 * (z1 * z1) mod P256_P"
        unfolding s1_def s2_def modP_mod mod_mod_trivial by (intro mod_congs refl z1z1 z2z2)+
      then have s1: "s1 mod P256_P = S mod P256_P" and s2: "s2 mod P256_P = T mod P256_P"
        by (simp_all add: S_def T_def power3_eq_cube mult.assoc)
      have h: "h mod P256_P = H mod P256_P" unfolding h_def H_def modP_mod mod_mod_trivial by (intro mod_congs refl u1 u2)
      have r: "r mod P256_P = ?r mod P256_P" unfolding r_def modP_mod mod_mod_trivial by (intro mod_congs refl s1 s2)
      have i: "i mod P256_P = ?i mod P256_P" unfolding i_def modP_mod mod_mod_trivial by (intro mod_congs refl h)
      have j: "j mod P256_P = H * ?i mod P256_P" unfolding j_def modP_mod mod_mod_trivial by (intro mod_congs refl h i)
      have v: "v mod P256_P = U * ?i mod P256_P" unfolding v_def modP_mod mod_mod_trivial by (intro mod_congs refl u1 i)
      have x3: "x3 mod P256_P = ?x mod P256_P"
        unfolding coords(1) modP_mod mod_mod_trivial by (intro mod_congs refl r j v)
      have y3: "y3 mod P256_P = (?r * (U * ?i - ?x) - 2 * S * (H * ?i)) mod P256_P"
        unfolding coords(2) modP_mod mod_mod_trivial by (intro mod_congs refl r v x3 s1 j)
      have "z3 mod P256_P = ((z1 + z2) * (z1 + z2) - z1 * z1 - z2 * z2) * H mod P256_P"
        unfolding coords(3) modP_mod mod_mod_trivial by (intro mod_congs refl z1z1 z2z2 h)
      moreover have "((z1 + z2) * (z1 + z2) - z1 * z1 - z2 * z2) * H = 2 * W * H" unfolding W_def by algebra
      ultimately have z3: "z3 mod P256_P = 2 * W * H mod P256_P" by simp
      have "curveDefect P256_B U S W = z2 ^ 6 * curveDefect P256_B x1 y1 z1"
        unfolding U_def S_def W_def by (rule scaled_defect)
      moreover have "curveDefect P256_B (U + H) T W = z1 ^ 6 * curveDefect P256_B x2 y2 z2"
        unfolding H_def T_def W_def mult.commute [of z1 z2] using scaled_defect [of P256_B x2 z1 y2 z2] by simp
      ultimately have "P256_P dvd curveDefect P256_B U S W" "P256_P dvd curveDefect P256_B (U + H) T W"
        using on False by (auto simp: l r0 onCurve_def mod_eq_0_iff_dvd)
      then have "P256_P dvd 64 * H ^ 6 * curveDefect P256_B U S W +
          16 * H ^ 3 * (?x - 4 * U * H ^ 2) * (curveDefect P256_B (U + H) T W - curveDefect P256_B U S W)"
        by (intro dvd_add dvd_mult dvd_diff)
      then have "curveDefect P256_B x3 y3 z3 mod P256_P = 0"
        unfolding curveDefect_cong [OF x3 y3 z3, of P256_B] add_defect by (simp add: mod_eq_0_iff_dvd)
      then show ?thesis by (simp add: d onCurve_def)
    qed
  qed
qed


lemma onCurve_scalarLoop: "onCurve result \<Longrightarrow> onCurve addend \<Longrightarrow> onCurve (scalarLoop result addend remaining)"
proof (induction result addend remaining rule: scalarLoop.induct)
  case (1 result addend remaining)
  show ?case
    by (subst scalarLoop.simps) (use 1 onCurve_addP onCurve_doubleP in auto)
qed

lemma onCurve_base: "onCurve (GX, GY, 1)"
proof -
  have "curveDefect P256_B GX GY 1 = P256_P * (- 0x12bdd1ad23dfc833dccf5f6141d6bb4a1f365dc1430b0e600b52dd851938d2d6933106a72efbf035fdaf43963b37fd5456e90c6581a8fb7a0d8a46a3629f0458)"
    unfolding curveDefect_def power2_eq_square power3_eq_cube GX_def GY_def P256_B_def P256_P_def by simp
  then show ?thesis by (simp add: onCurve_def)
qed

text \<open>The exponentiation against its specification.\<close>

lemma modPowLoop_power:
  "0 \<le> e \<Longrightarrow> modPowLoop acc f e mod P256_P = acc * f ^ nat e mod P256_P"
proof (induction acc f e rule: modPowLoop.induct)
  case (1 acc f e)
  show ?case
  proof (cases "0 < e")
    case True
    let ?acc = "if odd e then modP (acc * f) else acc"
    have half: "modP (f * f) ^ nat (e div 2) mod P256_P = (f * f) ^ nat (e div 2) mod P256_P"
      by (simp add: modP_mod power_mod)
    have "modPowLoop acc f e mod P256_P = ?acc * modP (f * f) ^ nat (e div 2) mod P256_P"
      using 1 True by (subst modPowLoop.simps) auto
    also have "\<dots> = (if odd e then acc * f else acc) * (f * f) ^ nat (e div 2) mod P256_P"
      by (intro mod_mult_cong half) (simp add: modP_mod)
    also have "(if odd e then acc * f else acc) * (f * f) ^ nat (e div 2) = acc * f ^ nat e"
    proof -
      have n: "nat e = 2 * nat (e div 2) + (if odd e then 1 else 0)" using True by (auto elim!: evenE oddE)
      show ?thesis by (subst n) (simp add: power_add power_mult power2_eq_square mult.assoc)
    qed
    finally show ?thesis .
  qed (use 1 in \<open>simp add: modPowLoop.simps\<close>)
qed

lemma modPow_power: "0 \<le> e \<Longrightarrow> modPow b e mod P256_P = b ^ nat e mod P256_P"
  by (simp add: modPow_def modPowLoop_power modP_mod) (metis power_mod mod_mod_trivial)


lemma field_bytes:
  assumes "0 \<le> v" "v < P256_P"
  obtains bs where "bigIntToBytes v 32 = Inr bs" "length bs = 32" "bytesToBigInt bs = v"
proof -
  obtain r cs where run: "toBytesLoop 32 v [] = (r, cs)" by (cases "toBytesLoop 32 v []")
  from toBytesLoop_value [OF run] have cs: "length cs = 32" "r * 256 ^ 32 + bigEndian cs = v" by auto
  moreover have "v < 256 ^ 32" using assms(2) by (simp add: P256_P_def)
  ultimately have "r = 0" using bigEndian_bounds [of cs] assms(1) by (intro no_carry [of r "256 ^ 32"]) auto
  then show thesis using that [of cs] run cs by (simp add: bigIntToBytes_def bytesToBigInt_bigEndian)
qed

lemma affine_on_curve:
  assumes "onCurve (x, y, z)" and inv: "z * zi mod P256_P = 1"
  shows "(y * (zi * zi) * zi) ^ 2 mod P256_P = ((x * (zi * zi)) ^ 3 - 3 * (x * (zi * zi)) + P256_B) mod P256_P"
proof -
  have "z \<noteq> 0" using inv by auto
  then have d: "curveDefect P256_B x y z mod P256_P = 0" using assms(1) by (simp add: onCurve_def)
  have one: "z * zi mod P256_P = 1 mod P256_P" using inv by (simp add: P256_P_def)
  have "curveDefect P256_B (x * zi ^ 2) (y * zi ^ 3) (z * zi) mod P256_P = curveDefect P256_B (x * zi ^ 2) (y * zi ^ 3) 1 mod P256_P"
    by (rule curveDefect_cong) (simp_all add: one)
  moreover have "curveDefect P256_B (x * zi ^ 2) (y * zi ^ 3) (z * zi) mod P256_P = 0"
    unfolding scaled_defect using d by (simp add: mod_eq_0_iff_dvd)
  ultimately have "P256_P dvd (y * zi ^ 3) ^ 2 - ((x * zi ^ 2) ^ 3 - 3 * (x * zi ^ 2) + P256_B)"
    by (simp add: curveDefect_def mod_eq_0_iff_dvd algebra_simps)
  then show ?thesis by (simp add: mod_eq_dvd_iff power2_eq_square power3_eq_cube mult.assoc)
qed

lemma p256_valid_key:
  assumes valid: "length k = 32" "bytesToBigInt k \<in> {1 ..< P256_ORDER}"
  shows "\<exists>pub. p256PublicKeyFromPrivate k = Inr pub \<and> length pub = 65 \<and> pub ! 0 = 4 \<and>
       (let z = snd (snd (scalarLoop INFINITY (GX, GY, 1) (bytesToBigInt k)))
        in z * z ^ nat (P256_P - 2) mod P256_P = 1 \<longrightarrow> isP256UncompressedPoint pub)"
proof -
  obtain x y z where pt: "scalarLoop INFINITY (GX, GY, 1) (bytesToBigInt k) = (x, y, z)"
    by (cases "scalarLoop INFINITY (GX, GY, 1) (bytesToBigInt k)")
  define zi where "zi = modPow z (P256_P - 2)"
  define ax where "ax = modP (x * modP (zi * zi))"
  define ay where "ay = modP (y * modP (zi * zi) * zi)"
  have p: "0 < P256_P" by (simp add: P256_P_def)
  obtain bx where bx: "bigIntToBytes ax 32 = Inr bx" "length bx = 32" "bytesToBigInt bx = ax"
    using field_bytes [of ax] p by (auto simp: ax_def modP_mod)
  obtain bY where bY: "bigIntToBytes ay 32 = Inr bY" "length bY = 32" "bytesToBigInt bY = ay"
    using field_bytes [of ay] p by (auto simp: ay_def modP_mod)
  have key: "p256PublicKeyFromPrivate k = Inr (concatBytes [[0x04], bx, bY])"
    using valid bx(1) bY(1) by (simp add: p256PublicKeyFromPrivate_def Let_def pt zi_def ax_def ay_def)
  have "isP256UncompressedPoint (concatBytes [[0x04], bx, bY])" if inv: "z * z ^ nat (P256_P - 2) mod P256_P = 1"
  proof -
    have "0 \<le> P256_P - 2" by (simp add: P256_P_def)
    then have "zi mod P256_P = z ^ nat (P256_P - 2) mod P256_P" unfolding zi_def by (rule modPow_power)
    from mod_mult_cong [OF refl this, of z] have "z * zi mod P256_P = 1" using inv by simp
    moreover have "onCurve (x, y, z)"
      using onCurve_scalarLoop [OF _ onCurve_base, of INFINITY "bytesToBigInt k"] pt by (simp add: INFINITY_def onCurve_def)
    ultimately have curve: "(y * (zi * zi) * zi) ^ 2 mod P256_P = ((x * (zi * zi)) ^ 3 - 3 * (x * (zi * zi)) + P256_B) mod P256_P"
      using affine_on_curve by blast
    have axm: "ax mod P256_P = x * (zi * zi) mod P256_P" and aym: "ay mod P256_P = y * (zi * zi) * zi mod P256_P"
      unfolding ax_def ay_def modP_mod mod_mod_trivial by (intro mod_congs refl mod_mod_trivial)+
    have "ay * ay mod P256_P = (y * (zi * zi) * zi) ^ 2 mod P256_P" unfolding power2_eq_square by (intro mod_congs aym)
    moreover have "(ax * ax * ax - 3 * ax + P256_B) mod P256_P = ((x * (zi * zi)) ^ 3 - 3 * (x * (zi * zi)) + P256_B) mod P256_P"
      unfolding power3_eq_cube by (intro mod_congs axm refl)
    moreover have "ax < P256_P" "ay < P256_P" using p by (simp_all add: ax_def ay_def modP_mod)
    ultimately show ?thesis using curve bx bY
      by (simp add: isP256UncompressedPoint_def concatBytes_def modP_mod)
  qed
  then show ?thesis using bx(2) bY(2) by (intro exI [of _ "concatBytes [[0x04], bx, bY]"]) (simp add: key pt concatBytes_def)
qed

text \<open>
  Public keys. A private key is refused exactly when it has not thirty-two bytes or its
  number is zero or not below the order of the group; every other key gives an uncompressed point of
  sixty-five bytes, and whenever the exponentiation really inverts the point's last coordinate
  (Fermat's theorem, for a coordinate that is not zero) the point is on the curve and is accepted by the check
  that registrations of devices go through.
\<close>

theorem p256_public_key:
  "case p256PublicKeyFromPrivate k of
     Inl e \<Rightarrow> length k \<noteq> 32 \<or> bytesToBigInt k \<notin> {1 ..< P256_ORDER}
   | Inr pub \<Rightarrow> length k = 32 \<and> bytesToBigInt k \<in> {1 ..< P256_ORDER} \<and> length pub = 65 \<and> pub ! 0 = 4 \<and>
       (let z = snd (snd (scalarLoop INFINITY (GX, GY, 1) (bytesToBigInt k)))
        in z * z ^ nat (P256_P - 2) mod P256_P = 1 \<longrightarrow> isP256UncompressedPoint pub)"
proof (cases "length k = 32 \<and> bytesToBigInt k \<in> {1 ..< P256_ORDER}")
  case True
  then show ?thesis using p256_valid_key [of k] by auto
next
  case False
  then show ?thesis by (auto simp: p256PublicKeyFromPrivate_def Let_def)
qed

definition keyOne :: bytes where "keyOne = replicate 31 0 @ [1]"

lemma bigEndian_zeros: "bigEndian (replicate n 0) = 0"
  by (induction n) (simp_all add: bigEndian_def)

lemma keyOne_scalar: "bytesToBigInt keyOne = 1"
  by (simp add: bytesToBigInt_bigEndian bigEndian_snoc bigEndian_zeros keyOne_def)

theorem p256_public_key_witness:
  "\<exists>pub. p256PublicKeyFromPrivate keyOne = Inr pub \<and> length pub = 65 \<and> isP256UncompressedPoint pub"
proof -
  have "scalarLoop INFINITY (GX, GY, 1) 1 = (GX, GY, 1)"
    by (subst scalarLoop.simps) (simp add: scalarLoop.simps addP_def INFINITY_def)
  moreover have "length keyOne = 32" by (simp add: keyOne_def)
  moreover have "(1::int) \<in> {1 ..< P256_ORDER}" "1 mod P256_P = (1 :: int)" by (simp_all add: P256_ORDER_def P256_P_def)
  ultimately show ?thesis using p256_public_key [of keyOne] by (auto simp: keyOne_scalar split: sum.splits)
qed

definition vapidCandidate :: "(bytes \<Rightarrow> bytes \<Rightarrow> bytes) \<Rightarrow> bytes \<Rightarrow> string \<Rightarrow> nat \<Rightarrow> bytes" where
  "vapidCandidate hkdf secret label counter = hkdf secret (concatBytes [utf8 label, [0x00, of_nat counter]])"

text \<open>
  The instance's key. From a secret of at least sixteen bytes the derivation takes the first
  counter below 256 whose candidate is a private key, and fails only when none is; so whenever it
  answers with thirty-two bytes, the public key exists.
\<close>

theorem vapid_scalar_derivation:
  "(deriveVapidPrivateScalar hkdf secret label = Inr d \<longleftrightarrow>
       16 \<le> length secret \<and> (\<exists>n < 256. d = vapidCandidate hkdf secret label n \<and> bytesToBigInt d \<in> {1 ..< P256_ORDER} \<and>
         \<not> (\<exists>m < n. bytesToBigInt (vapidCandidate hkdf secret label m) \<in> {1 ..< P256_ORDER}))) \<and>
    (deriveVapidPrivateScalar hkdf secret label = Inr d \<and> length d = 32 \<longrightarrow> (\<exists>pub. p256PublicKeyFromPrivate d = Inr pub))"
proof -
  let ?ok = "\<lambda>n. bytesToBigInt (vapidCandidate hkdf secret label n) \<in> {1 ..< P256_ORDER}"
  have first: "deriveLoop (hkdf secret) label [i ..< i + k] = Inr d \<longleftrightarrow>
      (\<exists>n. i \<le> n \<and> n < i + k \<and> d = vapidCandidate hkdf secret label n \<and> ?ok n \<and> \<not> (\<exists>m. i \<le> m \<and> m < n \<and> ?ok m))" for i k
  proof (induction k arbitrary: i)
    case (Suc k)
    have step: "[i ..< i + Suc k] = i # [Suc i ..< Suc i + k]" by (simp add: upt_conv_Cons)
    show ?case
    proof (cases "?ok i")
      case True
      then have "deriveLoop (hkdf secret) label [i ..< i + Suc k] = Inr (vapidCandidate hkdf secret label i)"
        unfolding step by (simp add: vapidCandidate_def Let_def)
      then show ?thesis using True by (auto intro: exI [of _ i])
    next
      case False
      then have later: "deriveLoop (hkdf secret) label [i ..< i + Suc k] = deriveLoop (hkdf secret) label [Suc i ..< Suc i + k]"
        unfolding step by (auto simp: vapidCandidate_def Let_def)
      have inner: "(i \<le> m \<and> m < n \<and> ?ok m) = (Suc i \<le> m \<and> m < n \<and> ?ok m)" for m n
        using False by (cases "m = i") auto
      have range: "(i \<le> n \<and> n < i + Suc k \<and> d = vapidCandidate hkdf secret label n \<and> ?ok n \<and> R n) =
          (Suc i \<le> n \<and> n < Suc i + k \<and> d = vapidCandidate hkdf secret label n \<and> ?ok n \<and> R n)" for n R
        using False by (cases "n = i") auto
      show ?thesis unfolding later Suc.IH inner
        by (rule arg_cong [of _ _ Ex], rule ext, rule range [symmetric])
    qed
  qed simp
  have iff: "deriveVapidPrivateScalar hkdf secret label = Inr d \<longleftrightarrow>
       16 \<le> length secret \<and> (\<exists>n < 256. d = vapidCandidate hkdf secret label n \<and> ?ok n \<and> \<not> (\<exists>m < n. ?ok m))"
  proof -
    have all: "deriveVapidPrivateScalar hkdf secret label = Inr d \<longleftrightarrow>
        16 \<le> length secret \<and> deriveLoop (hkdf secret) label [0 ..< MAX_DERIVATION_ATTEMPTS] = Inr d"
      by (auto simp: deriveVapidPrivateScalar_def)
    have "deriveLoop (hkdf secret) label [0 ..< MAX_DERIVATION_ATTEMPTS] = Inr d \<longleftrightarrow>
        (\<exists>n < MAX_DERIVATION_ATTEMPTS. d = vapidCandidate hkdf secret label n \<and> ?ok n \<and> \<not> (\<exists>m < n. ?ok m))"
      using first [of 0 MAX_DERIVATION_ATTEMPTS] by simp
    then show ?thesis unfolding all by (simp add: MAX_DERIVATION_ATTEMPTS_def)
  qed
  moreover have "\<exists>pub. p256PublicKeyFromPrivate d = Inr pub" if "?ok n" "d = vapidCandidate hkdf secret label n" "length d = 32" for n
    using p256_valid_key [of d] that by auto
  ultimately show ?thesis by blast
qed


theorem vapid_scalar_derivation_witness:
  "\<exists>d pub. deriveVapidPrivateScalar (\<lambda>secret info. keyOne) (replicate 16 0) ''label'' = Inr d \<and> p256PublicKeyFromPrivate d = Inr pub"
proof -
  have ok: "bytesToBigInt keyOne \<in> {1 ..< P256_ORDER}" by (simp add: keyOne_scalar P256_ORDER_def)
  have d: "deriveVapidPrivateScalar (\<lambda>secret info. keyOne) (replicate 16 0) ''label'' = Inr keyOne"
  proof (rule iffD2 [OF conjunct1 [OF vapid_scalar_derivation]], intro conjI exI [of _ 0])
    show "keyOne = vapidCandidate (\<lambda>secret info. keyOne) (replicate 16 0) ''label'' 0" by (simp add: vapidCandidate_def)
  qed (use ok in simp_all)
  moreover have "length keyOne = 32" by (simp add: keyOne_def)
  ultimately show ?thesis
    using vapid_scalar_derivation [of "\<lambda>secret info. keyOne" "replicate 16 0" "''label''" keyOne] by blast
qed

end
