(* ===== verification/WebPushMessage.thy ===== *)
theory WebPushMessage
  imports WebPushKeys
begin

section \<open>The messages of Web Push\<close>

text \<open>
  Models \<open>src/backend/lib/web-push/payload.ts\<close> (the declarative message and the loop that makes it
  fit its budget), the classification of a push service's answer and the limits of
  \<open>web-push/send.ts\<close>, and the texts of \<open>notification-push.ts\<close>. A text is the list of its UTF-16
  code units, as JavaScript has it; the URL parser is a parameter.
\<close>

type_synonym jstext = "nat list"

definition asText :: "string \<Rightarrow> jstext" where
  "asText s = map of_char s"

subsection \<open>Code points\<close>

definition highSurrogate :: "nat \<Rightarrow> bool" where "highSurrogate u = (0xD800 \<le> u \<and> u \<le> 0xDBFF)"
definition lowSurrogate :: "nat \<Rightarrow> bool" where "lowSurrogate u = (0xDC00 \<le> u \<and> u \<le> 0xDFFF)"

text \<open>\<open>[...value]\<close>: a surrogate pair is one element.\<close>

fun codePoints :: "jstext \<Rightarrow> jstext list" where
  "codePoints [] = []"
| "codePoints [a] = [[a]]"
| "codePoints (a # b # xs) =
     (if highSurrogate a \<and> lowSurrogate b then [a, b] # codePoints xs else [a] # codePoints (b # xs))"

text \<open>The UTF-8 bytes of a code point; a lone surrogate is encoded as the replacement character.\<close>

fun utf8CodePoint :: "jstext \<Rightarrow> bytes" where
  "utf8CodePoint [a, b] =
     (let n = 0x10000 + (a - 0xD800) * 0x400 + (b - 0xDC00)
      in [of_nat (240 + n div 0x40000), of_nat (128 + n div 0x1000 mod 64), of_nat (128 + n div 64 mod 64), of_nat (128 + n mod 64)])"
| "utf8CodePoint [a] =
     (if a < 0x80 then [of_nat a]
      else if a < 0x800 then [of_nat (192 + a div 64), of_nat (128 + a mod 64)]
      else (let n = (if highSurrogate a \<or> lowSurrogate a then 0xFFFD else a)
            in [of_nat (224 + n div 0x1000), of_nat (128 + n div 64 mod 64), of_nat (128 + n mod 64)]))"
| "utf8CodePoint _ = []"

definition utf8Text :: "jstext \<Rightarrow> bytes" where
  "utf8Text s = concat (map utf8CodePoint (codePoints s))"

text \<open>The white space of \<open>trim\<close> and of regular expressions.\<close>

definition spaceUnit :: "nat \<Rightarrow> bool" where
  "spaceUnit u =
     ((9 \<le> u \<and> u \<le> 13) \<or> u \<in> {32, 160, 0x1680, 0x2028, 0x2029, 0x202F, 0x205F, 0x3000, 0xFEFF} \<or> (0x2000 \<le> u \<and> u \<le> 0x200A))"

definition trimEnd :: "jstext \<Rightarrow> jstext" where
  "trimEnd s = rev (dropWhile spaceUnit (rev s))"

definition trimText :: "jstext \<Rightarrow> jstext" where
  "trimText s = trimEnd (dropWhile spaceUnit s)"

text \<open>Every run of white space becomes one space.\<close>

fun collapseSpaces :: "jstext \<Rightarrow> jstext" where
  "collapseSpaces [] = []"
| "collapseSpaces [u] = (if spaceUnit u then [32] else [u])"
| "collapseSpaces (u # v # us) =
     (if spaceUnit u then (if spaceUnit v then collapseSpaces (v # us) else 32 # collapseSpaces (v # us))
      else u # collapseSpaces (v # us))"

definition singleLine :: "jstext \<Rightarrow> jstext" where
  "singleLine s = trimText (collapseSpaces s)"

subsection \<open>JSON texts\<close>

definition hexUnit :: "nat \<Rightarrow> nat" where
  "hexUnit n = (if n < 10 then 48 + n else 87 + n)"

definition unicodeEscape :: "nat \<Rightarrow> jstext" where
  "unicodeEscape u = [92, 117, hexUnit (u div 4096), hexUnit (u div 256 mod 16), hexUnit (u div 16 mod 16), hexUnit (u mod 16)]"

fun jsonCodePoint :: "jstext \<Rightarrow> jstext" where
  "jsonCodePoint [u] =
     (if u = 34 then [92, 34] else if u = 92 then [92, 92]
      else if u = 8 then [92, 98] else if u = 12 then [92, 102] else if u = 10 then [92, 110]
      else if u = 13 then [92, 114] else if u = 9 then [92, 116]
      else if u < 32 \<or> highSurrogate u \<or> lowSurrogate u then unicodeEscape u
      else [u])"
| "jsonCodePoint cp = cp"

definition jsonString :: "jstext \<Rightarrow> jstext" where
  "jsonString s = [34] @ concat (map jsonCodePoint (codePoints s)) @ [34]"

definition jsonField :: "string \<Rightarrow> jstext \<Rightarrow> jstext" where
  "jsonField k v = jsonString (asText k) @ [58] @ v"

definition commaSep :: "jstext list \<Rightarrow> jstext" where
  "commaSep fs = (case fs of [] \<Rightarrow> [] | f # gs \<Rightarrow> f @ concat (map (\<lambda>g. 44 # g) gs))"

definition jsonObject :: "jstext list \<Rightarrow> jstext" where
  "jsonObject fs = [123] @ commaSep fs @ [125]"

subsection \<open>The declarative message\<close>

definition DECLARATIVE_WEB_PUSH_MAGIC :: nat where "DECLARATIVE_WEB_PUSH_MAGIC = 8030"
definition MAX_DECLARATIVE_WEB_PUSH_BYTES :: nat where "MAX_DECLARATIVE_WEB_PUSH_BYTES = 2048"

function decimalText :: "nat \<Rightarrow> jstext" where
  "decimalText n = (if n < 10 then [48 + n] else decimalText (n div 10) @ [48 + n mod 10])"
  by auto
termination by (relation "measure id") auto

declare decimalText.simps [simp del]

text \<open>A text that is present and not empty, as a condition reads it.\<close>

definition truthyText :: "jstext option \<Rightarrow> jstext option" where
  "truthyText s = (case s of None \<Rightarrow> None | Some t \<Rightarrow> if t = [] then None else Some t)"

record push_frame =
  pf_navigate :: jstext
  pf_lang :: "jstext option"
  pf_tag :: "jstext option"
  pf_badge :: "jstext option"

definition optField :: "string \<Rightarrow> jstext option \<Rightarrow> jstext list" where
  "optField k v = (case v of None \<Rightarrow> [] | Some t \<Rightarrow> [jsonField k (jsonString t)])"

definition messageJson :: "push_frame \<Rightarrow> jstext \<Rightarrow> jstext option \<Rightarrow> jstext" where
  "messageJson frame title body =
     jsonObject
       [jsonField ''web_push'' (decimalText DECLARATIVE_WEB_PUSH_MAGIC),
        jsonField ''notification'' (jsonObject
          ([jsonField ''title'' (jsonString title), jsonField ''navigate'' (jsonString (pf_navigate frame))] @
           optField ''body'' (truthyText body) @ optField ''lang'' (pf_lang frame) @ optField ''tag'' (pf_tag frame) @
           optField ''app_badge'' (pf_badge frame)))]"

definition messageBytes :: "push_frame \<Rightarrow> jstext \<Rightarrow> jstext option \<Rightarrow> bytes" where
  "messageBytes frame title body = utf8Text (messageJson frame title body)"

text \<open>Whole code points are dropped from the end, then the ellipsis is added.\<close>

fun popBytes :: "jstext list \<Rightarrow> nat \<Rightarrow> nat \<Rightarrow> jstext list" where
  "popBytes [] removed limit = []"
| "popBytes (cp # cps) removed limit =
     (if removed < limit then popBytes cps (removed + length (utf8Text cp)) limit else cp # cps)"

definition shorten :: "jstext \<Rightarrow> nat \<Rightarrow> jstext option" where
  "shorten s excess =
     (let kept = trimEnd (concat (rev (popBytes (rev (codePoints s)) 0 (excess + 3))))
      in if kept = [] then None else Some (kept @ [0x2026]))"


subsection \<open>Code points and bytes of a prefix\<close>

definition byteLen :: "jstext \<Rightarrow> nat" where
  "byteLen s = length (utf8Text s)"

abbreviation bytesOf :: "jstext list \<Rightarrow> nat" where
  "bytesOf cps \<equiv> sum_list (map (\<lambda>cp. length (utf8CodePoint cp)) cps)"

lemma byteLen_codePoints: "byteLen s = bytesOf (codePoints s)"
  by (simp add: byteLen_def utf8Text_def length_concat comp_def)

lemma concat_codePoints [simp]: "concat (codePoints s) = s"
  by (induction s rule: codePoints.induct) auto

lemma codePoints_Nil_iff [simp]: "codePoints s = [] \<longleftrightarrow> s = []"
  by (cases s rule: codePoints.cases) auto

lemma codePoints_append:
  "(xs \<noteq> [] \<Longrightarrow> ys \<noteq> [] \<Longrightarrow> \<not> (highSurrogate (last xs) \<and> lowSurrogate (hd ys))) \<Longrightarrow> codePoints (xs @ ys) = codePoints xs @ codePoints ys"
proof (induction xs rule: codePoints.induct)
  case (2 a)
  then show ?case by (cases ys) auto
qed auto

text \<open>A code point is the text of one, and cutting a list of them cuts no pair.\<close>

lemma codePoints_take: "codePoints (concat (take n (codePoints s))) = take n (codePoints s)"
proof (induction s arbitrary: n rule: codePoints.induct)
  case 1
  show ?case by simp
next
  case (2 a)
  show ?case by (cases n) auto
next
  case (3 a b xs)
  show ?case
  proof (cases n)
    case (Suc m)
    show ?thesis
    proof (cases "highSurrogate a \<and> lowSurrogate b")
      case True
      then show ?thesis using 3(1) [OF True, of m] Suc by (cases "concat (take m (codePoints xs))") auto
    next
      case False
      have "concat (take m (codePoints (b # xs))) = [] \<or> hd (concat (take m (codePoints (b # xs)))) = b"
        by (cases m; cases "codePoints (b # xs)"; cases xs) (auto split: if_splits)
      then show ?thesis using 3(2) [OF False, of m] Suc False
        by (cases "concat (take m (codePoints (b # xs)))") auto
    qed
  qed simp
qed

lemma codePoint_single: "cp \<in> set (codePoints s) \<Longrightarrow> codePoints cp = [cp] \<and> utf8Text cp = utf8CodePoint cp \<and> 0 < length (utf8CodePoint cp)"
  by (induction s rule: codePoints.induct) (auto simp: utf8Text_def Let_def split: if_splits)

lemma popBytes_drop: "\<exists>n. popBytes cps removed limit = drop n cps \<and> (n < length cps \<longrightarrow> limit \<le> removed + length (concat (map utf8Text (take n cps))))
    \<and> (removed < limit \<longrightarrow> cps \<noteq> [] \<longrightarrow> 0 < n)"
proof (induction cps removed limit rule: popBytes.induct)
  case (1 removed limit)
  show ?case by (rule exI [of _ 0]) simp
next
  case (2 cp cps removed limit)
  show ?case
  proof (cases "removed < limit")
    case True
    then obtain n where "popBytes cps (removed + length (utf8Text cp)) limit = drop n cps"
      "n < length cps \<longrightarrow> limit \<le> removed + length (utf8Text cp) + length (concat (map utf8Text (take n cps)))" using 2 by blast
    then show ?thesis using True by (intro exI [of _ "Suc n"]) (simp add: add.assoc)
  qed (auto intro!: exI [of _ 0])
qed


lemma bytesOf_codePoints: "set cps \<subseteq> set (codePoints s) \<Longrightarrow> length (concat (map utf8Text cps)) = bytesOf cps"
  by (induction cps) (use codePoint_single in auto)

lemma trimEnd_prefix: "\<exists>t. s = trimEnd s @ t \<and> list_all spaceUnit t"
proof -
  have "s = rev (dropWhile spaceUnit (rev s)) @ rev (takeWhile spaceUnit (rev s))"
    by (metis rev_append rev_rev_ident takeWhile_dropWhile_id)
  moreover have "list_all spaceUnit (rev (takeWhile spaceUnit (rev s)))" by (auto simp: list_all_iff dest: set_takeWhileD)
  ultimately show ?thesis unfolding trimEnd_def by blast
qed

lemma space_not_surrogate: "spaceUnit u \<Longrightarrow> \<not> highSurrogate u \<and> \<not> lowSurrogate u"
  by (auto simp: spaceUnit_def highSurrogate_def lowSurrogate_def)

lemma byteLen_append:
  "(xs \<noteq> [] \<Longrightarrow> ys \<noteq> [] \<Longrightarrow> \<not> (highSurrogate (last xs) \<and> lowSurrogate (hd ys))) \<Longrightarrow> byteLen (xs @ ys) = byteLen xs + byteLen ys"
  by (simp add: byteLen_codePoints codePoints_append)

lemma byteLen_trimEnd: "byteLen (trimEnd s) \<le> byteLen s"
proof -
  obtain t where t: "s = trimEnd s @ t" "list_all spaceUnit t" using trimEnd_prefix by blast
  have "\<not> lowSurrogate (hd t)" if "t \<noteq> []" using t(2) that space_not_surrogate by (cases t) auto
  then have "byteLen (trimEnd s @ t) = byteLen (trimEnd s) + byteLen t" by (intro byteLen_append) blast
  then show ?thesis using t(1) by simp
qed

text \<open>
  What a shortened text is: the front of the text, an ellipsis, and less in bytes by at least the
  excess. A text with nothing left is gone.
\<close>

lemma shorten_facts:
  assumes "shorten s excess = Some s'" "0 < excess"
  shows "\<exists>front rest. s = front @ rest \<and> rest \<noteq> [] \<and> s' = front @ [0x2026] \<and> byteLen s' + excess \<le> byteLen s"
proof -
  let ?cps = "codePoints s"
  obtain n where n: "popBytes (rev ?cps) 0 (excess + 3) = drop n (rev ?cps)"
    "n < length ?cps \<longrightarrow> excess + 3 \<le> length (concat (map utf8Text (take n (rev ?cps))))" "?cps \<noteq> [] \<longrightarrow> 0 < n"
    using popBytes_drop [of "rev ?cps" 0 "excess + 3"] by (metis add_0 length_rev not_less_zero rev_is_Nil_conv zero_less_Suc
        add_gr_0 zero_less_numeral)
  define k where "k = length ?cps - n"
  have kept: "rev (drop n (rev ?cps)) = take k ?cps" by (simp add: rev_drop k_def)
  define front where "front = trimEnd (concat (take k ?cps))"
  have s': "front \<noteq> []" "s' = front @ [0x2026]"
    using assms(1) by (auto simp: shorten_def Let_def n(1) kept front_def split: if_splits)
  obtain t where t: "concat (take k ?cps) = front @ t" using trimEnd_prefix front_def by metis
  have whole: "s = concat (take k ?cps) @ concat (drop k ?cps)" by (metis append_take_drop_id concat_append concat_codePoints)
  have "take k ?cps \<noteq> []"
  proof
    assume "take k ?cps = []"
    then have "front @ t = []" using t by (simp only: concat.simps)
    then show False using s'(1) by simp
  qed
  then have k: "0 < k" "n < length ?cps" unfolding k_def by auto
  then have removed: "excess + 3 \<le> bytesOf (drop k ?cps)"
  proof -
    have "take n (rev ?cps) = rev (drop k ?cps)" using k by (simp add: take_rev k_def)
    moreover have "length (concat (map utf8Text (take n (rev ?cps)))) = bytesOf (take n (rev ?cps))"
      by (rule bytesOf_codePoints [of _ s]) (metis set_rev set_take_subset)
    ultimately show ?thesis using n(2) k by (simp add: rev_map [symmetric])
  qed
  have "byteLen front \<le> bytesOf (take k ?cps)"
    unfolding front_def using byteLen_trimEnd [of "concat (take k ?cps)"] by (simp add: byteLen_codePoints codePoints_take)
  moreover have "byteLen s = bytesOf (take k ?cps) + bytesOf (drop k ?cps)"
    unfolding byteLen_codePoints by (metis append_take_drop_id map_append sum_list_append)
  moreover have "byteLen s' = byteLen front + 3"
    unfolding s'(2) by (subst byteLen_append) (auto simp: lowSurrogate_def byteLen_def utf8Text_def highSurrogate_def Let_def)
  moreover have "concat (drop k ?cps) \<noteq> []" using removed by (metis concat_codePoints add_is_0 calculation(1) removed codePoints_take
        append_Nil2 whole calculation(2) add_cancel_right_right byteLen_codePoints le_zero_eq append_take_drop_id not_numeral_le_zero)
  ultimately show ?thesis using removed s'(2) t whole
    by (intro exI [of _ front] exI [of _ "t @ concat (drop k ?cps)"]) auto
qed


subsection \<open>The loop that makes a message fit\<close>

lemma byteLen_pos: "s \<noteq> [] \<Longrightarrow> 0 < byteLen s"
  using codePoint_single [of "hd (codePoints s)" s] by (cases "codePoints s") (auto simp: byteLen_codePoints)

lemma byteLen_hd: "1 < length (codePoints s) \<Longrightarrow> byteLen (hd (codePoints s)) < byteLen s"
proof -
  assume l: "1 < length (codePoints s)"
  then obtain a b cps where c: "codePoints s = a # b # cps" by (cases "codePoints s"; cases "tl (codePoints s)") auto
  then have "a \<in> set (codePoints s)" "b \<in> set (codePoints s)" by simp_all
  then have "byteLen a = length (utf8CodePoint a)" "0 < length (utf8CodePoint b)" using codePoint_single by (auto simp: byteLen_codePoints)
  then show ?thesis by (simp add: byteLen_codePoints [of s] c)
qed

definition bodyBytes :: "jstext option \<Rightarrow> nat" where
  "bodyBytes body = (case truthyText body of None \<Rightarrow> 0 | Some b \<Rightarrow> byteLen b)"

lemma bodyBytes_shorten: "truthyText body = Some b \<Longrightarrow> 0 < excess \<Longrightarrow> bodyBytes (shorten b excess) < bodyBytes body"
proof -
  assume b: "truthyText body = Some b" and e: "0 < excess"
  then have pos: "0 < byteLen b" by (intro byteLen_pos) (auto simp: truthyText_def split: option.splits if_splits)
  show ?thesis
  proof (cases "shorten b excess")
    case None
    then show ?thesis using b pos by (simp add: bodyBytes_def truthyText_def)
  next
    case (Some b')
    then show ?thesis using shorten_facts [OF Some e] b e by (auto simp: bodyBytes_def truthyText_def split: option.splits if_splits)
  qed
qed

lemma byteLen_shorter:
  "1 < length (codePoints s) \<Longrightarrow> 0 < excess \<Longrightarrow>
   byteLen (case shorten s excess of Some t \<Rightarrow> t | None \<Rightarrow> hd (codePoints s)) < byteLen s"
  using byteLen_hd [of s] shorten_facts [of s excess] by (fastforce split: option.splits)

function fitMessage :: "push_frame \<Rightarrow> nat \<Rightarrow> jstext \<Rightarrow> jstext option \<Rightarrow> string + (jstext \<times> jstext option \<times> bytes)" where
  "fitMessage frame maxBytes title body =
     (let bytes = messageBytes frame title body
      in if length bytes \<le> maxBytes then Inr (title, truthyText body, bytes)
         else
           (let excess = length bytes - maxBytes
            in case truthyText body of
                 Some b \<Rightarrow> fitMessage frame maxBytes title (shorten b excess)
               | None \<Rightarrow>
                   (if 1 < length (codePoints title)
                    then fitMessage frame maxBytes
                           (case shorten title excess of Some t \<Rightarrow> t | None \<Rightarrow> hd (codePoints title)) body
                    else Inl ''declarative web push message cannot fit the size limit'')))"
  by pat_completeness auto

termination
  by (relation "measure (\<lambda>(frame, maxBytes, title, body). byteLen title + bodyBytes body)")
    (auto simp: byteLen_shorter bodyBytes_shorten)

declare fitMessage.simps [simp del]

text \<open>A text as it was, or a front of it with an ellipsis.\<close>

definition frontOf :: "jstext \<Rightarrow> jstext \<Rightarrow> bool" where
  "frontOf s s' = (s' = s \<or> (\<exists>front rest. s = front @ rest \<and> s' = front @ [0x2026]))"

lemma frontOf_shorten:
  assumes "frontOf s s'" "shorten s' excess = Some s''" "0 < excess"
  shows "frontOf s s''"
proof -
  obtain front rest where f: "s' = front @ rest" "rest \<noteq> []" "s'' = front @ [0x2026]" using shorten_facts [OF assms(2,3)] by blast
  from assms(1) consider "s' = s" | f0 r0 where "s = f0 @ r0" "s' = f0 @ [0x2026]" by (auto simp: frontOf_def)
  then show ?thesis
  proof cases
    case 1
    then show ?thesis using f by (auto simp: frontOf_def)
  next
    case 2
    then obtain r where "f0 = front @ r" using f(1,2) by (cases rest rule: rev_cases) auto
    then show ?thesis using f(3) 2(1) by (auto simp: frontOf_def)
  qed
qed


subsection \<open>Building a message\<close>

record url_text =
  ut_protocol :: string
  ut_origin :: jstext
  ut_hostname :: jstext
  ut_username :: jstext
  ut_password :: jstext
  ut_href :: jstext

text \<open>\<open>new URL(value, base)\<close>, which may throw.\<close>

type_synonym text_parser = "jstext \<Rightarrow> jstext option \<Rightarrow> url_text option"

definition sameOriginUrl :: "text_parser \<Rightarrow> jstext \<Rightarrow> jstext \<Rightarrow> jstext" where
  "sameOriginUrl parse v origin =
     (case parse v (Some (origin @ [47])) of
        None \<Rightarrow> origin @ [47]
      | Some u \<Rightarrow> if ut_origin u = origin \<and> ut_username u = [] \<and> ut_password u = [] then ut_href u else origin @ [47])"

definition letterUnit :: "nat \<Rightarrow> bool" where
  "letterUnit u = ((65 \<le> u \<and> u \<le> 90) \<or> (97 \<le> u \<and> u \<le> 122))"

definition alnumUnit :: "nat \<Rightarrow> bool" where
  "alnumUnit u = (letterUnit u \<or> (48 \<le> u \<and> u \<le> 57))"

fun splitUnits :: "nat \<Rightarrow> jstext \<Rightarrow> jstext list" where
  "splitUnits c [] = [[]]"
| "splitUnits c (x # xs) =
     (if x = c then [] # splitUnits c xs else (case splitUnits c xs of [] \<Rightarrow> [[x]] | y # ys \<Rightarrow> (x # y) # ys))"

definition languageTag :: "jstext \<Rightarrow> bool" where
  "languageTag s =
     (case splitUnits 45 s of
        [] \<Rightarrow> False
      | p # ps \<Rightarrow>
          list_all letterUnit p \<and> 2 \<le> length p \<and> length p \<le> 8 \<and>
          list_all (\<lambda>q. list_all alnumUnit q \<and> 1 \<le> length q \<and> length q \<le> 8) ps)"

definition normalizeLanguageTag :: "jstext option \<Rightarrow> jstext option" where
  "normalizeLanguageTag v =
     (case truthyText (map_option trimText v) of None \<Rightarrow> None | Some t \<Rightarrow> if languageTag t then Some t else None)"

record message_input =
  mi_appOrigin :: jstext
  mi_title :: jstext
  mi_navigate :: jstext
  mi_body :: "jstext option"
  mi_lang :: "jstext option"
  mi_tag :: "jstext option"
  mi_appBadge :: "jsnum option"
  mi_maxBytes :: "nat option"

definition badgeText :: "jsnum option \<Rightarrow> jstext option" where
  "badgeText badge =
     (case badge of
        None \<Rightarrow> None
      | Some n \<Rightarrow> if isSafeInteger (JNum n) \<and> 0 \<le> intOf (JNum n) then Some (decimalText (nat (intOf (JNum n)))) else None)"

definition messageFrame :: "text_parser \<Rightarrow> message_input \<Rightarrow> jstext \<Rightarrow> push_frame" where
  "messageFrame parse input origin =
     \<lparr>pf_navigate = sameOriginUrl parse (mi_navigate input) origin,
      pf_lang = normalizeLanguageTag (mi_lang input),
      pf_tag = truthyText (map_option (\<lambda>t. take 64 (trimText t)) (mi_tag input)),
      pf_badge = badgeText (mi_appBadge input)\<rparr>"

definition messageLimit :: "message_input \<Rightarrow> nat" where
  "messageLimit input = (case mi_maxBytes input of None \<Rightarrow> MAX_DECLARATIVE_WEB_PUSH_BYTES | Some n \<Rightarrow> n)"

definition messageBody :: "message_input \<Rightarrow> jstext option" where
  "messageBody input = map_option singleLine (truthyText (mi_body input))"

definition messageTitle :: "text_parser \<Rightarrow> message_input \<Rightarrow> jstext \<Rightarrow> jstext option" where
  "messageTitle parse input origin =
     (case truthyText (Some (singleLine (mi_title input))) of
        Some title \<Rightarrow> Some title
      | None \<Rightarrow> map_option ut_hostname (parse origin None))"

definition buildDeclarativeWebPushMessage :: "text_parser \<Rightarrow> message_input \<Rightarrow> string + (jstext \<times> jstext option \<times> bytes)" where
  "buildDeclarativeWebPushMessage parse input =
     (case parse (mi_appOrigin input) None of
        None \<Rightarrow> Inl ''Invalid URL''
      | Some u \<Rightarrow>
          (case messageTitle parse input (ut_origin u) of
             None \<Rightarrow> Inl ''Invalid URL''
           | Some title \<Rightarrow> fitMessage (messageFrame parse input (ut_origin u)) (messageLimit input) title (messageBody input)))"

lemma truthyText_idem [simp]: "truthyText (truthyText b) = truthyText b"
  by (auto simp: truthyText_def split: option.splits)

lemma messageBytes_truthy [simp]: "messageBytes frame t (truthyText b) = messageBytes frame t b"
  by (simp add: messageBytes_def messageJson_def)

definition bodyFrontOf :: "jstext option \<Rightarrow> jstext option \<Rightarrow> bool" where
  "bodyFrontOf b0 b = (case b of None \<Rightarrow> True | Some t \<Rightarrow> (\<exists>s. b0 = Some s \<and> frontOf s t))"

lemma fitMessage_cases:
  assumes "frontOf title0 title \<or> length (codePoints title) = 1" "bodyFrontOf body0 (truthyText body)"
    "truthyText body \<noteq> None \<longrightarrow> title = title0"
  shows "case fitMessage frame maxBytes title body of
      Inr (t, b, bytes) \<Rightarrow> bytes = messageBytes frame t b \<and> length bytes \<le> maxBytes \<and>
        (frontOf title0 t \<or> length (codePoints t) = 1) \<and> bodyFrontOf body0 b \<and> (b \<noteq> None \<longrightarrow> t = title0)
    | Inl e \<Rightarrow> \<exists>t. length (codePoints t) \<le> 1 \<and> maxBytes < length (messageBytes frame t None)"
  using assms
proof (induction frame maxBytes title body rule: fitMessage.induct)
  case (1 frame maxBytes title body)
  let ?bytes = "messageBytes frame title body"
  show ?case
  proof (cases "length ?bytes \<le> maxBytes")
    case True
    then show ?thesis using 1(3-5) by (subst fitMessage.simps) (simp add: Let_def)
  next
    case False
    let ?excess = "length ?bytes - maxBytes"
    have e: "0 < ?excess" using False by simp
    show ?thesis
    proof (cases "truthyText body")
      case (Some b)
      have step: "fitMessage frame maxBytes title body = fitMessage frame maxBytes title (shorten b ?excess)"
        using False Some by (subst fitMessage.simps) (simp add: Let_def)
      have "bodyFrontOf body0 (truthyText (shorten b ?excess))"
      proof (cases "truthyText (shorten b ?excess)")
        case (Some b')
        then have "shorten b ?excess = Some b'" by (auto simp: truthyText_def split: option.splits if_splits)
        then show ?thesis using 1(4) \<open>truthyText body = Some b\<close> frontOf_shorten [OF _ _ e] Some by (auto simp: bodyFrontOf_def)
      qed (simp add: bodyFrontOf_def)
      moreover have "truthyText (shorten b ?excess) \<noteq> None \<longrightarrow> title = title0" using 1(5) Some by simp
      ultimately show ?thesis unfolding step by (intro 1(2) [OF refl False refl Some] 1(3))
    next
      case None
      show ?thesis
      proof (cases "1 < length (codePoints title)")
        case True
        let ?title = "case shorten title ?excess of Some t \<Rightarrow> t | None \<Rightarrow> hd (codePoints title)"
        have step: "fitMessage frame maxBytes title body = fitMessage frame maxBytes ?title body"
          using False None True by (subst fitMessage.simps) (simp add: Let_def)
        have "hd (codePoints title) \<in> set (codePoints title)" using True by (cases "codePoints title") auto
        then have "length (codePoints (hd (codePoints title))) = 1" using codePoint_single [of "hd (codePoints title)" title] by simp
        moreover have "frontOf title0 title" using 1(3) True by simp
        ultimately have "frontOf title0 ?title \<or> length (codePoints ?title) = 1"
          using frontOf_shorten [OF _ _ e] by (cases "shorten title ?excess") auto
        moreover have "truthyText body \<noteq> None \<longrightarrow> ?title = title0" using None by simp
        ultimately show ?thesis unfolding step by (intro 1(1) [OF refl False refl None True] 1(4))
      next
        case short: False
        have "messageBytes frame title None = ?bytes" using None messageBytes_truthy [of frame title body] by simp
        then have "maxBytes < length (messageBytes frame title None)" using False by simp
        then show ?thesis using short False None by (subst fitMessage.simps) (auto simp: Let_def not_less)
      qed
    qed
  qed
qed


lemma frontOf_refl [simp]: "frontOf s s"
  by (simp add: frontOf_def)

lemma bodyFrontOf_truthy [simp]: "bodyFrontOf b (truthyText b)"
  by (auto simp: bodyFrontOf_def truthyText_def split: option.splits)

lemma fitMessage_whole:
  "case fitMessage frame maxBytes title body of
      Inr (t, b, bytes) \<Rightarrow> bytes = messageBytes frame t b \<and> length bytes \<le> maxBytes \<and>
        (frontOf title t \<or> length (codePoints t) = 1) \<and> bodyFrontOf body b \<and> (b \<noteq> None \<longrightarrow> t = title)
    | Inl e \<Rightarrow> \<exists>t. length (codePoints t) \<le> 1 \<and> maxBytes < length (messageBytes frame t None)"
  by (rule fitMessage_cases) simp_all

lemma message_size:
  assumes "buildDeclarativeWebPushMessage parse input = Inr (title, body, payload)"
  shows "length payload \<le> messageLimit input"
proof -
  obtain u :: url_text and t where "fitMessage (messageFrame parse input (ut_origin u)) (messageLimit input) t (messageBody input) = Inr (title, body, payload)"
    using assms by (auto simp: buildDeclarativeWebPushMessage_def split: option.splits)
  then show ?thesis
    using fitMessage_whole [where frame = "messageFrame parse input (ut_origin u)" and maxBytes = "messageLimit input" and title = t and body = "messageBody input"]
    by auto
qed

lemma sameOriginUrl_origin:
  "sameOriginUrl parse v origin = origin @ [47] \<or>
   (\<exists>u. parse v (Some (origin @ [47])) = Some u \<and> ut_origin u = origin \<and> sameOriginUrl parse v origin = ut_href u)"
  by (auto simp: sameOriginUrl_def split: option.splits)



lemma fitMessage_fits:
  "length (messageBytes frame title body) \<le> maxBytes \<Longrightarrow>
   fitMessage frame maxBytes title body = Inr (title, truthyText body, messageBytes frame title body)"
  by (subst fitMessage.simps) (simp add: Let_def)

definition exampleOrigin :: url_text where
  "exampleOrigin =
     \<lparr>ut_protocol = ''https:'', ut_origin = asText ''https://a.b'', ut_hostname = asText ''a.b'', ut_username = [], ut_password = [],
      ut_href = asText ''https://a.b/''\<rparr>"

definition exampleMessage :: message_input where
  "exampleMessage =
     \<lparr>mi_appOrigin = asText ''https://a.b'', mi_title = asText ''T'', mi_navigate = asText ''/'', mi_body = Some (asText ''Hi''),
      mi_lang = None, mi_tag = None, mi_appBadge = None, mi_maxBytes = None\<rparr>"

definition exampleParse :: text_parser where
  "exampleParse v b = Some exampleOrigin"

lemmas message_eval = exampleMessage_def exampleOrigin_def exampleParse_def asText_def messageTitle_def messageBody_def messageLimit_def
  messageFrame_def sameOriginUrl_def normalizeLanguageTag_def badgeText_def truthyText_def singleLine_def trimText_def trimEnd_def
  spaceUnit_def MAX_DECLARATIVE_WEB_PUSH_BYTES_def

lemmas json_eval = messageBytes_def messageJson_def jsonObject_def commaSep_def jsonField_def jsonString_def optField_def utf8Text_def
  highSurrogate_def lowSurrogate_def decimalText.simps DECLARATIVE_WEB_PUSH_MAGIC_def

lemma example_message_fits:
  "length (messageBytes (messageFrame exampleParse exampleMessage (ut_origin exampleOrigin)) (asText ''T'') (messageBody exampleMessage))
     \<le> messageLimit exampleMessage"
  by (simp add: message_eval json_eval)

lemma example_message_title: "messageTitle exampleParse exampleMessage (ut_origin exampleOrigin) = Some (asText ''T'')"
  by (simp add: message_eval)


subsection \<open>The answer of a push service\<close>

definition MAX_WEB_PUSH_TTL_SECONDS :: int where "MAX_WEB_PUSH_TTL_SECONDS = 28 * 24 * 60 * 60"
definition DEFAULT_WEB_PUSH_TTL_SECONDS :: int where "DEFAULT_WEB_PUSH_TTL_SECONDS = 172800"
definition MAX_RETRY_AFTER_SECONDS :: secs where "MAX_RETRY_AFTER_SECONDS = 12 * 60 * 60"

datatype web_push_outcome =
    WpDelivered nat
  | WpGone nat
  | WpRetry "nat option" secs string
  | WpFailed "nat option" string

text \<open>\<open>Number\<close> and \<open>Date.parse\<close> are parameters.\<close>

definition parsePushRetryAfter :: "(string \<Rightarrow> jsnum) \<Rightarrow> (string \<Rightarrow> ms option) \<Rightarrow> string option \<Rightarrow> ms \<Rightarrow> secs" where
  "parsePushRetryAfter numberOf dateOf v now =
     (case truthy v of
        None \<Rightarrow> 0
      | Some s \<Rightarrow>
          (let byDate = (case dateOf s of
                 None \<Rightarrow> 0
               | Some t \<Rightarrow> min MAX_RETRY_AFTER_SECONDS (max 0 (ceiling (of_int (t - now) / (1000 :: rat)))))
           in case numberOf s of
                Fin n \<Rightarrow> if 0 \<le> n then min MAX_RETRY_AFTER_SECONDS (ceiling n) else byDate
              | _ \<Rightarrow> byDate))"

definition httpError :: "string \<Rightarrow> nat \<Rightarrow> string" where
  "httpError who status = who @ '' HTTP '' @ map char_of (decimalText status)"

definition classifyWebPushResponse :: "(string \<Rightarrow> jsnum) \<Rightarrow> (string \<Rightarrow> ms option) \<Rightarrow> nat \<Rightarrow> string option \<Rightarrow> ms \<Rightarrow> web_push_outcome" where
  "classifyWebPushResponse numberOf dateOf status retryAfter now =
     (if 200 \<le> status \<and> status < 300 then WpDelivered status
      else if status = 404 \<or> status = 410 then WpGone status
      else if status = 408 \<or> status = 429 \<or> (500 \<le> status \<and> status < 600)
        then WpRetry (Some status) (parsePushRetryAfter numberOf dateOf retryAfter now) (httpError ''push service'' status)
      else WpFailed (if status = 0 then None else Some status) (httpError ''push service'' status))"

definition isValidTopic :: "string \<Rightarrow> bool" where
  "isValidTopic s = (1 \<le> length s \<and> length s \<le> 32 \<and> list_all urlSafeChar s)"

definition normalizeTtl :: "jsnum option \<Rightarrow> int" where
  "normalizeTtl v =
     (case v of Some (Fin q) \<Rightarrow> max 0 (min MAX_WEB_PUSH_TTL_SECONDS (floor q)) | _ \<Rightarrow> DEFAULT_WEB_PUSH_TTL_SECONDS)"

subsection \<open>Topics\<close>

definition WEB_PUSH_TOPIC_KEY_LABEL :: string where "WEB_PUSH_TOPIC_KEY_LABEL = ''yurucommu/web-push/topic/v1''"
definition TOPIC_BYTES :: nat where "TOPIC_BYTES = 24"

text \<open>HKDF and HMAC-SHA256 are parameters; the key is cached for the current secret.\<close>

definition deriveWebPushTopicKey :: "(bytes \<Rightarrow> bytes \<Rightarrow> bytes) \<Rightarrow> bytes \<Rightarrow> string \<Rightarrow> string + bytes" where
  "deriveWebPushTopicKey hkdf secret label =
     (if length secret < 16 then Inl ''Topic key derivation secret must be at least 16 bytes'' else Inr (hkdf secret (utf8 label)))"

definition uint32Bytes :: "nat \<Rightarrow> bytes" where
  "uint32Bytes n = [of_nat (n div 2 ^ 24), of_nat (n div 2 ^ 16), of_nat (n div 2 ^ 8), of_nat n]"

definition computeWebPushTopic :: "(bytes \<Rightarrow> bytes \<Rightarrow> bytes) \<Rightarrow> bytes \<Rightarrow> string \<Rightarrow> string \<Rightarrow> string" where
  "computeWebPushTopic hmac key recipient conversation =
     (let recipientBytes = utf8 recipient;
          mac = hmac key (concatBytes [uint32Bytes (length recipientBytes), recipientBytes, utf8 conversation])
      in base64UrlEncode (take TOPIC_BYTES mac))"

definition instanceWebPushTopic ::
  "(bytes \<Rightarrow> bytes \<Rightarrow> bytes) \<Rightarrow> (bytes \<Rightarrow> bytes \<Rightarrow> bytes) \<Rightarrow> string option \<Rightarrow> string \<Rightarrow> string \<Rightarrow> string + string option" where
  "instanceWebPushTopic hkdf hmac encryptionKey recipient conversation =
     (case parseVapidDerivationSecret encryptionKey of
        None \<Rightarrow> Inr None
      | Some secret \<Rightarrow>
          (case deriveWebPushTopicKey hkdf secret WEB_PUSH_TOPIC_KEY_LABEL of
             Inl e \<Rightarrow> Inl e
           | Inr key \<Rightarrow> Inr (Some (computeWebPushTopic hmac key recipient conversation))))"

lemma sextets_triples: "length xs = 3 * n \<Longrightarrow> length (sextets xs) = 4 * n"
proof (induction xs arbitrary: n rule: sextets.induct)
  case (2 a)
  then have "1 = 3 * n" by simp
  then show ?case by presburger
next
  case (3 a b)
  then have "2 = 3 * n" by simp
  then show ?case by presburger
next
  case (4 a b c xs)
  then show ?case by (cases n) auto
qed simp

lemma uint32Bytes_inj:
  assumes "m < 2 ^ 32" "n < 2 ^ 32" "uint32Bytes m = uint32Bytes n"
  shows "m = n"
proof -
  have byte: "(k div 2 ^ s) mod 256 = (l div 2 ^ s) mod 256" if "(of_nat (k div 2 ^ s) :: 8 word) = of_nat (l div 2 ^ s)" for k l s :: nat
    using arg_cong [OF that, of unat] by (simp add: unat_of_nat)
  have d: "m div 2 ^ 24 mod 256 = n div 2 ^ 24 mod 256" "m div 2 ^ 16 mod 256 = n div 2 ^ 16 mod 256"
    "m div 2 ^ 8 mod 256 = n div 2 ^ 8 mod 256" "m mod 256 = n mod 256"
    using assms(3) byte [of m 24 n] byte [of m 16 n] byte [of m 8 n] byte [of m 0 n] by (simp_all add: uint32Bytes_def)
  have digits: "k = ((k div 2 ^ 24 mod 256 * 256 + k div 2 ^ 16 mod 256) * 256 + k div 2 ^ 8 mod 256) * 256 + k mod 256" if "k < 2 ^ 32" for k :: nat
  proof -
    have "k div 2 ^ 24 mod 256 = k div 2 ^ 24" using that by (simp add: less_mult_imp_div_less)
    moreover have "k div 2 ^ 16 = k div 2 ^ 24 * 256 + k div 2 ^ 16 mod 256" "k div 2 ^ 8 = k div 2 ^ 16 * 256 + k div 2 ^ 8 mod 256"
      using div_mult_mod_eq [of "k div 2 ^ 16" 256] div_mult_mod_eq [of "k div 2 ^ 8" 256] by (simp_all add: div_mult2_eq [symmetric])
    ultimately show ?thesis by simp
  qed
  show ?thesis using digits [OF assms(1)] digits [OF assms(2)] d by simp
qed

text \<open>
  C40: Topics. The topic of a conversation is always a valid header value of exactly thirty-two
  URL-safe characters, given a MAC of at least twenty-four bytes, and the data that is authenticated
  tells recipient and conversation apart: no two pairs give the same input.
\<close>

theorem web_push_topics:
  assumes "24 \<le> length (hmac key (concatBytes [uint32Bytes (length (utf8 recipient)), utf8 recipient, utf8 conversation]))"
  shows "isValidTopic (computeWebPushTopic hmac key recipient conversation) \<and>
    length (computeWebPushTopic hmac key recipient conversation) = 32 \<and>
    (length (utf8 recipient) < 2 ^ 32 \<and> length (utf8 recipient') < 2 ^ 32 \<and>
     concatBytes [uint32Bytes (length (utf8 recipient)), utf8 recipient, utf8 conversation] =
     concatBytes [uint32Bytes (length (utf8 recipient')), utf8 recipient', utf8 conversation'] \<longrightarrow>
       utf8 recipient = utf8 recipient' \<and> utf8 conversation = utf8 conversation')"
proof (intro conjI impI)
  let ?mac = "take 24 (hmac key (concatBytes [uint32Bytes (length (utf8 recipient)), utf8 recipient, utf8 conversation]))"
  have topic: "computeWebPushTopic hmac key recipient conversation = map urlChar (sextets (map unat ?mac))"
    by (simp add: computeWebPushTopic_def Let_def TOPIC_BYTES_def base64UrlEncode_sextets)
  have small: "list_all (\<lambda>n. n < 256) (map unat ?mac)" using byte_bound by (simp add: list_all_iff)
  have "urlSafeChar (urlChar x)" if "x \<in> set (sextets (map unat ?mac))" for x
    using base64_digit(5) sextets_bound [OF small that] by blast
  then have safe: "list_all urlSafeChar (computeWebPushTopic hmac key recipient conversation)"
    unfolding topic list_all_iff set_map by blast
  show len: "length (computeWebPushTopic hmac key recipient conversation) = 32"
  proof -
    have "length (map unat ?mac) = 3 * 8" using assms by simp
    from sextets_triples [OF this] show ?thesis unfolding topic length_map by linarith
  qed
  show "isValidTopic (computeWebPushTopic hmac key recipient conversation)" using safe len by (simp add: isValidTopic_def)
next
  assume a: "length (utf8 recipient) < 2 ^ 32 \<and> length (utf8 recipient') < 2 ^ 32 \<and>
     concatBytes [uint32Bytes (length (utf8 recipient)), utf8 recipient, utf8 conversation] =
     concatBytes [uint32Bytes (length (utf8 recipient')), utf8 recipient', utf8 conversation']"
  then have "uint32Bytes (length (utf8 recipient)) = uint32Bytes (length (utf8 recipient'))"
    and rest: "utf8 recipient @ utf8 conversation = utf8 recipient' @ utf8 conversation'"
    by (auto simp: concatBytes_def uint32Bytes_def)
  then have "length (utf8 recipient) = length (utf8 recipient')" using a by (intro uint32Bytes_inj) auto
  then show "utf8 recipient = utf8 recipient'" "utf8 conversation = utf8 conversation'" using rest by auto
qed

theorem web_push_topics_witness:
  "isValidTopic (computeWebPushTopic (\<lambda>key data. replicate 32 0) [] ''ann'' ''talk'')"
  using web_push_topics [of "\<lambda>key data. replicate 32 0" "[]" "''ann''" "''talk''"] by simp

end
