(* ===== verification/WebPushSend.thy ===== *)
theory WebPushSend
  imports WebPushMessage
begin

section \<open>Web Push: encryption, VAPID tokens and the request\<close>

text \<open>
  Models \<open>src/backend/lib/web-push/encrypt.ts\<close>, the tokens of \<open>vapid.ts\<close> with their cache, and
  \<open>sendWebPush\<close> of \<open>send.ts\<close>. The primitives of WebCrypto, the URL parser and the answer of the push
  service are parameters; the fresh salt and sender key are arguments.
\<close>

subsection \<open>Encryption\<close>

definition WEB_PUSH_RECORD_SIZE :: nat where "WEB_PUSH_RECORD_SIZE = 4096"
definition SALT_BYTES :: nat where "SALT_BYTES = 16"
definition AUTH_SECRET_BYTES :: nat where "AUTH_SECRET_BYTES = 16"
definition TAG_BYTES :: nat where "TAG_BYTES = 16"
definition HEADER_BYTES :: nat where "HEADER_BYTES = SALT_BYTES + 4 + 1 + 65"
definition MAX_WEB_PUSH_PLAINTEXT_BYTES :: nat where
  "MAX_WEB_PUSH_PLAINTEXT_BYTES = 4096 - HEADER_BYTES - 1 - TAG_BYTES"

text \<open>ECDH of a private and a public key, HKDF (key material, salt, info, length), AES-GCM (key, nonce), ECDSA.\<close>

record web_crypto =
  wc_ecdh :: "bytes \<Rightarrow> bytes \<Rightarrow> bytes"
  wc_hkdf :: "bytes \<Rightarrow> bytes \<Rightarrow> bytes \<Rightarrow> nat \<Rightarrow> bytes"
  wc_seal :: "bytes \<Rightarrow> bytes \<Rightarrow> bytes \<Rightarrow> bytes"
  wc_sign :: "bytes \<Rightarrow> bytes \<Rightarrow> bytes"

record sender_pair =
  sp_private :: bytes
  sp_public :: bytes

definition decimalString :: "nat \<Rightarrow> string" where
  "decimalString n = map char_of (decimalText n)"

definition contentKeys :: "web_crypto \<Rightarrow> bytes \<Rightarrow> bytes \<Rightarrow> bytes \<Rightarrow> bytes \<Rightarrow> bytes \<Rightarrow> bytes \<times> bytes" where
  "contentKeys wc ecdhSecret authSecret userAgent sender salt =
     (let keyInfo = concatBytes [utf8 (''WebPush: info'' @ [CHR 0x00]), userAgent, sender];
          ikm = wc_hkdf wc ecdhSecret authSecret keyInfo 32
      in (wc_hkdf wc ikm salt (utf8 (''Content-Encoding: aes128gcm'' @ [CHR 0x00])) 16,
          wc_hkdf wc ikm salt (utf8 (''Content-Encoding: nonce'' @ [CHR 0x00])) 12))"

text \<open>The exported public key fills the rest of the header: it has 65 bytes.\<close>

definition encryptWebPushPayload :: "web_crypto \<Rightarrow> bytes \<Rightarrow> sender_pair \<Rightarrow> bytes \<Rightarrow> bytes \<Rightarrow> bytes \<Rightarrow> string + bytes" where
  "encryptWebPushPayload wc salt sender plaintext userAgent authSecret =
     (if \<not> isP256UncompressedPoint userAgent then Inl ''p256dh is not an uncompressed P-256 point''
      else if length authSecret \<noteq> AUTH_SECRET_BYTES then Inl ''auth secret must be 16 bytes''
      else if MAX_WEB_PUSH_PLAINTEXT_BYTES < length plaintext
        then Inl (''push plaintext exceeds '' @ decimalString MAX_WEB_PUSH_PLAINTEXT_BYTES @ '' bytes'')
      else if length salt \<noteq> SALT_BYTES then Inl ''salt must be 16 bytes''
      else (let ecdhSecret = wc_ecdh wc (sp_private sender) userAgent;
                (cek, nonce) = contentKeys wc ecdhSecret authSecret userAgent (sp_public sender) salt;
                record = concatBytes [plaintext, [0x02]];
                ciphertext = wc_seal wc cek nonce record;
                header = concatBytes [salt, uint32Bytes WEB_PUSH_RECORD_SIZE, [65], sp_public sender]
            in Inr (concatBytes [header, ciphertext])))"

text \<open>
  What the browser does with a body, by RFC 8188 and RFC 8291: it reads salt, record size and the
  sender's key from the header, agrees on the keys with its own private key, opens the record and
  strips the delimiter of a last record with its padding.
\<close>

definition stripDelimiter :: "bytes \<Rightarrow> bytes option" where
  "stripDelimiter padded =
     (case dropWhile (\<lambda>b. b = 0) (rev padded) of
        [] \<Rightarrow> None
      | b # rest \<Rightarrow> if b = 2 then Some (rev rest) else None)"

definition openWebPushMessage ::
  "web_crypto \<Rightarrow> (bytes \<Rightarrow> bytes \<Rightarrow> bytes \<Rightarrow> bytes option) \<Rightarrow> bytes \<Rightarrow> bytes \<Rightarrow> bytes \<Rightarrow> bytes \<Rightarrow> bytes option" where
  "openWebPushMessage wc unseal uaPrivate uaPublic authSecret body =
     (if length body < 21 then None
      else (let salt = take 16 body;
                recordSize = bigEndian (take 4 (drop 16 body));
                keyLength = unat (body ! 20);
                sender = take keyLength (drop 21 body);
                ciphertext = drop (21 + keyLength) body;
                (cek, nonce) = contentKeys wc (wc_ecdh wc uaPrivate sender) authSecret uaPublic sender salt
            in if length body < 21 + keyLength \<or> recordSize < int (length ciphertext) then None
               else Option.bind (unseal cek nonce ciphertext) stripDelimiter))"

lemma uint32Bytes_length [simp]: "length (uint32Bytes n) = 4"
  by (simp add: uint32Bytes_def)

lemma record_size_bytes: "uint32Bytes WEB_PUSH_RECORD_SIZE = [0, 0, 16, 0]"
  by (simp add: uint32Bytes_def WEB_PUSH_RECORD_SIZE_def)

lemma stripDelimiter_snoc: "stripDelimiter (bs @ [2]) = Some bs"
  by (simp add: stripDelimiter_def)

lemma encrypt_accepts:
  assumes "encryptWebPushPayload wc salt sender plaintext userAgent authSecret = Inr body"
  shows "isP256UncompressedPoint userAgent" "length authSecret = 16" "length plaintext \<le> 3993" "length salt = 16"
    "body = salt @ uint32Bytes WEB_PUSH_RECORD_SIZE @ [65] @ sp_public sender @
       (case contentKeys wc (wc_ecdh wc (sp_private sender) userAgent) authSecret userAgent (sp_public sender) salt of
          (cek, nonce) \<Rightarrow> wc_seal wc cek nonce (plaintext @ [2]))"
  using assms
  by (auto simp: encryptWebPushPayload_def Let_def AUTH_SECRET_BYTES_def MAX_WEB_PUSH_PLAINTEXT_BYTES_def HEADER_BYTES_def
      SALT_BYTES_def TAG_BYTES_def concatBytes_def split: if_splits prod.splits)

lemma encrypt_size:
  assumes "encryptWebPushPayload wc salt sender plaintext userAgent authSecret = Inr body"
    and "length (sp_public sender) = 65"
    and "\<And>k n p. length (wc_seal wc k n p) = length p + TAG_BYTES"
  shows "length body = HEADER_BYTES + length plaintext + 1 + TAG_BYTES" "length body \<le> 4096"
proof -
  note e = encrypt_accepts [OF assms(1)]
  show "length body = HEADER_BYTES + length plaintext + 1 + TAG_BYTES"
    unfolding e(5) by (simp add: e(4) assms(2,3) HEADER_BYTES_def SALT_BYTES_def split: prod.splits)
  then show "length body \<le> 4096" using e(3) by (simp add: HEADER_BYTES_def SALT_BYTES_def TAG_BYTES_def)
qed

lemma open_header:
  assumes "length salt = 16" "length sender = 65" "length ciphertext \<le> 4096"
  shows "openWebPushMessage wc unseal uaPrivate uaPublic authSecret
      (salt @ uint32Bytes WEB_PUSH_RECORD_SIZE @ [65] @ sender @ ciphertext) =
    (case contentKeys wc (wc_ecdh wc uaPrivate sender) authSecret uaPublic sender salt of
       (cek, nonce) \<Rightarrow> Option.bind (unseal cek nonce ciphertext) stripDelimiter)"
proof -
  let ?body = "salt @ uint32Bytes WEB_PUSH_RECORD_SIZE @ [65] @ sender @ ciphertext"
  have "take 4 (drop 16 ?body) = [0, 0, 16, 0]" using assms(1) by (simp add: record_size_bytes)
  then have size: "bigEndian (take 4 (drop 16 ?body)) = 4096" by (simp add: bigEndian_def)
  have "?body ! 20 = 65" using assms(1) by (simp add: nth_append)
  moreover have "take 65 (drop 21 ?body) = sender" "drop 86 ?body = ciphertext" "take 16 ?body = salt"
    using assms(1,2) by simp_all
  ultimately show ?thesis
    unfolding openWebPushMessage_def Let_def size using assms by (simp split: prod.splits)
qed

lemma encrypted_opens:
  assumes "encryptWebPushPayload wc salt sender plaintext uaPublic authSecret = Inr body"
    and "length (sp_public sender) = 65"
    and "wc_ecdh wc uaPrivate (sp_public sender) = wc_ecdh wc (sp_private sender) uaPublic"
    and "\<And>k n p. unseal k n (wc_seal wc k n p) = Some p"
    and "\<And>k n p. length (wc_seal wc k n p) = length p + TAG_BYTES"
  shows "openWebPushMessage wc unseal uaPrivate uaPublic authSecret body = Some plaintext \<and> length body \<le> 4096"
proof -
  note e = encrypt_accepts [OF assms(1)]
  obtain cek nonce where keys: "contentKeys wc (wc_ecdh wc (sp_private sender) uaPublic) authSecret uaPublic (sp_public sender) salt = (cek, nonce)"
    by fastforce
  have body: "body = salt @ uint32Bytes WEB_PUSH_RECORD_SIZE @ [65] @ sp_public sender @ wc_seal wc cek nonce (plaintext @ [2])"
    using e(5) by (simp add: keys)
  have "length (wc_seal wc cek nonce (plaintext @ [2])) \<le> 4096" using e(3) assms(5) by (simp add: TAG_BYTES_def)
  from open_header [OF e(4) assms(2) this] have "openWebPushMessage wc unseal uaPrivate uaPublic authSecret body = Some plaintext"
    unfolding body by (simp add: assms(3,4) keys stripDelimiter_snoc)
  then show ?thesis using encrypt_size(2) [OF assms(1,2,5)] by blast
qed


definition exampleCrypto :: web_crypto where
  "exampleCrypto = \<lparr>wc_ecdh = (\<lambda>priv pub. []), wc_hkdf = (\<lambda>ikm salt info n. replicate n 1),
     wc_seal = (\<lambda>k n p. p @ replicate 16 0), wc_sign = (\<lambda>k m. replicate 64 1)\<rparr>"

definition exampleSender :: sender_pair where
  "exampleSender = \<lparr>sp_private = [], sp_public = replicate 65 4\<rparr>"

text \<open>The base point of the curve, as a subscription key.\<close>

definition examplePoint :: bytes where
  "examplePoint = [4, 107, 23, 209, 242, 225, 44, 66, 71, 248, 188, 230, 229, 99, 164, 64, 242, 119, 3, 125, 129, 45, 235, 51, 160, 244, 161, 57, 69, 216, 152, 194, 150, 79, 227, 66, 226, 254, 26, 127, 155, 142, 231, 235, 74, 124, 15, 158, 22, 43, 206, 51, 87, 107, 49, 94, 206, 203, 182, 64, 104, 55, 191, 81, 245]"

lemma example_point_x: "bigEndian (take 32 (drop 1 examplePoint)) = GX" by code_simp
lemma example_point_y: "bigEndian (take 32 (drop 33 examplePoint)) = GY" by code_simp

lemma example_point_ok: "isP256UncompressedPoint examplePoint"
proof -
  have shape: "length examplePoint = 65" "examplePoint ! 0 = 4" by (simp_all add: examplePoint_def)
  have curve: "modP (GY * GY) = modP (GX * GX * GX - 3 * GX + P256_B)" by code_simp
  have range: "\<not> P256_P \<le> GX" "\<not> P256_P \<le> GY" by code_simp+
  show ?thesis
    unfolding isP256UncompressedPoint_def bytesToBigInt_bigEndian example_point_x example_point_y Let_def
    by (simp only: shape curve range refl) simp
qed


subsection \<open>VAPID tokens\<close>

definition VAPID_JWT_LIFETIME_SECONDS :: secs where "VAPID_JWT_LIFETIME_SECONDS = 12 * 60 * 60"
definition VAPID_JWT_REUSE_MARGIN_SECONDS :: secs where "VAPID_JWT_REUSE_MARGIN_SECONDS = 60 * 60"
definition MAX_CACHED_JWTS :: nat where "MAX_CACHED_JWTS = 64"

record vapid_claims =
  vc_aud :: jstext
  vc_exp :: secs
  vc_sub :: jstext

definition intText :: "int \<Rightarrow> jstext" where
  "intText n = (if n < 0 then 45 # decimalText (nat (- n)) else decimalText (nat n))"

definition stringOf :: "jstext \<Rightarrow> string" where
  "stringOf s = map char_of s"

definition signVapidJwt :: "web_crypto \<Rightarrow> vapid_pair \<Rightarrow> vapid_claims \<Rightarrow> string" where
  "signVapidJwt wc keys claims =
     (let header = base64UrlEncode (utf8Text (jsonObject
            [jsonField ''typ'' (jsonString (asText ''JWT'')), jsonField ''alg'' (jsonString (asText ''ES256''))]));
          payload = base64UrlEncode (utf8Text (jsonObject
            [jsonField ''aud'' (jsonString (vc_aud claims)), jsonField ''exp'' (intText (vc_exp claims)),
             jsonField ''sub'' (jsonString (vc_sub claims))]));
          signingInput = header @ ''.'' @ payload;
          signature = wc_sign wc (vp_private keys) (utf8 signingInput)
      in signingInput @ ''.'' @ base64UrlEncode signature)"

text \<open>The cache is a \<open>Map\<close>: its entries in the order of insertion.\<close>

type_synonym jwt_cache = "(jstext \<times> string \<times> secs) list"

definition vapidCacheKey :: "vapid_pair \<Rightarrow> jstext \<Rightarrow> jstext \<Rightarrow> jstext" where
  "vapidCacheKey keys aud sub = asText (vp_publicBase64Url keys) @ [10] @ aud @ [10] @ sub"

definition cacheDelete :: "jstext \<Rightarrow> jwt_cache \<Rightarrow> jwt_cache" where
  "cacheDelete k cache = filter (\<lambda>e. fst e \<noteq> k) cache"

fun evictOldest :: "jwt_cache \<Rightarrow> jwt_cache" where
  "evictOldest [] = []"
| "evictOldest (e # es) = (if MAX_CACHED_JWTS < length (e # es) then evictOldest es else e # es)"

definition normalizeVapidSubject :: "text_parser \<Rightarrow> jstext \<Rightarrow> string + jstext" where
  "normalizeVapidSubject parse v =
     (case parse v None of
        None \<Rightarrow> Inl ''Invalid URL''
      | Some u \<Rightarrow>
          if ut_protocol u \<noteq> ''https:'' \<and> ut_protocol u \<noteq> ''http:'' then Inl ''VAPID subject must be an https origin''
          else Inr (ut_origin u))"

definition vapidHeader :: "vapid_pair \<Rightarrow> string \<Rightarrow> string" where
  "vapidHeader keys jwt = ''vapid t='' @ jwt @ '', k='' @ vp_publicBase64Url keys"

definition vapidAuthorization ::
  "web_crypto \<Rightarrow> text_parser \<Rightarrow> vapid_pair \<Rightarrow> string \<Rightarrow> jstext \<Rightarrow> ms \<Rightarrow> jwt_cache \<Rightarrow> (string + string) \<times> jwt_cache" where
  "vapidAuthorization wc parse keys endpoint subject nowMs cache =
     (case parse (asText endpoint) None of
        None \<Rightarrow> (Inl ''Invalid URL'', cache)
      | Some u \<Rightarrow>
          (case normalizeVapidSubject parse subject of
             Inl e \<Rightarrow> (Inl e, cache)
           | Inr sub \<Rightarrow>
               (let aud = ut_origin u;
                    nowSeconds = nowMs div 1000;
                    k = vapidCacheKey keys aud sub;
                    fresh = (let expiry = nowSeconds + VAPID_JWT_LIFETIME_SECONDS;
                                 jwt = signVapidJwt wc keys \<lparr>vc_aud = aud, vc_exp = expiry, vc_sub = sub\<rparr>
                             in (Inr (vapidHeader keys jwt), evictOldest (cacheDelete k cache @ [(k, jwt, expiry)])))
                in case map_of cache k of
                     Some (jwt, expiry) \<Rightarrow>
                       if VAPID_JWT_REUSE_MARGIN_SECONDS < expiry - nowSeconds then (Inr (vapidHeader keys jwt), cache) else fresh
                   | None \<Rightarrow> fresh)))"

text \<open>
  A cache is sound for a key pair at a time when its keys are distinct, it holds at most sixty-four
  entries, no entry outlives the longest lifetime, and every token under the pair's own cache keys is
  the pair's signature on exactly those claims.
\<close>

definition jwt_cache_ok :: "web_crypto \<Rightarrow> vapid_pair \<Rightarrow> secs \<Rightarrow> jwt_cache \<Rightarrow> bool" where
  "jwt_cache_ok wc keys now cache =
     (distinct (map fst cache) \<and> length cache \<le> MAX_CACHED_JWTS \<and>
      (\<forall>k jwt expiry aud sub. (k, jwt, expiry) \<in> set cache \<longrightarrow> 10 \<notin> set aud \<longrightarrow> 10 \<notin> set sub \<longrightarrow> k = vapidCacheKey keys aud sub \<longrightarrow>
         expiry \<le> now + VAPID_JWT_LIFETIME_SECONDS \<and> jwt = signVapidJwt wc keys \<lparr>vc_aud = aud, vc_exp = expiry, vc_sub = sub\<rparr>))"

lemma asText_inj: "asText s = asText t \<Longrightarrow> s = t"
  unfolding asText_def by (erule map_injective) (simp add: inj_def)

lemma split_at_newline:
  assumes "xs @ [10] @ ys = us @ [10 :: nat] @ vs" "10 \<notin> set xs" "10 \<notin> set us"
  shows "xs = us \<and> ys = vs"
proof -
  have head: "takeWhile (\<lambda>u. u \<noteq> 10) (zs @ [10] @ ws) = zs" if "10 \<notin> set zs" for zs ws :: "nat list"
    by (subst takeWhile_append) (use that in auto)
  have "xs = us" using head [OF assms(2), of ys] head [OF assms(3), of vs] unfolding assms(1) by (rule trans [OF sym])
  then show ?thesis using assms(1) by simp
qed

lemma url_safe_not_newline: "urlSafeChar c \<Longrightarrow> of_char c \<noteq> (10 :: nat)"
  by (auto simp: urlSafeChar_def isDigit_def Let_def)

lemma public_key_text_newline:
  assumes "vp_publicBase64Url keys = base64UrlEncode bs" shows "10 \<notin> set (asText (vp_publicBase64Url keys))"
proof -
  have small: "list_all (\<lambda>n. n < 256) (map unat bs)" using byte_bound by (simp add: list_all_iff)
  have "urlSafeChar (urlChar x)" if "x \<in> set (sextets (map unat bs))" for x
    using base64_digit(5) sextets_bound [OF small that] by blast
  then show ?thesis unfolding assms base64UrlEncode_sextets asText_def using url_safe_not_newline by fastforce
qed

lemma evictOldest_drop: "evictOldest cache = drop (length cache - MAX_CACHED_JWTS) cache"
  by (induction cache) (auto simp: Suc_diff_le)

definition isKeyPair :: "vapid_pair \<Rightarrow> bool" where
  "isKeyPair keys = (vp_publicBase64Url keys = base64UrlEncode (vp_public keys))"

lemma vapidCacheKey_inj:
  assumes "vapidCacheKey keys aud sub = vapidCacheKey other aud' sub'" "isKeyPair keys" "isKeyPair other"
    "10 \<notin> set aud" "10 \<notin> set aud'"
  shows "asText (vp_publicBase64Url keys) = asText (vp_publicBase64Url other) \<and> aud = aud' \<and> sub = sub'"
proof -
  have "10 \<notin> set (asText (vp_publicBase64Url keys))" "10 \<notin> set (asText (vp_publicBase64Url other))"
    using public_key_text_newline assms(2,3) unfolding isKeyPair_def by blast+
  from split_at_newline [OF assms(1) [unfolded vapidCacheKey_def] this]
  have "asText (vp_publicBase64Url keys) = asText (vp_publicBase64Url other)" "aud @ [10] @ sub = aud' @ [10] @ sub'" by auto
  then show ?thesis using split_at_newline [OF _ assms(4,5)] by blast
qed

lemma jwt_cache_later: "jwt_cache_ok wc keys now cache \<Longrightarrow> now \<le> later \<Longrightarrow> jwt_cache_ok wc keys later cache"
proof -
  assume "jwt_cache_ok wc keys now cache" "now \<le> later"
  moreover from this(2) have "expiry \<le> later + VAPID_JWT_LIFETIME_SECONDS" if "expiry \<le> now + VAPID_JWT_LIFETIME_SECONDS" for expiry
    using that by simp
  ultimately show ?thesis unfolding jwt_cache_ok_def by blast
qed

lemma jwt_cache_insert:
  assumes ok: "jwt_cache_ok wc keys now cache"
    and own: "\<And>aud sub. 10 \<notin> set aud \<Longrightarrow> 10 \<notin> set sub \<Longrightarrow> k = vapidCacheKey keys aud sub \<Longrightarrow>
        expiry \<le> now + VAPID_JWT_LIFETIME_SECONDS \<and> jwt = signVapidJwt wc keys \<lparr>vc_aud = aud, vc_exp = expiry, vc_sub = sub\<rparr>"
  shows "jwt_cache_ok wc keys now (evictOldest (cacheDelete k cache @ [(k, jwt, expiry)]))"
proof -
  let ?new = "cacheDelete k cache @ [(k, jwt, expiry)]"
  have "distinct (map fst ?new)" using ok by (auto simp: jwt_cache_ok_def cacheDelete_def distinct_map inj_on_def)
  then have "distinct (map fst (evictOldest ?new))" unfolding evictOldest_drop drop_map [symmetric] by (rule distinct_drop)
  moreover have "length (evictOldest ?new) \<le> MAX_CACHED_JWTS" unfolding evictOldest_drop by simp
  moreover have "set (evictOldest ?new) \<subseteq> insert (k, jwt, expiry) (set cache)"
    unfolding evictOldest_drop by (rule subset_trans [OF set_drop_subset]) (auto simp: cacheDelete_def)
  ultimately show ?thesis using ok own unfolding jwt_cache_ok_def by blast
qed

text \<open>
  C37: Tokens. Calls for any number of audiences and key pairs keep the cache sound and bounded, and
  the token sent is always the pair's own signature on the audience of this endpoint and the origin
  of the subject, valid for more than an hour and for at most twelve from now.
\<close>

theorem vapid_tokens_fresh:
  assumes cache: "jwt_cache_ok wc keys (before div 1000) cache" and clock: "before \<le> now"
    and pairs: "isKeyPair keys" "isKeyPair other" "other = keys \<or> vp_publicBase64Url other \<noteq> vp_publicBase64Url keys"
    and origins: "\<And>s u. parse s None = Some u \<Longrightarrow> 10 \<notin> set (ut_origin u)"
    and call: "vapidAuthorization wc parse other endpoint subject now cache = (result, cache')"
  shows "jwt_cache_ok wc keys (now div 1000) cache' \<and>
    (other = keys \<longrightarrow>
      (case result of
         Inl e \<Rightarrow> parse (asText endpoint) None = None \<or> normalizeVapidSubject parse subject = Inl e
       | Inr h \<Rightarrow> \<exists>u sub expiry. parse (asText endpoint) None = Some u \<and> normalizeVapidSubject parse subject = Inr sub \<and>
           h = vapidHeader keys (signVapidJwt wc keys \<lparr>vc_aud = ut_origin u, vc_exp = expiry, vc_sub = sub\<rparr>) \<and>
           now div 1000 + VAPID_JWT_REUSE_MARGIN_SECONDS < expiry \<and> expiry \<le> now div 1000 + VAPID_JWT_LIFETIME_SECONDS))"
proof -
  let ?now = "now div 1000"
  have ok: "jwt_cache_ok wc keys ?now cache" using jwt_cache_later [OF cache] clock by (simp add: zdiv_mono1)
  show ?thesis
  proof (cases "parse (asText endpoint) None")
    case None
    then show ?thesis using ok call by (auto simp: vapidAuthorization_def)
  next
    case (Some u)
    note u = this
    show ?thesis
    proof (cases "normalizeVapidSubject parse subject")
      case (Inl e)
      then show ?thesis using ok call u by (auto simp: vapidAuthorization_def)
    next
      case (Inr sub)
      let ?aud = "ut_origin u"
      let ?k = "vapidCacheKey other ?aud sub"
      let ?expiry = "?now + VAPID_JWT_LIFETIME_SECONDS"
      let ?jwt = "signVapidJwt wc other \<lparr>vc_aud = ?aud, vc_exp = ?expiry, vc_sub = sub\<rparr>"
      have aud: "10 \<notin> set ?aud" using origins u by blast
      have sub: "10 \<notin> set sub" using Inr origins by (auto simp: normalizeVapidSubject_def split: option.splits if_splits)
      have same: "other = keys \<and> aud = ?aud \<and> sub' = sub" if "10 \<notin> set aud" "?k = vapidCacheKey keys aud sub'" for aud sub'
        using vapidCacheKey_inj [OF that(2) pairs(2,1) aud that(1)] pairs(3) by (auto dest: asText_inj)
      consider (reuse) jwt expiry where "map_of cache ?k = Some (jwt, expiry)" "VAPID_JWT_REUSE_MARGIN_SECONDS < expiry - ?now"
          "result = Inr (vapidHeader other jwt)" "cache' = cache"
        | (fresh) "result = Inr (vapidHeader other ?jwt)" "cache' = evictOldest (cacheDelete ?k cache @ [(?k, ?jwt, ?expiry)])"
        using call u Inr by (auto simp: vapidAuthorization_def Let_def split: option.splits if_splits)
      then show ?thesis
      proof cases
        case reuse
        have "expiry \<le> ?expiry \<and> jwt = signVapidJwt wc keys \<lparr>vc_aud = ?aud, vc_exp = expiry, vc_sub = sub\<rparr>" if "other = keys"
          using ok map_of_SomeD [OF reuse(1)] aud sub that unfolding jwt_cache_ok_def by blast
        then show ?thesis using reuse ok u Inr by auto
      next
        case fresh
        have "jwt_cache_ok wc keys ?now cache'" unfolding fresh(2)
          by (rule jwt_cache_insert [OF ok]) (use same in blast)
        then show ?thesis using fresh(1) u Inr by (auto simp: VAPID_JWT_REUSE_MARGIN_SECONDS_def VAPID_JWT_LIFETIME_SECONDS_def)
      qed
    qed
  qed
qed

definition exampleKeys :: vapid_pair where
  "exampleKeys = \<lparr>vp_private = [1], vp_public = examplePoint, vp_publicBase64Url = base64UrlEncode examplePoint\<rparr>"

definition exampleTexts :: text_parser where
  "exampleTexts v base = Some \<lparr>ut_protocol = ''https:'', ut_origin = asText ''https://a'', ut_hostname = asText ''a'',
     ut_username = [], ut_password = [], ut_href = asText ''https://a/''\<rparr>"

theorem vapid_tokens_fresh_witness:
  "\<exists>h cache expiry. vapidAuthorization exampleCrypto exampleTexts exampleKeys ''https://a/x'' (asText ''https://a'') 5000 [] = (Inr h, cache) \<and>
     h = vapidHeader exampleKeys (signVapidJwt exampleCrypto exampleKeys
       \<lparr>vc_aud = asText ''https://a'', vc_exp = expiry, vc_sub = asText ''https://a''\<rparr>) \<and> expiry \<le> 5 + 12 * 60 * 60"
proof -
  have start: "jwt_cache_ok exampleCrypto exampleKeys (5000 div 1000) []" by (simp add: jwt_cache_ok_def)
  have pair: "isKeyPair exampleKeys" by (simp add: isKeyPair_def exampleKeys_def)
  have origins: "10 \<notin> set (ut_origin u)" if "exampleTexts s None = Some u" for s u
    using that by (auto simp: exampleTexts_def asText_def)
  obtain result cache where call: "vapidAuthorization exampleCrypto exampleTexts exampleKeys ''https://a/x'' (asText ''https://a'') 5000 [] = (result, cache)"
    by fastforce
  have "\<exists>h. result = Inr h"
    using call by (auto simp: vapidAuthorization_def exampleTexts_def normalizeVapidSubject_def Let_def)
  then show ?thesis
    using vapid_tokens_fresh [OF start order_refl pair pair disjI1 [OF refl] origins call] call
    by (auto simp: exampleTexts_def normalizeVapidSubject_def VAPID_JWT_LIFETIME_SECONDS_def)
qed

subsection \<open>Sending\<close>

datatype push_response = PushTransportError string | PushStatus bool nat "string option"

record push_target =
  pt_endpoint :: string
  pt_p256dh :: bytes
  pt_auth :: bytes

record push_options =
  po_payload :: bytes
  po_ttlSeconds :: "jsnum option"
  po_urgency :: "string option"
  po_topic :: "string option"

record push_request =
  pr_endpoint :: string
  pr_headers :: "(string \<times> string) list"
  pr_body :: bytes

record send_env =
  se_crypto :: web_crypto
  se_parse :: text_parser
  se_number :: "string \<Rightarrow> jsnum"
  se_dateOf :: "string \<Rightarrow> ms option"

text \<open>
  The request, or the error of a message that cannot be built; the payload is bytes, as its only
  caller passes them. \<open>Headers.set\<close> adds a header that is not there yet.
\<close>

definition buildPushRequest ::
  "send_env \<Rightarrow> vapid_pair \<Rightarrow> jstext \<Rightarrow> bytes \<Rightarrow> sender_pair \<Rightarrow> ms \<Rightarrow> push_target \<Rightarrow> push_options \<Rightarrow> jwt_cache \<Rightarrow>
     (string + push_request) \<times> jwt_cache" where
  "buildPushRequest env keys subject salt sender now target message cache =
     (case encryptWebPushPayload (se_crypto env) salt sender (po_payload message) (pt_p256dh target) (pt_auth target) of
        Inl e \<Rightarrow> (Inl e, cache)
      | Inr body \<Rightarrow>
          (case vapidAuthorization (se_crypto env) (se_parse env) keys (pt_endpoint target) subject now cache of
             (Inl e, cache') \<Rightarrow> (Inl e, cache')
           | (Inr authorization, cache') \<Rightarrow>
               (let headers =
                      [(''Content-Encoding'', ''aes128gcm''), (''Content-Type'', ''application/octet-stream''),
                       (''TTL'', stringOf (intText (normalizeTtl (po_ttlSeconds message)))), (''Authorization'', authorization)]
                      @ (case truthy (po_urgency message) of None \<Rightarrow> [] | Some u \<Rightarrow> [(''Urgency'', u)])
                in case po_topic message of
                     None \<Rightarrow> (Inr \<lparr>pr_endpoint = pt_endpoint target, pr_headers = headers, pr_body = body\<rparr>, cache')
                   | Some t \<Rightarrow>
                       if \<not> isValidTopic t then (Inl ''Topic must be 1-32 base64url characters'', cache')
                       else (Inr \<lparr>pr_endpoint = pt_endpoint target, pr_headers = headers @ [(''Topic'', t)], pr_body = body\<rparr>, cache'))))"

text \<open>
  A transport error, a timeout among them, is retried; an answer is classified, and a redirect that
  was not followed counts as status 0. The second component is the request that went out.
\<close>

definition sendWebPush ::
  "send_env \<Rightarrow> vapid_pair \<Rightarrow> jstext \<Rightarrow> bytes \<Rightarrow> sender_pair \<Rightarrow> ms \<Rightarrow> (push_request \<Rightarrow> push_response \<times> ms) \<Rightarrow> push_target \<Rightarrow> push_options \<Rightarrow> jwt_cache \<Rightarrow>
     web_push_outcome \<times> push_request option \<times> jwt_cache" where
  "sendWebPush env keys subject salt sender now post target message cache =
     (case buildPushRequest env keys subject salt sender now target message cache of
        (Inl e, cache') \<Rightarrow> (WpFailed None e, None, cache')
      | (Inr request, cache') \<Rightarrow>
          ((case post request of
              (PushTransportError e, later) \<Rightarrow> WpRetry None 0 e
            | (PushStatus opaque status retryAfter, later) \<Rightarrow>
                classifyWebPushResponse (se_number env) (se_dateOf env) (if opaque then 0 else status) retryAfter later),
           Some request, cache'))"

lemma normalizeTtl_bounds: "0 \<le> normalizeTtl ttl \<and> normalizeTtl ttl \<le> MAX_WEB_PUSH_TTL_SECONDS"
  by (auto simp: normalizeTtl_def MAX_WEB_PUSH_TTL_SECONDS_def DEFAULT_WEB_PUSH_TTL_SECONDS_def split: option.splits jsnum.splits)

lemma classify_retry_bounds:
  assumes "classifyWebPushResponse numberOf dateOf status retryAfter now = WpRetry st delay e"
  shows "0 \<le> delay \<and> delay \<le> MAX_RETRY_AFTER_SECONDS"
  using assms
  by (auto simp: classifyWebPushResponse_def parsePushRetryAfter_def MAX_RETRY_AFTER_SECONDS_def Let_def
      split: if_splits option.splits jsnum.splits)

lemma buildPushRequest_cases:
  assumes "buildPushRequest env keys subject salt sender now target message cache = (Inr request, cache')"
  obtains authorization topic urgency where
    "encryptWebPushPayload (se_crypto env) salt sender (po_payload message) (pt_p256dh target) (pt_auth target) = Inr (pr_body request)"
    "vapidAuthorization (se_crypto env) (se_parse env) keys (pt_endpoint target) subject now cache = (Inr authorization, cache')"
    "pr_endpoint request = pt_endpoint target"
    "pr_headers request =
       [(''Content-Encoding'', ''aes128gcm''), (''Content-Type'', ''application/octet-stream''),
        (''TTL'', stringOf (intText (normalizeTtl (po_ttlSeconds message)))), (''Authorization'', authorization)]
       @ urgency @ topic"
    "urgency = (case truthy (po_urgency message) of None \<Rightarrow> [] | Some u \<Rightarrow> [(''Urgency'', u)])"
    "topic = (case po_topic message of None \<Rightarrow> [] | Some t \<Rightarrow> [(''Topic'', t)])"
    "list_all isValidTopic (case po_topic message of None \<Rightarrow> [] | Some t \<Rightarrow> [t])"
  using assms that by (auto simp: buildPushRequest_def Let_def split: sum.splits prod.splits option.splits if_splits)


definition exampleSendEnv :: send_env where
  "exampleSendEnv = \<lparr>se_crypto = exampleCrypto, se_parse = exampleTexts, se_number = (\<lambda>s. NaN), se_dateOf = (\<lambda>s. None)\<rparr>"

definition exampleTarget :: push_target where
  "exampleTarget = \<lparr>pt_endpoint = ''https://a/x'', pt_p256dh = examplePoint, pt_auth = replicate 16 9\<rparr>"

definition exampleOptions :: push_options where
  "exampleOptions = \<lparr>po_payload = [104, 105], po_ttlSeconds = None, po_urgency = Some ''high'', po_topic = Some ''t''\<rparr>"


end
