(* ===== verification/Pushers.thy ===== *)
theory Pushers
  imports PushJobs WebPushMessage "HOL-Library.Multiset"
begin

section \<open>Pushers: the devices a member has registered\<close>

text \<open>
  Models the parsers of \<open>src/backend/lib/notification-pusher-contract.ts\<close>, the registration,
  quota, take-over and removal of pushers in \<open>notification-push.ts\<close>, and the routes of
  \<open>routes/notification-pushers.ts\<close>. The URL parser (with the serialisation of a parsed text),
  \<open>Number\<close>, the length of \<open>JSON.stringify\<close>, SHA-256 and HKDF are parameters; the result is the
  pair of the answer and the table.
\<close>

record js_env =
  js_parse :: url_parser
  js_href :: "string \<Rightarrow> string"
  js_number :: "string \<Rightarrow> jsnum"
  js_jsonBytes :: "jsval \<Rightarrow> nat"
  js_dateOf :: "string \<Rightarrow> ms option"

subsection \<open>Hosts\<close>

text \<open>\<open>replace(/^\[|\]$/g, "")\<close>\<close>

definition unbracketHost :: "string \<Rightarrow> string" where
  "unbracketHost s =
     (let t = (if startsWith s ''['' then tl s else s)
      in if endsWith t '']'' then butlast t else t)"

definition octetNumber :: "jsnum \<Rightarrow> bool" where
  "octetNumber n = (isInteger (JNum n) \<and> 0 \<le> intOf (JNum n) \<and> intOf (JNum n) \<le> 255)"

definition isLoopbackHostname :: "js_env \<Rightarrow> string \<Rightarrow> bool" where
  "isLoopbackHostname js hostname =
     (let normalized = unbracketHost (toLowerCase hostname)
      in if normalized = ''localhost'' \<or> endsWith normalized ''.localhost'' \<or> normalized = ''::1'' then True
         else
           (let octs = map (js_number js) (splitOn CHR ''.'' normalized)
            in length octs = 4 \<and> list_all octetNumber octs \<and> octs ! 0 = Fin 127))"

definition isPublicHttpsHostname :: "js_env \<Rightarrow> string \<Rightarrow> bool" where
  "isPublicHttpsHostname js hostname =
     (let normalized = unbracketHost (toLowerCase hostname)
      in if list_ex (\<lambda>l. l = []) (splitOn CHR ''.'' normalized) then False
         else if CHR ''.'' \<notin> set normalized \<or> endsWith normalized ''.localhost'' \<or> endsWith normalized ''.local'' \<or>
                 endsWith normalized ''.internal'' \<or> endsWith normalized ''.home'' \<or> endsWith normalized ''.lan'' then False
         else
           (let ipv4 = map (js_number js) (splitOn CHR ''.'' normalized)
            in if length ipv4 = 4 \<and> list_all octetNumber ipv4 then False
               else CHR '':'' \<notin> set normalized))"

subsection \<open>Fields of a request\<close>

definition parseBoundedString :: "jsval \<Rightarrow> nat \<Rightarrow> string option" where
  "parseBoundedString v maxLength =
     (case v of
        JStr s \<Rightarrow> (let t = trim s in if t \<noteq> [] \<and> length t \<le> maxLength then Some t else None)
      | _ \<Rightarrow> None)"

text \<open>The outer \<open>None\<close> is \<open>undefined\<close>, an invalid value.\<close>

definition parseOptionalBoundedString :: "jsval \<Rightarrow> nat \<Rightarrow> string option option" where
  "parseOptionalBoundedString v maxLength =
     (if v = JNull \<or> v = JUndefined then Some None
      else (case parseBoundedString v maxLength of None \<Rightarrow> None | Some t \<Rightarrow> Some (Some t)))"

definition letterOrDigit :: "char \<Rightarrow> bool" where
  "letterOrDigit c =
     (let n = (of_char c :: nat) in isDigit c \<or> (65 \<le> n \<and> n \<le> 90) \<or> (97 \<le> n \<and> n \<le> 122))"

definition parseOptionalIdentifier :: "jsval \<Rightarrow> string option option" where
  "parseOptionalIdentifier v =
     (if v = JNull \<or> v = JUndefined then Some None
      else (case parseBoundedString v 128 of
              None \<Rightarrow> None
            | Some t \<Rightarrow> if list_all (\<lambda>c. letterOrDigit c \<or> c \<in> set ''._:-'') t then Some (Some t) else None))"

definition parseProduct :: "jsval \<Rightarrow> product option" where
  "parseProduct v =
     (if v = JStr ''yurucommu'' then Some Yurucommu else if v = JStr ''yurume'' then Some Yurume else None)"

definition appIdOk :: "string \<Rightarrow> bool" where
  "appIdOk s = (case s of [] \<Rightarrow> False | c # cs \<Rightarrow> letterOrDigit c \<and> list_all (\<lambda>d. letterOrDigit d \<or> d \<in> set ''._-'') cs)"

definition normalizeGatewayUrl :: "js_env \<Rightarrow> jsval \<Rightarrow> string option" where
  "normalizeGatewayUrl js v =
     (case parseBoundedString v 2048 of
        None \<Rightarrow> None
      | Some t \<Rightarrow>
          (case js_parse js t of
             None \<Rightarrow> None
           | Some u \<Rightarrow>
               (if u_username u \<noteq> [] \<or> u_password u \<noteq> [] \<or> u_hash u \<noteq> [] then None
                else if u_protocol u = ''https:'' then
                  (if u_port u \<noteq> [] \<and> u_port u \<noteq> ''443'' then None
                   else if \<not> isPublicHttpsHostname js (u_hostname u) then None
                   else Some (js_href js t))
                else if u_protocol u \<noteq> ''http:'' \<or> \<not> isLoopbackHostname js (u_hostname u) then None
                else Some (js_href js t))))"

definition isLoopbackGatewayUrl :: "js_env \<Rightarrow> string \<Rightarrow> bool" where
  "isLoopbackGatewayUrl js v =
     (case js_parse js v of None \<Rightarrow> False | Some u \<Rightarrow> u_protocol u = ''http:'' \<and> isLoopbackHostname js (u_hostname u))"

subsection \<open>The bounded copy of a JSON object\<close>

definition utf8Bytes :: "string \<Rightarrow> nat" where
  "utf8Bytes s = length (utf8 s)"

text \<open>The counter of entries is threaded through; \<open>None\<close> is \<open>undefined\<close>.\<close>

function cloneJson :: "jsval \<Rightarrow> nat \<Rightarrow> nat \<Rightarrow> jsval option \<times> nat"
and cloneItems :: "jsval list \<Rightarrow> nat \<Rightarrow> nat \<Rightarrow> jsval list option \<times> nat"
and cloneFields :: "(string \<times> jsval) list \<Rightarrow> nat \<Rightarrow> nat \<Rightarrow> (string \<times> jsval) list option \<times> nat"
where
  "cloneJson v depth entries =
     (if 8 < depth then (None, entries)
      else if 64 \<le> entries then (None, entries + 1)
      else
        (case v of
           JNull \<Rightarrow> (Some JNull, entries + 1)
         | JBool b \<Rightarrow> (Some (JBool b), entries + 1)
         | JNum n \<Rightarrow> (if isFiniteNum v then Some v else None, entries + 1)
         | JStr s \<Rightarrow> (if utf8Bytes s \<le> 1024 then Some v else None, entries + 1)
         | JArr xs \<Rightarrow>
             (if 64 < length xs then (None, entries + 1)
              else (case cloneItems xs (depth + 1) (entries + 1) of (r, n) \<Rightarrow> (map_option JArr r, n)))
         | JObj fs \<Rightarrow> (case cloneFields fs (depth + 1) (entries + 1) of (r, n) \<Rightarrow> (map_option JObj r, n))
         | JUndefined \<Rightarrow> (None, entries + 1)))"
| "cloneItems [] depth entries = (Some [], entries)"
| "cloneItems (x # xs) depth entries =
     (case cloneJson x depth entries of
        (None, n) \<Rightarrow> (None, n)
      | (Some y, n) \<Rightarrow> (case cloneItems xs depth n of (r, m) \<Rightarrow> (map_option (\<lambda>ys. y # ys) r, m)))"
| "cloneFields [] depth entries = (Some [], entries)"
| "cloneFields ((k, x) # fs) depth entries =
     (if 128 < utf8Bytes k then (None, entries)
      else
        (case cloneJson x depth entries of
           (None, n) \<Rightarrow> (None, n)
         | (Some y, n) \<Rightarrow> (case cloneFields fs depth n of (r, m) \<Rightarrow> (map_option (\<lambda>ys. (k, y) # ys) r, m))))"
  by pat_completeness auto

termination
  by (relation "measure (\<lambda>x. case x of
       Inl (v, _, _) \<Rightarrow> size v
     | Inr (Inl (xs, _, _)) \<Rightarrow> size_list size xs
     | Inr (Inr (fs, _, _)) \<Rightarrow> size_list (size_prod (\<lambda>x. 0) size) fs)")
    (auto simp: less_Suc_eq_le intro!: le_SucI)


definition withoutField :: "string \<Rightarrow> (string \<times> jsval) list \<Rightarrow> (string \<times> jsval) list" where
  "withoutField k fs = filter (\<lambda>f. fst f \<noteq> k) fs"

definition withField :: "string \<Rightarrow> jsval \<Rightarrow> (string \<times> jsval) list \<Rightarrow> (string \<times> jsval) list" where
  "withField k v fs =
     (if k \<in> fst ` set fs then map (\<lambda>f. if fst f = k then (k, v) else f) fs else fs @ [(k, v)])"

definition cloneJsonObjectWithoutUrl :: "(string \<times> jsval) list \<Rightarrow> (string \<times> jsval) list option" where
  "cloneJsonObjectWithoutUrl fs = fst (cloneFields (withoutField ''url'' fs) 1 0)"

subsection \<open>Parsing a request\<close>

definition MAX_NOTIFICATION_PUSHER_DATA_BYTES :: nat where "MAX_NOTIFICATION_PUSHER_DATA_BYTES = 2 * 1024"

record pusher_texts =
  px_appDisplayName :: "string option"
  px_deviceDisplayName :: "string option"
  px_profileTag :: "string option"
  px_lang :: "string option"

record set_request =
  sr_product :: product
  sr_scope :: "string option"
  sr_kind :: string
  sr_appId :: string
  sr_pushkey :: string
  sr_texts :: pusher_texts
  sr_gatewayUrl :: string
  sr_stored :: "(string \<times> jsval) list"

type_synonym bad_request = "string \<times> string option"

definition parseOptionalPusherFields :: "jsval \<Rightarrow> bad_request + pusher_texts" where
  "parseOptionalPusherFields pusher =
     (case parseOptionalBoundedString (field pusher ''app_display_name'') 255 of
        None \<Rightarrow> Inl (''pusher.app_display_name is invalid'', Some ''pusher.app_display_name'')
      | Some a \<Rightarrow>
     (case parseOptionalBoundedString (field pusher ''device_display_name'') 255 of
        None \<Rightarrow> Inl (''pusher.device_display_name is invalid'', Some ''pusher.device_display_name'')
      | Some d \<Rightarrow>
     (case parseOptionalBoundedString (field pusher ''profile_tag'') 255 of
        None \<Rightarrow> Inl (''pusher.profile_tag is invalid'', Some ''pusher.profile_tag'')
      | Some p \<Rightarrow>
     (case parseOptionalBoundedString (field pusher ''lang'') 64 of
        None \<Rightarrow> Inl (''pusher.lang is invalid'', Some ''pusher.lang'')
      | Some l \<Rightarrow> Inr \<lparr>px_appDisplayName = a, px_deviceDisplayName = d, px_profileTag = p, px_lang = l\<rparr>))))"

definition parseWebPushPusher ::
  "js_env \<Rightarrow> product \<Rightarrow> string option \<Rightarrow> string \<Rightarrow> jsval \<Rightarrow> pusher_texts \<Rightarrow> bad_request + set_request" where
  "parseWebPushPusher js prd scope appId pusher texts =
     (let pushkey = strOf (field pusher ''pushkey'');
          p256dh = (if length pushkey \<le> 128 then base64UrlDecode pushkey else None);
          data = field pusher ''data'';
          auth = (let a = strOf (field data ''auth'') in if length a \<le> 64 then a else [])
      in if (case p256dh of None \<Rightarrow> True | Some pt \<Rightarrow> \<not> isP256UncompressedPoint pt) then
           Inl (''pusher.pushkey must be the subscription p256dh key (base64url, uncompressed P-256)'', Some ''pusher.pushkey'')
         else if \<not> isPlainObject data then Inl (''pusher.data must be an object'', Some ''pusher.data'')
         else
           (case normalizeGatewayUrl js (field data ''url'') of
              None \<Rightarrow> Inl (''pusher.data.url must be a public https push endpoint'', Some ''pusher.data.url'')
            | Some endpoint \<Rightarrow>
                (if map_option length (base64UrlDecode auth) \<noteq> Some 16 then
                   Inl (''pusher.data.auth must be the 16-byte subscription auth secret (base64url)'', Some ''pusher.data.auth'')
                 else
                   Inr \<lparr>sr_product = prd, sr_scope = scope, sr_kind = ''webpush'', sr_appId = appId, sr_pushkey = pushkey, sr_texts = texts,
                        sr_gatewayUrl = endpoint, sr_stored = [(''auth'', JStr auth)]\<rparr>)))"

definition parseHttpPusher ::
  "js_env \<Rightarrow> product \<Rightarrow> string option \<Rightarrow> string \<Rightarrow> jsval \<Rightarrow> pusher_texts \<Rightarrow> bad_request + set_request" where
  "parseHttpPusher js prd scope appId pusher texts =
     (case parseBoundedString (field pusher ''pushkey'') 4096 of
        None \<Rightarrow> Inl (''pusher.pushkey is invalid'', Some ''pusher.pushkey'')
      | Some pushkey \<Rightarrow>
     (case field pusher ''data'' of
        JObj fs \<Rightarrow>
          (let data = JObj fs; format = field data ''format''
           in case normalizeGatewayUrl js (field data ''url'') of
                None \<Rightarrow> Inl (''pusher.data.url is invalid'', Some ''pusher.data.url'')
              | Some gatewayUrl \<Rightarrow>
                  (if format \<noteq> JUndefined \<and> format \<noteq> JStr ''event_id_only'' \<and> format \<noteq> JStr ''full'' then
                     Inl (''pusher.data.format is invalid'', Some ''pusher.data.format'')
                   else
                     (case cloneJsonObjectWithoutUrl fs of
                        None \<Rightarrow> Inl (''pusher.data must contain only bounded JSON'', Some ''pusher.data'')
                      | Some cloned \<Rightarrow>
                          (let stored = withField ''format'' (JStr (if format = JStr ''full'' then ''full'' else ''event_id_only'')) cloned
                           in if MAX_NOTIFICATION_PUSHER_DATA_BYTES < js_jsonBytes js (JObj stored) then
                                Inl (''pusher.data must be at most 2048 bytes without url'', Some ''pusher.data'')
                              else
                                Inr \<lparr>sr_product = prd, sr_scope = scope, sr_kind = ''http'', sr_appId = appId, sr_pushkey = pushkey,
                                     sr_texts = texts, sr_gatewayUrl = gatewayUrl, sr_stored = stored\<rparr>))))
      | _ \<Rightarrow> Inl (''pusher.data must be an object'', Some ''pusher.data'')))"

definition parseNotificationPusherSetRequest :: "js_env \<Rightarrow> jsval \<Rightarrow> bad_request + set_request" where
  "parseNotificationPusherSetRequest js body =
     (if \<not> isPlainObject body then Inl (''body must be an object'', None)
      else
        (case parseProduct (field body ''product'') of
           None \<Rightarrow> Inl (''product must be yurucommu or yurume'', Some ''product'')
         | Some prd \<Rightarrow>
        (case parseOptionalIdentifier (field body ''scope'') of
           None \<Rightarrow> Inl (''scope is invalid'', Some ''scope'')
         | Some scope \<Rightarrow>
             (let pusher = field body ''pusher''; kind = field pusher ''kind''
              in if \<not> isPlainObject pusher then Inl (''pusher must be an object'', Some ''pusher'')
                 else if kind \<noteq> JStr ''http'' \<and> kind \<noteq> JStr ''webpush'' then
                   Inl (''pusher.kind must be http or webpush'', Some ''pusher.kind'')
                 else
                   (case parseBoundedString (field pusher ''app_id'') 255 of
                      None \<Rightarrow> Inl (''pusher.app_id is invalid'', Some ''pusher.app_id'')
                    | Some appId \<Rightarrow>
                        (if \<not> appIdOk appId then Inl (''pusher.app_id is invalid'', Some ''pusher.app_id'')
                         else
                           (case parseOptionalPusherFields pusher of
                              Inl e \<Rightarrow> Inl e
                            | Inr texts \<Rightarrow>
                                (if kind = JStr ''webpush'' then parseWebPushPusher js prd scope appId pusher texts
                                 else parseHttpPusher js prd scope appId pusher texts))))))))"

record delete_request =
  dr_product :: product
  dr_scope :: "string option"
  dr_appId :: string
  dr_pushkey :: string

definition parseNotificationPusherDeleteRequest :: "jsval \<Rightarrow> bad_request + delete_request" where
  "parseNotificationPusherDeleteRequest body =
     (if \<not> isPlainObject body then Inl (''body must be an object'', None)
      else
        (case parseProduct (field body ''product'') of
           None \<Rightarrow> Inl (''product must be yurucommu or yurume'', Some ''product'')
         | Some prd \<Rightarrow>
        (case parseOptionalIdentifier (field body ''scope'') of
           None \<Rightarrow> Inl (''scope is invalid'', Some ''scope'')
         | Some scope \<Rightarrow>
        (case parseBoundedString (field body ''app_id'') 255 of
           None \<Rightarrow> Inl (''app_id is invalid'', Some ''app_id'')
         | Some appId \<Rightarrow>
             (if \<not> appIdOk appId then Inl (''app_id is invalid'', Some ''app_id'')
              else
                (case parseBoundedString (field body ''pushkey'') 4096 of
                   None \<Rightarrow> Inl (''pushkey is invalid'', Some ''pushkey'')
                 | Some pushkey \<Rightarrow>
                     Inr \<lparr>dr_product = prd, dr_scope = scope, dr_appId = appId, dr_pushkey = pushkey\<rparr>))))))"


subsection \<open>What the operator allows\<close>

record push_env =
  pe_allowedHosts :: "string option"
  pe_insecureLoopback :: "string option"
  pe_gatewayUrl :: "string option"
  pe_gatewayToken :: "string option"
  pe_timeout :: "string option"
  pe_encryptionKey :: "string option"
  pe_appUrl :: string

definition isTruthy :: "string option \<Rightarrow> bool" where
  "isTruthy v = (toLowerCase (trim (case v of None \<Rightarrow> [] | Some s \<Rightarrow> s)) \<in> {''1'', ''true'', ''yes'', ''on''})"

definition isNotificationGatewayAllowed :: "js_env \<Rightarrow> push_env \<Rightarrow> string \<Rightarrow> bool" where
  "isNotificationGatewayAllowed js env v =
     (case normalizeGatewayUrl js (JStr v) of
        None \<Rightarrow> False
      | Some normalized \<Rightarrow>
          (if isLoopbackGatewayUrl js normalized then isTruthy (pe_insecureLoopback env)
           else
             (case js_parse js normalized of
                None \<Rightarrow> False
              | Some u \<Rightarrow>
                  toLowerCase (u_hostname u)
                    \<in> set (filter (\<lambda>e. e \<noteq> []) (map (\<lambda>e. toLowerCase (trim e))
                        (splitOn CHR '','' (case pe_allowedHosts env of None \<Rightarrow> [] | Some h \<Rightarrow> h)))))))"

definition isWebPushEndpointAllowed :: "js_env \<Rightarrow> push_env \<Rightarrow> string \<Rightarrow> bool" where
  "isWebPushEndpointAllowed js env v =
     (case normalizeGatewayUrl js (JStr v) of
        None \<Rightarrow> False
      | Some normalized \<Rightarrow>
          (if isLoopbackGatewayUrl js normalized then isTruthy (pe_insecureLoopback env)
           else (case js_parse js normalized of None \<Rightarrow> False | Some u \<Rightarrow> u_protocol u = ''https:'')))"

subsection \<open>Stored data\<close>

definition parseStoredData :: "json_text \<Rightarrow> (string \<times> jsval) list" where
  "parseStoredData v = (case v of Some (JObj fs) \<Rightarrow> fs | _ \<Rightarrow> [])"

definition storedField :: "json_text \<Rightarrow> string \<Rightarrow> jsval" where
  "storedField v k = field (JObj (parseStoredData v)) k"

definition notificationPushFormat :: "(string \<times> jsval) list \<Rightarrow> string" where
  "notificationPushFormat data = (if field (JObj data) ''format'' = JStr ''full'' then ''full'' else ''event_id_only'')"

definition publicStoredData :: "json_text \<Rightarrow> (string \<times> jsval) list" where
  "publicStoredData v = withoutField ''session'' (parseStoredData v)"

definition normalizedStoredData :: "json_text \<Rightarrow> (string \<times> jsval) list" where
  "normalizedStoredData v =
     (let data = publicStoredData v in withField ''format'' (JStr (notificationPushFormat data)) data)"

subsection \<open>Registration\<close>

type_synonym pusher_key = "product \<times> string \<times> string"

definition pusherKey :: "pusher \<Rightarrow> pusher_key" where
  "pusherKey r = (pu_product r, pu_appId r, pu_pushkeyHash r)"

definition appRow :: "string \<Rightarrow> product \<Rightarrow> string \<Rightarrow> pusher \<Rightarrow> bool" where
  "appRow actor prd appId r = (pu_actor r = actor \<and> pu_product r = prd \<and> pu_appId r = appId)"

definition productRow :: "string \<Rightarrow> product \<Rightarrow> pusher \<Rightarrow> bool" where
  "productRow actor prd r = (pu_actor r = actor \<and> pu_product r = prd)"

text \<open>The two quotas: the oldest rows are evicted so that one more fits.\<close>

definition quotaEvictions :: "string \<Rightarrow> product \<Rightarrow> string \<Rightarrow> pusher list \<Rightarrow> string list" where
  "quotaEvictions actor prd appId rows =
     (let sameApp = map pu_id (sort_key pu_createdAt (filter (appRow actor prd appId) rows));
          sameProduct = map pu_id (sort_key pu_createdAt (filter (productRow actor prd) rows));
          evictApp = take (length sameApp + 1 - MAX_NOTIFICATION_PUSHERS_PER_APP) sameApp;
          remaining = filter (\<lambda>i. i \<notin> set evictApp) sameProduct
      in evictApp @ take (length remaining + 1 - MAX_NOTIFICATION_PUSHERS_PER_PRODUCT) remaining)"

definition enforcePusherQuota :: "string \<Rightarrow> product \<Rightarrow> string \<Rightarrow> pusher list \<Rightarrow> pusher list" where
  "enforcePusherQuota actor prd appId rows =
     (let evict = quotaEvictions actor prd appId rows
      in if evict \<noteq> [] then deleteWhere (\<lambda>r. pu_id r \<in> set evict) rows else rows)"

definition sameSubscription :: "set_request \<Rightarrow> pusher \<Rightarrow> bool" where
  "sameSubscription req r =
     (pu_kind r = ''webpush'' \<and> pu_gatewayUrl r = sr_gatewayUrl req \<and>
      storedField (pu_data r) ''auth'' = field (JObj (sr_stored req)) ''auth'')"

text \<open>The row a registration writes; an upsert over a row of the same member keeps its creation time.\<close>

definition registeredRow :: "string \<Rightarrow> string \<Rightarrow> ms \<Rightarrow> string option \<Rightarrow> string \<Rightarrow> set_request \<Rightarrow> pusher" where
  "registeredRow actor i now sessionKey hash req =
     \<lparr>pu_id = i, pu_actor = actor, pu_product = sr_product req, pu_scope = sr_scope req, pu_kind = sr_kind req,
      pu_appId = sr_appId req, pu_pushkey = sr_pushkey req, pu_pushkeyHash = hash,
      pu_appDisplayName = px_appDisplayName (sr_texts req), pu_deviceDisplayName = px_deviceDisplayName (sr_texts req),
      pu_profileTag = px_profileTag (sr_texts req), pu_lang = px_lang (sr_texts req),
      pu_data = Some (JObj (let d = withoutField ''session'' (sr_stored req)
                            in case truthy sessionKey of None \<Rightarrow> d | Some k \<Rightarrow> withField ''session'' (JStr k) d)),
      pu_gatewayUrl = sr_gatewayUrl req, pu_createdAt = now, pu_updatedAt = now, pu_lastSeenAt = now\<rparr>"

definition upsertPusher :: "string \<Rightarrow> bool \<Rightarrow> set_request \<Rightarrow> pusher \<Rightarrow> pusher list \<Rightarrow> pusher list" where
  "upsertPusher actor sameActor req row rows =
     (if pusherKey row \<in> keySet pusherKey rows then
        updateWhere (\<lambda>r. pusherKey r = pusherKey row \<and> (sr_kind req = ''webpush'' \<longrightarrow> pu_actor r = actor \<or> sameSubscription req r))
          (\<lambda>r. row\<lparr>pu_createdAt := (if sameActor then pu_createdAt r else pu_createdAt row)\<rparr>) rows
      else rows @ [row])"

datatype registration_error = NeedsSession | PusherConflict | RegistrationFailed

text \<open>
  Other requests may write between the statements: \<open>others 0\<close> after the first read,
  \<open>others 1\<close> before the upsert, \<open>others 2\<close> before the row is read back. The answer is the row.
\<close>

definition writeRegistration ::
  "(nat \<Rightarrow> pusher list \<Rightarrow> pusher list) \<Rightarrow> string \<Rightarrow> bool \<Rightarrow> set_request \<Rightarrow> pusher \<Rightarrow>
   pusher list \<Rightarrow> (registration_error + pusher) \<times> pusher list" where
  "writeRegistration others actor sameActor req row rows0 =
     (let rows1 = others 0 rows0;
          rows2 = (if sameActor then rows1 else enforcePusherQuota actor (sr_product req) (sr_appId req) rows1);
          rows3 = upsertPusher actor sameActor req row (others 1 rows2);
          rows4 = others 2 rows3
      in case find (\<lambda>r. pu_actor r = actor \<and> pusherKey r = pusherKey row) rows4 of
           Some r \<Rightarrow> (Inr r, rows4)
         | None \<Rightarrow> (Inl (if sr_kind req = ''webpush'' then PusherConflict else RegistrationFailed), rows4))"

definition registerNotificationPusher ::
  "(string \<Rightarrow> string) \<Rightarrow> string \<Rightarrow> (nat \<Rightarrow> pusher list \<Rightarrow> pusher list) \<Rightarrow> ms \<Rightarrow> string \<Rightarrow> set_request \<Rightarrow> string option \<Rightarrow>
   pusher list \<Rightarrow> (registration_error + pusher) \<times> pusher list" where
  "registerNotificationPusher sha newId others now actor req sessionKey rows =
     (let hash = sha (sr_pushkey req); webPush = (sr_kind req = ''webpush'')
      in if webPush \<and> truthy sessionKey = None then (Inl NeedsSession, rows)
         else
           (case selectBy pusherKey (sr_product req, sr_appId req, hash) rows of
              None \<Rightarrow> writeRegistration others actor False req (registeredRow actor newId now sessionKey hash req) rows
            | Some existing \<Rightarrow>
                (if pu_actor existing = actor
                 then writeRegistration others actor True req (registeredRow actor (pu_id existing) now sessionKey hash req) rows
                 else if webPush \<and> \<not> sameSubscription req existing then (Inl PusherConflict, rows)
                 else writeRegistration others actor False req (registeredRow actor newId now sessionKey hash req) rows)))"

subsection \<open>Removal\<close>

definition deleteSessionWebPushers :: "string \<Rightarrow> string \<Rightarrow> pusher list \<Rightarrow> nat \<times> pusher list" where
  "deleteSessionWebPushers actor sessionKey rows =
     (let P = (\<lambda>r. pu_actor r = actor \<and> pu_kind r = ''webpush'' \<and> storedField (pu_data r) ''session'' = JStr sessionKey)
      in (affectedRows P rows, deleteWhere P rows))"

definition deleteNotificationPusher :: "(string \<Rightarrow> string) \<Rightarrow> string \<Rightarrow> delete_request \<Rightarrow> pusher list \<Rightarrow> pusher list" where
  "deleteNotificationPusher sha actor req rows =
     deleteWhere (\<lambda>r. pu_actor r = actor \<and> pusherKey r = (dr_product req, dr_appId req, sha (dr_pushkey req)) \<and>
       pu_pushkey r = dr_pushkey req \<and> (dr_scope req = None \<or> pu_scope r = dr_scope req)) rows"

text \<open>Delete only the row that was read: owner, route and session binding included.\<close>

definition sameStoredPusher :: "pusher \<Rightarrow> pusher \<Rightarrow> bool" where
  "sameStoredPusher seen r =
     (pu_id r = pu_id seen \<and> pu_actor r = pu_actor seen \<and> pu_product r = pu_product seen \<and>
      pu_pushkeyHash r = pu_pushkeyHash seen \<and> pu_pushkey r = pu_pushkey seen \<and> pu_data r = pu_data seen \<and>
      pu_kind r = pu_kind seen \<and> pu_gatewayUrl r = pu_gatewayUrl seen)"

definition deletePusherRow :: "pusher \<Rightarrow> pusher list \<Rightarrow> pusher list" where
  "deletePusherRow seen rows = deleteWhere (sameStoredPusher seen) rows"

record session_row =
  sn_id :: string
  sn_member :: string
  sn_expiresAt :: string

definition pusherSessionIsLive :: "js_env \<Rightarrow> ms \<Rightarrow> session_row list \<Rightarrow> pusher \<Rightarrow> bool" where
  "pusherSessionIsLive js now sessions r =
     (case truthy (Some (strOf (storedField (pu_data r) ''session''))) of
        None \<Rightarrow> False
      | Some key \<Rightarrow>
          (case find (\<lambda>s. sn_id s = key \<and> sn_member s = pu_actor r) sessions of
             None \<Rightarrow> False
           | Some s \<Rightarrow> (case js_dateOf js (sn_expiresAt s) of None \<Rightarrow> False | Some t \<Rightarrow> now < t)))"


subsection \<open>Routes\<close>

text \<open>What a registration answers with: never the auth secret, nor the session.\<close>

record registration_common =
  rc_id :: string
  rc_appId :: string
  rc_appDisplayName :: "string option"
  rc_deviceDisplayName :: "string option"
  rc_profileTag :: "string option"
  rc_lang :: "string option"
  rc_product :: product
  rc_scope :: "string option"
  rc_registeredAt :: ms
  rc_lastSeenAt :: ms

datatype registration_response =
    RegisteredWebPush registration_common string
  | RegisteredHttp registration_common "(string \<times> jsval) list" string

definition registrationResponse :: "product \<Rightarrow> pusher \<Rightarrow> registration_response" where
  "registrationResponse prd r =
     (let common = \<lparr>rc_id = pu_id r, rc_appId = pu_appId r, rc_appDisplayName = truthy (pu_appDisplayName r),
                    rc_deviceDisplayName = truthy (pu_deviceDisplayName r), rc_profileTag = truthy (pu_profileTag r),
                    rc_lang = truthy (pu_lang r), rc_product = prd, rc_scope = pu_scope r,
                    rc_registeredAt = pu_createdAt r, rc_lastSeenAt = pu_lastSeenAt r\<rparr>
      in if pu_kind r = ''webpush'' then RegisteredWebPush common (pu_gatewayUrl r)
         else RegisteredHttp common (publicStoredData (pu_data r)) (pu_gatewayUrl r))"

datatype pushers_answer =
    PaBadRequest bad_request
  | PaUnauthorized
  | PaConflict
  | PaServerError
  | PaPusher registration_response
  | PaDeleted

definition notAllowed :: bad_request where
  "notAllowed = (''pusher.data.url is not allowed by this server'', Some ''pusher.data.url'')"

text \<open>The checks before a registration touches the table.\<close>

definition admitPusher :: "js_env \<Rightarrow> push_env \<Rightarrow> (bytes \<Rightarrow> bytes \<Rightarrow> bytes) \<Rightarrow> string option \<Rightarrow> jsval option \<Rightarrow> pushers_answer + set_request" where
  "admitPusher js env hkdf rawSession body =
     (case body of
        None \<Rightarrow> Inl (PaBadRequest (''Invalid request body'', None))
      | Some b \<Rightarrow>
          (case parseNotificationPusherSetRequest js b of
             Inl e \<Rightarrow> Inl (PaBadRequest e)
           | Inr req \<Rightarrow>
               (if sr_kind req = ''webpush'' then
                  (if \<not> isWebPushEndpointAllowed js env (sr_gatewayUrl req) then Inl (PaBadRequest notAllowed)
                   else
                     (case getInstanceVapidKeyPair hkdf (pe_encryptionKey env) of
                        Inl e \<Rightarrow> Inl PaServerError
                      | Inr None \<Rightarrow> Inl (PaBadRequest (''web push is not available on this server'', Some ''pusher.kind''))
                      | Inr (Some pair) \<Rightarrow> if truthy rawSession = None then Inl PaUnauthorized else Inr req))
                else if \<not> isNotificationGatewayAllowed js env (sr_gatewayUrl req) then Inl (PaBadRequest notAllowed)
                else Inr req)))"

definition postPusher ::
  "js_env \<Rightarrow> push_env \<Rightarrow> (bytes \<Rightarrow> bytes \<Rightarrow> bytes) \<Rightarrow> (string \<Rightarrow> string) \<Rightarrow> (string \<Rightarrow> string) \<Rightarrow> string \<Rightarrow>
   (nat \<Rightarrow> pusher list \<Rightarrow> pusher list) \<Rightarrow> ms \<Rightarrow> string \<Rightarrow> string option \<Rightarrow> jsval option \<Rightarrow> pusher list \<Rightarrow> pushers_answer \<times> pusher list" where
  "postPusher js env hkdf sha hashSession newId others now actor rawSession body rows =
     (case admitPusher js env hkdf rawSession body of
        Inl a \<Rightarrow> (a, rows)
      | Inr req \<Rightarrow>
          (case registerNotificationPusher sha newId others now actor req (map_option hashSession (truthy rawSession)) rows of
             (Inr r, rows') \<Rightarrow> (PaPusher (registrationResponse (sr_product req) r), rows')
           | (Inl PusherConflict, rows') \<Rightarrow> (PaConflict, rows')
           | (Inl _, rows') \<Rightarrow> (PaServerError, rows')))"

definition deletePusher :: "(string \<Rightarrow> string) \<Rightarrow> string \<Rightarrow> jsval option \<Rightarrow> pusher list \<Rightarrow> pushers_answer \<times> pusher list" where
  "deletePusher sha actor body rows =
     (case body of
        None \<Rightarrow> (PaBadRequest (''Invalid request body'', None), rows)
      | Some b \<Rightarrow>
          (case parseNotificationPusherDeleteRequest b of
             Inl e \<Rightarrow> (PaBadRequest e, rows)
           | Inr req \<Rightarrow> (PaDeleted, deleteNotificationPusher sha actor req rows)))"

text \<open>The configuration: the gateway, if it is allowed, and the instance's public key.\<close>

definition getPusherConfig :: "js_env \<Rightarrow> push_env \<Rightarrow> (bytes \<Rightarrow> bytes \<Rightarrow> bytes) \<Rightarrow> string + (string option \<times> string option)" where
  "getPusherConfig js env hkdf =
     (case getInstanceVapidKeyPair hkdf (pe_encryptionKey env) of
        Inl e \<Rightarrow> Inl e
      | Inr vapid \<Rightarrow>
          Inr ((case normalizeGatewayUrl js (case pe_gatewayUrl env of None \<Rightarrow> JUndefined | Some u \<Rightarrow> JStr u) of
                  None \<Rightarrow> None
                | Some u \<Rightarrow> if isNotificationGatewayAllowed js env u then Some u else None),
               map_option vp_publicBase64Url vapid))"

subsection \<open>Every statement on the table\<close>

text \<open>
  The statements of all requests, workers and sweeps, which the database may interleave in any
  order. An upsert carries the request of an admitted registration; its flag for the same member
  and its id come from an earlier read and are arbitrary here.
\<close>

inductive pusher_step :: "js_env \<Rightarrow> (string \<Rightarrow> string) \<Rightarrow> pusher list \<Rightarrow> pusher list \<Rightarrow> bool" for js sha where
  stepQuota: "pusher_step js sha rows (enforcePusherQuota actor prd appId rows)"
| stepUpsert: "admitPusher js env hkdf rawSession body = Inr req \<Longrightarrow>
    (sr_kind req = ''webpush'' \<Longrightarrow> truthy sessionKey \<noteq> None) \<Longrightarrow>
    pusher_step js sha rows (upsertPusher actor sameActor req (registeredRow actor i now sessionKey (sha (sr_pushkey req)) req) rows)"
| stepDelete: "pusher_step js sha rows (deleteNotificationPusher sha actor dreq rows)"
| stepLogout: "pusher_step js sha rows (snd (deleteSessionWebPushers actor sessionKey rows))"
| stepDeleteRow: "pusher_step js sha rows (deletePusherRow seen rows)"
| stepPurge: "pusher_step js sha rows (snd (purgeExpiredNotificationPushers now rows))"

inductive_cases pusher_stepE: "pusher_step js sha rows rows'"

text \<open>What a stored pusher is known to be.\<close>

definition webPushTyped :: "pusher \<Rightarrow> bool" where
  "webPushTyped r =
     ((case base64UrlDecode (pu_pushkey r) of None \<Rightarrow> False | Some pt \<Rightarrow> isP256UncompressedPoint pt) \<and>
      (case storedField (pu_data r) ''auth'' of
         JStr a \<Rightarrow> map_option length (base64UrlDecode a) = Some 16 | _ \<Rightarrow> False) \<and>
      (case storedField (pu_data r) ''session'' of JStr k \<Rightarrow> k \<noteq> [] | _ \<Rightarrow> False))"

definition pusher_typed :: "js_env \<Rightarrow> (string \<Rightarrow> string) \<Rightarrow> pusher \<Rightarrow> bool" where
  "pusher_typed js sha r =
     (pu_pushkeyHash r = sha (pu_pushkey r) \<and> pu_pushkey r \<noteq> [] \<and> appIdOk (pu_appId r) \<and>
      (\<exists>v. normalizeGatewayUrl js v = Some (pu_gatewayUrl r)) \<and>
      (if pu_kind r = ''webpush'' then webPushTyped r
       else pu_kind r = ''http'' \<and> storedField (pu_data r) ''format'' \<in> {JStr ''event_id_only'', JStr ''full''}))"


subsection \<open>Stored pushers are well typed\<close>

lemma field_JObj: "field (JObj fs) k = (case map_of fs k of None \<Rightarrow> JUndefined | Some v \<Rightarrow> v)"
  by simp

lemma map_of_withoutField: "map_of (withoutField k fs) k' = (if k' = k then None else map_of fs k')"
  by (induction fs) (auto simp: withoutField_def)

lemma map_of_withField: "map_of (withField k v fs) k' = (if k' = k then Some v else map_of fs k')"
proof -
  have m: "map_of (map (\<lambda>f. if fst f = k then (k, v) else f) fs) k' = (if k' = k then map_option (\<lambda>_. v) (map_of fs k) else map_of fs k')"
    by (induction fs) auto
  show ?thesis
  proof (cases "k \<in> fst ` set fs")
    case True
    then obtain y where "map_of fs k = Some y" using map_of_eq_None_iff [of fs k] by (cases "map_of fs k") auto
    then show ?thesis using True by (simp add: withField_def m)
  next
    case False
    then have "map_of fs k = None" by (simp add: map_of_eq_None_iff)
    then show ?thesis using False by (simp add: withField_def map_add_def split: option.splits)
  qed
qed

lemmas stored_fields = map_of_withoutField map_of_withField

definition request_typed :: "js_env \<Rightarrow> set_request \<Rightarrow> bool" where
  "request_typed js req =
     (sr_pushkey req \<noteq> [] \<and> appIdOk (sr_appId req) \<and> (\<exists>v. normalizeGatewayUrl js v = Some (sr_gatewayUrl req)) \<and>
      (if sr_kind req = ''webpush'' then
         (case base64UrlDecode (sr_pushkey req) of None \<Rightarrow> False | Some pt \<Rightarrow> isP256UncompressedPoint pt) \<and>
         (\<exists>a. sr_stored req = [(''auth'', JStr a)] \<and> map_option length (base64UrlDecode a) = Some 16)
       else sr_kind req = ''http'' \<and> field (JObj (sr_stored req)) ''format'' \<in> {JStr ''event_id_only'', JStr ''full''}))"

lemma parseBoundedString_nonempty: "parseBoundedString v n = Some t \<Longrightarrow> t \<noteq> []"
  by (auto simp: parseBoundedString_def Let_def split: jsval.splits if_splits)

lemma not_empty_point: "\<not> isP256UncompressedPoint []"
  by (simp add: isP256UncompressedPoint_def)

lemma base64UrlDecode_Nil: "base64UrlDecode [] = Some []"
  using atob_digits [of "[]" 0] base64UrlEncode_sextets [of "[]"]
  by (simp add: base64UrlDecode_def replaceChar_def padEnd_def ceilDiv_def)

lemma parseWebPushPusher_typed:
  assumes "appIdOk appId" "parseWebPushPusher js prd scope appId pusher texts = Inr req"
  shows "request_typed js req"
proof -
  define pk where "pk = strOf (field pusher ''pushkey'')"
  define url where "url = field (field pusher ''data'') ''url''"
  define auth where "auth = (let a = strOf (field (field pusher ''data'') ''auth'') in if length a \<le> 64 then a else [])"
  obtain pt endpoint where pt: "base64UrlDecode pk = Some pt" "isP256UncompressedPoint pt"
    and endpoint: "normalizeGatewayUrl js url = Some endpoint"
    and auth: "map_option length (base64UrlDecode auth) = Some 16"
    and req: "req = \<lparr>sr_product = prd, sr_scope = scope, sr_kind = ''webpush'', sr_appId = appId, sr_pushkey = pk, sr_texts = texts,
                        sr_gatewayUrl = endpoint, sr_stored = [(''auth'', JStr auth)]\<rparr>"
    using assms(2) unfolding parseWebPushPusher_def Let_def pk_def [symmetric] url_def [symmetric] auth_def [unfolded Let_def, symmetric]
    by (simp split: if_split_asm option.split_asm)
  have "pk \<noteq> []" using pt base64UrlDecode_Nil not_empty_point by auto
  then show ?thesis using assms(1) pt endpoint auth by (auto simp: req request_typed_def)
qed

lemma parseHttpPusher_typed:
  assumes "appIdOk appId" "parseHttpPusher js prd scope appId pusher texts = Inr req"
  shows "request_typed js req"
proof -
  obtain pk fs where pk: "parseBoundedString (field pusher ''pushkey'') 4096 = Some pk" and fs: "field pusher ''data'' = JObj fs"
    using assms(2) unfolding parseHttpPusher_def by (simp split: option.split_asm jsval.split_asm)
  define url where "url = field (JObj fs) ''url''"
  define format where "format = field (JObj fs) ''format''"
  obtain gateway cloned where gw: "normalizeGatewayUrl js url = Some gateway"
    and req: "req = \<lparr>sr_product = prd, sr_scope = scope, sr_kind = ''http'', sr_appId = appId, sr_pushkey = pk, sr_texts = texts,
        sr_gatewayUrl = gateway, sr_stored = withField ''format'' (JStr (if format = JStr ''full'' then ''full'' else ''event_id_only'')) cloned\<rparr>"
    using assms(2) unfolding parseHttpPusher_def Let_def pk fs option.case jsval.case url_def [symmetric] format_def [symmetric]
    by (auto split: option.split_asm if_split_asm)
  have "field (JObj (sr_stored req)) ''format'' = JStr (if format = JStr ''full'' then ''full'' else ''event_id_only'')"
    by (simp add: req stored_fields)
  then show ?thesis using assms(1) parseBoundedString_nonempty [OF pk] gw by (auto simp: req request_typed_def simp del: field.simps)
qed

lemma parsed_request_typed: "parseNotificationPusherSetRequest js body = Inr req \<Longrightarrow> request_typed js req"
  unfolding parseNotificationPusherSetRequest_def Let_def
  by (auto split: option.splits if_splits sum.splits intro: parseWebPushPusher_typed parseHttpPusher_typed)

lemma admitted_request_typed: "admitPusher js env hkdf rawSession body = Inr req \<Longrightarrow> request_typed js req"
  by (auto simp: admitPusher_def split: option.splits if_splits sum.splits intro: parsed_request_typed)

lemma registered_row_typed:
  assumes "request_typed js req" "sr_kind req = ''webpush'' \<Longrightarrow> truthy sessionKey \<noteq> None"
  shows "pusher_typed js sha (registeredRow actor i now sessionKey (sha (sr_pushkey req)) req)"
proof (cases "sr_kind req = ''webpush''")
  case True
  then obtain k where k: "truthy sessionKey = Some k" "k \<noteq> []" using assms(2) truthy_SomeD by (cases "truthy sessionKey") auto
  then show ?thesis using assms(1) True
    by (auto simp: pusher_typed_def request_typed_def registeredRow_def webPushTyped_def storedField_def parseStoredData_def stored_fields Let_def)
next
  case False
  then show ?thesis using assms(1)
    by (cases "truthy sessionKey") (auto simp: pusher_typed_def request_typed_def registeredRow_def storedField_def parseStoredData_def
        stored_fields Let_def)
qed

definition pushers_typed :: "js_env \<Rightarrow> (string \<Rightarrow> string) \<Rightarrow> pusher list \<Rightarrow> bool" where
  "pushers_typed js sha rows = (keysUnique pusherKey rows \<and> list_all (pusher_typed js sha) rows)"

lemma pusher_typed_createdAt [simp]: "pusher_typed js sha (r\<lparr>pu_createdAt := t\<rparr>) = pusher_typed js sha r"
  by (simp add: pusher_typed_def webPushTyped_def)

lemma pusherKey_createdAt [simp]: "pusherKey (r\<lparr>pu_createdAt := t\<rparr>) = pusherKey r"
  by (simp add: pusherKey_def)

lemma upsertPusher_typed:
  assumes "pusher_typed js sha row" "pushers_typed js sha rows"
  shows "pushers_typed js sha (upsertPusher actor sameActor req row rows)"
proof (cases "pusherKey row \<in> keySet pusherKey rows")
  case True
  then show ?thesis using assms
    by (auto simp: pushers_typed_def upsertPusher_def intro!: list_all_updateWhere keysUnique_updateWhere [THEN iffD2])
next
  case False
  then show ?thesis using assms by (auto simp: pushers_typed_def upsertPusher_def keysUnique_def keySet_def)
qed

lemma pushers_typed_deleteWhere: "pushers_typed js sha rows \<Longrightarrow> pushers_typed js sha (deleteWhere P rows)"
  by (simp add: pushers_typed_def keysUnique_deleteWhere list_all_deleteWhere)

lemma pusher_step_typed: "pusher_step js sha rows rows' \<Longrightarrow> pushers_typed js sha rows \<Longrightarrow> pushers_typed js sha rows'"
proof (induction rule: pusher_step.induct)
  case (stepUpsert env hkdf rawSession body req sessionKey rows actor sameActor i now)
  then show ?case by (intro upsertPusher_typed registered_row_typed admitted_request_typed) auto
next
  case (stepPurge rows now)
  then show ?case unfolding purgeExpiredNotificationPushers_def purgeRows_def Let_def by (auto intro: pushers_typed_deleteWhere)
qed (auto simp: enforcePusherQuota_def deleteNotificationPusher_def deleteSessionWebPushers_def deletePusherRow_def Let_def
      intro: pushers_typed_deleteWhere)



subsection \<open>Take-over and quota\<close>

lemma upsert_keeps:
  assumes "r \<in> set rows"
    "pusherKey r \<noteq> pusherKey row \<or> sr_kind req = ''webpush'' \<and> pu_actor r \<noteq> actor \<and> \<not> sameSubscription req r"
  shows "r \<in> set (upsertPusher actor sameActor req row rows)"
  using assms by (force simp: upsertPusher_def set_updateWhere)

lemma quota_keeps: "r \<in> set rows \<Longrightarrow> pu_actor r \<noteq> actor \<Longrightarrow> keysUnique pu_id rows \<Longrightarrow> r \<in> set (enforcePusherQuota actor prd appId rows)"
proof -
  assume r: "r \<in> set rows" "pu_actor r \<noteq> actor" and u: "keysUnique pu_id rows"
  have "i \<in> pu_id ` {x \<in> set rows. pu_actor x = actor}" if "i \<in> set (quotaEvictions actor prd appId rows)" for i
    using that unfolding quotaEvictions_def Let_def by (auto simp: appRow_def productRow_def dest!: in_set_takeD)
  then have "pu_id r \<notin> set (quotaEvictions actor prd appId rows)"
    using r u by (auto simp: keysUnique_def distinct_map inj_on_def)
  then show ?thesis using r(1) by (simp add: enforcePusherQuota_def Let_def)
qed

lemma registeredRow_key: "pusherKey (registeredRow actor i now sessionKey hash req) = (sr_product req, sr_appId req, hash)"
  by (simp add: pusherKey_def registeredRow_def)

lemma writeRegistration_rows:
  "snd (writeRegistration others actor same req row rows) =
     others 2 (upsertPusher actor same req row
       (others 1 (if same then others 0 rows else enforcePusherQuota actor (sr_product req) (sr_appId req) (others 0 rows))))"
  by (simp add: writeRegistration_def Let_def split: option.split)

lemma selectBy_key_mem: "selectBy pusherKey key rows = Some r \<Longrightarrow> r \<in> set rows \<and> pusherKey r = key"
  using selectBy_SomeD by fast

text \<open>
  C33: Taking over a subscription needs its secret. A browser registration of a device key that
  another member holds, without the same endpoint and auth secret, is refused as a conflict and
  changes nothing. Whatever other requests write in between, as long as they leave a row of
  another member in place, the registration leaves it in place too, unless it has the very key
  and shows the same endpoint and secret.
\<close>

theorem webpush_takeover_needs_secret:
  assumes "sr_kind req = ''webpush''" and "pu_actor r \<noteq> actor"
    and "pusherKey r = (sr_product req, sr_appId req, sha (sr_pushkey req)) \<Longrightarrow> \<not> sameSubscription req r"
    and "r \<in> set rows" and "keysUnique pu_id (others 0 rows)"
    and "\<And>n t. r \<in> set t \<Longrightarrow> r \<in> set (others n t)"
  shows "r \<in> set (snd (registerNotificationPusher sha newId others now actor req sessionKey rows)) \<and>
    (truthy sessionKey \<noteq> None \<and> selectBy pusherKey (sr_product req, sr_appId req, sha (sr_pushkey req)) rows = Some r \<longrightarrow>
       registerNotificationPusher sha newId others now actor req sessionKey rows = (Inl PusherConflict, rows))"
proof
  let ?key = "(sr_product req, sr_appId req, sha (sr_pushkey req))"
  have kept: "r \<in> set (snd (writeRegistration others actor same req (registeredRow actor i now sessionKey (sha (sr_pushkey req)) req) rows))"
    for same i
  proof -
    let ?row = "registeredRow actor i now sessionKey (sha (sr_pushkey req)) req"
    let ?kept = "if same then others 0 rows else enforcePusherQuota actor (sr_product req) (sr_appId req) (others 0 rows)"
    have "r \<in> set (others 0 rows)" using assms(4,6) by blast
    then have "r \<in> set ?kept" using quota_keeps assms(2,5) by auto
    then have "r \<in> set (others 1 ?kept)" by (rule assms(6))
    then have "r \<in> set (upsertPusher actor same req ?row (others 1 ?kept))"
      by (rule upsert_keeps) (use assms(1-3) in \<open>auto simp: registeredRow_key\<close>)
    then show ?thesis using assms(6) by (simp add: writeRegistration_rows)
  qed
  show "r \<in> set (snd (registerNotificationPusher sha newId others now actor req sessionKey rows))"
    using assms(4) kept unfolding registerNotificationPusher_def Let_def by (simp split: option.split)
  show "truthy sessionKey \<noteq> None \<and> selectBy pusherKey ?key rows = Some r \<longrightarrow>
       registerNotificationPusher sha newId others now actor req sessionKey rows = (Inl PusherConflict, rows)"
    using assms(1-3) selectBy_key_mem [of ?key rows r] by (auto simp: registerNotificationPusher_def Let_def)
qed

text \<open>
  C34: The rule does not cover gateway registrations. A registration of kind \<open>http\<close> under a
  device key that another member holds always succeeds and takes the row, a browser subscription
  included, although the key of a subscription is public: the conflict check and the condition of the
  upsert exist only for browser registrations.
\<close>

theorem http_registration_takes_row:
  assumes "sr_kind req \<noteq> ''webpush''" and "keysUnique pusherKey rows" and "keysUnique pu_id rows"
    and "r \<in> set rows" and "pu_actor r \<noteq> actor" and "pusherKey r = (sr_product req, sr_appId req, sha (sr_pushkey req))"
  shows "\<exists>mine rows'. registerNotificationPusher sha newId (\<lambda>_ t. t) now actor req sessionKey rows = (Inr mine, rows') \<and>
    pu_actor mine = actor \<and> pusherKey mine = pusherKey r \<and> pu_kind mine = sr_kind req \<and> pu_gatewayUrl mine = sr_gatewayUrl req \<and>
    r \<notin> set rows' \<and> keysUnique pusherKey rows'"
proof -
  let ?key = "(sr_product req, sr_appId req, sha (sr_pushkey req))"
  let ?row = "registeredRow actor newId now sessionKey (sha (sr_pushkey req)) req"
  let ?kept = "enforcePusherQuota actor (sr_product req) (sr_appId req) rows"
  have key: "pusherKey ?row = ?key" by (rule registeredRow_key)
  have found: "selectBy pusherKey ?key rows = Some r" using selectBy_mem [OF assms(2,4)] assms(6) by simp
  have kept: "r \<in> set ?kept" using quota_keeps assms(3-5) by blast
  have unique: "keysUnique pusherKey ?kept" using assms(2) by (simp add: enforcePusherQuota_def Let_def keysUnique_deleteWhere)
  let ?rows' = "upsertPusher actor False req ?row ?kept"
  have "?key \<in> keySet pusherKey ?kept" using kept assms(6) by (force simp: keySet_def)
  then have upsert: "?rows' = updateWhere (\<lambda>x. pusherKey x = ?key) (\<lambda>x. ?row\<lparr>pu_createdAt := pu_createdAt ?row\<rparr>) ?kept"
    using assms(1) by (simp add: upsertPusher_def key)
  have unique': "keysUnique pusherKey ?rows'" unfolding upsert using unique by (subst keysUnique_updateWhere) (simp_all add: key)
  have mine: "?row\<lparr>pu_createdAt := pu_createdAt ?row\<rparr> \<in> set ?rows'" unfolding upsert using kept assms(6) by (force simp: set_updateWhere)
  have actor: "pu_actor ?row = actor" by (simp add: registeredRow_def)
  then have "r \<notin> set ?rows'" unfolding upsert using assms(5,6) by (auto simp: set_updateWhere)
  moreover obtain m where m: "find (\<lambda>x. pu_actor x = actor \<and> pusherKey x = ?key) ?rows' = Some m"
    using mine actor key by (cases "find (\<lambda>x. pu_actor x = actor \<and> pusherKey x = ?key) ?rows'") (force simp: find_None_iff)+
  moreover have "m = ?row\<lparr>pu_createdAt := pu_createdAt ?row\<rparr>"
  proof -
    have "m \<in> set ?rows'" "pusherKey m = ?key" using m by (auto simp: find_Some_iff)
    then show ?thesis using selectBy_mem [OF unique' mine] selectBy_mem [OF unique', of m] by (simp add: key)
  qed
  moreover have "registerNotificationPusher sha newId (\<lambda>_ t. t) now actor req sessionKey rows = (Inr m, ?rows')"
    using m found assms(1,5) by (simp add: registerNotificationPusher_def writeRegistration_def Let_def key)
  ultimately show ?thesis using unique' assms(6) by (auto simp: registeredRow_def pusherKey_def)
qed


subsection \<open>Quotas\<close>

text \<open>Requests one after the other, with the cleanups between them.\<close>

inductive pusher_request :: "js_env \<Rightarrow> (string \<Rightarrow> string) \<Rightarrow> pusher list \<Rightarrow> pusher list \<Rightarrow> bool" for js sha where
  reqRegister: "pusher_request js sha rows
    (snd (postPusher js env hkdf sha hashSession newId (\<lambda>_ t. t) now actor rawSession body rows))"
| reqDelete: "pusher_request js sha rows (snd (deletePusher sha actor body rows))"
| reqLogout: "pusher_request js sha rows (snd (deleteSessionWebPushers actor sessionKey rows))"
| reqDeleteRow: "pusher_request js sha rows (deletePusherRow seen rows)"
| reqPurge: "pusher_request js sha rows (snd (purgeExpiredNotificationPushers now rows))"

definition within_quota :: "pusher list \<Rightarrow> bool" where
  "within_quota rows =
     (\<forall>actor prd. affectedRows (productRow actor prd) rows \<le> 16 \<and> (\<forall>appId. affectedRows (appRow actor prd appId) rows \<le> 8))"

lemma affectedRows_deleteWhere_le: "affectedRows Q (deleteWhere P rows) \<le> affectedRows Q rows"
  unfolding affectedRows_deleteWhere by (simp add: affectedRows_def) (metis (mono_tags) filter_cong length_filter_le filter_filter)

lemma within_quota_deleteWhere: "within_quota rows \<Longrightarrow> within_quota (deleteWhere P rows)"
  unfolding within_quota_def using affectedRows_deleteWhere_le le_trans by metis

lemma length_filter_drop:
  assumes "\<And>x. x \<in> set (take k xs) \<Longrightarrow> \<not> Q x"
  shows "length (filter Q xs) \<le> length xs - k"
proof -
  have "filter Q xs = filter Q (take k xs) @ filter Q (drop k xs)" by (metis append_take_drop_id filter_append)
  moreover have "filter Q (take k xs) = []" using assms by (simp add: filter_empty_conv)
  ultimately show ?thesis using length_filter_le [of Q "drop k xs"] by simp
qed

lemma affectedRows_sorted:
  "affectedRows (\<lambda>r. P r \<and> pu_id r \<notin> S) rows = length (filter (\<lambda>i. i \<notin> S) (map pu_id (sort_key pu_createdAt (filter P rows))))"
proof -
  have "mset (filter Q (sort_key pu_createdAt ys)) = mset (filter Q ys)" for Q ys by (simp add: mset_filter)
  then have "length (filter (\<lambda>r. pu_id r \<notin> S) (sort_key pu_createdAt (filter P rows))) = length (filter (\<lambda>r. pu_id r \<notin> S) (filter P rows))"
    by (metis size_mset)
  then show ?thesis by (simp add: affectedRows_def filter_map comp_def conj_commute)
qed

lemma enforcePusherQuota_rows:
  "enforcePusherQuota actor prd appId rows = deleteWhere (\<lambda>r. pu_id r \<in> set (quotaEvictions actor prd appId rows)) rows"
  by (simp add: enforcePusherQuota_def Let_def deleteWhere_def)

lemma quota_makes_room:
  "affectedRows (appRow actor prd appId) (enforcePusherQuota actor prd appId rows) \<le> 7 \<and>
   affectedRows (productRow actor prd) (enforcePusherQuota actor prd appId rows) \<le> 15"
proof -
  let ?app = "map pu_id (sort_key pu_createdAt (filter (appRow actor prd appId) rows))"
  let ?product = "map pu_id (sort_key pu_createdAt (filter (productRow actor prd) rows))"
  let ?evictApp = "take (length ?app + 1 - 8) ?app"
  let ?rest = "filter (\<lambda>i. i \<notin> set ?evictApp) ?product"
  let ?evict = "?evictApp @ take (length ?rest + 1 - 16) ?rest"
  have evict: "quotaEvictions actor prd appId rows = ?evict"
    unfolding quotaEvictions_def Let_def MAX_NOTIFICATION_PUSHERS_PER_APP_def MAX_NOTIFICATION_PUSHERS_PER_PRODUCT_def ..
  have rows: "enforcePusherQuota actor prd appId rows = deleteWhere (\<lambda>r. pu_id r \<in> set ?evict) rows"
    unfolding enforcePusherQuota_rows evict ..
  have "affectedRows (appRow actor prd appId) (deleteWhere (\<lambda>r. pu_id r \<in> set ?evict) rows) = length (filter (\<lambda>i. i \<notin> set ?evict) ?app)"
    unfolding affectedRows_deleteWhere by (rule affectedRows_sorted)
  moreover have "length (filter (\<lambda>i. i \<notin> set ?evict) ?app) \<le> length ?app - (length ?app + 1 - 8)" by (rule length_filter_drop) simp
  ultimately have app: "affectedRows (appRow actor prd appId) (deleteWhere (\<lambda>r. pu_id r \<in> set ?evict) rows) \<le> 7" by linarith
  have "affectedRows (productRow actor prd) (deleteWhere (\<lambda>r. pu_id r \<in> set ?evict) rows) = length (filter (\<lambda>i. i \<notin> set ?evict) ?product)"
    unfolding affectedRows_deleteWhere by (rule affectedRows_sorted)
  also have "filter (\<lambda>i. i \<notin> set ?evict) ?product = filter (\<lambda>i. i \<notin> set (take (length ?rest + 1 - 16) ?rest)) ?rest"
    unfolding filter_filter by (rule filter_cong) auto
  also have "length \<dots> \<le> length ?rest - (length ?rest + 1 - 16)" by (rule length_filter_drop) simp
  finally have "affectedRows (productRow actor prd) (deleteWhere (\<lambda>r. pu_id r \<in> set ?evict) rows) \<le> 15" by linarith
  then show ?thesis using app unfolding rows by blast
qed


text \<open>An upsert changes one row: what it adds to a count, and to whose.\<close>

lemma affectedRows_update_one:
  assumes u: "keysUnique pusherKey rows" and P: "\<And>r. P r \<Longrightarrow> pusherKey r = k" and f: "\<And>r. P r \<Longrightarrow> pusherKey (f r) = k"
  shows "affectedRows Q (updateWhere P f rows) \<le> affectedRows Q rows + 1 \<and>
    ((\<forall>r. P r \<longrightarrow> Q (f r) \<longrightarrow> Q r) \<longrightarrow> affectedRows Q (updateWhere P f rows) \<le> affectedRows Q rows)"
  using u
proof (induction rows)
  case (Cons r rows)
  have later: "updateWhere P f rows = rows" if "P r"
  proof (rule updateWhere_id)
    fix x
    assume "x \<in> set rows"
    then have "pusherKey x \<noteq> pusherKey r" using Cons.prems unfolding keysUnique_def by (metis distinct.simps(2) imageI list.simps(9) set_map)
    then show "\<not> P x" using P that by metis
  qed
  have "keysUnique pusherKey rows" using Cons.prems by (simp add: keysUnique_def)
  then show ?case using Cons.IH later by (cases "P r") (auto simp: affectedRows_def)
qed (simp add: affectedRows_def)

lemma upsert_count:
  assumes "keysUnique pusherKey rows"
  shows "affectedRows Q (upsertPusher actor same req row rows) \<le> affectedRows Q rows + 1"
    and "\<not> Q row \<Longrightarrow> (\<And>r t. Q (r\<lparr>pu_createdAt := t\<rparr>) = Q r) \<Longrightarrow>
      affectedRows Q (upsertPusher actor same req row rows) \<le> affectedRows Q rows"
    and "(\<And>r t. Q (r\<lparr>pu_createdAt := t\<rparr>) = Q r) \<Longrightarrow> (\<And>r. r \<in> set rows \<Longrightarrow> pusherKey r = pusherKey row \<Longrightarrow> Q r) \<Longrightarrow>
      pusherKey row \<in> keySet pusherKey rows \<Longrightarrow> affectedRows Q (upsertPusher actor same req row rows) \<le> affectedRows Q rows"
proof -
  let ?P = "\<lambda>r. pusherKey r = pusherKey row \<and> (sr_kind req = ''webpush'' \<longrightarrow> pu_actor r = actor \<or> sameSubscription req r)"
  let ?f = "\<lambda>r. row\<lparr>pu_createdAt := (if same then pu_createdAt r else pu_createdAt row)\<rparr>"
  note one = affectedRows_update_one [OF assms, of ?P "pusherKey row" ?f]
  show "affectedRows Q (upsertPusher actor same req row rows) \<le> affectedRows Q rows + 1"
    using one [of Q] by (simp add: upsertPusher_def affectedRows_def)
  show "affectedRows Q (upsertPusher actor same req row rows) \<le> affectedRows Q rows"
    if "\<not> Q row" "\<And>r t. Q (r\<lparr>pu_createdAt := t\<rparr>) = Q r"
    using one [of Q] that by (simp add: upsertPusher_def affectedRows_def)
  show "affectedRows Q (upsertPusher actor same req row rows) \<le> affectedRows Q rows"
    if "\<And>r t. Q (r\<lparr>pu_createdAt := t\<rparr>) = Q r" "\<And>r. r \<in> set rows \<Longrightarrow> pusherKey r = pusherKey row \<Longrightarrow> Q r" "pusherKey row \<in> keySet pusherKey rows"
  proof -
    have "length (filter Q (updateWhere ?P ?f xs)) \<le> length (filter Q xs)" if "set xs \<subseteq> set rows" for xs
      using that \<open>\<And>r. r \<in> set rows \<Longrightarrow> pusherKey r = pusherKey row \<Longrightarrow> Q r\<close> by (induction xs) auto
    then show ?thesis using that(3) by (simp add: upsertPusher_def affectedRows_def)
  qed
qed

lemma productRow_createdAt [simp]: "productRow actor prd (r\<lparr>pu_createdAt := t\<rparr>) = productRow actor prd r"
  by (simp add: productRow_def)

lemma appRow_createdAt [simp]: "appRow actor prd appId (r\<lparr>pu_createdAt := t\<rparr>) = appRow actor prd appId r"
  by (simp add: appRow_def)

lemma writeRegistration_quota:
  assumes u: "keysUnique pusherKey rows" and q: "within_quota rows"
    and row: "pu_actor row = actor" "pu_product row = sr_product req" "pu_appId row = sr_appId req"
    and same: "same \<Longrightarrow> \<exists>r. selectBy pusherKey (pusherKey row) rows = Some r \<and> pu_actor r = actor"
  shows "within_quota (snd (writeRegistration (\<lambda>_ t. t) actor same req row rows))"
proof -
  let ?kept = "if same then rows else enforcePusherQuota actor (sr_product req) (sr_appId req) rows"
  let ?rows' = "upsertPusher actor same req row ?kept"
  have unique: "keysUnique pusherKey ?kept" using u by (simp add: enforcePusherQuota_rows keysUnique_deleteWhere)
  have kept: "within_quota ?kept" using q by (simp add: enforcePusherQuota_rows within_quota_deleteWhere)
  have count: "affectedRows Q ?rows' \<le> n"
    if Q: "\<And>r t. Q (r\<lparr>pu_createdAt := t\<rparr>) = Q r" "affectedRows Q ?kept \<le> n"
      "Q row \<Longrightarrow> \<not> same \<Longrightarrow> affectedRows Q ?kept + 1 \<le> n"
      "\<And>r. Q row \<Longrightarrow> pu_actor r = actor \<Longrightarrow> pusherKey r = pusherKey row \<Longrightarrow> Q r" for Q n
  proof (cases "Q row")
    case False
    then show ?thesis using upsert_count(2) [OF unique False Q(1)] Q(2) le_trans by blast
  next
    case True
    show ?thesis
    proof (cases same)
      case s: True
      then obtain r where r: "selectBy pusherKey (pusherKey row) rows = Some r" "pu_actor r = actor" using same by blast
      have only: "x = r" if "x \<in> set rows" "pusherKey x = pusherKey row" for x using selectBy_mem [OF u that(1)] that(2) r(1) by simp
      have "pusherKey row \<in> keySet pusherKey rows" using selectBy_key_mem [OF r(1)] unfolding keySet_def by (metis imageI)
      moreover have "Q x" if "x \<in> set rows" "pusherKey x = pusherKey row" for x
        using only [OF that] Q(4) [OF True r(2)] that(2) by simp
      ultimately have "affectedRows Q ?rows' \<le> affectedRows Q ?kept"
        using upsert_count(3) [OF unique Q(1), of row actor same req] s by simp
      then show ?thesis using Q(2) by simp
    next
      case False
      then show ?thesis using upsert_count(1) [OF unique, of Q actor same req row] Q(3) [OF True False] by linarith
    qed
  qed
  have room: "\<not> same \<Longrightarrow> affectedRows (appRow actor (sr_product req) (sr_appId req)) ?kept \<le> 7"
    "\<not> same \<Longrightarrow> affectedRows (productRow actor (sr_product req)) ?kept \<le> 15"
    using quota_makes_room by simp_all
  have "affectedRows (productRow a p) ?rows' \<le> 16" for a p
  proof (rule count)
    show "affectedRows (productRow a p) ?kept \<le> 16" using kept unfolding within_quota_def by blast
    show "affectedRows (productRow a p) ?kept + 1 \<le> 16" if "productRow a p row" "\<not> same"
      using room(2) [OF that(2)] that(1) row by (simp add: productRow_def)
  qed (use row in \<open>auto simp: productRow_def pusherKey_def\<close>)
  moreover have "affectedRows (appRow a p i) ?rows' \<le> 8" for a p i
  proof (rule count)
    show "affectedRows (appRow a p i) ?kept \<le> 8" using kept unfolding within_quota_def by blast
    show "affectedRows (appRow a p i) ?kept + 1 \<le> 8" if "appRow a p i row" "\<not> same"
      using room(1) [OF that(2)] that(1) row by (simp add: appRow_def)
  qed (use row in \<open>auto simp: appRow_def pusherKey_def\<close>)
  ultimately show ?thesis unfolding writeRegistration_rows within_quota_def by simp
qed


lemma registration_quota:
  assumes "keysUnique pusherKey rows" "within_quota rows"
  shows "within_quota (snd (registerNotificationPusher sha newId (\<lambda>_ t. t) now actor req sessionKey rows))"
proof -
  have wrote: "within_quota (snd (writeRegistration (\<lambda>_ t. t) actor same req (registeredRow actor i now sessionKey (sha (sr_pushkey req)) req) rows))"
    if "same \<Longrightarrow> \<exists>r. selectBy pusherKey (sr_product req, sr_appId req, sha (sr_pushkey req)) rows = Some r \<and> pu_actor r = actor" for same i
    using that by (intro writeRegistration_quota assms) (simp_all add: registeredRow_key, simp_all add: registeredRow_def)
  show ?thesis
  proof (cases "selectBy pusherKey (sr_product req, sr_appId req, sha (sr_pushkey req)) rows")
    case None
    then show ?thesis using wrote [of False] assms(2) by (simp add: registerNotificationPusher_def Let_def)
  next
    case (Some r)
    then show ?thesis using wrote [of False] wrote [of True] assms(2) by (simp add: registerNotificationPusher_def Let_def)
  qed
qed

text \<open>A registration is made of statements of the table.\<close>

lemma registration_steps:
  assumes "admitPusher js env hkdf rawSession body = Inr req"
  shows "(pusher_step js sha)\<^sup>*\<^sup>* rows (snd (registerNotificationPusher sha newId (\<lambda>_ t. t) now actor req sessionKey rows))"
proof -
  have wrote: "(pusher_step js sha)\<^sup>*\<^sup>* rows
      (snd (writeRegistration (\<lambda>_ t. t) actor same req (registeredRow actor i now sessionKey (sha (sr_pushkey req)) req) rows))"
    if "sr_kind req = ''webpush'' \<Longrightarrow> truthy sessionKey \<noteq> None" for same i
  proof -
    let ?kept = "if same then rows else enforcePusherQuota actor (sr_product req) (sr_appId req) rows"
    have "(pusher_step js sha)\<^sup>*\<^sup>* rows ?kept" using stepQuota [of js sha rows] by auto
    then show ?thesis unfolding writeRegistration_rows by (rule rtranclp.rtrancl_into_rtrancl) (rule stepUpsert [OF assms that])
  qed
  show ?thesis
  proof (cases "sr_kind req = ''webpush'' \<and> truthy sessionKey = None")
    case True
    then show ?thesis by (simp add: registerNotificationPusher_def)
  next
    case False
    then show ?thesis using wrote
      by (cases "selectBy pusherKey (sr_product req, sr_appId req, sha (sr_pushkey req)) rows") (auto simp: registerNotificationPusher_def Let_def)
  qed
qed

lemma postPusher_table:
  "snd (postPusher js env hkdf sha hashSession newId others now actor rawSession body rows) =
     (case admitPusher js env hkdf rawSession body of
        Inl a \<Rightarrow> rows
      | Inr req \<Rightarrow> snd (registerNotificationPusher sha newId others now actor req (map_option hashSession (truthy rawSession)) rows))"
  by (auto simp: postPusher_def split: sum.splits prod.splits registration_error.splits)

lemma request_steps: "pusher_request js sha rows rows' \<Longrightarrow> (pusher_step js sha)\<^sup>*\<^sup>* rows rows'"
proof (induction rule: pusher_request.induct)
  case (reqRegister rows env hkdf hashSession newId now actor rawSession body)
  show ?case unfolding postPusher_table by (auto split: sum.splits intro: registration_steps)
next
  case (reqDelete rows actor body)
  show ?case by (auto simp: deletePusher_def stepDelete split: option.splits sum.splits)
qed (blast intro: stepLogout stepDeleteRow stepPurge)+

text \<open>
  C35: Quotas. Whatever requests, logouts, cleanups and purges ran one after the other, no member
  has more than sixteen pushers for a product, nor more than eight for an app.
\<close>

theorem pushers_within_quota:
  assumes "(pusher_request js sha)\<^sup>*\<^sup>* [] rows"
  shows "length (filter (\<lambda>r. pu_actor r = actor \<and> pu_product r = prd) rows) \<le> 16 \<and>
    length (filter (\<lambda>r. pu_actor r = actor \<and> pu_product r = prd \<and> pu_appId r = appId) rows) \<le> 8"
proof -
  have "pushers_typed js sha rows \<and> within_quota rows"
    using assms
  proof (induction rule: rtranclp_induct)
    case base
    show ?case by (simp add: pushers_typed_def keysUnique_def within_quota_def affectedRows_def)
  next
    case (step rows rows')
    have "pushers_typed js sha rows'"
      using request_steps [OF step.hyps(2)] conjunct1 [OF step.IH]
      by (induction rule: rtranclp_induct) (auto intro: pusher_step_typed)
    moreover have "within_quota rows'"
      using step.hyps(2)
    proof cases
      case (reqRegister env hkdf hashSession newId now actor rawSession body)
      then show ?thesis using registration_quota step.IH by (auto simp: postPusher_table pushers_typed_def split: sum.splits)
    next
      case (reqPurge now)
      then show ?thesis using step.IH unfolding purgeExpiredNotificationPushers_def purgeRows_def Let_def
        by (auto intro: within_quota_deleteWhere)
    qed (use step.IH in \<open>auto simp: deletePusher_def deleteNotificationPusher_def deleteSessionWebPushers_def deletePusherRow_def Let_def
          intro: within_quota_deleteWhere split: option.splits sum.splits\<close>)
    ultimately show ?case ..
  qed
  then show ?thesis by (simp add: within_quota_def affectedRows_def appRow_def [abs_def] productRow_def [abs_def])
qed


subsection \<open>Examples\<close>

definition exampleJs :: js_env where
  "exampleJs =
     \<lparr>js_parse = (\<lambda>s. Some \<lparr>u_protocol = ''https:'', u_username = [], u_password = [], u_hostname = ''gw.example'', u_host = ''gw.example'',
         u_port = [], u_pathname = ''/'', u_search = [], u_hash = []\<rparr>),
      js_href = id, js_number = (\<lambda>s. NaN), js_jsonBytes = (\<lambda>v. 0), js_dateOf = (\<lambda>s. Some 0)\<rparr>"

definition examplePushEnv :: push_env where
  "examplePushEnv =
     \<lparr>pe_allowedHosts = Some ''gw.example'', pe_insecureLoopback = None, pe_gatewayUrl = None, pe_gatewayToken = None, pe_timeout = None,
      pe_encryptionKey = None, pe_appUrl = ''https://a.b''\<rparr>"

definition exampleBody :: jsval where
  "exampleBody = JObj [(''product'', JStr ''yurume''), (''pusher'', JObj [(''kind'', JStr ''http''), (''app_id'', JStr ''app''),
     (''pushkey'', JStr ''key''), (''data'', JObj [(''url'', JStr ''https://gw.example/'')])])]"

definition noTexts :: pusher_texts where
  "noTexts = \<lparr>px_appDisplayName = None, px_deviceDisplayName = None, px_profileTag = None, px_lang = None\<rparr>"

definition exampleRequest :: set_request where
  "exampleRequest =
     \<lparr>sr_product = Yurume, sr_scope = None, sr_kind = ''http'', sr_appId = ''app'', sr_pushkey = ''key'', sr_texts = noTexts,
      sr_gatewayUrl = ''https://gw.example/'', sr_stored = [(''format'', JStr ''event_id_only'')]\<rparr>"

lemma example_url: "normalizeGatewayUrl exampleJs (JStr ''https://gw.example/'') = Some ''https://gw.example/''"
  by (simp add: normalizeGatewayUrl_def parseBoundedString_def Let_def trim_def isSpace_def exampleJs_def isPublicHttpsHostname_def
      unbracketHost_def toLowerCase_def lowerChar_def startsWith_def endsWith_def octetNumber_def)

lemma example_admitted: "admitPusher exampleJs examplePushEnv (\<lambda>_ _. []) None (Some exampleBody) = Inr exampleRequest"
proof -
  have "parseNotificationPusherSetRequest exampleJs exampleBody = Inr exampleRequest"
    by (simp add: parseNotificationPusherSetRequest_def exampleBody_def parseProduct_def parseOptionalIdentifier_def parseBoundedString_def
        Let_def trim_def isSpace_def appIdOk_def letterOrDigit_def isDigit_def parseOptionalPusherFields_def parseOptionalBoundedString_def
        parseHttpPusher_def example_url cloneJsonObjectWithoutUrl_def withoutField_def withField_def exampleRequest_def noTexts_def
        MAX_NOTIFICATION_PUSHER_DATA_BYTES_def) (simp add: exampleJs_def)
  moreover have "isNotificationGatewayAllowed exampleJs examplePushEnv ''https://gw.example/''"
    by (simp add: isNotificationGatewayAllowed_def example_url) (simp add: isLoopbackGatewayUrl_def exampleJs_def examplePushEnv_def
        toLowerCase_def lowerChar_def trim_def isSpace_def)
  ultimately show ?thesis by (simp add: admitPusher_def exampleRequest_def)
qed


definition exampleStored :: pusher where
  "exampleStored = registeredRow ''ann'' ''p1'' 5 None ''key'' exampleRequest"

lemma example_request_step: "pusher_request exampleJs id [] [exampleStored]"
proof -
  have "snd (postPusher exampleJs examplePushEnv (\<lambda>_ _. []) id id ''p1'' (\<lambda>_ t. t) 5 ''ann'' None (Some exampleBody) []) = [exampleStored]"
    unfolding postPusher_table example_admitted
    by (simp add: registerNotificationPusher_def Let_def exampleRequest_def writeRegistration_rows enforcePusherQuota_rows deleteWhere_def
        upsertPusher_def exampleStored_def truthy_def)
  then show ?thesis using reqRegister [of exampleJs id "[]" examplePushEnv "\<lambda>_ _. []" id "''p1''" 5 "''ann''" None "Some exampleBody"] by simp
qed

lemma example_requests: "(pusher_request exampleJs id)\<^sup>*\<^sup>* [] [exampleStored]"
  by (rule r_into_rtranclp) (rule example_request_step)


theorem pushers_within_quota_witness:
  "(pusher_request exampleJs id)\<^sup>*\<^sup>* [] [exampleStored] \<and>
   length (filter (\<lambda>r. pu_actor r = ''ann'' \<and> pu_product r = Yurume) [exampleStored]) \<le> 16"
  using pushers_within_quota [OF example_requests, of "''ann''" Yurume "''app''"] example_requests by simp

text \<open>A browser subscription of one member, and the same device key from another.\<close>

definition annSubscription :: pusher where
  "annSubscription = exampleStored\<lparr>pu_kind := ''webpush'', pu_data := Some (JObj [(''auth'', JStr ''secret''), (''session'', JStr ''s'')])\<rparr>"

definition otherSubscription :: set_request where
  "otherSubscription = exampleRequest\<lparr>sr_kind := ''webpush'', sr_stored := [(''auth'', JStr ''guess'')]\<rparr>"

lemma example_key: "pusherKey annSubscription = (sr_product exampleRequest, sr_appId exampleRequest, id (sr_pushkey exampleRequest))"
  by (simp add: pusherKey_def annSubscription_def exampleStored_def registeredRow_def exampleRequest_def)

theorem webpush_takeover_needs_secret_witness:
  "registerNotificationPusher id ''p2'' (\<lambda>_ t. t) 9 ''bob'' otherSubscription (Some ''s'') [annSubscription] = (Inl PusherConflict, [annSubscription])"
proof -
  have "\<not> sameSubscription otherSubscription annSubscription"
    by (simp add: sameSubscription_def otherSubscription_def annSubscription_def exampleStored_def registeredRow_def exampleRequest_def
        storedField_def parseStoredData_def)
  moreover have key: "pusherKey annSubscription = (sr_product otherSubscription, sr_appId otherSubscription, id (sr_pushkey otherSubscription))"
    using example_key by (simp add: otherSubscription_def)
  moreover have "selectBy pusherKey (sr_product otherSubscription, sr_appId otherSubscription, id (sr_pushkey otherSubscription)) [annSubscription]
      = Some annSubscription"
    using key by simp
  ultimately show ?thesis
    using webpush_takeover_needs_secret [where req = otherSubscription and r = annSubscription and actor = "''bob''" and sha = id
        and rows = "[annSubscription]" and others = "\<lambda>_ t. t" and sessionKey = "Some ''s''" and newId = "''p2''" and now = 9]
    by (simp add: otherSubscription_def annSubscription_def exampleStored_def registeredRow_def keysUnique_def truthy_def)
qed

theorem http_registration_takes_row_witness:
  "\<exists>mine rows'. registerNotificationPusher id ''p2'' (\<lambda>_ t. t) 9 ''bob'' exampleRequest None [annSubscription] = (Inr mine, rows') \<and>
     pu_kind annSubscription = ''webpush'' \<and> pu_actor mine = ''bob'' \<and> annSubscription \<notin> set rows'"
  using http_registration_takes_row [of exampleRequest "[annSubscription]" annSubscription "''bob''" id "''p2''" 9 None] example_key
  by (fastforce simp: exampleRequest_def annSubscription_def exampleStored_def registeredRow_def keysUnique_def)

end
