(* ===== verification/PushChannels.thy ===== *)
theory PushChannels
  imports Pushers WebPushSend
begin

section \<open>The two channels of a push: Web Push and gateways\<close>

text \<open>
  Models the content of a Web Push message, its delivery to one subscription and the delivery of a
  group of devices through a gateway, of \<open>src/backend/lib/notification-push.ts\<close>. Every database
  statement may fail, and other workers act before every one of them; the clock, the answers of the
  network, DNS and the primitives of WebCrypto are parameters of a run.
\<close>

subsection \<open>The content of a message\<close>

record named_actor =
  na_apId :: string
  na_name :: "jstext option"
  na_preferredUsername :: "jstext option"

text \<open>The local row decides when there is one, else the cached remote actor.\<close>

definition senderDisplayName :: "named_actor list \<Rightarrow> named_actor list \<Rightarrow> string \<Rightarrow> jstext option" where
  "senderDisplayName actors actorCache actorApId =
     (let row = (case selectBy na_apId actorApId actors of Some r \<Rightarrow> Some r | None \<Rightarrow> selectBy na_apId actorApId actorCache);
          name = singleLine (case Option.bind row na_name of None \<Rightarrow> [] | Some s \<Rightarrow> s);
          username = trimText (case Option.bind row na_preferredUsername of None \<Rightarrow> [] | Some s \<Rightarrow> s);
          display = (if name \<noteq> [] then name else username)
      in if display = [] then None else Some (concat (take 64 (codePoints display))))"

datatype language = Ja | En

definition languageFamily :: "string option \<Rightarrow> language" where
  "languageFamily lang =
     (case truthy lang of
        None \<Rightarrow> Ja
      | Some l \<Rightarrow> if startsWith (toLowerCase (trim l)) ''ja'' then Ja else En)"

text \<open>The Japanese texts by their code units.\<close>

definition webPushBody :: "string \<Rightarrow> bool \<Rightarrow> bool \<Rightarrow> jstext option \<Rightarrow> language \<Rightarrow> jstext" where
  "webPushBody activityType direct talk sender lang =
     (case sender of
        None \<Rightarrow>
          if direct \<or> talk then
            (if lang = Ja then [26032, 12375, 12356, 12513, 12483, 12475, 12540, 12472, 12364, 12354, 12426, 12414, 12377]
             else asText ''You have a new message'')
          else
            (if lang = Ja then [26032, 12375, 12356, 36890, 30693, 12364, 12354, 12426, 12414, 12377]
             else asText ''You have a new notification'')
      | Some s \<Rightarrow>
          if direct then
            (if lang = Ja then s @ [12373, 12435, 12363, 12425, 12513, 12483, 12475, 12540, 12472]
             else asText ''Message from '' @ s)
          else if talk then
            (if lang = Ja then s @ [12373, 12435, 12364, 12488, 12540, 12463, 12395, 25237, 31295, 12375, 12414, 12375, 12383]
             else s @ asText '' posted in a talk'')
          else if activityType = ''Follow'' then
            (if lang = Ja then s @ [12373, 12435, 12364, 12354, 12394, 12383, 12434, 12501, 12457, 12525, 12540, 12375, 12414, 12375, 12383]
             else s @ asText '' followed you'')
          else if activityType = ''Like'' then
            (if lang = Ja then s @ [12373, 12435, 12364, 12354, 12394, 12383, 12398, 25237, 31295, 12395, 12356, 12356, 12397, 12375, 12414, 12375, 12383]
             else s @ asText '' liked your post'')
          else if activityType = ''Announce'' then
            (if lang = Ja then s @ [12373, 12435, 12364, 12354, 12394, 12383, 12398, 25237, 31295, 12434, 12522, 12509, 12473, 12488, 12375, 12414, 12375, 12383]
             else s @ asText '' reposted your post'')
          else
            (if lang = Ja then s @ [12373, 12435, 12364, 12354, 12394, 12383, 23451, 12390, 12395, 25237, 31295, 12375, 12414, 12375, 12383]
             else s @ asText '' posted to you''))"

text \<open>\<open>new URL(v)\<close> of the environment's \<open>APP_URL\<close>, which may throw.\<close>

definition webPushAppOrigin :: "text_parser \<Rightarrow> push_env \<Rightarrow> jstext option" where
  "webPushAppOrigin parse env =
     (case parse (asText (pe_appUrl env)) None of
        None \<Rightarrow> None
      | Some u \<Rightarrow> if ut_protocol u = ''https:'' \<or> ut_protocol u = ''http:'' then Some (ut_origin u) else None)"

text \<open>The event of a job, as its query returns it.\<close>

record push_event =
  pv_activityApId :: string
  pv_type :: string
  pv_actorApId :: string
  pv_objectApId :: "string option"
  pv_visibility :: "string option"
  pv_conversation :: "string option"

definition pushEvent :: "activity_row \<times> object_row option \<Rightarrow> push_event" where
  "pushEvent row =
     \<lparr>pv_activityApId = av_apId (fst row), pv_type = av_type (fst row), pv_actorApId = av_actor (fst row),
      pv_objectApId = av_object (fst row), pv_visibility = map_option ob_visibility (snd row),
      pv_conversation = Option.bind (snd row) ob_conversation\<rparr>"

record web_push_content =
  wp_appOrigin :: "jstext option"
  wp_title :: jstext
  wp_navigate :: jstext
  wp_tag :: jstext
  wp_topic :: "string option"
  wp_urgency :: string
  wp_ttlSeconds :: int
  wp_unread :: nat
  wp_body :: "string option \<Rightarrow> jstext"

definition WEB_PUSH_TITLES :: "product \<Rightarrow> jstext" where
  "WEB_PUSH_TITLES p = (case p of Yurucommu \<Rightarrow> asText ''Yurucommu'' | Yurume \<Rightarrow> asText ''Yurumeet'')"

definition coalesce :: "string option \<Rightarrow> string option \<Rightarrow> string option" where
  "coalesce a b = (case a of None \<Rightarrow> b | Some x \<Rightarrow> Some x)"

definition buildWebPushContent ::
  "text_parser \<Rightarrow> (bytes \<Rightarrow> bytes \<Rightarrow> bytes) \<Rightarrow> (bytes \<Rightarrow> bytes \<Rightarrow> bytes) \<Rightarrow> push_env \<Rightarrow> jstext option \<Rightarrow> string \<Rightarrow> product \<Rightarrow> push_event \<Rightarrow> nat \<Rightarrow>
     string + web_push_content" where
  "buildWebPushContent parse hkdf hmac env sender recipient prd event unread =
     (let appOrigin = webPushAppOrigin parse env;
          direct = (pv_visibility event = Some ''direct'');
          talk = (prd = Yurume \<and> \<not> direct);
          conversation = (if direct then coalesce (pv_conversation event) (coalesce (pv_objectApId event) (Some (pv_activityApId event))) else None)
      in case (case truthy conversation of None \<Rightarrow> Inr None | Some c \<Rightarrow> instanceWebPushTopic hkdf hmac (pe_encryptionKey env) recipient c) of
           Inl e \<Rightarrow> Inl e
         | Inr topicOrNone \<Rightarrow>
             (let topic = truthy topicOrNone
              in Inr \<lparr>wp_appOrigin = appOrigin, wp_title = WEB_PUSH_TITLES prd,
                      wp_navigate = (if prd = Yurume then asText ''/'' else asText ''/notifications''),
                      wp_tag = (if direct then (case topic of Some t \<Rightarrow> asText (''dm-'' @ t) | None \<Rightarrow> asText ''dm'')
                                else if prd = Yurume then asText ''talk'' else asText ''notifications''),
                      wp_topic = topic,
                      wp_urgency = (if direct \<or> talk then ''high'' else ''normal''),
                      wp_ttlSeconds = DEFAULT_WEB_PUSH_TTL_SECONDS,
                      wp_unread = unread,
                      wp_body = (\<lambda>lang. webPushBody (pv_type event) direct talk sender (languageFamily lang))\<rparr>))"

subsection \<open>Resolving an endpoint\<close>

datatype endpoint_resolution = EndpointOk | EndpointRetry string | EndpointRefused string

text \<open>The resolver is the host's, or none on a runtime that cannot reach private addresses.\<close>

definition checkWebPushEndpointResolved ::
  "js_env \<Rightarrow> (string \<Rightarrow> string + string list) option \<Rightarrow> string \<Rightarrow> endpoint_resolution" where
  "checkWebPushEndpointResolved js resolver endpoint =
     (if isLoopbackGatewayUrl js endpoint then EndpointOk
      else
        (case resolver of
           None \<Rightarrow> EndpointOk
         | Some lookup \<Rightarrow>
             (case assertSafeRemoteUrlResolved (js_parse js) False (\<lambda>h t. []) lookup endpoint of
                Inr ips \<Rightarrow> EndpointOk
              | Inl (ResolverError e) \<Rightarrow> EndpointRetry ''web push endpoint DNS lookup failed''
              | Inl (FailedToResolve h) \<Rightarrow> EndpointRetry ''web push endpoint DNS lookup failed''
              | Inl e \<Rightarrow> EndpointRefused ''web push endpoint resolves to a non-public address'')))"

subsection \<open>A run and the state it acts on\<close>

text \<open>A request to a gateway and its answer: the body arrives in chunks.\<close>

record gateway_request =
  gq_url :: string
  gq_authorization :: "string option"
  gq_payload :: jsval

record gateway_response =
  gs_status :: nat
  gs_retryAfter :: "string option"
  gs_chunks :: "bytes list option"

text \<open>What has left the server, with the answer it got.\<close>

datatype pushed =
    PushedWeb pusher push_request push_response
  | PushedGateway "pusher list" gateway_request "string + gateway_response"

record push_world =
  pw_jobs :: "push_job list"
  pw_pushers :: "pusher list"
  pw_sessions :: "session_row list"
  pw_step :: nat
  pw_jwts :: jwt_cache
  pw_settled :: "string list"
  pw_dispatch :: "string list option"
  pw_log :: "pushed list"

type_synonym shared = "push_job list \<times> pusher list \<times> session_row list"

record push_run =
  rn_js :: js_env
  rn_env :: push_env
  rn_send :: send_env
  rn_hkdf :: "bytes \<Rightarrow> bytes \<Rightarrow> bytes"
  rn_hmac :: "bytes \<Rightarrow> bytes \<Rightarrow> bytes"
  rn_db :: notif_db
  rn_actors :: "named_actor list"
  rn_actorCache :: "named_actor list"
  rn_resolver :: "(string \<Rightarrow> string + string list) option"
  rn_token :: string
  rn_salt :: "nat \<Rightarrow> bytes"
  rn_sender :: "nat \<Rightarrow> sender_pair"
  rn_push :: "nat \<Rightarrow> push_request \<Rightarrow> push_response"
  rn_fetch :: "nat \<Rightarrow> gateway_request \<Rightarrow> string + gateway_response"
  rn_readJson :: "bytes \<Rightarrow> string + jsval"
  rn_clock :: "nat \<Rightarrow> ms"
  rn_others :: "nat \<Rightarrow> shared \<Rightarrow> shared"
  rn_fails :: "nat \<Rightarrow> string option"

definition nowOf :: "push_run \<Rightarrow> push_world \<Rightarrow> ms" where
  "nowOf run w = rn_clock run (pw_step w)"

text \<open>Before a statement of the run the other workers act on the shared tables, and time passes.\<close>

definition interfere :: "push_run \<Rightarrow> push_world \<Rightarrow> push_world" where
  "interfere run w =
     (case rn_others run (pw_step w) (pw_jobs w, pw_pushers w, pw_sessions w) of
        (jobs, pushers, sessions) \<Rightarrow>
          w\<lparr>pw_jobs := jobs, pw_pushers := pushers, pw_sessions := sessions, pw_step := Suc (pw_step w)\<rparr>)"

text \<open>One statement: it fails without an effect, or it is done.\<close>

definition statement :: "push_run \<Rightarrow> (push_world \<Rightarrow> 'a \<times> push_world) \<Rightarrow> (push_world, 'a) act" where
  "statement run f w =
     (let w' = interfere run w
      in case rn_fails run (pw_step w) of
           Some e \<Rightarrow> (Inl e, w')
         | None \<Rightarrow> (case f w' of (a, w'') \<Rightarrow> (Inr a, w'')))"

text \<open>An update of the job table; its timestamp is taken before the statement is sent.\<close>

definition jobStatement :: "push_run \<Rightarrow> (ms \<Rightarrow> push_job list \<Rightarrow> 'a \<times> push_job list) \<Rightarrow> (push_world, 'a) act" where
  "jobStatement run f w =
     statement run (\<lambda>w'. case f (nowOf run w) (pw_jobs w') of (a, jobs) \<Rightarrow> (a, w'\<lparr>pw_jobs := jobs\<rparr>)) w"

definition query :: "push_run \<Rightarrow> (push_world \<Rightarrow> 'a) \<Rightarrow> (push_world, 'a) act" where
  "query run f = statement run (\<lambda>w. (f w, w))"

definition removeRow :: "push_run \<Rightarrow> pusher \<Rightarrow> (push_world, unit) act" where
  "removeRow run row = statement run (\<lambda>w. ((), w\<lparr>pw_pushers := deletePusherRow row (pw_pushers w)\<rparr>))"

text \<open>A row without a binding asks no table.\<close>

definition sessionLive :: "push_run \<Rightarrow> pusher \<Rightarrow> (push_world, bool) act" where
  "sessionLive run row =
     (if truthy (Some (strOf (storedField (pu_data row) ''session''))) = None then ret False
      else query run (\<lambda>w. pusherSessionIsLive (rn_js run) (nowOf run w) (pw_sessions w) row))"

subsection \<open>One Web Push subscription\<close>

record gateway_result =
  gr_retryIds :: "string list"
  gr_retryAfterSeconds :: secs
  gr_error :: "string option"

definition doneResult :: "string option \<Rightarrow> gateway_result" where
  "doneResult e = \<lparr>gr_retryIds = [], gr_retryAfterSeconds = 0, gr_error = e\<rparr>"

definition contentMessage :: "web_push_content \<Rightarrow> jstext \<Rightarrow> pusher \<Rightarrow> message_input" where
  "contentMessage content origin row =
     \<lparr>mi_appOrigin = origin, mi_title = wp_title content, mi_navigate = wp_navigate content,
      mi_body = Some (wp_body content (pu_lang row)), mi_lang = map_option asText (truthy (pu_lang row)),
      mi_tag = Some (wp_tag content), mi_appBadge = Some (Fin (of_nat (wp_unread content))), mi_maxBytes = None\<rparr>"

definition contentOptions :: "web_push_content \<Rightarrow> bytes \<Rightarrow> push_options" where
  "contentOptions content payload =
     \<lparr>po_payload = payload, po_ttlSeconds = Some (Fin (of_int (wp_ttlSeconds content))), po_urgency = Some (wp_urgency content),
      po_topic = truthy (wp_topic content)\<rparr>"

definition sendOne ::
  "push_run \<Rightarrow> vapid_pair \<Rightarrow> jstext \<Rightarrow> pusher \<Rightarrow> push_target \<Rightarrow> push_options \<Rightarrow> (push_world, web_push_outcome) act" where
  "sendOne run keys origin row target message w =
     (case sendWebPush (rn_send run) keys origin (rn_salt run (pw_step w)) (rn_sender run (pw_step w)) (nowOf run w)
             (\<lambda>r. (rn_push run (pw_step w) r, rn_clock run (Suc (pw_step w)))) target message (pw_jwts w) of
        (outcome, request, jwts) \<Rightarrow>
          (Inr outcome, w\<lparr>pw_jwts := jwts, pw_step := Suc (pw_step w),
             pw_log := pw_log w @ (case request of None \<Rightarrow> [] | Some r \<Rightarrow> [PushedWeb row r (rn_push run (pw_step w) r)])\<rparr>))"

definition subscriptionKeys :: "pusher \<Rightarrow> (bytes \<times> bytes) option" where
  "subscriptionKeys row =
     (case base64UrlDecode (pu_pushkey row) of
        None \<Rightarrow> None
      | Some p256dh \<Rightarrow>
          (case storedField (pu_data row) ''auth'' of
             JStr s \<Rightarrow> (case base64UrlDecode s of None \<Rightarrow> None | Some auth \<Rightarrow> Some (p256dh, auth))
           | _ \<Rightarrow> None))"

definition outcomeResult :: "push_run \<Rightarrow> pusher \<Rightarrow> web_push_outcome \<Rightarrow> (push_world, gateway_result) act" where
  "outcomeResult run row outcome =
     (case outcome of
        WpDelivered s \<Rightarrow> ret (doneResult None)
      | WpGone s \<Rightarrow> andThen (removeRow run row) (\<lambda>_. ret (doneResult None))
      | WpRetry s delay e \<Rightarrow> ret \<lparr>gr_retryIds = [pu_id row], gr_retryAfterSeconds = delay, gr_error = Some (''web push: '' @ e)\<rparr>
      | WpFailed s e \<Rightarrow> ret (doneResult (Some (''web push: '' @ e))))"

text \<open>The delivery in its stages: to a live session, to an allowed endpoint, to a row.\<close>

definition pushToSession ::
  "push_run \<Rightarrow> vapid_pair \<Rightarrow> jstext \<Rightarrow> pusher \<Rightarrow> web_push_content \<Rightarrow> (push_world, gateway_result) act" where
  "pushToSession run keys origin row content =
     (case subscriptionKeys row of
        None \<Rightarrow> ret (doneResult (Some ''web push subscription keys are invalid''))
      | Some (p256dh, auth) \<Rightarrow>
          (case checkWebPushEndpointResolved (rn_js run) (rn_resolver run) (pu_gatewayUrl row) of
             EndpointRetry e \<Rightarrow> ret \<lparr>gr_retryIds = [pu_id row], gr_retryAfterSeconds = 0, gr_error = Some e\<rparr>
           | EndpointRefused e \<Rightarrow> ret (doneResult (Some e))
           | EndpointOk \<Rightarrow>
               (case buildDeclarativeWebPushMessage (se_parse (rn_send run)) (contentMessage content origin row) of
                  Inl e \<Rightarrow> throw e
                | Inr (title, body, payload) \<Rightarrow>
                    andThen
                      (sendOne run keys origin row
                         \<lparr>pt_endpoint = pu_gatewayUrl row, pt_p256dh = p256dh, pt_auth = auth\<rparr> (contentOptions content payload))
                      (outcomeResult run row))))"

definition pushToEndpoint ::
  "push_run \<Rightarrow> vapid_pair \<Rightarrow> jstext \<Rightarrow> pusher \<Rightarrow> web_push_content \<Rightarrow> (push_world, gateway_result) act" where
  "pushToEndpoint run keys origin row content =
     andThen (sessionLive run row) (\<lambda>live.
       if live then pushToSession run keys origin row content
       else andThen (removeRow run row) (\<lambda>_. ret (doneResult None)))"

definition deliverWebPushPusher :: "push_run \<Rightarrow> pusher \<Rightarrow> web_push_content \<Rightarrow> (push_world, gateway_result) act" where
  "deliverWebPushPusher run row content =
     (case wp_appOrigin content of
        None \<Rightarrow> ret (doneResult (Some ''web push needs a valid APP_URL''))
      | Some origin \<Rightarrow>
          (case getInstanceVapidKeyPair (rn_hkdf run) (pe_encryptionKey (rn_env run)) of
             Inl e \<Rightarrow> throw e
           | Inr None \<Rightarrow> ret (doneResult (Some ''web push is unavailable: ENCRYPTION_KEY is not valid''))
           | Inr (Some keys) \<Rightarrow>
               if isWebPushEndpointAllowed (rn_js run) (rn_env run) (pu_gatewayUrl row)
               then pushToEndpoint run keys origin row content
               else ret (doneResult (Some ''web push endpoint is no longer allowed''))))"

subsection \<open>A group of devices behind one gateway\<close>

definition DEFAULT_GATEWAY_TIMEOUT_MS :: int where "DEFAULT_GATEWAY_TIMEOUT_MS = 10000"
definition MAX_GATEWAY_RESPONSE_BYTES :: nat where "MAX_GATEWAY_RESPONSE_BYTES = 64 * 1024"

definition parseTimeout :: "(string \<Rightarrow> jsnum) \<Rightarrow> string option \<Rightarrow> int" where
  "parseTimeout numberOf v =
     (case v of
        None \<Rightarrow> DEFAULT_GATEWAY_TIMEOUT_MS
      | Some s \<Rightarrow> (case numberOf s of Fin q \<Rightarrow> max 250 (min 30000 (floor q)) | _ \<Rightarrow> DEFAULT_GATEWAY_TIMEOUT_MS))"

text \<open>The gateway's \<open>Retry-After\<close> is read as a push service's is.\<close>

definition parseRetryAfter :: "js_env \<Rightarrow> string option \<Rightarrow> ms \<Rightarrow> secs" where
  "parseRetryAfter js v now = parsePushRetryAfter (js_number js) (js_dateOf js) v now"

fun readChunks :: "nat \<Rightarrow> bytes \<Rightarrow> bytes list \<Rightarrow> bytes option" where
  "readChunks limit sofar [] = Some sofar"
| "readChunks limit sofar (c # cs) =
     (if limit < length sofar + length c then None else readChunks limit (sofar @ c) cs)"

definition readResponseText :: "bytes list option \<Rightarrow> nat \<Rightarrow> string + bytes" where
  "readResponseText chunks limit =
     (case chunks of
        None \<Rightarrow> Inr []
      | Some cs \<Rightarrow> (case readChunks limit [] cs of None \<Rightarrow> Inl ''gateway response is too large'' | Some bs \<Rightarrow> Inr bs))"

definition stringArray :: "jsval \<Rightarrow> string list option" where
  "stringArray v =
     (case v of
        JUndefined \<Rightarrow> Some []
      | JArr xs \<Rightarrow> if list_all isStr xs then Some (map strOf xs) else None
      | _ \<Rightarrow> None)"

record gateway_event =
  ge_id :: string
  ge_type :: string
  ge_sender :: string
  ge_scopeId :: "string option"
  ge_unread :: nat

text \<open>A member \<open>undefined\<close> is left out of the text of an object.\<close>

definition gatewayDevice :: "ms \<Rightarrow> pusher \<Rightarrow> jsval" where
  "gatewayDevice now row =
     JObj [(''app_id'', JStr (pu_appId row)), (''pushkey'', JStr (pu_pushkey row)), (''pushkey_ts'', jint (now div 1000)),
           (''data'', JObj (normalizedStoredData (pu_data row)))]"

definition gatewayPayload :: "ms \<Rightarrow> gateway_event \<Rightarrow> string \<Rightarrow> pusher list \<Rightarrow> jsval" where
  "gatewayPayload now event format pushers =
     JObj [(''notification'', JObj
       ([(''event_id'', JStr (ge_id event))] @
        (case ge_scopeId event of None \<Rightarrow> [] | Some s \<Rightarrow> [(''room_id'', JStr s)]) @
        [(''counts'', JObj [(''unread'', jint (int (ge_unread event)))])] @
        (if format = ''event_id_only'' then []
         else [(''type'', JStr (ge_type event)), (''sender'', JStr (ge_sender event)), (''user_is_target'', JBool True),
               (''prio'', JStr ''high'')]) @
        [(''devices'', JArr (map (gatewayDevice now) pushers))]))]"

text \<open>The operator's token goes to the operator's own gateway only, and only over HTTPS.\<close>

definition gatewayRequest :: "js_env \<Rightarrow> push_env \<Rightarrow> string \<Rightarrow> jsval \<Rightarrow> string + gateway_request" where
  "gatewayRequest js env gatewayUrl payload =
     (let canonical = normalizeGatewayUrl js (case pe_gatewayUrl env of None \<Rightarrow> JUndefined | Some s \<Rightarrow> JStr s)
      in case (if canonical = normalizeGatewayUrl js (JStr gatewayUrl) then truthy (pe_gatewayToken env) else None) of
           None \<Rightarrow> Inr \<lparr>gq_url = gatewayUrl, gq_authorization = None, gq_payload = payload\<rparr>
         | Some token \<Rightarrow>
             (case js_parse js gatewayUrl of
                None \<Rightarrow> Inl ''Invalid URL''
              | Some u \<Rightarrow>
                  Inr \<lparr>gq_url = gatewayUrl,
                       gq_authorization = (if u_protocol u = ''https:'' then Some (''Bearer '' @ token) else None),
                       gq_payload = payload\<rparr>))"

definition keepRow :: "push_run \<Rightarrow> pusher \<Rightarrow> (push_world, bool) act" where
  "keepRow run row =
     (if field (JObj (parseStoredData (pu_data row))) ''session'' = JUndefined then ret True
      else andThen (sessionLive run row) (\<lambda>live. if live then ret True else andThen (removeRow run row) (\<lambda>_. ret False)))"

fun livePushers :: "push_run \<Rightarrow> pusher list \<Rightarrow> (push_world, pusher list) act" where
  "livePushers run [] = ret []"
| "livePushers run (row # rows) =
     andThen (keepRow run row)
       (\<lambda>keep. andThen (livePushers run rows) (\<lambda>rest. ret (if keep then row # rest else rest)))"

definition retryAll :: "pusher list \<Rightarrow> secs \<Rightarrow> string \<Rightarrow> gateway_result" where
  "retryAll pushers delay e = \<lparr>gr_retryIds = map pu_id pushers, gr_retryAfterSeconds = delay, gr_error = Some e\<rparr>"

text \<open>\<open>new Map(pushers.map((row) => [row.pushkey, row]))\<close>: of equal keys the last one stays.\<close>

definition byPushkey :: "pusher list \<Rightarrow> string \<Rightarrow> pusher option" where
  "byPushkey pushers k = find (\<lambda>r. pu_pushkey r = k) (rev pushers)"

fun removeRejected :: "push_run \<Rightarrow> pusher list \<Rightarrow> string list \<Rightarrow> (push_world, unit) act" where
  "removeRejected run pushers [] = ret ()"
| "removeRejected run pushers (k # ks) =
     (case byPushkey pushers k of
        None \<Rightarrow> removeRejected run pushers ks
      | Some row \<Rightarrow> andThen (removeRow run row) (\<lambda>_. removeRejected run pushers ks))"

definition gatewayAnswer :: "push_run \<Rightarrow> pusher list \<Rightarrow> gateway_response \<Rightarrow> (push_world, gateway_result) act" where
  "gatewayAnswer run pushers response w =
     (let status = gs_status response;
          delayAt = (\<lambda>w. parseRetryAfter (rn_js run) (gs_retryAfter response) (nowOf run w))
      in (if status = 429 \<or> 500 \<le> status then ret (retryAll pushers (delayAt w) (httpError ''gateway'' status))
          else if \<not> (200 \<le> status \<and> status < 300) then ret (doneResult (Some (httpError ''gateway'' status)))
          else
            (case (case readResponseText (gs_chunks response) MAX_GATEWAY_RESPONSE_BYTES of
                     Inl e \<Rightarrow> Inl e
                   | Inr bs \<Rightarrow> rn_readJson run bs) of
               Inl e \<Rightarrow> ret (retryAll pushers 0 e)
             | Inr parsed \<Rightarrow>
                 if \<not> isObjectLike parsed then ret (retryAll pushers 0 ''invalid gateway response'')
                 else
                   (case (stringArray (field parsed ''rejected''), stringArray (field parsed ''retryable''), stringArray (field parsed ''failed'')) of
                      (Some rejected, Some retryable, Some failed) \<Rightarrow>
                        andThen (removeRejected run pushers rejected) (\<lambda>_ w'. ret
                          \<lparr>gr_retryIds = map pu_id (filter (\<lambda>r. pu_pushkey r \<in> set retryable \<and> pu_pushkey r \<notin> set (rejected @ failed)) pushers),
                           gr_retryAfterSeconds = delayAt w',
                           gr_error = (if failed \<noteq> [] then Some ''gateway reported permanent failures'' else None)\<rparr> w')
                    | _ \<Rightarrow> ret (retryAll pushers 0 ''invalid gateway result arrays'')))) w)"

definition postToGateway :: "push_run \<Rightarrow> pusher list \<Rightarrow> gateway_request \<Rightarrow> (push_world, string + gateway_response) act" where
  "postToGateway run pushers request w =
     (Inr (rn_fetch run (pw_step w) request),
      w\<lparr>pw_step := Suc (pw_step w), pw_log := pw_log w @ [PushedGateway pushers request (rn_fetch run (pw_step w) request)]\<rparr>)"

definition deliverGatewayGroup ::
  "push_run \<Rightarrow> string \<Rightarrow> pusher list \<Rightarrow> string \<Rightarrow> gateway_event \<Rightarrow> (push_world, gateway_result) act" where
  "deliverGatewayGroup run gatewayUrl devices format event =
     (if \<not> isNotificationGatewayAllowed (rn_js run) (rn_env run) gatewayUrl
      then ret (doneResult (Some ''gateway is no longer operator-allowed''))
      else
        andThen (livePushers run devices) (\<lambda>pushers.
          if pushers = [] then ret (doneResult None)
          else (\<lambda>w.
            (case gatewayRequest (rn_js run) (rn_env run) gatewayUrl (gatewayPayload (nowOf run w) event format pushers) of
               Inl e \<Rightarrow> ret (retryAll pushers 0 e)
             | Inr request \<Rightarrow>
                 andThen (postToGateway run pushers request)
                   (\<lambda>answer. case answer of Inl e \<Rightarrow> ret (retryAll pushers 0 e) | Inr response \<Rightarrow> gatewayAnswer run pushers response)) w)))"

record dispatch_group =
  dg_gatewayUrl :: string
  dg_format :: string
  dg_pushers :: "pusher list"

text \<open>The groups in the order their first device appears.\<close>

definition addToGroup :: "pusher \<Rightarrow> dispatch_group list \<Rightarrow> dispatch_group list" where
  "addToGroup row groups =
     (let format = notificationPushFormat (parseStoredData (pu_data row));
          same = (\<lambda>g. dg_gatewayUrl g = pu_gatewayUrl row \<and> dg_format g = format)
      in if list_ex same groups then map (\<lambda>g. if same g then g\<lparr>dg_pushers := dg_pushers g @ [row]\<rparr> else g) groups
         else groups @ [\<lparr>dg_gatewayUrl = pu_gatewayUrl row, dg_format = format, dg_pushers = [row]\<rparr>])"

definition groupByGatewayAndFormat :: "pusher list \<Rightarrow> dispatch_group list" where
  "groupByGatewayAndFormat pushers = foldl (\<lambda>groups row. addToGroup row groups) [] pushers"

subsection \<open>What a run keeps\<close>

lemma andThen_cases:
  assumes "andThen m f w = (r, w')"
  obtains (threw) e where "m w = (Inl e, w')" "r = Inl e"
    | (went) a w1 where "m w = (Inr a, w1)" "f a w1 = (r, w')"
  using assms by (auto simp: andThen_def split: prod.splits sum.splits)

lemma catching_cases:
  assumes "catching m h w = (r, w')"
  obtains (threw) e w1 where "m w = (Inl e, w1)" "h e w1 = (r, w')"
    | (went) a where "m w = (Inr a, w')" "r = Inr a"
  using assms by (auto simp: catching_def split: prod.splits sum.splits)

text \<open>The fields a statement on the tables does not touch.\<close>

definition sameLocals :: "push_world \<Rightarrow> push_world \<Rightarrow> bool" where
  "sameLocals w w' = (pw_settled w' = pw_settled w \<and> pw_dispatch w' = pw_dispatch w \<and> pw_log w' = pw_log w)"

lemma sameLocals_refl [simp]: "sameLocals w w"
  by (simp add: sameLocals_def)

lemma sameLocals_trans: "sameLocals w w1 \<Longrightarrow> sameLocals w1 w2 \<Longrightarrow> sameLocals w w2"
  by (simp add: sameLocals_def)

lemma interfere_locals: "sameLocals w (interfere run w)"
  by (simp add: interfere_def sameLocals_def split: prod.splits)

lemma jobStatement_locals: "jobStatement run f w = (r, w') \<Longrightarrow> sameLocals w w'"
  using interfere_locals [of w run]
  by (auto simp: jobStatement_def statement_def sameLocals_def Let_def split: option.splits prod.splits)

lemma query_locals: "query run f w = (r, w') \<Longrightarrow> sameLocals w w'"
  using interfere_locals [of w run]
  by (auto simp: query_def statement_def sameLocals_def Let_def split: option.splits prod.splits)

lemma removeRow_locals: "removeRow run row w = (r, w') \<Longrightarrow> sameLocals w w'"
  using interfere_locals [of w run]
  by (auto simp: removeRow_def statement_def sameLocals_def Let_def split: option.splits prod.splits)

lemma sessionLive_locals: "sessionLive run row w = (r, w') \<Longrightarrow> sameLocals w w'"
  by (auto simp: sessionLive_def ret_def dest: query_locals split: if_splits)

lemma outcomeResult_locals: "outcomeResult run row outcome w = (r, w') \<Longrightarrow> sameLocals w w'"
  by (auto simp: outcomeResult_def ret_def dest: removeRow_locals elim!: andThen_cases split: web_push_outcome.splits)

text \<open>What the answers in a log say: who has the message, and who must be tried again.\<close>

fun acceptedIds :: "push_run \<Rightarrow> pushed \<Rightarrow> string list" where
  "acceptedIds run (PushedWeb row q (PushTransportError e)) = []"
| "acceptedIds run (PushedWeb row q (PushStatus opaque s ra)) = (if \<not> opaque \<and> 200 \<le> s \<and> s < 300 then [pu_id row] else [])"
| "acceptedIds run (PushedGateway rows q (Inl e)) = []"
| "acceptedIds run (PushedGateway rows q (Inr response)) =
     (if \<not> (200 \<le> gs_status response \<and> gs_status response < 300) then []
      else
        (case Option.bind (case readResponseText (gs_chunks response) MAX_GATEWAY_RESPONSE_BYTES of Inl e \<Rightarrow> None | Inr bs \<Rightarrow> Some bs)
                (\<lambda>bs. case rn_readJson run bs of Inl e \<Rightarrow> None | Inr v \<Rightarrow> if isObjectLike v then Some v else None) of
           None \<Rightarrow> []
         | Some v \<Rightarrow>
             (case (stringArray (field v ''rejected''), stringArray (field v ''retryable''), stringArray (field v ''failed'')) of
                (Some [], Some retryable, Some failed) \<Rightarrow>
                  map pu_id (filter (\<lambda>r. pu_pushkey r \<notin> set retryable \<or> pu_pushkey r \<in> set failed) rows)
              | _ \<Rightarrow> [])))"

fun retryWantedIds :: "pushed \<Rightarrow> string list" where
  "retryWantedIds (PushedWeb row q (PushTransportError e)) = [pu_id row]"
| "retryWantedIds (PushedWeb row q (PushStatus opaque s ra)) =
     (if \<not> opaque \<and> (s = 408 \<or> s = 429 \<or> (500 \<le> s \<and> s < 600)) then [pu_id row] else [])"
| "retryWantedIds (PushedGateway rows q (Inl e)) = map pu_id rows"
| "retryWantedIds (PushedGateway rows q (Inr response)) =
     (if gs_status response = 429 \<or> 500 \<le> gs_status response then map pu_id rows else [])"

definition accepted :: "push_run \<Rightarrow> push_world \<Rightarrow> string set" where
  "accepted run w = (\<Union>p \<in> set (pw_log w). set (acceptedIds run p))"

definition retryWanted :: "push_world \<Rightarrow> string set" where
  "retryWanted w = (\<Union>p \<in> set (pw_log w). set (retryWantedIds p))"

text \<open>One delivery: it may post once, and its result agrees with the answer.\<close>

definition deliveryAgrees :: "push_run \<Rightarrow> string set \<Rightarrow> push_world \<Rightarrow> string + gateway_result \<Rightarrow> push_world \<Rightarrow> bool" where
  "deliveryAgrees run ids w r w' =
     (pw_settled w' = pw_settled w \<and> pw_dispatch w' = pw_dispatch w \<and>
      (\<exists>posted. pw_log w' = pw_log w @ posted \<and>
         (\<forall>p \<in> set posted. set (acceptedIds run p) \<subseteq> ids \<and> set (retryWantedIds p) \<subseteq> ids) \<and>
         (case r of
            Inl e \<Rightarrow> \<forall>p \<in> set posted. acceptedIds run p = []
          | Inr g \<Rightarrow> set (gr_retryIds g) \<subseteq> ids \<and> 0 \<le> gr_retryAfterSeconds g \<and> gr_retryAfterSeconds g \<le> 12 * 60 * 60 \<and>
              (\<forall>p \<in> set posted. set (acceptedIds run p) \<inter> set (gr_retryIds g) = {} \<and> set (retryWantedIds p) \<subseteq> set (gr_retryIds g)))))"

lemma agrees_silent:
  assumes "sameLocals w w'" "case r of Inl e \<Rightarrow> True | Inr g \<Rightarrow> set (gr_retryIds g) \<subseteq> ids \<and> 0 \<le> gr_retryAfterSeconds g \<and> gr_retryAfterSeconds g \<le> 12 * 60 * 60"
  shows "deliveryAgrees run ids w r w'"
  using assms by (auto simp: deliveryAgrees_def sameLocals_def split: sum.splits)

lemma agrees_after:
  assumes "sameLocals w w1" "deliveryAgrees run ids w1 r w'"
  shows "deliveryAgrees run ids w r w'"
  using assms by (auto simp: deliveryAgrees_def sameLocals_def)

lemma doneResult_simps [simp]:
  "gr_retryIds (doneResult e) = []" "gr_retryAfterSeconds (doneResult e) = 0" "gr_error (doneResult e) = e"
  by (simp_all add: doneResult_def)

lemma agrees_posted:
  assumes "pw_settled w' = pw_settled w" "pw_dispatch w' = pw_dispatch w" "pw_log w' = pw_log w @ [p]"
    and "set (acceptedIds run p) \<subseteq> ids" "set (retryWantedIds p) \<subseteq> ids"
    and "case r of
            Inl e \<Rightarrow> acceptedIds run p = []
          | Inr g \<Rightarrow> set (gr_retryIds g) \<subseteq> ids \<and> 0 \<le> gr_retryAfterSeconds g \<and> gr_retryAfterSeconds g \<le> 12 * 60 * 60 \<and>
              set (acceptedIds run p) \<inter> set (gr_retryIds g) = {} \<and> set (retryWantedIds p) \<subseteq> set (gr_retryIds g)"
  shows "deliveryAgrees run ids w r w'"
  unfolding deliveryAgrees_def using assms by (intro conjI exI [of _ "[p]"]) (auto split: sum.splits)

lemma sendWebPush_request:
  assumes "sendWebPush env keys subject salt sender now post target message cache = (outcome, request, cache')"
  shows "case request of
      None \<Rightarrow> \<exists>e. outcome = WpFailed None e
    | Some r \<Rightarrow> outcome = (case post r of
          (PushTransportError e, later) \<Rightarrow> WpRetry None 0 e
        | (PushStatus opaque status retryAfter, later) \<Rightarrow>
            classifyWebPushResponse (se_number env) (se_dateOf env) (if opaque then 0 else status) retryAfter later)"
  using assms by (auto simp: sendWebPush_def split: prod.splits sum.splits)

lemma outcome_agrees:
  assumes "sendOne run keys origin row target message w = (Inr outcome, w1)" "outcomeResult run row outcome w1 = (r, w')"
  shows "deliveryAgrees run {pu_id row} w r w'"
proof -
  obtain request jwts where send: "sendWebPush (rn_send run) keys origin (rn_salt run (pw_step w)) (rn_sender run (pw_step w)) (nowOf run w)
      (\<lambda>r. (rn_push run (pw_step w) r, rn_clock run (Suc (pw_step w)))) target message (pw_jwts w) = (outcome, request, jwts)"
    and w1: "w1 = w\<lparr>pw_jwts := jwts, pw_step := Suc (pw_step w),
             pw_log := pw_log w @ (case request of None \<Rightarrow> [] | Some r \<Rightarrow> [PushedWeb row r (rn_push run (pw_step w) r)])\<rparr>"
    using assms(1) by (auto simp: sendOne_def split: prod.splits)
  note out = sendWebPush_request [OF send]
  have keep: "pw_settled w' = pw_settled w" "pw_dispatch w' = pw_dispatch w" "pw_log w' = pw_log w1"
    using outcomeResult_locals [OF assms(2)] by (simp_all add: sameLocals_def w1)
  have delay: "0 \<le> d \<and> d \<le> 12 * 60 * 60" if "outcome = WpRetry s d e" for s d e
    using out that classify_retry_bounds
    by (auto simp: MAX_RETRY_AFTER_SECONDS_def split: option.splits push_response.splits)
  have result: "case r of Inl e \<Rightarrow> \<exists>s. outcome = WpGone s
      | Inr g \<Rightarrow> gr_retryIds g = (case outcome of WpRetry s d e \<Rightarrow> [pu_id row] | _ \<Rightarrow> []) \<and>
          gr_retryAfterSeconds g = (case outcome of WpRetry s d e \<Rightarrow> d | _ \<Rightarrow> 0)"
    using assms(2) by (cases outcome) (auto simp: outcomeResult_def ret_def elim!: andThen_cases)
  show ?thesis
  proof (cases request)
    case None
    then show ?thesis using keep out result by (auto simp: deliveryAgrees_def w1 split: sum.splits)
  next
    case (Some q)
    let ?p = "PushedWeb row q (rn_push run (pw_step w) q)"
    have log: "pw_log w' = pw_log w @ [?p]" using keep(3) by (simp add: w1 Some)
    have acc: "acceptedIds run ?p = (case outcome of WpDelivered s \<Rightarrow> [pu_id row] | _ \<Rightarrow> [])"
      and want: "retryWantedIds ?p = (case outcome of WpRetry s d e \<Rightarrow> [pu_id row] | _ \<Rightarrow> [])"
      using out Some by (cases "rn_push run (pw_step w) q"; auto simp: classifyWebPushResponse_def)+
    show ?thesis
    proof (cases r)
      case (Inl e)
      then obtain s where "outcome = WpGone s" using result by auto
      then show ?thesis using acc want Inl by (intro agrees_posted [OF keep(1,2) log]) simp_all
    next
      case (Inr g)
      then show ?thesis using acc want result delay
        by (intro agrees_posted [OF keep(1,2) log]) (cases outcome; simp)+
    qed
  qed
qed

lemma agrees_ret:
  assumes "ret g w = (r, w')" "set (gr_retryIds g) \<subseteq> ids" "gr_retryAfterSeconds g = 0"
  shows "deliveryAgrees run ids w r w'"
  using assms by (intro agrees_silent) (auto simp: ret_def)

lemma agrees_throw: "throw e w = (r, w') \<Longrightarrow> deliveryAgrees run ids w r w'"
  by (intro agrees_silent) (auto simp: throw_def)

lemma sendOne_returns: "sendOne run keys origin row target message w \<noteq> (Inl e, w')"
  by (simp add: sendOne_def split: prod.splits)

lemma session_agrees:
  assumes "pushToSession run keys origin row content w = (r, w')"
  shows "deliveryAgrees run {pu_id row} w r w'"
proof (cases "subscriptionKeys row")
  case None
  then show ?thesis using assms by (intro agrees_ret) (auto simp: pushToSession_def)
next
  case (Some pair)
  obtain p256dh auth where pair: "pair = (p256dh, auth)" by (cases pair)
  show ?thesis
  proof (cases "checkWebPushEndpointResolved (rn_js run) (rn_resolver run) (pu_gatewayUrl row)")
    case EndpointOk
    show ?thesis
    proof (cases "buildDeclarativeWebPushMessage (se_parse (rn_send run)) (contentMessage content origin row)")
      case (Inl e)
      then show ?thesis using assms Some pair EndpointOk by (intro agrees_throw) (simp add: pushToSession_def)
    next
      case (Inr m)
      obtain title body payload where m: "m = (title, body, payload)" by (cases m)
      from assms have "andThen (sendOne run keys origin row
          \<lparr>pt_endpoint = pu_gatewayUrl row, pt_p256dh = p256dh, pt_auth = auth\<rparr> (contentOptions content payload)) (outcomeResult run row) w = (r, w')"
        by (simp add: pushToSession_def Some pair EndpointOk Inr m)
      then show ?thesis by (cases rule: andThen_cases) (simp add: sendOne_returns, erule (1) outcome_agrees)
    qed
  next
    case (EndpointRetry e)
    then show ?thesis using assms Some pair by (intro agrees_ret) (auto simp: pushToSession_def)
  next
    case (EndpointRefused e)
    then show ?thesis using assms Some pair by (intro agrees_ret) (auto simp: pushToSession_def)
  qed
qed

lemma endpoint_agrees:
  assumes "pushToEndpoint run keys origin row content w = (r, w')"
  shows "deliveryAgrees run {pu_id row} w r w'"
  using assms unfolding pushToEndpoint_def
proof (cases rule: andThen_cases)
  case (threw e)
  then show ?thesis by (intro agrees_silent) (auto dest: sessionLive_locals)
next
  case (went live w1)
  note w1 = sessionLive_locals [OF went(1)]
  show ?thesis
  proof (cases live)
    case True
    then show ?thesis using went(2) by (intro agrees_after [OF w1] session_agrees) simp
  next
    case False
    then have "andThen (removeRow run row) (\<lambda>_. ret (doneResult None)) w1 = (r, w')" using went(2) by simp
    then show ?thesis
      by (cases rule: andThen_cases) (auto intro!: agrees_silent agrees_after [OF w1] simp: ret_def dest: removeRow_locals)
  qed
qed

lemma webPush_agrees:
  assumes "deliverWebPushPusher run row content w = (r, w')"
  shows "deliveryAgrees run {pu_id row} w r w'"
proof (cases "wp_appOrigin content")
  case None
  then show ?thesis using assms by (intro agrees_ret) (auto simp: deliverWebPushPusher_def)
next
  case (Some origin)
  show ?thesis
  proof (cases "getInstanceVapidKeyPair (rn_hkdf run) (pe_encryptionKey (rn_env run))")
    case (Inl e)
    then show ?thesis using assms Some by (intro agrees_throw) (simp add: deliverWebPushPusher_def)
  next
    case (Inr pair)
    then consider (none) e where "ret (doneResult (Some e)) w = (r, w')" | (some) keys where "pushToEndpoint run keys origin row content w = (r, w')"
      using assms Some by (cases pair) (auto simp: deliverWebPushPusher_def split: if_splits)
    then show ?thesis by cases (auto intro: agrees_ret endpoint_agrees)
  qed
qed

lemma keepRow_locals:
  assumes "keepRow run row w = (r, w')" shows "sameLocals w w'"
proof (cases "field (JObj (parseStoredData (pu_data row))) ''session'' = JUndefined")
  case True
  then show ?thesis using assms by (simp add: keepRow_def ret_def)
next
  case False
  then have "andThen (sessionLive run row) (\<lambda>live. if live then ret True else andThen (removeRow run row) (\<lambda>_. ret False)) w = (r, w')"
    using assms by (simp only: keepRow_def if_False)
  then show ?thesis
  proof (cases rule: andThen_cases)
    case (threw e)
    then show ?thesis by (blast dest: sessionLive_locals)
  next
    case (went live w1)
    have "sameLocals w1 w'" using went(2)
      by (cases live) (auto simp: ret_def dest: removeRow_locals elim!: andThen_cases)
    then show ?thesis using sameLocals_trans [OF sessionLive_locals [OF went(1)]] by blast
  qed
qed

lemma livePushers_result:
  "livePushers run rows w = (r, w') \<Longrightarrow>
     sameLocals w w' \<and> (case r of Inl e \<Rightarrow> True | Inr live \<Rightarrow> (\<forall>x \<in> set live. x \<in> set rows) \<and> (distinct (map pu_id rows) \<longrightarrow> distinct (map pu_id live)))"
proof (induction rows arbitrary: w r w')
  case Nil
  then show ?case by (auto simp: ret_def)
next
  case (Cons row rows)
  from Cons.prems have "andThen (keepRow run row) (\<lambda>keep. andThen (livePushers run rows) (\<lambda>rest. ret (if keep then row # rest else rest))) w = (r, w')"
    by simp
  then show ?case
  proof (cases rule: andThen_cases)
    case (threw e)
    then show ?thesis using keepRow_locals by auto
  next
    case (went keep w1)
    from went(2) show ?thesis
    proof (cases rule: andThen_cases)
      case (threw e)
      then show ?thesis using Cons.IH [OF threw(1)] sameLocals_trans [OF keepRow_locals [OF went(1)]] by auto
    next
      case (went rest w2)
      then show ?thesis
        using Cons.IH [OF went(1)] sameLocals_trans [OF keepRow_locals [OF \<open>keepRow run row w = (Inr keep, w1)\<close>]] by (auto simp: ret_def)
    qed
  qed
qed

lemma removeRejected_locals: "removeRejected run pushers ks w = (r, w') \<Longrightarrow> sameLocals w w'"
proof (induction ks arbitrary: w)
  case Nil
  then show ?case by (auto simp: ret_def)
next
  case (Cons k ks)
  show ?case
  proof (cases "byPushkey pushers k")
    case None
    then show ?thesis using Cons by simp
  next
    case (Some row)
    then have "andThen (removeRow run row) (\<lambda>_. removeRejected run pushers ks) w = (r, w')" using Cons.prems by simp
    then show ?thesis
      by (cases rule: andThen_cases) (auto dest!: removeRow_locals Cons.IH intro: sameLocals_trans)
  qed
qed

lemma parseRetryAfter_bounds: "0 \<le> parseRetryAfter js v now \<and> parseRetryAfter js v now \<le> 12 * 60 * 60"
  by (auto simp: parseRetryAfter_def parsePushRetryAfter_def MAX_RETRY_AFTER_SECONDS_def Let_def split: option.splits jsnum.splits)

lemma ids_apart:
  assumes "distinct (map f xs)" "\<And>x. x \<in> set xs \<Longrightarrow> \<not> (P x \<and> Q x)"
  shows "set (map f (filter P xs)) \<inter> set (map f (filter Q xs)) = {}"
  using assms by (auto simp: distinct_map inj_on_def)

lemma gatewayAnswer_result:
  assumes "gatewayAnswer run pushers response w = (r, w')" "distinct (map pu_id pushers)"
  shows "sameLocals w w' \<and>
    (let p = PushedGateway pushers q (Inr response) in
     case r of
       Inl e \<Rightarrow> acceptedIds run p = []
     | Inr g \<Rightarrow> set (gr_retryIds g) \<subseteq> set (map pu_id pushers) \<and> 0 \<le> gr_retryAfterSeconds g \<and> gr_retryAfterSeconds g \<le> 12 * 60 * 60 \<and>
         set (acceptedIds run p) \<inter> set (gr_retryIds g) = {} \<and> set (retryWantedIds p) \<subseteq> set (gr_retryIds g))"
proof -
  let ?s = "gs_status response"
  have all: ?thesis if "ret (retryAll pushers d e) w = (r, w')" "0 \<le> d" "d \<le> 12 * 60 * 60" "acceptedIds run (PushedGateway pushers q (Inr response)) = []" for d e
  proof -
    have "set (retryWantedIds (PushedGateway pushers q (Inr response))) \<subseteq> set (map pu_id pushers)" by auto
    then show ?thesis using that by (auto simp: Let_def ret_def retryAll_def simp del: acceptedIds.simps retryWantedIds.simps)
  qed
  consider (busy) "?s = 429 \<or> 500 \<le> ?s" | (bad) "\<not> (?s = 429 \<or> 500 \<le> ?s)" "\<not> (200 \<le> ?s \<and> ?s < 300)"
    | (ok) "200 \<le> ?s" "?s < 300" by linarith
  then show ?thesis
  proof cases
    case busy
    have "acceptedIds run (PushedGateway pushers q (Inr response)) = []" using busy by auto
    then show ?thesis using assms(1) busy parseRetryAfter_bounds by (intro all) (auto simp: gatewayAnswer_def Let_def)
  next
    case bad
    then have "ret (doneResult (Some (httpError ''gateway'' ?s))) w = (r, w')" using assms(1) by (simp add: gatewayAnswer_def Let_def)
    then show ?thesis using bad by (auto simp: ret_def)
  next
    case ok
    then have run: "(case (case readResponseText (gs_chunks response) MAX_GATEWAY_RESPONSE_BYTES of Inl e \<Rightarrow> Inl e | Inr bs \<Rightarrow> rn_readJson run bs) of
               Inl e \<Rightarrow> ret (retryAll pushers 0 e)
             | Inr parsed \<Rightarrow>
                 if \<not> isObjectLike parsed then ret (retryAll pushers 0 ''invalid gateway response'')
                 else
                   (case (stringArray (field parsed ''rejected''), stringArray (field parsed ''retryable''), stringArray (field parsed ''failed'')) of
                      (Some rejected, Some retryable, Some failed) \<Rightarrow>
                        andThen (removeRejected run pushers rejected) (\<lambda>_ w'. ret
                          \<lparr>gr_retryIds = map pu_id (filter (\<lambda>r. pu_pushkey r \<in> set retryable \<and> pu_pushkey r \<notin> set (rejected @ failed)) pushers),
                           gr_retryAfterSeconds = parseRetryAfter (rn_js run) (gs_retryAfter response) (nowOf run w'),
                           gr_error = (if failed \<noteq> [] then Some ''gateway reported permanent failures'' else None)\<rparr> w')
                    | _ \<Rightarrow> ret (retryAll pushers 0 ''invalid gateway result arrays''))) w = (r, w')"
      using assms(1) by (simp add: gatewayAnswer_def Let_def)
    have want: "retryWantedIds (PushedGateway pushers q (Inr response)) = []" using ok by simp
    show ?thesis
    proof (cases "\<exists>bs v rejected retryable failed. readResponseText (gs_chunks response) MAX_GATEWAY_RESPONSE_BYTES = Inr bs \<and>
        rn_readJson run bs = Inr v \<and> isObjectLike v \<and> stringArray (field v ''rejected'') = Some rejected \<and>
        stringArray (field v ''retryable'') = Some retryable \<and> stringArray (field v ''failed'') = Some failed")
      case False
      then have "acceptedIds run (PushedGateway pushers q (Inr response)) = []"
        by (auto split: sum.splits option.splits list.splits)
      moreover have "\<exists>e. ret (retryAll pushers 0 e) w = (r, w')"
        using run False by (auto split: sum.splits option.splits if_splits)
      ultimately show ?thesis using all by auto
    next
      case True
      then obtain bs v rejected retryable failed where v: "readResponseText (gs_chunks response) MAX_GATEWAY_RESPONSE_BYTES = Inr bs"
        "rn_readJson run bs = Inr v" "isObjectLike v" "stringArray (field v ''rejected'') = Some rejected"
        "stringArray (field v ''retryable'') = Some retryable" "stringArray (field v ''failed'') = Some failed" by blast
      have acc: "acceptedIds run (PushedGateway pushers q (Inr response)) =
          (if rejected = [] then map pu_id (filter (\<lambda>r. pu_pushkey r \<notin> set retryable \<or> pu_pushkey r \<in> set failed) pushers) else [])"
        using ok by (simp add: v split: list.splits)
      from run v have "andThen (removeRejected run pushers rejected) (\<lambda>_ w'. ret
          \<lparr>gr_retryIds = map pu_id (filter (\<lambda>r. pu_pushkey r \<in> set retryable \<and> pu_pushkey r \<notin> set (rejected @ failed)) pushers),
           gr_retryAfterSeconds = parseRetryAfter (rn_js run) (gs_retryAfter response) (nowOf run w'),
           gr_error = (if failed \<noteq> [] then Some ''gateway reported permanent failures'' else None)\<rparr> w') w = (r, w')" by simp
      then show ?thesis
      proof (cases rule: andThen_cases)
        case (threw e)
        then have "rejected \<noteq> []" by (auto simp: ret_def)
        then show ?thesis using threw removeRejected_locals [OF threw(1)] acc by (simp del: acceptedIds.simps)
      next
        case (went a w1)
        let ?retry = "map pu_id (filter (\<lambda>r. pu_pushkey r \<in> set retryable \<and> pu_pushkey r \<notin> set (rejected @ failed)) pushers)"
        have apart: "set (acceptedIds run (PushedGateway pushers q (Inr response))) \<inter> set ?retry = {}"
        proof (cases "rejected = []")
          case True
          then show ?thesis unfolding acc if_P [OF True] by (intro ids_apart [OF assms(2)]) auto
        next
          case False
          then show ?thesis unfolding acc by simp
        qed
        have r: "r = Inr \<lparr>gr_retryIds = ?retry, gr_retryAfterSeconds = parseRetryAfter (rn_js run) (gs_retryAfter response) (nowOf run w1),
            gr_error = (if failed \<noteq> [] then Some ''gateway reported permanent failures'' else None)\<rparr>" and w1: "w1 = w'"
          using went(2) by (auto simp: ret_def)
        have "set ?retry \<subseteq> set (map pu_id pushers)" by auto
        then show ?thesis using removeRejected_locals [OF went(1)] parseRetryAfter_bounds apart
          unfolding r w1 Let_def want by simp
      qed
    qed
  qed
qed

lemma group_agrees:
  assumes "deliverGatewayGroup run gatewayUrl devices format event w = (r, w')" "distinct (map pu_id devices)"
  shows "deliveryAgrees run (set (map pu_id devices)) w r w'"
proof (cases "isNotificationGatewayAllowed (rn_js run) (rn_env run) gatewayUrl")
  case False
  then show ?thesis using assms(1) by (intro agrees_ret) (auto simp: deliverGatewayGroup_def)
next
  case True
  then have "andThen (livePushers run devices) (\<lambda>pushers.
          if pushers = [] then ret (doneResult None)
          else (\<lambda>w.
            (case gatewayRequest (rn_js run) (rn_env run) gatewayUrl (gatewayPayload (nowOf run w) event format pushers) of
               Inl e \<Rightarrow> ret (retryAll pushers 0 e)
             | Inr request \<Rightarrow>
                 andThen (postToGateway run pushers request)
                   (\<lambda>answer. case answer of Inl e \<Rightarrow> ret (retryAll pushers 0 e) | Inr response \<Rightarrow> gatewayAnswer run pushers response)) w)) w = (r, w')"
    using assms(1) by (simp add: deliverGatewayGroup_def)
  then show ?thesis
  proof (cases rule: andThen_cases)
    case (threw e)
    then show ?thesis using livePushers_result [OF threw(1)] by (intro agrees_silent) auto
  next
    case (went pushers w1)
    have live: "sameLocals w w1" "\<forall>x \<in> set pushers. x \<in> set devices" "distinct (map pu_id pushers)"
      using livePushers_result [OF went(1)] assms(2) by auto
    show ?thesis
    proof (cases "pushers = [] \<or> (\<exists>e. gatewayRequest (rn_js run) (rn_env run) gatewayUrl (gatewayPayload (nowOf run w1) event format pushers) = Inl e)")
      case True
      then have "\<exists>g. ret g w1 = (r, w') \<and> g \<in> {doneResult None} \<union> range (retryAll pushers 0)"
        using went(2) by (auto split: if_splits)
      moreover have "set (gr_retryIds g) \<subseteq> set (map pu_id devices) \<and> gr_retryAfterSeconds g = 0"
        if "g \<in> {doneResult None} \<union> range (retryAll pushers 0)" for g
        using that live(2) by (auto simp: retryAll_def)
      ultimately show ?thesis by (blast intro: agrees_after [OF live(1)] agrees_ret)
    next
      case False
      then obtain request where request: "gatewayRequest (rn_js run) (rn_env run) gatewayUrl (gatewayPayload (nowOf run w1) event format pushers) = Inr request"
        by (cases "gatewayRequest (rn_js run) (rn_env run) gatewayUrl (gatewayPayload (nowOf run w1) event format pushers)") auto
      let ?answer = "rn_fetch run (pw_step w1) request"
      let ?p = "PushedGateway pushers request ?answer"
      let ?w2 = "w1\<lparr>pw_step := Suc (pw_step w1), pw_log := pw_log w1 @ [?p]\<rparr>"
      have ids: "set (acceptedIds run ?p) \<subseteq> set (map pu_id devices)" "set (retryWantedIds ?p) \<subseteq> set (map pu_id devices)"
        using live(2) by (cases ?answer; auto split: option.splits list.splits)+
      have after: "(case ?answer of Inl e \<Rightarrow> ret (retryAll pushers 0 e) | Inr response \<Rightarrow> gatewayAnswer run pushers response) ?w2 = (r, w')"
        using went(2) False request by (simp add: andThen_def postToGateway_def)
      have "sameLocals ?w2 w' \<and> (case r of
            Inl e \<Rightarrow> acceptedIds run ?p = []
          | Inr g \<Rightarrow> set (gr_retryIds g) \<subseteq> set (map pu_id devices) \<and> 0 \<le> gr_retryAfterSeconds g \<and> gr_retryAfterSeconds g \<le> 12 * 60 * 60 \<and>
              set (acceptedIds run ?p) \<inter> set (gr_retryIds g) = {} \<and> set (retryWantedIds ?p) \<subseteq> set (gr_retryIds g))"
      proof (cases ?answer)
        case (Inl e)
        then show ?thesis using after live(2) by (auto simp: ret_def retryAll_def)
      next
        case (Inr response)
        then have "gatewayAnswer run pushers response ?w2 = (r, w')" using after by simp
        from gatewayAnswer_result [OF this live(3), of request] show ?thesis
          unfolding Inr [symmetric] using live(2) by (auto simp: Let_def Inr simp del: acceptedIds.simps retryWantedIds.simps split: sum.splits)
      qed
      then show ?thesis using ids
        by (intro agrees_after [OF live(1)] agrees_posted [where p = ?p]) (auto simp: sameLocals_def)
    qed
  qed
qed


subsection \<open>From a notification to the browser\<close>

text \<open>The one request of a delivery to a subscription, and what was decided before it.\<close>

lemma session_sends:
  assumes "pushToSession run keys origin row content w = (r, w')"
  shows "pw_log w' = pw_log w \<or>
    (\<exists>p256dh auth title body payload request.
       subscriptionKeys row = Some (p256dh, auth) \<and>
       checkWebPushEndpointResolved (rn_js run) (rn_resolver run) (pu_gatewayUrl row) = EndpointOk \<and>
       buildDeclarativeWebPushMessage (se_parse (rn_send run)) (contentMessage content origin row) = Inr (title, body, payload) \<and>
       pw_log w' = pw_log w @ [PushedWeb row request (rn_push run (pw_step w) request)] \<and>
       pr_endpoint request = pu_gatewayUrl row \<and>
       encryptWebPushPayload (se_crypto (rn_send run)) (rn_salt run (pw_step w)) (rn_sender run (pw_step w)) payload p256dh auth =
         Inr (pr_body request))"
proof (cases "\<exists>p256dh auth title body payload. subscriptionKeys row = Some (p256dh, auth) \<and>
       checkWebPushEndpointResolved (rn_js run) (rn_resolver run) (pu_gatewayUrl row) = EndpointOk \<and>
       buildDeclarativeWebPushMessage (se_parse (rn_send run)) (contentMessage content origin row) = Inr (title, body, payload)")
  case False
  then show ?thesis using assms
    by (auto simp: pushToSession_def ret_def throw_def split: option.splits prod.splits endpoint_resolution.splits sum.splits)
next
  case True
  then obtain p256dh auth title body payload where known: "subscriptionKeys row = Some (p256dh, auth)"
    "checkWebPushEndpointResolved (rn_js run) (rn_resolver run) (pu_gatewayUrl row) = EndpointOk"
    "buildDeclarativeWebPushMessage (se_parse (rn_send run)) (contentMessage content origin row) = Inr (title, body, payload)" by blast
  let ?target = "\<lparr>pt_endpoint = pu_gatewayUrl row, pt_p256dh = p256dh, pt_auth = auth\<rparr>"
  from assms have "andThen (sendOne run keys origin row ?target (contentOptions content payload)) (outcomeResult run row) w = (r, w')"
    by (simp add: pushToSession_def known)
  then show ?thesis
  proof (cases rule: andThen_cases)
    case (threw e)
    then show ?thesis by (simp add: sendOne_returns)
  next
    case (went outcome w1)
    have last: "pw_log w' = pw_log w1" using outcomeResult_locals [OF went(2)] by (simp add: sameLocals_def)
    obtain built jwts where build: "buildPushRequest (rn_send run) keys origin (rn_salt run (pw_step w)) (rn_sender run (pw_step w)) (nowOf run w)
        ?target (contentOptions content payload) (pw_jwts w) = (built, jwts)" by fastforce
    show ?thesis
    proof (cases built)
      case (Inl e)
      then show ?thesis using went(1) last by (auto simp: sendOne_def sendWebPush_def build)
    next
      case (Inr request)
      have "pw_log w1 = pw_log w @ [PushedWeb row request (rn_push run (pw_step w) request)]"
        using went(1) by (auto simp: sendOne_def sendWebPush_def build Inr)
      moreover have "encryptWebPushPayload (se_crypto (rn_send run)) (rn_salt run (pw_step w)) (rn_sender run (pw_step w)) payload p256dh auth =
          Inr (pr_body request) \<and> pr_endpoint request = pu_gatewayUrl row"
        using build unfolding Inr by (cases rule: buildPushRequest_cases) (simp add: contentOptions_def)
      ultimately show ?thesis using known last by auto
    qed
  qed
qed

lemma sessionLive_result:
  assumes "sessionLive run row w = (Inr True, w1)"
  shows "w1 = interfere run w" "pusherSessionIsLive (rn_js run) (nowOf run w1) (pw_sessions w1) row"
  using assms by (auto simp: sessionLive_def query_def statement_def ret_def Let_def split: if_splits option.splits)

lemma delivery_sends:
  assumes "deliverWebPushPusher run row content w = (r, w')" "pw_log w' \<noteq> pw_log w"
  obtains keys origin where "wp_appOrigin content = Some origin"
    "isWebPushEndpointAllowed (rn_js run) (rn_env run) (pu_gatewayUrl row)"
    "pusherSessionIsLive (rn_js run) (nowOf run (interfere run w)) (pw_sessions (interfere run w)) row"
    "pushToSession run keys origin row content (interfere run w) = (r, w')"
proof -
  from assms obtain origin keys where o: "wp_appOrigin content = Some origin"
    and ok: "isWebPushEndpointAllowed (rn_js run) (rn_env run) (pu_gatewayUrl row)"
    and go: "pushToEndpoint run keys origin row content w = (r, w')"
    by (auto simp: deliverWebPushPusher_def ret_def throw_def split: option.splits sum.splits if_splits)
  from go show thesis unfolding pushToEndpoint_def
  proof (cases rule: andThen_cases)
    case (threw e)
    then show ?thesis using assms(2) sessionLive_locals [OF threw(1)] by (simp add: sameLocals_def)
  next
    case (went live w1)
    show ?thesis
    proof (cases live)
      case True
      then show ?thesis using went sessionLive_result [of run row w w1] that o ok by simp
    next
      case False
      then have "andThen (removeRow run row) (\<lambda>_. ret (doneResult None)) w1 = (r, w')" using went(2) by simp
      then have "sameLocals w1 w'" by (cases rule: andThen_cases) (auto simp: ret_def dest: removeRow_locals)
      then show ?thesis using assms(2) sessionLive_locals [OF went(1)] by (simp add: sameLocals_def)
    qed
  qed
qed


text \<open>A run that delivers: one member's subscription with a live session.\<close>

definition exampleSecret :: string where "exampleSecret = replicate 64 CHR ''1''"

lemma example_secret: "\<exists>secret. parseVapidDerivationSecret (Some exampleSecret) = Some secret \<and> length secret = 32"
proof -
  have "length (trim exampleSecret) = 64 \<and> list_all isHexDigit (toLowerCase (trim exampleSecret))" by code_simp
  moreover have "case bigIntToBytes (hexNumber (toLowerCase (trim exampleSecret))) 32 of Inl e \<Rightarrow> False | Inr b \<Rightarrow> length b = 32" by code_simp
  ultimately show ?thesis by (auto simp: parseVapidDerivationSecret_def Let_def split: sum.splits)
qed

lemma example_vapid:
  "\<exists>pair. getInstanceVapidKeyPair (\<lambda>_ _. keyOne) (Some exampleSecret) = Inr (Some pair)"
proof -
  obtain secret where secret: "parseVapidDerivationSecret (Some exampleSecret) = Some secret" "length secret = 32"
    using example_secret by blast
  have "[0 ..< MAX_DERIVATION_ATTEMPTS] = 0 # [1 ..< MAX_DERIVATION_ATTEMPTS]" by (simp add: upt_conv_Cons MAX_DERIVATION_ATTEMPTS_def)
  then have "deriveVapidPrivateScalar (\<lambda>_ _. keyOne) secret VAPID_KEY_LABEL = Inr keyOne"
    by (simp add: deriveVapidPrivateScalar_def secret(2) keyOne_scalar P256_ORDER_def Let_def)
  moreover have "length keyOne = 32" by (simp add: keyOne_def)
  then have "\<exists>pub. p256PublicKeyFromPrivate keyOne = Inr pub"
    using p256_valid_key [of keyOne] by (auto simp: keyOne_scalar P256_ORDER_def)
  ultimately show ?thesis by (auto simp: getInstanceVapidKeyPair_def deriveVapidKeyPair_def importVapidKeyPair_def secret(1))
qed

definition webRow :: pusher where
  "webRow =
     \<lparr>pu_id = ''w'', pu_actor = ''v'', pu_product = Yurucommu, pu_scope = None, pu_kind = ''webpush'', pu_appId = ''app'',
      pu_pushkey = base64UrlEncode examplePoint, pu_pushkeyHash = ''h'', pu_appDisplayName = None, pu_deviceDisplayName = None,
      pu_profileTag = None, pu_lang = None,
      pu_data = Some (JObj [(''auth'', JStr (base64UrlEncode (replicate 16 9))), (''session'', JStr ''s'')]),
      pu_gatewayUrl = ''https://gw.example/'', pu_createdAt = 1, pu_updatedAt = 1, pu_lastSeenAt = 1\<rparr>"

definition webRun :: push_run where
  "webRun =
     \<lparr>rn_js = exampleJs\<lparr>js_dateOf := (\<lambda>s. Some 100000)\<rparr>, rn_env = examplePushEnv\<lparr>pe_encryptionKey := Some exampleSecret\<rparr>,
      rn_send = exampleSendEnv, rn_hkdf = (\<lambda>_ _. keyOne), rn_hmac = (\<lambda>_ _. []), rn_db = exampleNotif,
      rn_actors = [], rn_actorCache = [], rn_resolver = None, rn_token = ''t'', rn_salt = (\<lambda>n. replicate 16 7), rn_sender = (\<lambda>n. exampleSender),
      rn_push = (\<lambda>n q. PushStatus False 201 None), rn_fetch = (\<lambda>n q. Inl ''unused''), rn_readJson = (\<lambda>bs. Inl ''unused''),
      rn_clock = (\<lambda>n. 5000), rn_others = (\<lambda>n s. s), rn_fails = (\<lambda>n. None)\<rparr>"

definition webWorld :: push_world where
  "webWorld =
     \<lparr>pw_jobs = [], pw_pushers = [webRow], pw_sessions = [\<lparr>sn_id = ''s'', sn_member = ''v'', sn_expiresAt = ''2030''\<rparr>], pw_step = 0,
      pw_jwts = [], pw_settled = [], pw_dispatch = None, pw_log = []\<rparr>"

definition webContentExample :: web_push_content where
  "webContentExample =
     \<lparr>wp_appOrigin = Some (asText ''https://a''), wp_title = asText ''T'', wp_navigate = asText ''/'', wp_tag = asText ''dm'', wp_topic = None,
      wp_urgency = ''high'', wp_ttlSeconds = 60, wp_unread = 0, wp_body = (\<lambda>lang. asText ''Hi'')\<rparr>"

lemma web_fields:
  "rn_send webRun = exampleSendEnv" "rn_salt webRun n = replicate 16 7" "rn_sender webRun n = exampleSender" "rn_resolver webRun = None"
  "rn_push webRun n q = PushStatus False 201 None" "nowOf webRun w = 5000" "rn_hkdf webRun = (\<lambda>_ _. keyOne)"
  "pe_encryptionKey (rn_env webRun) = Some exampleSecret" "interfere webRun w = w\<lparr>pw_step := Suc (pw_step w)\<rparr>" "rn_fails webRun n = None"
  by (simp_all add: webRun_def nowOf_def interfere_def)

lemma web_row_keys: "subscriptionKeys webRow = Some (examplePoint, replicate 16 9)"
proof -
  have d: "base64UrlDecode (base64UrlEncode bs) = Some bs" for bs using base64url_round_trip by blast
  show ?thesis by (simp add: subscriptionKeys_def webRow_def storedField_def parseStoredData_def d)
qed

lemma web_endpoint:
  "isWebPushEndpointAllowed (rn_js webRun) (rn_env webRun) (pu_gatewayUrl webRow)"
  "checkWebPushEndpointResolved (rn_js webRun) (rn_resolver webRun) (pu_gatewayUrl webRow) = EndpointOk"
proof -
  have url: "normalizeGatewayUrl (rn_js webRun) (JStr ''https://gw.example/'') = Some ''https://gw.example/''"
    by (simp add: webRun_def normalizeGatewayUrl_def parseBoundedString_def Let_def trim_def isSpace_def exampleJs_def isPublicHttpsHostname_def
      unbracketHost_def toLowerCase_def lowerChar_def startsWith_def endsWith_def octetNumber_def)
  have p: "pu_gatewayUrl webRow = ''https://gw.example/''" by (simp add: webRow_def)
  show "isWebPushEndpointAllowed (rn_js webRun) (rn_env webRun) (pu_gatewayUrl webRow)"
    by (simp add: p isWebPushEndpointAllowed_def url) (simp add: webRun_def isLoopbackGatewayUrl_def exampleJs_def)
  show "checkWebPushEndpointResolved (rn_js webRun) (rn_resolver webRun) (pu_gatewayUrl webRow) = EndpointOk"
    by (simp add: checkWebPushEndpointResolved_def web_fields)
qed

lemma web_session: "sessionLive webRun webRow webWorld = (Inr True, webWorld\<lparr>pw_step := 1\<rparr>)"
proof -
  have session: "strOf (storedField (pu_data webRow) ''session'') = ''s''" "pu_actor webRow = ''v''"
    by (simp_all add: webRow_def storedField_def parseStoredData_def)
  have "pusherSessionIsLive (rn_js webRun) 5000 (pw_sessions webWorld) webRow"
    by (simp add: pusherSessionIsLive_def session truthy_def webWorld_def webRun_def)
  moreover have "pw_step webWorld = 0" "pw_sessions (webWorld\<lparr>pw_step := 1\<rparr>) = pw_sessions webWorld" by (simp_all add: webWorld_def)
  ultimately show ?thesis
    by (simp add: sessionLive_def session truthy_def query_def statement_def web_fields Let_def)
qed

lemma web_message:
  "\<exists>payload. buildDeclarativeWebPushMessage exampleTexts (contentMessage webContentExample (asText ''https://a'') webRow)
     = Inr (asText ''T'', Some (asText ''Hi''), payload) \<and> length payload \<le> 2048"
proof -
  let ?input = "contentMessage webContentExample (asText ''https://a'') webRow"
  let ?frame = "messageFrame exampleTexts ?input (asText ''https://a'')"
  have "length (messageBytes ?frame (asText ''T'') (Some (asText ''Hi''))) \<le> 2048"
    by (simp add: message_eval json_eval contentMessage_def webContentExample_def webRow_def exampleTexts_def truthy_def)
  moreover have "buildDeclarativeWebPushMessage exampleTexts ?input = fitMessage ?frame 2048 (asText ''T'') (Some (asText ''Hi''))"
    by (simp add: buildDeclarativeWebPushMessage_def exampleTexts_def)
      (simp add: contentMessage_def webContentExample_def webRow_def message_eval)
  moreover have "truthyText (Some (asText ''Hi'')) = Some (asText ''Hi'')" by (simp add: truthyText_def asText_def)
  ultimately show ?thesis using fitMessage.simps [of ?frame 2048 "asText ''T''" "Some (asText ''Hi'')"] by (simp add: Let_def)
qed

lemma web_delivery: "\<exists>r w' p. deliverWebPushPusher webRun webRow webContentExample webWorld = (r, w') \<and> pw_log w' = [p]"
proof -
  obtain pair where pair: "getInstanceVapidKeyPair (\<lambda>_ _. keyOne) (Some exampleSecret) = Inr (Some pair)" using example_vapid by blast
  obtain payload where payload: "buildDeclarativeWebPushMessage exampleTexts (contentMessage webContentExample (asText ''https://a'') webRow)
     = Inr (asText ''T'', Some (asText ''Hi''), payload)" "length payload \<le> 2048" using web_message by blast
  have "\<exists>body. encryptWebPushPayload exampleCrypto (replicate 16 7) exampleSender payload examplePoint (replicate 16 9) = Inr body"
    using payload(2) by (simp add: encryptWebPushPayload_def example_point_ok AUTH_SECRET_BYTES_def SALT_BYTES_def Let_def
        MAX_WEB_PUSH_PLAINTEXT_BYTES_def HEADER_BYTES_def TAG_BYTES_def split: prod.splits)
  then obtain body where body: "encryptWebPushPayload exampleCrypto (replicate 16 7) exampleSender payload examplePoint (replicate 16 9) = Inr body"
    by blast
  have "\<exists>h cache. vapidAuthorization exampleCrypto exampleTexts pair ''https://gw.example/'' (asText ''https://a'') 5000 [] = (Inr h, cache)"
    by (simp add: vapidAuthorization_def exampleTexts_def normalizeVapidSubject_def Let_def)
  then obtain h cache where auth: "vapidAuthorization exampleCrypto exampleTexts pair ''https://gw.example/'' (asText ''https://a'') 5000 [] = (Inr h, cache)"
    by blast
  have send: "se_crypto exampleSendEnv = exampleCrypto" "se_parse exampleSendEnv = exampleTexts" by (simp_all add: exampleSendEnv_def)
  have row: "pu_gatewayUrl webRow = ''https://gw.example/''" by (simp add: webRow_def)
  note endpoint = web_endpoint [unfolded row web_fields]
  have content: "wp_appOrigin webContentExample = Some (asText ''https://a'')" "wp_topic webContentExample = None" by (simp_all add: webContentExample_def)
  let ?target = "\<lparr>pt_endpoint = ''https://gw.example/'', pt_p256dh = examplePoint, pt_auth = replicate 16 9\<rparr>"
  have "\<exists>q. buildPushRequest exampleSendEnv pair (asText ''https://a'') (replicate 16 7) exampleSender 5000 ?target
      (contentOptions webContentExample payload) [] = (Inr q, cache)"
    by (simp add: buildPushRequest_def send contentOptions_def content body auth truthy_def Let_def)
  then obtain q where "buildPushRequest exampleSendEnv pair (asText ''https://a'') (replicate 16 7) exampleSender 5000 ?target
      (contentOptions webContentExample payload) [] = (Inr q, cache)" by blast
  note build = this
  have world: "pw_jwts (webWorld\<lparr>pw_step := Suc 0\<rparr>) = []" "pw_log webWorld = []" "pw_jwts webWorld = []" by (simp_all add: webWorld_def)
  have "\<exists>w1 p. sendOne webRun pair (asText ''https://a'') webRow ?target (contentOptions webContentExample payload) (webWorld\<lparr>pw_step := Suc 0\<rparr>) =
      (Inr (WpDelivered 201), w1) \<and> pw_log w1 = [p]"
    by (simp add: sendOne_def web_fields sendWebPush_def build world classifyWebPushResponse_def)
  then obtain w1 p where "sendOne webRun pair (asText ''https://a'') webRow ?target (contentOptions webContentExample payload) (webWorld\<lparr>pw_step := Suc 0\<rparr>) =
      (Inr (WpDelivered 201), w1)" "pw_log w1 = [p]" by blast
  then show ?thesis
    by (simp add: deliverWebPushPusher_def content web_fields pair endpoint pushToEndpoint_def andThen_def web_session
        pushToSession_def web_row_keys send payload(1) row outcomeResult_def ret_def)
qed


end
