(* ===== verification/PushDelivery.thy ===== *)
theory PushDelivery
  imports PushChannels
begin

section \<open>Delivering a push job\<close>

text \<open>
  Models \<open>processNotificationPushJob\<close> of \<open>src/backend/lib/notification-push.ts\<close> over the channels: the
  claim, the loops under the lease, the settlement and what is done when an attempt throws; and shows
  that a retry spares whoever has the message, under any interference and any failing statement.
\<close>

subsection \<open>The handler of a job\<close>

datatype queue_answer = Acked | Retried secs

text \<open>What the attempts of a run have left: ids to send again, the longest wait, the errors.\<close>

record tally =
  tl_retryIds :: "string list"
  tl_retryAfterSeconds :: secs
  tl_errors :: "string list"

definition joinErrors :: "string list \<Rightarrow> string" where
  "joinErrors es = (case es of [] \<Rightarrow> [] | e # rest \<Rightarrow> e @ concat (map (\<lambda>x. ''; '' @ x) rest))"

definition recordOutcome :: "string list \<Rightarrow> gateway_result \<Rightarrow> tally \<Rightarrow> (push_world, tally) act" where
  "recordOutcome ids outcome t w =
     (Inr \<lparr>tl_retryIds = tl_retryIds t @ gr_retryIds outcome,
           tl_retryAfterSeconds = max (tl_retryAfterSeconds t) (gr_retryAfterSeconds outcome),
           tl_errors = tl_errors t @ (case truthy (gr_error outcome) of None \<Rightarrow> [] | Some e \<Rightarrow> [e])\<rparr>,
      w\<lparr>pw_settled := pw_settled w @ filter (\<lambda>i. i \<notin> set (gr_retryIds outcome)) ids\<rparr>)"

definition thrownResult :: "string list \<Rightarrow> string \<Rightarrow> gateway_result" where
  "thrownResult ids e = \<lparr>gr_retryIds = ids, gr_retryAfterSeconds = 0, gr_error = Some e\<rparr>"

text \<open>The loops stop with \<open>None\<close> when the lease is lost.\<close>

definition underHeldLease :: "push_run \<Rightarrow> push_job \<Rightarrow> (push_world, 'a option) act \<Rightarrow> (push_world, 'a option) act" where
  "underHeldLease run job m =
     andThen (jobStatement run (refreshProcessingLease (pj_id job) (rn_token run))) (\<lambda>held. if held then m else ret None)"

text \<open>
  Both loops of the handler have one body: hold the lease, deliver to one item, take what it throws
  for a retry of that item alone, record the outcome.
\<close>

fun leasedLoop ::
  "push_run \<Rightarrow> push_job \<Rightarrow> ('x \<Rightarrow> (push_world, gateway_result) act) \<Rightarrow> ('x \<Rightarrow> string list) \<Rightarrow> 'x list \<Rightarrow> tally \<Rightarrow> (push_world, tally option) act" where
  "leasedLoop run job deliver ids [] t = ret (Some t)"
| "leasedLoop run job deliver ids (x # xs) t =
     underHeldLease run job
       (andThen (andThen (catching (deliver x) (\<lambda>e. ret (thrownResult (ids x) e))) (\<lambda>outcome. recordOutcome (ids x) outcome t))
          (leasedLoop run job deliver ids xs))"

definition webLoop :: "push_run \<Rightarrow> push_job \<Rightarrow> web_push_content \<Rightarrow> pusher list \<Rightarrow> tally \<Rightarrow> (push_world, tally option) act" where
  "webLoop run job content = leasedLoop run job (\<lambda>row. deliverWebPushPusher run row content) (\<lambda>row. [pu_id row])"

definition groupLoop :: "push_run \<Rightarrow> push_job \<Rightarrow> gateway_event \<Rightarrow> dispatch_group list \<Rightarrow> tally \<Rightarrow> (push_world, tally option) act" where
  "groupLoop run job event =
     leasedLoop run job (\<lambda>g. deliverGatewayGroup run (dg_gatewayUrl g) (dg_pushers g) (dg_format g) event) (\<lambda>g. map pu_id (dg_pushers g))"

definition explicitProduct :: "push_job \<Rightarrow> product option" where
  "explicitProduct job =
     (if pj_product job = Some ''yurucommu'' then Some Yurucommu else if pj_product job = Some ''yurume'' then Some Yurume else None)"

definition webContent :: "push_run \<Rightarrow> push_job \<Rightarrow> product \<Rightarrow> push_event \<Rightarrow> nat \<Rightarrow> (push_world, web_push_content) act" where
  "webContent run job prd event unread =
     andThen (query run (\<lambda>w. senderDisplayName (rn_actors run) (rn_actorCache run) (pv_actorApId event)))
       (\<lambda>sender. case buildWebPushContent (se_parse (rn_send run)) (rn_hkdf run) (rn_hmac run) (rn_env run) sender (pj_actor job) prd event unread of
           Inl e \<Rightarrow> throw e | Inr c \<Rightarrow> ret c)"

definition webPart :: "push_run \<Rightarrow> push_job \<Rightarrow> product \<Rightarrow> push_event \<Rightarrow> nat \<Rightarrow> pusher list \<Rightarrow> tally \<Rightarrow> (push_world, tally option) act" where
  "webPart run job prd event unread webPushers t =
     (if webPushers = [] then ret (Some t)
      else
        andThen (catching (andThen (webContent run job prd event unread) (\<lambda>c. ret (Inr c))) (\<lambda>e. ret (Inl e)))
          (\<lambda>content. case content of
              Inl e \<Rightarrow>
                andThen (recordOutcome (map pu_id webPushers) (thrownResult (map pu_id webPushers) e) t) (\<lambda>t'. ret (Some t'))
            | Inr c \<Rightarrow> webLoop run job c webPushers t))"

definition gatewayEvent :: "push_event \<Rightarrow> nat \<Rightarrow> gateway_event" where
  "gatewayEvent event unread =
     \<lparr>ge_id = pv_activityApId event,
      ge_type = (if pv_visibility event = Some ''direct'' then ''dm'' else toLowerCase (pv_type event)),
      ge_sender = pv_actorApId event, ge_scopeId = pv_objectApId event, ge_unread = unread\<rparr>"

definition pushBackoff :: "int \<Rightarrow> secs" where
  "pushBackoff attempts = min (12 * 60 * 60) (30 * 2 ^ nat (attempts - 1))"

text \<open>The end of an attempt that leaves ids to send again, or that threw.\<close>

definition settleAttempt :: "push_run \<Rightarrow> push_job \<Rightarrow> string list option \<Rightarrow> string \<Rightarrow> secs \<Rightarrow> (push_world, queue_answer) act" where
  "settleAttempt run job remaining lastError delaySeconds =
     (let attempts = pj_attempts job + 1
      in if MAX_NOTIFICATION_PUSH_ATTEMPTS \<le> attempts then
           andThen (jobStatement run (failPush (pj_id job) (rn_token run) attempts remaining lastError)) (\<lambda>_. ret Acked)
         else
           andThen (jobStatement run (\<lambda>now. retryPush (pj_id job) (rn_token run) attempts remaining lastError (now + delaySeconds * 1000) now))
             (\<lambda>held. ret (if held then Retried delaySeconds else Acked)))"

definition finishAttempt :: "push_run \<Rightarrow> push_job \<Rightarrow> string option \<Rightarrow> (push_world, queue_answer) act" where
  "finishAttempt run job lastError =
     andThen (jobStatement run (finishJob (pj_id job) (rn_token run) lastError)) (\<lambda>_. ret Acked)"

definition concludeAttempt :: "push_run \<Rightarrow> push_job \<Rightarrow> tally \<Rightarrow> (push_world, queue_answer) act" where
  "concludeAttempt run job t =
     (if tl_retryIds t = [] then finishAttempt run job (if tl_errors t = [] then None else Some (joinErrors (tl_errors t)))
      else
        settleAttempt run job (Some (dedupe (tl_retryIds t)))
          (let e = take 1024 (joinErrors (tl_errors t)) in if e = [] then ''retryable gateway failure'' else e)
          (max (tl_retryAfterSeconds t) (pushBackoff (pj_attempts job + 1))))"

definition dispatchTo :: "push_run \<Rightarrow> push_job \<Rightarrow> product \<Rightarrow> push_event \<Rightarrow> string list \<Rightarrow> pusher list \<Rightarrow> (push_world, queue_answer) act" where
  "dispatchTo run job prd event ids pushers =
     andThen (query run (\<lambda>w. unreadCountForProduct (rn_db run) (pj_actor job) prd)) (\<lambda>unread.
     andThen (effect (\<lambda>w. w\<lparr>pw_settled := pw_settled w @ filter (\<lambda>i. i \<notin> set (map pu_id pushers)) ids\<rparr>)) (\<lambda>_.
     andThen (webPart run job prd event unread (filter (\<lambda>r. pu_kind r = ''webpush'') pushers)
                \<lparr>tl_retryIds = [], tl_retryAfterSeconds = 0, tl_errors = []\<rparr>) (\<lambda>t1.
       case t1 of
         None \<Rightarrow> ret Acked
       | Some t1 \<Rightarrow>
           andThen (groupLoop run job (gatewayEvent event unread)
                      (groupByGatewayAndFormat (filter (\<lambda>r. pu_kind r \<noteq> ''webpush'') pushers)) t1) (\<lambda>t2.
             case t2 of None \<Rightarrow> ret Acked | Some t2 \<Rightarrow> concludeAttempt run job t2))))"

text \<open>The pushers of the job, chosen once and stored, so that a retry is for the same devices.\<close>

definition choosePending :: "push_run \<Rightarrow> push_job \<Rightarrow> ms \<Rightarrow> product \<Rightarrow> (push_world, string list option) act" where
  "choosePending run job claimedAt prd =
     (case parsePendingIds (pj_pending job) of
        Some ids \<Rightarrow> ret (Some ids)
      | None \<Rightarrow>
          andThen
            (query run (\<lambda>w. map pu_id (take MAX_NOTIFICATION_PUSH_DISPATCH (sort_key pu_createdAt
               (filter (\<lambda>r. pu_actor r = pj_actor job \<and> pu_product r = prd \<and> pu_createdAt r \<le> pj_createdAt job) (pw_pushers w))))))
            (\<lambda>ids. andThen (jobStatement run (\<lambda>_. setPendingIds (pj_id job) (rn_token run) ids claimedAt))
               (\<lambda>held. ret (if held then Some ids else None))))"

definition attemptPush :: "push_run \<Rightarrow> push_job \<Rightarrow> ms \<Rightarrow> (push_world, queue_answer) act" where
  "attemptPush run job claimedAt =
     andThen (query run (\<lambda>w. map_option pushEvent (loadPushEvent (rn_db run) (pj_actor job) (pj_activity job) (explicitProduct job)))) (\<lambda>found.
       case found of
         None \<Rightarrow> finishAttempt run job (Some ''notification is no longer eligible'')
       | Some event \<Rightarrow>
           (let prd = (case explicitProduct job of
                  Some p \<Rightarrow> p | None \<Rightarrow> if pv_visibility event = Some ''direct'' then Yurume else Yurucommu)
            in andThen (choosePending run job claimedAt prd) (\<lambda>pending.
                 case pending of
                   None \<Rightarrow> ret Acked
                 | Some ids \<Rightarrow>
                     andThen (effect (\<lambda>w. w\<lparr>pw_dispatch := Some ids\<rparr>)) (\<lambda>_.
                       if ids = [] then finishAttempt run job None
                       else
                         andThen
                           (query run (\<lambda>w. filter (\<lambda>r. pu_id r \<in> set ids \<and> pu_actor r = pj_actor job \<and> pu_product r = prd) (pw_pushers w)))
                           (\<lambda>pushers. if pushers = [] then finishAttempt run job None
                                      else dispatchTo run job prd event ids pushers)))))"

text \<open>What is left when an attempt threw: the chosen ids without the settled ones.\<close>

definition remainingIds :: "push_world \<Rightarrow> string list option" where
  "remainingIds w =
     (case pw_dispatch w of
        None \<Rightarrow> None
      | Some ids \<Rightarrow> if pw_settled w = [] then None else Some (filter (\<lambda>i. i \<notin> set (pw_settled w)) ids))"

definition recoverAttempt :: "push_run \<Rightarrow> push_job \<Rightarrow> string \<Rightarrow> (push_world, queue_answer) act" where
  "recoverAttempt run job e w =
     settleAttempt run job (remainingIds w) (take 1024 e) (pushBackoff (pj_attempts job + 1)) w"

definition claimAndAttempt :: "push_run \<Rightarrow> push_job \<Rightarrow> (push_world, queue_answer) act" where
  "claimAndAttempt run job w =
     andThen (jobStatement run (\<lambda>now jobs. claimPush job (rn_token run) now jobs))
       (\<lambda>claimed. if \<not> claimed then ret (Retried 30)
          else andThen (effect (\<lambda>w. w\<lparr>pw_settled := [], pw_dispatch := None\<rparr>))
                 (\<lambda>_. catching (attemptPush run job (nowOf run w)) (recoverAttempt run job))) w"

definition processNotificationPushJob :: "push_run \<Rightarrow> string \<Rightarrow> (push_world, queue_answer) act" where
  "processNotificationPushJob run jobId =
     andThen (query run (\<lambda>w. selectBy pj_id jobId (pw_jobs w))) (\<lambda>found.
       case found of
         None \<Rightarrow> ret Acked
       | Some job \<Rightarrow>
           if pj_status job = PjDelivered \<or> pj_status job = PjFailed then ret Acked
           else if pj_status job \<noteq> PjProcessing then claimAndAttempt run job
           else (\<lambda>w.
             if nowOf run w - pj_updatedAt job < STALE_PUSH_MS then ret (Retried 30) w
             else
               andThen (jobStatement run (reclaimProcessing job))
                 (\<lambda>reclaimed. if \<not> reclaimed then ret (Retried 30)
                    else claimAndAttempt run (job\<lparr>pj_status := PjQueued, pj_token := None, pj_updatedAt := nowOf run w\<rparr>)) w))"

subsection \<open>The loops over the devices\<close>

text \<open>
  Between two deliveries: whoever accepted the message is settled, whoever asked for a retry is on
  the list, no id is on both sides, and the ids still to come are on neither.
\<close>

definition tallyOk :: "push_run \<Rightarrow> string set \<Rightarrow> string set \<Rightarrow> push_world \<Rightarrow> tally \<Rightarrow> bool" where
  "tallyOk run U toCome w t =
     (accepted run w \<subseteq> set (pw_settled w) \<and> retryWanted w \<subseteq> set (tl_retryIds t) \<and>
      set (tl_retryIds t) \<inter> set (pw_settled w) = {} \<and> toCome \<inter> (set (pw_settled w) \<union> set (tl_retryIds t)) = {} \<and>
      0 \<le> tl_retryAfterSeconds t \<and> tl_retryAfterSeconds t \<le> 12 * 60 * 60 \<and> toCome \<union> set (tl_retryIds t) \<subseteq> U)"

text \<open>A loop that ends early, or throws, has settled nobody who asked for a retry.\<close>

definition partOk :: "push_run \<Rightarrow> string set \<Rightarrow> push_world \<Rightarrow> bool" where
  "partOk run U w = (accepted run w \<subseteq> set (pw_settled w) \<and> retryWanted w \<inter> set (pw_settled w) = {} \<and> retryWanted w \<subseteq> U)"

lemma tally_part: "tallyOk run U ids w t \<Longrightarrow> partOk run U w"
  by (auto simp: tallyOk_def partOk_def)

lemma locals_sets:
  assumes "sameLocals w w'"
  shows "accepted run w' = accepted run w" "retryWanted w' = retryWanted w" "pw_settled w' = pw_settled w" "pw_dispatch w' = pw_dispatch w"
  using assms by (simp_all add: sameLocals_def accepted_def retryWanted_def)

lemma tally_locals: "sameLocals w w' \<Longrightarrow> tallyOk run U ids w' t = tallyOk run U ids w t"
  by (simp add: tallyOk_def locals_sets)

lemma part_locals: "sameLocals w w' \<Longrightarrow> partOk run U w' = partOk run U w"
  by (simp add: partOk_def locals_sets)

text \<open>One device or group: its delivery, with what it throws caught, and the record of its outcome.\<close>

lemma record_delivery:
  assumes ok: "tallyOk run U (set ids \<union> later) w t" and fresh: "set ids \<inter> later = {}"
    and agrees: "\<And>r w'. m w = (r, w') \<Longrightarrow> deliveryAgrees run (set ids) w r w'"
    and go: "andThen (catching m (\<lambda>e. ret (thrownResult ids e))) (\<lambda>outcome. recordOutcome ids outcome t) w = (r, w')"
  shows "\<exists>t'. r = Inr t' \<and> tallyOk run U later w' t' \<and> pw_dispatch w' = pw_dispatch w \<and>
    set (tl_retryIds t) \<subseteq> set (tl_retryIds t') \<and>
    set (pw_settled w') \<union> set (tl_retryIds t') = set (pw_settled w) \<union> set (tl_retryIds t) \<union> set ids"
proof -
  obtain g w1 where one: "catching m (\<lambda>e. ret (thrownResult ids e)) w = (Inr g, w1)" and rec: "recordOutcome ids g t w1 = (r, w')"
    using go by (cases rule: andThen_cases) (auto simp: catching_def ret_def split: prod.splits sum.splits)
  have "deliveryAgrees run (set ids) w (Inr g) w1"
    using one
  proof (cases rule: catching_cases)
    case (threw e w2)
    from threw(2) have eq: "g = thrownResult ids e" "w2 = w1" by (auto simp: ret_def)
    show ?thesis using agrees [OF threw(1)] unfolding eq by (auto simp: deliveryAgrees_def thrownResult_def)
  next
    case (went a)
    then show ?thesis using agrees by auto
  qed
  then obtain posted where d: "pw_settled w1 = pw_settled w" "pw_dispatch w1 = pw_dispatch w" "pw_log w1 = pw_log w @ posted"
    "\<forall>p \<in> set posted. set (acceptedIds run p) \<subseteq> set ids \<and> set (retryWantedIds p) \<subseteq> set ids"
    "set (gr_retryIds g) \<subseteq> set ids" "0 \<le> gr_retryAfterSeconds g" "gr_retryAfterSeconds g \<le> 12 * 60 * 60"
    "\<forall>p \<in> set posted. set (acceptedIds run p) \<inter> set (gr_retryIds g) = {} \<and> set (retryWantedIds p) \<subseteq> set (gr_retryIds g)"
    by (auto simp: deliveryAgrees_def)
  have r: "r = Inr \<lparr>tl_retryIds = tl_retryIds t @ gr_retryIds g,
      tl_retryAfterSeconds = max (tl_retryAfterSeconds t) (gr_retryAfterSeconds g),
      tl_errors = tl_errors t @ (case truthy (gr_error g) of None \<Rightarrow> [] | Some e \<Rightarrow> [e])\<rparr>"
    and w': "w' = w1\<lparr>pw_settled := pw_settled w1 @ filter (\<lambda>i. i \<notin> set (gr_retryIds g)) ids\<rparr>"
    using rec by (auto simp: recordOutcome_def)
  have sets: "accepted run w' = accepted run w \<union> (\<Union>p \<in> set posted. set (acceptedIds run p))"
    "retryWanted w' = retryWanted w \<union> (\<Union>p \<in> set posted. set (retryWantedIds p))"
    by (auto simp: accepted_def retryWanted_def w' d(3))
  have new: "(\<Union>p \<in> set posted. set (acceptedIds run p)) \<subseteq> set ids - set (gr_retryIds g)"
    "(\<Union>p \<in> set posted. set (retryWantedIds p)) \<subseteq> set (gr_retryIds g)" using d(4,8) by auto
  have settled: "set (pw_settled w') = set (pw_settled w) \<union> (set ids - set (gr_retryIds g))" by (auto simp: w' d(1))
  have "tallyOk run U later w' \<lparr>tl_retryIds = tl_retryIds t @ gr_retryIds g,
      tl_retryAfterSeconds = max (tl_retryAfterSeconds t) (gr_retryAfterSeconds g),
      tl_errors = tl_errors t @ (case truthy (gr_error g) of None \<Rightarrow> [] | Some e \<Rightarrow> [e])\<rparr>"
    using ok fresh new d(5,6,7) unfolding tallyOk_def sets settled by (simp add: le_max_iff_disj) blast
  then show ?thesis using r d(2,5) by (auto simp: settled w' d(1))
qed

definition idsOf :: "('x \<Rightarrow> string list) \<Rightarrow> 'x list \<Rightarrow> string set" where
  "idsOf ids xs = (\<Union>x \<in> set xs. set (ids x))"

lemma leasedLoop_ok:
  assumes agrees: "\<And>x w r w'. x \<in> set xs \<Longrightarrow> deliver x w = (r, w') \<Longrightarrow> deliveryAgrees run (set (ids x)) w r w'"
    and apart: "distinct (concat (map ids xs))"
    and ok: "tallyOk run U (idsOf ids xs \<union> later) w t" and fresh: "idsOf ids xs \<inter> later = {}"
    and go: "leasedLoop run job deliver ids xs t w = (r, w')"
  shows "pw_dispatch w' = pw_dispatch w \<and>
    (case r of
       Inr (Some t') \<Rightarrow> tallyOk run U later w' t' \<and>
         set (pw_settled w') \<union> set (tl_retryIds t') = set (pw_settled w) \<union> set (tl_retryIds t) \<union> idsOf ids xs
     | _ \<Rightarrow> partOk run U w' \<and> set (pw_settled w') \<subseteq> set (pw_settled w) \<union> idsOf ids xs)"
  using assms
proof (induction xs arbitrary: t w)
  case Nil
  then show ?case by (auto simp: ret_def idsOf_def)
next
  case (Cons x xs)
  let ?body = "andThen (andThen (catching (deliver x) (\<lambda>e. ret (thrownResult (ids x) e))) (\<lambda>outcome. recordOutcome (ids x) outcome t))
          (leasedLoop run job deliver ids xs)"
  have "andThen (jobStatement run (refreshProcessingLease (pj_id job) (rn_token run))) (\<lambda>held. if held then ?body else ret None) w = (r, w')"
    using Cons.prems(5) by (simp add: underHeldLease_def)
  then show ?case
  proof (cases rule: andThen_cases)
    case (threw e)
    note l = jobStatement_locals [OF threw(1)]
    then show ?thesis using threw(2) tally_part [OF Cons.prems(3)] by (simp add: part_locals locals_sets)
  next
    case (went held w1)
    note l = jobStatement_locals [OF went(1)]
    show ?thesis
    proof (cases held)
      case False
      then show ?thesis using went(2) l tally_part [OF Cons.prems(3)] by (auto simp: ret_def part_locals locals_sets)
    next
      case True
      then have body: "?body w1 = (r, w')" using went(2) by simp
      have split: "idsOf ids (x # xs) \<union> later = set (ids x) \<union> (idsOf ids xs \<union> later)" by (auto simp: idsOf_def)
      have "tallyOk run U (set (ids x) \<union> (idsOf ids xs \<union> later)) w1 t"
        using Cons.prems(3) unfolding split tally_locals [OF l] .
      moreover have new: "set (ids x) \<inter> (idsOf ids xs \<union> later) = {}" using Cons.prems(2,4) by (auto simp: idsOf_def)
      moreover have d: "\<And>r w'. deliver x w1 = (r, w') \<Longrightarrow> deliveryAgrees run (set (ids x)) w1 r w'" using Cons.prems(1) by simp
      ultimately have rec: "\<exists>t'. r' = Inr t' \<and> tallyOk run U (idsOf ids xs \<union> later) w2 t' \<and> pw_dispatch w2 = pw_dispatch w1 \<and> set (tl_retryIds t) \<subseteq> set (tl_retryIds t') \<and>
          set (pw_settled w2) \<union> set (tl_retryIds t') = set (pw_settled w1) \<union> set (tl_retryIds t) \<union> set (ids x)"
        if "andThen (catching (deliver x) (\<lambda>e. ret (thrownResult (ids x) e))) (\<lambda>outcome. recordOutcome (ids x) outcome t) w1 = (r', w2)" for r' w2
        using that by (rule record_delivery)
      from body show ?thesis
      proof (cases rule: andThen_cases)
        case (threw e)
        then show ?thesis using rec by blast
      next
        case (went t1 w2)
        then have t1: "tallyOk run U (idsOf ids xs \<union> later) w2 t1" "pw_dispatch w2 = pw_dispatch w1" "set (tl_retryIds t) \<subseteq> set (tl_retryIds t1)"
          "set (pw_settled w2) \<union> set (tl_retryIds t1) = set (pw_settled w1) \<union> set (tl_retryIds t) \<union> set (ids x)"
          using rec by blast+
        have ih: "pw_dispatch w' = pw_dispatch w2 \<and>
            (case r of
               Inr (Some t') \<Rightarrow> tallyOk run U later w' t' \<and>
                 set (pw_settled w') \<union> set (tl_retryIds t') = set (pw_settled w2) \<union> set (tl_retryIds t1) \<union> idsOf ids xs
             | _ \<Rightarrow> partOk run U w' \<and> set (pw_settled w') \<subseteq> set (pw_settled w2) \<union> idsOf ids xs)"
          using Cons.prems(1,2,4) by (intro Cons.IH [OF _ _ t1(1) _ went(2)]) (auto simp: idsOf_def)
        have "set (pw_settled w2) \<inter> set (tl_retryIds t1) = {}" using t1(1) by (auto simp: tallyOk_def)
        then have settled: "set (pw_settled w2) \<subseteq> set (pw_settled w) \<union> set (ids x)"
          using t1(3,4) by (auto simp: locals_sets [OF l])
        have "idsOf ids (x # xs) = set (ids x) \<union> idsOf ids xs" by (simp add: idsOf_def)
        then show ?thesis using ih t1(2,4) settled locals_sets [OF l] by (auto split: sum.splits option.splits)
      qed
    qed
  qed
qed

subsection \<open>The groups\<close>

definition groupKey :: "dispatch_group \<Rightarrow> string \<times> string" where
  "groupKey g = (dg_gatewayUrl g, dg_format g)"

lemma addToGroup_devices:
  assumes "distinct (map groupKey groups)"
  shows "distinct (map groupKey (addToGroup row groups)) \<and>
    mset (concat (map dg_pushers (addToGroup row groups))) = add_mset row (mset (concat (map dg_pushers groups)))"
proof -
  let ?k = "(pu_gatewayUrl row, notificationPushFormat (parseStoredData (pu_data row)))"
  have add: "addToGroup row groups = (if ?k \<in> set (map groupKey groups)
      then map (\<lambda>g. if groupKey g = ?k then g\<lparr>dg_pushers := dg_pushers g @ [row]\<rparr> else g) groups
      else groups @ [\<lparr>dg_gatewayUrl = fst ?k, dg_format = snd ?k, dg_pushers = [row]\<rparr>])"
    by (auto simp: addToGroup_def Let_def groupKey_def list_ex_iff image_iff eq_commute)
  have keys: "map groupKey (map (\<lambda>g. if groupKey g = k then g\<lparr>dg_pushers := dg_pushers g @ [row]\<rparr> else g) gs) = map groupKey gs" for k gs
    by (auto simp: groupKey_def)
  have devices: "mset (concat (map dg_pushers (map (\<lambda>g. if groupKey g = k then g\<lparr>dg_pushers := dg_pushers g @ [row]\<rparr> else g) gs))) =
      (if k \<in> set (map groupKey gs) then add_mset row (mset (concat (map dg_pushers gs))) else mset (concat (map dg_pushers gs)))"
    if "distinct (map groupKey gs)" for k gs
    using that by (induction gs) auto
  show ?thesis
  proof (cases "?k \<in> set (map groupKey groups)")
    case True
    then show ?thesis unfolding add if_P [OF True] devices [OF assms] keys using assms by simp
  next
    case False
    then show ?thesis unfolding add using assms by (auto simp: groupKey_def)
  qed
qed

lemma group_devices: "mset (concat (map dg_pushers (groupByGatewayAndFormat pushers))) = mset pushers"
proof -
  have "distinct (map groupKey (foldl (\<lambda>groups row. addToGroup row groups) groups pushers)) \<and>
      mset (concat (map dg_pushers (foldl (\<lambda>groups row. addToGroup row groups) groups pushers))) = mset (concat (map dg_pushers groups)) + mset pushers"
    if "distinct (map groupKey groups)" for groups
    using that
  proof (induction pushers arbitrary: groups)
    case (Cons row pushers)
    then show ?case using addToGroup_devices [OF Cons.prems, of row] by (simp del: mset_concat)
  qed simp
  from this [of "[]"] show ?thesis by (simp add: groupByGatewayAndFormat_def)
qed

lemma group_ids:
  "idsOf (\<lambda>g. map pu_id (dg_pushers g)) (groupByGatewayAndFormat pushers) = set (map pu_id pushers)"
  "distinct (map pu_id pushers) \<Longrightarrow> distinct (concat (map (\<lambda>g. map pu_id (dg_pushers g)) (groupByGatewayAndFormat pushers)))"
proof -
  let ?all = "concat (map dg_pushers (groupByGatewayAndFormat pushers))"
  have flat: "concat (map (\<lambda>g. map pu_id (dg_pushers g)) gs) = map pu_id (concat (map dg_pushers gs))" for gs
    by (induction gs) auto
  have "set ?all = set pushers" using arg_cong [OF group_devices [of pushers], of set_mset] by (simp only: set_mset_mset)
  then show "idsOf (\<lambda>g. map pu_id (dg_pushers g)) (groupByGatewayAndFormat pushers) = set (map pu_id pushers)"
    by (force simp: idsOf_def)
  show "distinct (concat (map (\<lambda>g. map pu_id (dg_pushers g)) (groupByGatewayAndFormat pushers)))" if "distinct (map pu_id pushers)"
  proof -
    have "mset (map pu_id ?all) = mset (map pu_id pushers)" using group_devices [of pushers] by (simp only: mset_map)
    then show ?thesis unfolding flat using that by (metis mset_eq_imp_distinct_iff)
  qed
qed

subsection \<open>A whole attempt\<close>

lemma webPart_ok:
  assumes ids: "distinct (map pu_id rows)" and ok: "tallyOk run U (set (map pu_id rows) \<union> later) w t"
    and fresh: "set (map pu_id rows) \<inter> later = {}" and go: "webPart run job prd event unread rows t w = (r, w')"
  shows "pw_dispatch w' = pw_dispatch w \<and>
    (case r of
       Inr (Some t') \<Rightarrow> tallyOk run U later w' t' \<and>
         set (pw_settled w') \<union> set (tl_retryIds t') = set (pw_settled w) \<union> set (tl_retryIds t) \<union> set (map pu_id rows)
     | _ \<Rightarrow> partOk run U w')"
proof (cases "rows = []")
  case True
  then show ?thesis using go ok by (auto simp: webPart_def ret_def)
next
  case False
  let ?content = "catching (andThen (webContent run job prd event unread) (\<lambda>c. ret (Inr c))) (\<lambda>e. ret (Inl e))"
  have content: "sameLocals w0 w1" if "webContent run job prd event unread w0 = (x, w1)" for w0 w1 x
    using that unfolding webContent_def
    by (cases rule: andThen_cases) (auto simp: ret_def throw_def dest: query_locals split: sum.splits)
  have "andThen ?content (\<lambda>content. case content of
              Inl e \<Rightarrow> andThen (recordOutcome (map pu_id rows) (thrownResult (map pu_id rows) e) t) (\<lambda>t'. ret (Some t'))
            | Inr c \<Rightarrow> webLoop run job c rows t) w = (r, w')"
    using go False by (simp add: webPart_def)
  then obtain c w1 where c: "?content w = (Inr c, w1)" and rest: "(case c of
              Inl e \<Rightarrow> andThen (recordOutcome (map pu_id rows) (thrownResult (map pu_id rows) e) t) (\<lambda>t'. ret (Some t'))
            | Inr c \<Rightarrow> webLoop run job c rows t) w1 = (r, w')"
    by (cases rule: andThen_cases) (auto simp: catching_def ret_def split: prod.splits sum.splits)
  have l: "sameLocals w w1" using c
    by (cases rule: catching_cases) (auto simp: ret_def dest: content elim!: andThen_cases)
  have ok1: "tallyOk run U (set (map pu_id rows) \<union> later) w1 t" using ok by (simp add: tally_locals [OF l])
  show ?thesis
  proof (cases c)
    case (Inl e)
    have r: "r = Inr (Some \<lparr>tl_retryIds = tl_retryIds t @ map pu_id rows, tl_retryAfterSeconds = max (tl_retryAfterSeconds t) 0,
        tl_errors = tl_errors t @ (case truthy (Some e) of None \<Rightarrow> [] | Some e \<Rightarrow> [e])\<rparr>)" and w': "w' = w1"
      using rest Inl by (auto simp: andThen_def recordOutcome_def thrownResult_def ret_def filter_empty_conv split: prod.splits)
    show ?thesis using ok1 fresh locals_sets [OF l] by (auto simp: r w' tallyOk_def)
  next
    case (Inr content)
    have set_ids: "idsOf (\<lambda>row. [pu_id row]) rows = set (map pu_id rows)" by (auto simp: idsOf_def)
    have "concat (map (\<lambda>row. [pu_id row]) rows) = map pu_id rows" by (induction rows) auto
    then have dist: "distinct (concat (map (\<lambda>row. [pu_id row]) rows))" using ids by simp
    have "leasedLoop run job (\<lambda>row. deliverWebPushPusher run row content) (\<lambda>row. [pu_id row]) rows t w1 = (r, w')"
      using rest Inr by (simp add: webLoop_def)
    from leasedLoop_ok [OF _ dist _ _ this, of U later] webPush_agrees ok1 fresh
    show ?thesis unfolding set_ids by (auto simp: locals_sets [OF l] split: sum.splits option.splits)
  qed
qed

text \<open>How an attempt may end: retried with the row it wrote, or acknowledged.\<close>

definition retryWritten :: "push_job \<Rightarrow> string list option \<Rightarrow> secs \<Rightarrow> ms \<Rightarrow> push_world \<Rightarrow> bool" where
  "retryWritten job remaining delay now w =
     (pj_attempts job + 1 < MAX_NOTIFICATION_PUSH_ATTEMPTS \<and>
      (\<exists>r \<in> set (pw_jobs w). pj_id r = pj_id job \<and> pj_status r = PjRetryWait \<and> pj_token r = None \<and>
         pj_attempts r = pj_attempts job + 1 \<and> pj_nextAttemptAt r = now + delay * 1000 \<and>
         (case remaining of None \<Rightarrow> True | Some ids \<Rightarrow> pj_pending r = Some (idsJson ids))))"

lemma underLease_writes:
  assumes "fst (underLease i token f jobs)"
  shows "\<exists>r \<in> set jobs. pj_id r = i \<and> f r \<in> set (snd (underLease i token f jobs))"
  using assms by (force simp: underLease_def affectedRows_def updateWhere_def processingLeaseWhere_def filter_empty_conv)

lemma settleAttempt_ends:
  assumes "settleAttempt run job remaining lastError delay w = (r, w')"
  shows "sameLocals w w' \<and> (case r of Inr (Retried d) \<Rightarrow> d = delay \<and> retryWritten job remaining delay (nowOf run w) w' | _ \<Rightarrow> True)"
proof (cases "MAX_NOTIFICATION_PUSH_ATTEMPTS \<le> pj_attempts job + 1")
  case True
  then show ?thesis using assms by (auto simp: settleAttempt_def ret_def dest: jobStatement_locals elim!: andThen_cases)
next
  case False
  let ?settle = "\<lambda>now. retryPush (pj_id job) (rn_token run) (pj_attempts job + 1) remaining lastError (now + delay * 1000) now"
  have "andThen (jobStatement run ?settle) (\<lambda>held. ret (if held then Retried delay else Acked)) w = (r, w')"
    using assms False by (simp add: settleAttempt_def)
  then show ?thesis
  proof (cases rule: andThen_cases)
    case (threw e)
    then show ?thesis by (auto dest: jobStatement_locals)
  next
    case (went held w1)
    note l = jobStatement_locals [OF went(1)]
    have "retryWritten job remaining delay (nowOf run w) w1" if held
    proof -
      have jobs: "?settle (nowOf run w) (pw_jobs (interfere run w)) = (True, pw_jobs w1)"
        using went(1) that by (auto simp: jobStatement_def statement_def Let_def split: option.splits prod.splits)
      have "fst (?settle (nowOf run w) (pw_jobs (interfere run w)))" using jobs by simp
      from underLease_writes [OF this [unfolded retryPush_def]] obtain r0 where r0: "pj_id r0 = pj_id job"
        "r0\<lparr>pj_status := PjRetryWait, pj_token := None, pj_attempts := pj_attempts job + 1,
           pj_pending := (case remaining of None \<Rightarrow> pj_pending r0 | Some ids \<Rightarrow> Some (idsJson ids)),
           pj_nextAttemptAt := nowOf run w + delay * 1000, pj_lastError := Some lastError, pj_updatedAt := nowOf run w\<rparr>
         \<in> set (pw_jobs w1)"
        using jobs unfolding retryPush_def by fastforce
      then show ?thesis unfolding retryWritten_def using False by (intro conjI bexI [OF _ r0(2)]) (simp_all split: option.splits)
    qed
    then show ?thesis using went(2) l by (auto simp: ret_def split: if_splits)
  qed
qed

lemma finishAttempt_ends:
  "finishAttempt run job e w = (r, w') \<Longrightarrow> sameLocals w w' \<and> (\<forall>d. r \<noteq> Inr (Retried d))"
  by (auto simp: finishAttempt_def ret_def dest: jobStatement_locals elim!: andThen_cases)

text \<open>
  A retry is well founded when it waits at least the backoff of its attempt, and at most twelve
  hours, and, once somebody has the message, leaves exactly the others.
\<close>

definition retryOk :: "push_run \<Rightarrow> push_job \<Rightarrow> secs \<Rightarrow> push_world \<Rightarrow> bool" where
  "retryOk run job d w =
     (pushBackoff (pj_attempts job + 1) \<le> d \<and> d \<le> 12 * 60 * 60 \<and>
      (\<exists>remaining now. retryWritten job remaining d now w \<and>
         (case remaining of
            None \<Rightarrow> accepted run w = {}
          | Some ids \<Rightarrow> set ids \<inter> accepted run w = {} \<and> retryWanted w \<subseteq> set ids)))"

lemma pushBackoff_bound: "pushBackoff n \<le> 12 * 60 * 60"
  by (simp add: pushBackoff_def)

lemma concludeAttempt_ok:
  assumes ok: "tallyOk run U {} w t" and go: "concludeAttempt run job t w = (r, w')"
  shows "sameLocals w w' \<and> (case r of Inr (Retried d) \<Rightarrow> retryOk run job d w' | _ \<Rightarrow> True)"
proof (cases "tl_retryIds t = []")
  case True
  then show ?thesis using go finishAttempt_ends by (auto simp: concludeAttempt_def split: sum.splits queue_answer.splits)
next
  case False
  let ?delay = "max (tl_retryAfterSeconds t) (pushBackoff (pj_attempts job + 1))"
  obtain e where "settleAttempt run job (Some (dedupe (tl_retryIds t))) e ?delay w = (r, w')"
    using go False by (auto simp: concludeAttempt_def)
  from settleAttempt_ends [OF this]
  have l: "sameLocals w w'" and ends: "case r of Inr (Retried d) \<Rightarrow> d = ?delay \<and> retryWritten job (Some (dedupe (tl_retryIds t))) ?delay (nowOf run w) w' | _ \<Rightarrow> True"
    by auto
  have "retryOk run job d w'" if "r = Inr (Retried d)" for d
    unfolding retryOk_def
  proof (intro conjI exI)
    have d: "d = ?delay" and wr: "retryWritten job (Some (dedupe (tl_retryIds t))) ?delay (nowOf run w) w'" using ends that by auto
    show "pushBackoff (pj_attempts job + 1) \<le> d" "d \<le> 12 * 60 * 60"
      using ok pushBackoff_bound [of "pj_attempts job + 1"] by (auto simp: d tallyOk_def)
    show "retryWritten job (Some (dedupe (tl_retryIds t))) d (nowOf run w) w'" using wr by (simp add: d)
    show "case Some (dedupe (tl_retryIds t)) of None \<Rightarrow> accepted run w' = {} |
        Some ids \<Rightarrow> set ids \<inter> accepted run w' = {} \<and> retryWanted w' \<subseteq> set ids"
      using ok by (auto simp: tallyOk_def locals_sets [OF l])
  qed
  then show ?thesis using l by (auto split: sum.splits queue_answer.splits)
qed

lemma recoverAttempt_ok:
  assumes ok: "partOk run U w" and chosen: "pw_dispatch w = None \<longrightarrow> accepted run w = {}" "\<And>ids. pw_dispatch w = Some ids \<Longrightarrow> U \<subseteq> set ids"
    and go: "recoverAttempt run job e w = (r, w')"
  shows "sameLocals w w' \<and> (case r of Inr (Retried d) \<Rightarrow> retryOk run job d w' | _ \<Rightarrow> True)"
proof -
  from settleAttempt_ends [OF go [unfolded recoverAttempt_def]]
  have l: "sameLocals w w'" and ends: "case r of Inr (Retried d) \<Rightarrow> d = pushBackoff (pj_attempts job + 1) \<and>
      retryWritten job (remainingIds w) (pushBackoff (pj_attempts job + 1)) (nowOf run w) w' | _ \<Rightarrow> True" by auto
  have "case remainingIds w of None \<Rightarrow> accepted run w = {} | Some ids \<Rightarrow> set ids \<inter> accepted run w = {} \<and> retryWanted w \<subseteq> set ids"
  proof (cases "pw_dispatch w")
    case None
    then show ?thesis using chosen(1) by (simp add: remainingIds_def)
  next
    case (Some ids)
    then show ?thesis using ok chosen(2) [OF Some] by (auto simp: remainingIds_def partOk_def)
  qed
  then have "retryOk run job d w'" if "r = Inr (Retried d)" for d
    using ends that pushBackoff_bound unfolding retryOk_def locals_sets [OF l] by auto
  then show ?thesis using l by (auto split: sum.splits queue_answer.splits)
qed

text \<open>The ids of pushers are the keys of their table, whatever the others do.\<close>

definition pushersKeyed :: "push_world \<Rightarrow> bool" where
  "pushersKeyed w = distinct (map pu_id (pw_pushers w))"

definition othersKeyed :: "push_run \<Rightarrow> bool" where
  "othersKeyed run = (\<forall>n jobs pushers sessions. distinct (map pu_id pushers) \<longrightarrow>
     distinct (map pu_id (fst (snd (rn_others run n (jobs, pushers, sessions))))))"

lemma interfere_keyed: "othersKeyed run \<Longrightarrow> pushersKeyed w \<Longrightarrow> pushersKeyed (interfere run w)"
  unfolding othersKeyed_def pushersKeyed_def interfere_def
  by (cases "rn_others run (pw_step w) (pw_jobs w, pw_pushers w, pw_sessions w)") (metis fst_conv snd_conv push_world.select_convs(2) push_world.surjective push_world.update_convs(1) push_world.update_convs(2) push_world.update_convs(3) push_world.update_convs(4) prod.case)

lemma query_result:
  assumes "query run f w = (r, w')"
  shows "w' = interfere run w \<and> (case r of Inl e \<Rightarrow> True | Inr a \<Rightarrow> a = f w')"
  using assms by (auto simp: query_def statement_def Let_def split: option.splits)

lemma jobStatement_pushers: "jobStatement run f w = (r, w') \<Longrightarrow> pw_pushers w' = pw_pushers (interfere run w)"
  by (auto simp: jobStatement_def statement_def Let_def split: option.splits prod.splits)

lemma keyed_step:
  assumes "othersKeyed run" "pushersKeyed w"
  shows "query run f w = (r, w') \<Longrightarrow> pushersKeyed w'" "jobStatement run g w = (r', w') \<Longrightarrow> pushersKeyed w'"
  using interfere_keyed [OF assms] by (auto simp: pushersKeyed_def dest: query_result jobStatement_pushers)

lemma dispatchTo_ok:
  assumes ids: "distinct (map pu_id pushers)" "set (map pu_id pushers) \<subseteq> set ids"
    and start: "pw_dispatch w = Some ids" "pw_settled w = []" "pw_log w = []"
    and go: "dispatchTo run job prd event ids pushers w = (r, w')"
  shows "pw_dispatch w' = Some ids \<and>
    (case r of Inl e \<Rightarrow> partOk run (set ids) w' | Inr Acked \<Rightarrow> True | Inr (Retried d) \<Rightarrow> retryOk run job d w')"
proof -
  let ?web = "filter (\<lambda>r. pu_kind r = ''webpush'') pushers" and ?gw = "filter (\<lambda>r. pu_kind r \<noteq> ''webpush'') pushers"
  let ?t0 = "\<lparr>tl_retryIds = [], tl_retryAfterSeconds = 0, tl_errors = []\<rparr> :: tally"
  let ?later = "set (map pu_id ?gw)"
  have dist: "distinct (map pu_id ?web)" "distinct (map pu_id ?gw)" using ids(1) by (auto simp: distinct_map inj_on_def)
  have apart: "set (map pu_id ?web) \<inter> ?later = {}" by (intro ids_apart [OF ids(1)]) auto
  have all: "set (map pu_id ?web) \<union> ?later = set (map pu_id pushers)" by auto
  have empty: "accepted run w0 = {} \<and> retryWanted w0 = {}" if "pw_log w0 = []" for w0
    using that by (simp add: accepted_def retryWanted_def)
  from go show ?thesis unfolding dispatchTo_def
  proof (cases rule: andThen_cases)
    case (threw e)
    note l = query_locals [OF threw(1)]
    have "partOk run (set ids) w" using empty [OF start(3)] by (simp add: partOk_def)
    then show ?thesis using threw(2) start(1) by (simp add: part_locals [OF l] locals_sets [OF l])
  next
    case (went unread w1)
    note l = query_locals [OF went(1)]
    let ?w2 = "w1\<lparr>pw_settled := pw_settled w1 @ filter (\<lambda>i. i \<notin> set (map pu_id pushers)) ids\<rparr>"
    have w2: "pw_dispatch ?w2 = Some ids" "set (pw_settled ?w2) = set ids - set (map pu_id pushers)" "pw_log ?w2 = []"
      using l start by (auto simp: sameLocals_def)
    have t0: "tallyOk run (set ids) (set (map pu_id ?web) \<union> ?later) ?w2 ?t0"
      unfolding all tallyOk_def w2(2) using empty [OF w2(3)] ids(2) by auto
    from went(2) have "andThen (webPart run job prd event unread ?web ?t0) (\<lambda>t1.
       case t1 of
         None \<Rightarrow> ret Acked
       | Some t1 \<Rightarrow>
           andThen (groupLoop run job (gatewayEvent event unread) (groupByGatewayAndFormat ?gw) t1) (\<lambda>t2.
             case t2 of None \<Rightarrow> ret Acked | Some t2 \<Rightarrow> concludeAttempt run job t2)) ?w2 = (r, w')"
      by (simp add: andThen_def effect_def)
    then show ?thesis
    proof (cases rule: andThen_cases)
      case (threw e)
      then show ?thesis using webPart_ok [OF dist(1) t0 apart threw(1)] w2(1) by simp
    next
      case (went t1 w3)
      note web = webPart_ok [OF dist(1) t0 apart went(1)]
      show ?thesis
      proof (cases t1)
        case None
        then show ?thesis using went(2) web w2(1) by (auto simp: ret_def)
      next
        case (Some t)
        then have t: "tallyOk run (set ids) (idsOf (\<lambda>g. map pu_id (dg_pushers g)) (groupByGatewayAndFormat ?gw) \<union> {}) w3 t"
          and d3: "pw_dispatch w3 = Some ids" using web w2(1) by (simp_all only: group_ids(1) Un_empty_right) auto
        from went(2) Some have "andThen (groupLoop run job (gatewayEvent event unread) (groupByGatewayAndFormat ?gw) t) (\<lambda>t2.
             case t2 of None \<Rightarrow> ret Acked | Some t2 \<Rightarrow> concludeAttempt run job t2) w3 = (r, w')" by simp
        moreover have groups: "pw_dispatch w4 = pw_dispatch w3 \<and>
            (case r4 of Inr (Some t') \<Rightarrow> tallyOk run (set ids) {} w4 t' | _ \<Rightarrow> partOk run (set ids) w4)"
          if "groupLoop run job (gatewayEvent event unread) (groupByGatewayAndFormat ?gw) t w3 = (r4, w4)" for r4 w4
        proof -
          have "deliveryAgrees run (set (map pu_id (dg_pushers g))) w0 r0 w0'"
            if "g \<in> set (groupByGatewayAndFormat ?gw)" "deliverGatewayGroup run (dg_gatewayUrl g) (dg_pushers g) (dg_format g) (gatewayEvent event unread) w0 = (r0, w0')"
            for g w0 r0 w0'
            using group_ids(2) [OF dist(2)] that(1) by (intro group_agrees [OF that(2)]) (auto simp: distinct_concat_iff)
          from leasedLoop_ok [OF this group_ids(2) [OF dist(2)] t _ that [unfolded groupLoop_def]]
          show ?thesis by (auto split: sum.splits option.splits)
        qed
        ultimately show ?thesis
        proof (cases rule: andThen_cases)
          case (threw e)
          then show ?thesis using groups [OF threw(1)] d3 by simp
        next
          case (went t2 w4)
          note g = groups [OF went(1)]
          show ?thesis
          proof (cases t2)
            case None
            then show ?thesis using went(2) g d3 by (auto simp: ret_def)
          next
            case (Some t')
            then have t': "tallyOk run (set ids) {} w4 t'" and d4: "pw_dispatch w4 = Some ids" using g d3 by auto
            have c: "concludeAttempt run job t' w4 = (r, w')" using went(2) Some by simp
            from concludeAttempt_ok [OF t' c] have l: "sameLocals w4 w'"
              and e: "case r of Inr (Retried d) \<Rightarrow> retryOk run job d w' | _ \<Rightarrow> True" by auto
            show ?thesis using e d4 tally_part [OF t']
              by (auto simp: part_locals [OF l] locals_sets [OF l] split: sum.splits queue_answer.splits)
          qed
        qed
      qed
    qed
  qed
qed

lemma choosePending_ends:
  assumes keyed: "othersKeyed run" "pushersKeyed w" and go: "choosePending run job claimedAt prd w = (r, w')"
  shows "sameLocals w w' \<and> pushersKeyed w'"
proof (cases "parsePendingIds (pj_pending job)")
  case (Some ids)
  then show ?thesis using go keyed by (auto simp: choosePending_def ret_def)
next
  case None
  from go [unfolded choosePending_def None option.case] show ?thesis
  proof (cases rule: andThen_cases)
    case (threw e)
    then show ?thesis using keyed_step(1) [OF keyed] query_locals by blast
  next
    case (went ids w1)
    note k1 = keyed_step(1) [OF keyed went(1)] and l1 = query_locals [OF went(1)]
    from went(2) show ?thesis
    proof (cases rule: andThen_cases)
      case (threw e)
      then show ?thesis using keyed_step(2) [OF keyed(1) k1] jobStatement_locals sameLocals_trans [OF l1] by blast
    next
      case (went held w2)
      then show ?thesis using keyed_step(2) [OF keyed(1) k1 went(1)] sameLocals_trans [OF l1 jobStatement_locals [OF went(1)]]
        by (auto simp: ret_def)
    qed
  qed
qed

definition attemptEnds :: "push_run \<Rightarrow> push_job \<Rightarrow> string + queue_answer \<Rightarrow> push_world \<Rightarrow> bool" where
  "attemptEnds run job r w =
     (case r of
        Inl e \<Rightarrow> (case pw_dispatch w of None \<Rightarrow> pw_log w = [] \<and> pw_settled w = [] | Some ids \<Rightarrow> partOk run (set ids) w)
      | Inr Acked \<Rightarrow> True
      | Inr (Retried d) \<Rightarrow> retryOk run job d w)"

lemma attemptEnds_silent:
  assumes "sameLocals w w'" "pw_log w = []" "pw_settled w = []" "r = Inr Acked \<or> (\<exists>e. r = Inl e)"
  shows "attemptEnds run job r w'"
  using assms by (auto simp: attemptEnds_def sameLocals_def partOk_def accepted_def retryWanted_def split: option.splits)

lemma attemptEnds_finish:
  assumes "finishAttempt run job e w = (r, w')" "pw_log w = []" "pw_settled w = []"
  shows "attemptEnds run job r w'"
proof -
  have "r = Inr Acked \<or> (\<exists>e. r = Inl e)" using finishAttempt_ends [OF assms(1)] by (metis queue_answer.exhaust sum.exhaust)
  then show ?thesis using finishAttempt_ends [OF assms(1)] assms(2,3) attemptEnds_silent by blast
qed

lemma attemptPush_ends:
  assumes keyed: "othersKeyed run" "pushersKeyed w"
    and start: "pw_dispatch w = None" "pw_settled w = []" "pw_log w = []"
    and go: "attemptPush run job claimedAt w = (r, w')"
  shows "attemptEnds run job r w'"
  using go unfolding attemptPush_def
proof (cases rule: andThen_cases)
  case (threw e)
  then show ?thesis using attemptEnds_silent [OF query_locals [OF threw(1)] start(3,2)] by blast
next
  case (went found w1)
  note l1 = query_locals [OF went(1)] and k1 = keyed_step(1) [OF keyed went(1)]
  have s1: "pw_dispatch w1 = None" "pw_settled w1 = []" "pw_log w1 = []" using l1 start by (simp_all add: sameLocals_def)
  show ?thesis
  proof (cases found)
    case None
    then show ?thesis using went(2) s1 attemptEnds_finish by simp
  next
    case (Some event)
    define prd where "prd = (case explicitProduct job of
        Some p \<Rightarrow> p | None \<Rightarrow> if pv_visibility event = Some ''direct'' then Yurume else Yurucommu)"
    from went(2) have "andThen (choosePending run job claimedAt prd) (\<lambda>pending.
         case pending of
           None \<Rightarrow> ret Acked
         | Some ids \<Rightarrow>
             andThen (effect (\<lambda>w. w\<lparr>pw_dispatch := Some ids\<rparr>)) (\<lambda>_.
               if ids = [] then finishAttempt run job None
               else
                 andThen
                   (query run (\<lambda>w. filter (\<lambda>r. pu_id r \<in> set ids \<and> pu_actor r = pj_actor job \<and> pu_product r = prd) (pw_pushers w)))
                   (\<lambda>pushers. if pushers = [] then finishAttempt run job None
                              else dispatchTo run job prd event ids pushers))) w1 = (r, w')"
      by (simp only: Some option.case Let_def prd_def [symmetric])
    then show ?thesis
    proof (cases rule: andThen_cases)
      case (threw e)
      then show ?thesis using attemptEnds_silent [OF conjunct1 [OF choosePending_ends [OF keyed(1) k1 threw(1)]] s1(3,2)] by blast
    next
      case (went pending w2)
      have l2: "sameLocals w1 w2" and k2: "pushersKeyed w2" using choosePending_ends [OF keyed(1) k1 went(1)] by auto
      have s2: "pw_settled w2 = []" "pw_log w2 = []" using l2 s1 by (simp_all add: sameLocals_def)
      show ?thesis
      proof (cases pending)
        case None
        then show ?thesis using went(2) attemptEnds_silent [OF l2 s1(3,2)] by (auto simp: ret_def)
      next
        case (Some ids)
        let ?w3 = "w2\<lparr>pw_dispatch := Some ids\<rparr>"
        have s3: "pw_dispatch ?w3 = Some ids" "pw_settled ?w3 = []" "pw_log ?w3 = []" "pushersKeyed ?w3"
          using s2 k2 by (simp_all add: pushersKeyed_def)
        have rest: "(if ids = [] then finishAttempt run job None
               else andThen
                   (query run (\<lambda>w. filter (\<lambda>r. pu_id r \<in> set ids \<and> pu_actor r = pj_actor job \<and> pu_product r = prd) (pw_pushers w)))
                   (\<lambda>pushers. if pushers = [] then finishAttempt run job None
                              else dispatchTo run job prd event ids pushers)) ?w3 = (r, w')"
          using went(2) by (simp add: Some andThen_def [of "effect _"] effect_def)
        show ?thesis
        proof (cases "ids = []")
          case True
          then show ?thesis using rest attemptEnds_finish [OF _ s3(3,2)] by simp
        next
          case False
          then have "andThen
                   (query run (\<lambda>w. filter (\<lambda>r. pu_id r \<in> set ids \<and> pu_actor r = pj_actor job \<and> pu_product r = prd) (pw_pushers w)))
                   (\<lambda>pushers. if pushers = [] then finishAttempt run job None
                              else dispatchTo run job prd event ids pushers) ?w3 = (r, w')" using rest by simp
          then show ?thesis
          proof (cases rule: andThen_cases)
            case (threw e)
            then show ?thesis using attemptEnds_silent [OF query_locals [OF threw(1)] s3(3,2)] by blast
          next
            case (went pushers w4)
            note l4 = query_locals [OF went(1)] and k4 = keyed_step(1) [OF keyed(1) s3(4) went(1)]
            have s4: "pw_dispatch w4 = Some ids" "pw_settled w4 = []" "pw_log w4 = []" using l4 s3 by (simp_all add: sameLocals_def)
            have p: "pushers = filter (\<lambda>r. pu_id r \<in> set ids \<and> pu_actor r = pj_actor job \<and> pu_product r = prd) (pw_pushers w4)"
              using query_result [OF went(1)] by simp
            show ?thesis
            proof (cases "pushers = []")
              case True
              then show ?thesis using went(2) attemptEnds_finish [OF _ s4(3,2)] by simp
            next
              case False
              have "distinct (map pu_id pushers)" "set (map pu_id pushers) \<subseteq> set ids"
                using k4 by (auto simp: p pushersKeyed_def distinct_map inj_on_def)
              moreover have "dispatchTo run job prd event ids pushers w4 = (r, w')" using went(2) False by simp
              ultimately have "pw_dispatch w' = Some ids \<and>
                  (case r of Inl e \<Rightarrow> partOk run (set ids) w' | Inr Acked \<Rightarrow> True | Inr (Retried d) \<Rightarrow> retryOk run job d w')"
                by (intro dispatchTo_ok [OF _ _ s4])
              then show ?thesis by (auto simp: attemptEnds_def split: sum.splits queue_answer.splits)
            qed
          qed
        qed
      qed
    qed
  qed
qed

lemma claimAndAttempt_ends:
  assumes keyed: "othersKeyed run" "pushersKeyed w" and start: "pw_log w = []"
    and go: "claimAndAttempt run job w = (r, w')"
  shows "case r of Inr (Retried d) \<Rightarrow> (d = 30 \<and> pw_log w' = []) \<or> retryOk run job d w' | _ \<Rightarrow> True"
  using go unfolding claimAndAttempt_def
proof (cases rule: andThen_cases)
  case (threw e)
  then show ?thesis by simp
next
  case (went claimed w1)
  note l1 = jobStatement_locals [OF went(1)] and k1 = keyed_step(2) [OF keyed went(1)]
  show ?thesis
  proof (cases claimed)
    case False
    then show ?thesis using went(2) l1 start by (auto simp: ret_def sameLocals_def)
  next
    case True
    let ?w2 = "w1\<lparr>pw_settled := [], pw_dispatch := None\<rparr>"
    have s2: "pw_dispatch ?w2 = None" "pw_settled ?w2 = []" "pw_log ?w2 = []" "pushersKeyed ?w2"
      using l1 k1 start by (simp_all add: sameLocals_def pushersKeyed_def)
    have "catching (attemptPush run job (nowOf run w)) (recoverAttempt run job) ?w2 = (r, w')"
      using went(2) True by (simp add: andThen_def effect_def)
    then show ?thesis
    proof (cases rule: catching_cases)
      case (threw e w3)
      from attemptPush_ends [OF keyed(1) s2(4,1,2,3) threw(1)]
      have ends: "case pw_dispatch w3 of None \<Rightarrow> pw_log w3 = [] \<and> pw_settled w3 = [] | Some ids \<Rightarrow> partOk run (set ids) w3"
        by (simp add: attemptEnds_def)
      define U where "U = (case pw_dispatch w3 of None \<Rightarrow> {} | Some ids \<Rightarrow> set ids)"
      have "partOk run U w3" "pw_dispatch w3 = None \<longrightarrow> accepted run w3 = {}" "\<And>ids. pw_dispatch w3 = Some ids \<Longrightarrow> U \<subseteq> set ids"
        using ends by (auto simp: U_def partOk_def accepted_def retryWanted_def split: option.splits)
      from recoverAttempt_ok [OF this threw(2)] show ?thesis by (auto split: sum.splits queue_answer.splits)
    next
      case (went a)
      from attemptPush_ends [OF keyed(1) s2(4,1,2,3) went(1)] show ?thesis
        using went(2) by (auto simp: attemptEnds_def split: queue_answer.splits)
    qed
  qed
qed


subsection \<open>A rejected device that cannot be deleted\<close>

text \<open>
  The answer of a gateway decides for its whole group at once. When it rejects a device and the deletion of that
  device's row fails, the exception makes the job send again to every device of the group, also to
  those the same answer accepted.
\<close>

lemma gateway_failed_removal_resends:
  assumes "200 \<le> gs_status response" "gs_status response < 300"
    and "readResponseText (gs_chunks response) MAX_GATEWAY_RESPONSE_BYTES = Inr bs" "rn_readJson run bs = Inr v" "isObjectLike v"
    and "stringArray (field v ''rejected'') = Some (k # ks)" "stringArray (field v ''retryable'') = Some retryable"
    and "stringArray (field v ''failed'') = Some failed"
    and "byPushkey pushers k = Some row" "rn_fails run (pw_step w) = Some e"
  shows "\<exists>t' w'. andThen (catching (gatewayAnswer run pushers response) (\<lambda>e. ret (thrownResult (map pu_id pushers) e)))
        (\<lambda>outcome. recordOutcome (map pu_id pushers) outcome t) w = (Inr t', w') \<and>
      tl_retryIds t' = tl_retryIds t @ map pu_id pushers \<and> pw_settled w' = pw_settled w"
proof -
  have "gatewayAnswer run pushers response w = (Inl e, interfere run w)"
    using assms by (simp add: gatewayAnswer_def Let_def removeRow_def statement_def andThen_def)
  then show ?thesis using interfere_locals [of w run]
    by (auto simp: andThen_def catching_def ret_def thrownResult_def recordOutcome_def sameLocals_def)
qed

subsection \<open>A run through a gateway\<close>

definition gatewayPusher :: "string \<Rightarrow> string \<Rightarrow> pusher" where
  "gatewayPusher i k =
     \<lparr>pu_id = i, pu_actor = ''v'', pu_product = Yurucommu, pu_scope = None, pu_kind = ''http'', pu_appId = ''app'', pu_pushkey = k,
      pu_pushkeyHash = k, pu_appDisplayName = None, pu_deviceDisplayName = None, pu_profileTag = None, pu_lang = None,
      pu_data = Some (JObj []), pu_gatewayUrl = ''https://gw.example/'', pu_createdAt = 1, pu_updatedAt = 1, pu_lastSeenAt = 1\<rparr>"

definition exampleGatewayAnswer :: gateway_response where
  "exampleGatewayAnswer = \<lparr>gs_status = 200, gs_retryAfter = None, gs_chunks = None\<rparr>"

definition exampleRun :: push_run where
  "exampleRun =
     \<lparr>rn_js = exampleJs, rn_env = examplePushEnv, rn_send = exampleSendEnv, rn_hkdf = (\<lambda>_ _. []), rn_hmac = (\<lambda>_ _. []), rn_db = exampleNotif,
      rn_actors = [], rn_actorCache = [], rn_resolver = None, rn_token = ''t'', rn_salt = (\<lambda>n. []), rn_sender = (\<lambda>n. exampleSender),
      rn_push = (\<lambda>n q. PushTransportError []), rn_fetch = (\<lambda>n q. Inr exampleGatewayAnswer),
      rn_readJson = (\<lambda>bs. Inr (JObj [(''retryable'', JArr [JStr ''k2''])])),
      rn_clock = (\<lambda>n. 1000 + int n), rn_others = (\<lambda>n s. s), rn_fails = (\<lambda>n. None)\<rparr>"

definition exampleJob :: push_job where
  "exampleJob = (newPushJob ''j'' ''v'' ''l2'' None 5)\<lparr>pj_status := PjQueued, pj_pending := Some (idsJson [''p1'', ''p2''])\<rparr>"

definition exampleWorld :: push_world where
  "exampleWorld =
     \<lparr>pw_jobs = [exampleJob], pw_pushers = [gatewayPusher ''p1'' ''k1'', gatewayPusher ''p2'' ''k2''], pw_sessions = [], pw_step = 0,
      pw_jwts = [], pw_settled = [], pw_dispatch = None, pw_log = []\<rparr>"

lemma example_statement:
  "statement exampleRun f w = (case f (w\<lparr>pw_step := Suc (pw_step w)\<rparr>) of (a, w') \<Rightarrow> (Inr a, w'))"
  by (cases w) (simp add: statement_def interfere_def exampleRun_def)

lemma example_fields:
  "rn_js exampleRun = exampleJs" "rn_env exampleRun = examplePushEnv" "rn_db exampleRun = exampleNotif" "rn_token exampleRun = ''t''"
  "rn_fetch exampleRun n q = Inr exampleGatewayAnswer" "rn_readJson exampleRun bs = Inr (JObj [(''retryable'', JArr [JStr ''k2''])])"
  "nowOf exampleRun w = 1000 + int (pw_step w)"
  by (simp_all add: exampleRun_def nowOf_def)

lemma example_event: "loadPushEvent exampleNotif ''v'' ''l2'' None = Some (likeOf ''l2'', Some examplePost)"
  by code_simp

lemma example_allowed: "isNotificationGatewayAllowed exampleJs examplePushEnv ''https://gw.example/''"
  by (simp add: isNotificationGatewayAllowed_def example_url) (simp add: isLoopbackGatewayUrl_def exampleJs_def examplePushEnv_def
        toLowerCase_def lowerChar_def trim_def isSpace_def)

lemma example_group:
  "deliverGatewayGroup exampleRun ''https://gw.example/'' [gatewayPusher ''p1'' ''k1'', gatewayPusher ''p2'' ''k2''] ''event_id_only'' event w =
     (Inr \<lparr>gr_retryIds = [''p2''], gr_retryAfterSeconds = 0, gr_error = None\<rparr>,
      w\<lparr>pw_step := Suc (pw_step w),
        pw_log := pw_log w @ [PushedGateway [gatewayPusher ''p1'' ''k1'', gatewayPusher ''p2'' ''k2'']
          \<lparr>gq_url = ''https://gw.example/'', gq_authorization = None,
           gq_payload = gatewayPayload (1000 + int (pw_step w)) event ''event_id_only'' [gatewayPusher ''p1'' ''k1'', gatewayPusher ''p2'' ''k2'']\<rparr>
          (Inr exampleGatewayAnswer)]\<rparr>)"
proof -
  have live: "livePushers exampleRun [gatewayPusher ''p1'' ''k1'', gatewayPusher ''p2'' ''k2''] w0
      = (Inr [gatewayPusher ''p1'' ''k1'', gatewayPusher ''p2'' ''k2''], w0)" for w0
    by (simp add: keepRow_def gatewayPusher_def parseStoredData_def act_defs)
  have request: "gatewayRequest exampleJs examplePushEnv ''https://gw.example/'' payload = Inr \<lparr>gq_url = ''https://gw.example/'', gq_authorization = None, gq_payload = payload\<rparr>" for payload
    by (simp add: gatewayRequest_def examplePushEnv_def truthy_def)
  have keys: "pu_pushkey (gatewayPusher i k) = k" "pu_id (gatewayPusher i k) = i" for i k by (simp_all add: gatewayPusher_def)
  show ?thesis
    by (simp add: deliverGatewayGroup_def example_fields example_allowed andThen_def live request postToGateway_def gatewayAnswer_def Let_def
        exampleGatewayAnswer_def readResponseText_def stringArray_def ret_def parseRetryAfter_def parsePushRetryAfter_def truthy_def keys del: livePushers.simps)
qed

lemma example_run:
  "\<exists>w'. processNotificationPushJob exampleRun ''j'' exampleWorld = (Inr (Retried 30), w') \<and> accepted exampleRun w' = {''p1''}"
proof -
  have groups: "groupByGatewayAndFormat [gatewayPusher ''p1'' ''k1'', gatewayPusher ''p2'' ''k2''] =
      [\<lparr>dg_gatewayUrl = ''https://gw.example/'', dg_format = ''event_id_only'', dg_pushers = [gatewayPusher ''p1'' ''k1'', gatewayPusher ''p2'' ''k2'']\<rparr>]"
    by (simp add: groupByGatewayAndFormat_def addToGroup_def Let_def gatewayPusher_def notificationPushFormat_def parseStoredData_def)
  have p: "pu_id (gatewayPusher i k) = i" "pu_pushkey (gatewayPusher i k) = k" "pu_actor (gatewayPusher i k) = ''v''" "pu_product (gatewayPusher i k) = Yurucommu"
    "pu_kind (gatewayPusher i k) = ''http''" for i k by (simp_all add: gatewayPusher_def)
  have acc: "acceptedIds exampleRun (PushedGateway [gatewayPusher ''p1'' ''k1'', gatewayPusher ''p2'' ''k2''] q (Inr exampleGatewayAnswer)) = [''p1'']" for q
    by (simp add: exampleGatewayAnswer_def readResponseText_def example_fields stringArray_def p)
  have event: "pv_visibility (pushEvent (likeOf ''l2'', Some examplePost)) \<noteq> Some ''direct''" by code_simp
  have backoff: "pushBackoff 1 = 30" by (simp add: pushBackoff_def)
  show ?thesis
    by (simp add: processNotificationPushJob_def query_def jobStatement_def example_statement example_fields andThen_def exampleWorld_def
        exampleJob_def newPushJob_def claimAndAttempt_def claimPush_def affectedRows_def updateWhere_def effect_def catching_def attemptPush_def
        example_event explicitProduct_def event choosePending_def ret_def p dispatchTo_def webPart_def groups groupLoop_def underHeldLease_def
        refreshProcessingLease_def underLease_def processingLeaseWhere_def example_group recordOutcome_def concludeAttempt_def
        settleAttempt_def MAX_NOTIFICATION_PUSH_ATTEMPTS_def retryPush_def backoff Let_def truthy_def joinErrors_def
        accepted_def acc del: acceptedIds.simps)
qed


end
