(* ===== verification/Spec2Isabelle.thy ===== *)
theory Spec2Isabelle
  imports Circuit NetAddr ResolutionOutbox FanoutOutbox DeliveryJobs ActorIdentity Blocklist Planner ApValidators ActorCache DeliverEndpoint DeliveryFanout Notifications PushJobs WebPushKeys
    WebPushMessage WebPushSend Pushers PushChannels PushDelivery
begin

text \<open>
  A model of the core of yurucommu, an ActivityPub server in TypeScript: how an activity of a
  member reaches the servers of its recipients, how remote actors and addresses are admitted, and
  who may read what.

  \<^bold>\<open>How the parts interact.\<close> A change of a member is recorded as an intent of the fanout
  outbox in the same database as the change. The fanout worker snapshots the recipients, plans
  them by the cached endpoints of their actors (\<open>planner.ts\<close>) and writes endpoint jobs,
  or resolution intents for recipients whose endpoint is unknown. The resolution worker fetches
  the actor, checked by the address rules of \<open>ssrf.ts\<close> and the validators, and turns the intent
  into an endpoint job. The endpoint worker claims a job, asks the circuit breaker of its host and
  the blocklist, posts the activity and settles the job. Queue messages are only wake-ups: the
  rows are the truth, and the sweeps publish a message for every row that waits too long. The
  read side has one rule of visibility, used by the gate of a single object, by its recheck inside
  the database and by the pages of lists; the notifications are a list over the inbox under it. Every
  unread notification is also a job of a push ledger, which a worker delivers to the registered
  devices of the member, through a gateway or as an encrypted Web Push message.

  \<^bold>\<open>Theories and code\<close> (paths under \<open>src/backend/\<close>).
  \<^item> \<open>Prelude\<close>: times, rounding, JavaScript values, string functions, effects.
    \<open>Tables\<close>: tables as lists of rows, the statements of the query builder.
    \<open>Ledger\<close>: two interfaces as locales, \<open>retained_ledger\<close> (a purge in batches) and
    \<open>fenced_rows\<close> (rows owned by a processing token), with what follows from them;
    every outbox interprets them on its own operations.
  \<^item> \<open>Messages\<close>: \<open>lib/delivery/types.ts\<close>, \<open>transformers.ts\<close>: wire messages, validators, backoff.
  \<^item> \<open>Circuit\<close>: \<open>lib/delivery/circuit.ts\<close>, and the breaker it refines.
  \<^item> \<open>NetAddr\<close>: \<open>lib/ssrf.ts\<close>.
  \<^item> \<open>ResolutionOutbox\<close>, \<open>FanoutOutbox\<close>: \<open>lib/delivery/resolution-outbox.ts\<close>, \<open>fanout-outbox.ts\<close>.
  \<^item> \<open>DeliveryJobs\<close>: the ledger of \<open>lib/delivery/queue.ts\<close>, with the claim and settlement
    statements of \<open>queue-delivery.ts\<close> and the reconciliation of \<open>queue-batching.ts\<close>.
  \<^item> \<open>Planner\<close>: \<open>lib/delivery/planner.ts\<close>.
  \<^item> \<open>DeliveryWorld\<close>, \<open>DeliverEndpoint\<close>, \<open>DeliveryFanout\<close>: the workers of
    \<open>queue-delivery.ts\<close> and \<open>queue-batching.ts\<close> over one shared state.
  \<^item> \<open>ActorIdentity\<close>, \<open>Blocklist\<close>, \<open>ActorCache\<close>, \<open>ApValidators\<close>:
    \<open>lib/activitypub-actor-identity(-sql).ts\<close>, \<open>blocklist.ts\<close>, \<open>activitypub-actor-cache.ts\<close>,
    \<open>activitypub-validators.ts\<close>.
  \<^item> \<open>Social\<close>, \<open>PostVisibility\<close>, \<open>PersonalModeration\<close>: the shared tables,
    \<open>lib/community-visibility.ts\<close>, \<open>post-visibility.ts\<close>, \<open>personal-actor-moderation.ts\<close>, \<open>feed-exclude.ts\<close>.
  \<^item> \<open>Notifications\<close>: \<open>lib/notification-eligibility.ts\<close>, \<open>unread-counts.ts\<close>,
    \<open>routes/notifications.ts\<close>, and the choice of a push job's event.
  \<^item> \<open>PushJobs\<close>, \<open>Pushers\<close>, \<open>PushChannels\<close>, \<open>PushDelivery\<close>: \<open>lib/notification-push.ts\<close> (the ledger of jobs; the
    registered devices, with \<open>lib/notification-pusher-contract.ts\<close> and
    \<open>routes/notification-pushers.ts\<close>; the two channels; the worker).
  \<^item> \<open>WebPushKeys\<close>, \<open>WebPushMessage\<close>, \<open>WebPushSend\<close>: \<open>lib/web-push/\<close> (bytes, P-256 and VAPID
    keys; messages, answers and topics; encryption, tokens and requests).

  \<^bold>\<open>How the model represents the code.\<close> A table is the list of its rows; a statement of the
  query builder is a function on it with its number of affected rows, and a conditional update
  decides on the rows it finds, which is what makes concurrent workers safe. A handler acts on an
  explicit state and may end by throwing, and keeps what it did before. Where other workers act
  between two statements of a handler, the handler is split there and the theorems quantify over
  what the others did. The clock, random numbers, tokens, hashes, the URL parser, DNS, HTTP answers
  and signatures are arguments. Strings have the code units 0 to 255 (upper case of the ones above
  ASCII follows Latin-1), but the texts of push messages have all of UTF-16; numbers of JavaScript are integers where the code only adds, and
  rationals with the IEEE exceptions where a validator sees arbitrary JSON.

  \<^bold>\<open>What the lemmas show.\<close> Delivery: a claim settles at most once under any interleaving,
  every waiting row is found by a sweep, attempts are bounded, no post goes to a blocked,
  unsafe or not-due endpoint, an outcome is decided as the table of outcomes says, a snapshot
  secures every follower, the breaker is one independent state machine per host. Admission:
  private addresses never pass, validators read back what a conforming document says, one fetch of
  an actor at a time, spellings of one identity are one identity. Reading: the batched gates are
  the single one, a read receipt that still holds admits the same reader, a list shows bodies only
  through the gate, its cursor visits every row once, clean-ups and archive operations move
  exactly the rows they name. Push: a job settles at most once and none is stranded, stored devices
  are well typed and within their quota, a subscription changes hands only with its secret, a
  retry names only devices that have not accepted the message, whatever fails and whoever
  interferes; a Web Push fits its budget and goes only to the device of a session that is live at that
  moment, whose browser reads back the message.

  \<^bold>\<open>Bounds and termination.\<close> Every function is total. Loops over pages and chunks recurse on the
  rest of the list; the DNS walk carries its depth of 10, as the code does. The only
  fuel is the number of requests of a client that follows a cursor, and the theorem gives a bound
  that is enough.

  \<^bold>\<open>Not modelled.\<close> Routing, sessions and rate limits, the HTTP surface of ActivityPub (inbox
  and outbox handlers), direct messages, stories, communities' administration, media, calls,
  the real-time hub, the runtime adapters, the primitives of cryptography, the API client
  and the scripts; logging and metrics everywhere.
\<close>

end
